(* ===== verification/Prelude.thy ===== *)
theory Prelude
  imports Main "HOL-Library.Word" "HOL-Library.AList"
begin

unbundle bit_operations_syntax

text \<open>
  Shared vocabulary of the development: bytes and byte arrays, the parts of the JavaScript
  runtime the source uses (sparse array writes, slices, hexadecimal text, insertion-ordered
  \<open>Map\<close> objects as association lists), and the lemmas and theorem collections
  about them that the component theories rest on.
\<close>

named_theorems jsmap \<open>lookup, key order and distinctness of insertion-ordered maps\<close>
named_theorems bytes_simps \<open>lengths and contents of byte arrays\<close>

section \<open>Bytes\<close>

type_synonym byte = "8 word"
type_synonym bytes = "byte list"

lemma unat_byte_less: "unat (b :: byte) < 256"
  using unsigned_less [where ?'a = nat and w = b] by simp

text \<open>\<open>Uint8Array.slice(a, b)\<close> for \<open>0 \<le> a \<le> b\<close>: indices past the end are clamped.\<close>

definition js_slice :: "nat \<Rightarrow> nat \<Rightarrow> 'a list \<Rightarrow> 'a list" where
  "js_slice a b xs = drop a (take b xs)"

lemma length_js_slice [bytes_simps]: "length (js_slice a b xs) = min b (length xs) - a"
  by (simp add: js_slice_def)

lemma js_slice_append_left [bytes_simps]:
  "length xs = n \<Longrightarrow> js_slice 0 n (xs @ ys) = xs"
  by (simp add: js_slice_def)

lemma js_slice_append_mid [bytes_simps]:
  "length xs = n \<Longrightarrow> length ys = k \<Longrightarrow> js_slice n (n + k) (xs @ ys @ zs) = ys"
  by (simp add: js_slice_def)

text \<open>
  Writing \<open>arr[i] = v\<close> on a JavaScript array: in range it replaces, out of range the array
  grows and the positions in between are holes.
\<close>

definition js_put :: "'a option list \<Rightarrow> nat \<Rightarrow> 'a \<Rightarrow> 'a option list" where
  "js_put xs i v =
     (if i < length xs then xs[i := Some v]
      else xs @ replicate (i - length xs) None @ [Some v])"

definition js_at :: "'a option list \<Rightarrow> nat \<Rightarrow> 'a option" where
  "js_at xs i = (if i < length xs then xs ! i else None)"

lemma length_js_put: "length (js_put xs i v) = max (length xs) (Suc i)"
  by (auto simp: js_put_def)

lemma js_at_put: "js_at (js_put xs i v) j = (if i = j then Some v else js_at xs j)"
  by (auto simp: js_at_def js_put_def nth_append nth_list_update nth_Cons split: nat.splits)

text \<open>The values of an array with no hole; \<open>None\<close> as soon as there is one.\<close>

fun no_holes :: "'a option list \<Rightarrow> 'a list option" where
  "no_holes [] = Some []"
| "no_holes (None # xs) = None"
| "no_holes (Some x # xs) = map_option ((#) x) (no_holes xs)"

lemma no_holes_map_Some [simp]: "no_holes (map Some xs) = Some xs"
  by (induction xs) auto

lemma no_holes_SomeD: "no_holes xs = Some ys \<Longrightarrow> xs = map Some ys"
  by (induction xs arbitrary: ys rule: no_holes.induct) auto

section \<open>Hexadecimal text\<close>

definition hex_digit :: "nat \<Rightarrow> char" where
  "hex_digit n = (if n < 10 then char_of (48 + n) else char_of (87 + n))"

text \<open>\<open>b.toString(16).padStart(2, '0')\<close> of one byte, and the join over an array.\<close>

definition hex_byte :: "byte \<Rightarrow> string" where
  "hex_byte b = [hex_digit (unat b div 16), hex_digit (unat b mod 16)]"

definition to_hex :: "bytes \<Rightarrow> string" where
  "to_hex bs = concat (map hex_byte bs)"

lemma hex_digit_inj:
  assumes "hex_digit m = hex_digit n" "m < 16" "n < 16"
  shows "m = n"
proof -
  have dec: "of_char (hex_digit k) = (if k < 10 then 48 + k else 87 + k)" if "k < 16" for k
    using that by (simp add: hex_digit_def)
  have "(of_char (hex_digit m) :: nat) = of_char (hex_digit n)"
    by (simp only: assms(1))
  with dec [OF assms(2)] dec [OF assms(3)] assms(2,3) show ?thesis by (auto split: if_splits)
qed

lemma hex_byte_inj: "hex_byte a = hex_byte b \<Longrightarrow> a = b"
proof -
  assume eq: "hex_byte a = hex_byte b"
  have lt: "unat x < 256" for x :: byte by (rule unat_byte_less)
  have "unat a div 16 < 16" "unat b div 16 < 16" using lt [of a] lt [of b] by auto
  with eq have "unat a div 16 = unat b div 16" "unat a mod 16 = unat b mod 16"
    by (auto simp: hex_byte_def dest: hex_digit_inj)
  then have "unat a = unat b" by (metis div_mult_mod_eq)
  then show "a = b" by (simp add: word_unat_eq_iff)
qed

lemma length_to_hex [bytes_simps]: "length (to_hex bs) = 2 * length bs"
  by (induction bs) (auto simp: to_hex_def hex_byte_def)

lemma to_hex_inj: "to_hex as = to_hex bs \<Longrightarrow> as = bs"
proof (induction as arbitrary: bs)
  case Nil
  then show ?case by (cases bs) (auto simp: to_hex_def hex_byte_def)
next
  case (Cons a as)
  then obtain b bs' where bs: "bs = b # bs'"
    by (cases bs) (auto simp: to_hex_def hex_byte_def)
  with Cons.prems have "hex_byte a = hex_byte b" "to_hex as = to_hex bs'"
    by (auto simp: to_hex_def hex_byte_def)
  with bs Cons.IH show ?case by (auto dest: hex_byte_inj)
qed

section \<open>Insertion-ordered maps\<close>

text \<open>
  A JavaScript \<open>Map\<close> keeps its keys in insertion order; \<open>set\<close> on a present key keeps its
  position, \<open>delete\<close> removes it. \<open>AList.update\<close> and \<open>AList.delete\<close> of the library do
  exactly that, so a \<open>Map\<close> is an association list with distinct keys.
\<close>

type_synonym ('k, 'v) jsmap = "('k \<times> 'v) list"

abbreviation jm_get :: "('k, 'v) jsmap \<Rightarrow> 'k \<Rightarrow> 'v option" where
  "jm_get m k \<equiv> map_of m k"

abbreviation jm_set :: "'k \<Rightarrow> 'v \<Rightarrow> ('k, 'v) jsmap \<Rightarrow> ('k, 'v) jsmap" where
  "jm_set \<equiv> AList.update"

abbreviation jm_delete :: "'k \<Rightarrow> ('k, 'v) jsmap \<Rightarrow> ('k, 'v) jsmap" where
  "jm_delete \<equiv> AList.delete"

definition jm_has :: "('k, 'v) jsmap \<Rightarrow> 'k \<Rightarrow> bool" where
  "jm_has m k = (map_of m k \<noteq> None)"

definition jm_keys :: "('k, 'v) jsmap \<Rightarrow> 'k list" where
  "jm_keys m = map fst m"

definition jm_wf :: "('k, 'v) jsmap \<Rightarrow> bool" where
  "jm_wf m = distinct (map fst m)"

lemma jm_wf_Nil [simp, jsmap]: "jm_wf []"
  by (simp add: jm_wf_def)

lemma jm_wf_set [simp, jsmap]: "jm_wf m \<Longrightarrow> jm_wf (jm_set k v m)"
  by (simp add: jm_wf_def distinct_update)

lemma jm_wf_delete [simp, jsmap]: "jm_wf m \<Longrightarrow> jm_wf (jm_delete k m)"
  by (simp add: jm_wf_def distinct_delete)

lemma jm_wf_filter [simp, jsmap]: "jm_wf m \<Longrightarrow> jm_wf (filter P m)"
  by (auto simp: jm_wf_def distinct_map_filter)

lemma jm_has_set [simp, jsmap]: "jm_has (jm_set k v m) k' = (k = k' \<or> jm_has m k')"
  by (auto simp: jm_has_def update_conv')

lemma jm_has_delete [simp, jsmap]: "jm_has (jm_delete k m) k' = (k \<noteq> k' \<and> jm_has m k')"
  by (auto simp: jm_has_def delete_conv')

lemma jm_get_set [jsmap]: "jm_get (jm_set k v m) k' = (if k = k' then Some v else jm_get m k')"
  by (auto simp: update_conv')

lemma jm_get_delete [jsmap]: "jm_get (jm_delete k m) k' = (if k = k' then None else jm_get m k')"
  by (auto simp: delete_conv')

lemma jm_has_iff_key: "jm_has m k \<longleftrightarrow> k \<in> fst ` set m"
  by (simp add: jm_has_def map_of_eq_None_iff)

lemma jm_has_Nil [simp]: "\<not> jm_has [] k"
  by (simp add: jm_has_def)

lemma length_jm_set: "length (jm_set k v m) = (if jm_has m k then length m else Suc (length m))"
  by (induction m) (auto simp: jm_has_def)

lemma length_jm_delete:
  "jm_wf m \<Longrightarrow> length (jm_delete k m) = (if jm_has m k then length m - 1 else length m)"
proof (induction m)
  case (Cons p m)
  have "k \<in> fst ` set m \<Longrightarrow> 0 < length m" by auto
  then show ?case using Cons by (auto simp: jm_wf_def jm_has_iff_key)
qed simp

lemma set_jm_set: "set (jm_set k v m) \<subseteq> insert (k, v) (set m)"
  by (induction m) auto

lemma jm_set_fresh: "\<not> jm_has m k \<Longrightarrow> jm_set k v m = m @ [(k, v)]"
  by (induction m) (auto simp: jm_has_def split: if_splits)

lemma jm_get_filter_wf:
  assumes "jm_wf m"
  shows "jm_get (filter P m) k =
     (case jm_get m k of None \<Rightarrow> None | Some v \<Rightarrow> if P (k, v) then Some v else None)"
  using assms
proof (induction m)
  case Nil
  then show ?case by simp
next
  case (Cons p m)
  have "fst p = k \<Longrightarrow> jm_get (filter P m) k = None"
    using Cons.prems by (auto simp: jm_wf_def map_of_eq_None_iff)
  then show ?case using Cons by (cases p) (auto simp: jm_wf_def split: option.splits)
qed

section \<open>Filters that admit each key once\<close>

text \<open>
  The contract of a duplicate filter: a marked key is never fresh again. \<open>admit_run\<close> offers
  a sequence of keys, marks those that are fresh and returns them.
\<close>

fun admit_run :: "('s \<Rightarrow> 'k \<Rightarrow> bool) \<Rightarrow> ('s \<Rightarrow> 'k \<Rightarrow> 's) \<Rightarrow> 's \<Rightarrow> 'k list \<Rightarrow> 's \<times> 'k list" where
  "admit_run fresh mark s [] = (s, [])"
| "admit_run fresh mark s (k # ks) =
     (if fresh s k then (let (s', out) = admit_run fresh mark (mark s k) ks in (s', k # out))
      else admit_run fresh mark s ks)"

locale once_filter =
  fixes inv :: "'s \<Rightarrow> bool" and ok :: "'k \<Rightarrow> bool"
    and fresh :: "'s \<Rightarrow> 'k \<Rightarrow> bool" and mark :: "'s \<Rightarrow> 'k \<Rightarrow> 's"
  assumes inv_mark: "inv s \<Longrightarrow> ok k \<Longrightarrow> inv (mark s k)"
    and marked_not_fresh: "inv s \<Longrightarrow> ok k \<Longrightarrow> \<not> fresh (mark s k) k"
    and stays_marked: "inv s \<Longrightarrow> ok k' \<Longrightarrow> \<not> fresh s k \<Longrightarrow> \<not> fresh (mark s k') k"
    and fresh_ok: "inv s \<Longrightarrow> fresh s k \<Longrightarrow> ok k"
begin

lemma run_inv: "inv s \<Longrightarrow> inv (fst (admit_run fresh mark s ks))"
  by (induction ks arbitrary: s) (auto simp: split_beta intro: inv_mark fresh_ok)

lemma run_not_fresh: "inv s \<Longrightarrow> \<not> fresh s k \<Longrightarrow> k \<notin> set (snd (admit_run fresh mark s ks))"
  by (induction ks arbitrary: s) (auto simp: split_beta dest: inv_mark fresh_ok stays_marked)

lemma run_distinct: "inv s \<Longrightarrow> distinct (snd (admit_run fresh mark s ks))"
proof (induction ks arbitrary: s)
  case (Cons k ks)
  show ?case
  proof (cases "fresh s k")
    case True
    then have m: "inv (mark s k)" "\<not> fresh (mark s k) k"
      using Cons.prems by (auto intro: inv_mark dest: fresh_ok marked_not_fresh)
    show ?thesis using True Cons.IH [OF m(1)] run_not_fresh [OF m] by (simp add: split_beta)
  qed (use Cons in auto)
qed simp

end

section \<open>Invariants of runs\<close>

text \<open>What every allowed event keeps is kept by every run of allowed events.\<close>

locale kept_by_events =
  fixes step :: "'e \<Rightarrow> 's \<Rightarrow> 's" and allowed_event :: "'e \<Rightarrow> bool" and I :: "'s \<Rightarrow> bool"
  assumes step_keeps: "I s \<Longrightarrow> allowed_event e \<Longrightarrow> I (step e s)"
begin

lemma run_keeps: "I s \<Longrightarrow> \<forall>e \<in> set es. allowed_event e \<Longrightarrow> I (fold step es s)"
  by (induction es arbitrary: s) (simp_all add: step_keeps)

end

end
