(* ===== verification/Frame.thy ===== *)
theory Frame
  imports Prelude
begin

unbundle bit_operations_syntax

text \<open>
  The wire framing of \<open>packages/mesh-core/src/frame.ts\<close>: \<open>chunkFrame\<close> splits a payload into
  chunks of at most one MTU with a four-byte header, and \<open>FrameReassembler\<close> collects them
  in any order. The reassembler is a record; every \<open>throw\<close> is a value of
  \<open>frame_error\<close>, returned beside the state the object is left in.
\<close>

section \<open>Constants\<close>

definition FRAME_MAGIC :: byte where "FRAME_MAGIC = 0xc8"
definition MAX_FRAME_SIZE :: nat where "MAX_FRAME_SIZE = 65536"
definition FRAME_HEADER_LEN :: nat where "FRAME_HEADER_LEN = 4"
definition GATT_MTU_DEFAULT :: int where "GATT_MTU_DEFAULT = 23"
definition GATT_MTU_TARGET :: int where "GATT_MTU_TARGET = 247"

text \<open>The frame type is a nibble on the wire; the reader casts it without a range check.\<close>

type_synonym frame_type = byte

definition HandshakeMsg1 :: frame_type where "HandshakeMsg1 = 0"
definition HandshakeMsg2 :: frame_type where "HandshakeMsg2 = 1"
definition HandshakeMsg3 :: frame_type where "HandshakeMsg3 = 2"
definition SessionData :: frame_type where "SessionData = 3"

lemmas frame_consts = FRAME_MAGIC_def MAX_FRAME_SIZE_def FRAME_HEADER_LEN_def
  GATT_MTU_DEFAULT_def GATT_MTU_TARGET_def
  HandshakeMsg1_def HandshakeMsg2_def HandshakeMsg3_def SessionData_def

datatype frame_error =
    PayloadExceedsMax | MtuTooSmall | TooManyChunks | EmptyPayload
  | ChunkTooShort | BadMagic | LenMismatch | TotalExceeds16
  | TotalMismatch | FrameTypeMismatch | HoleInSlots

record reassembled_frame =
  rf_type :: frame_type
  rf_payload :: bytes

section \<open>The sender\<close>

text \<open>\<open>Math.ceil(a / b)\<close> for a length and a positive divisor.\<close>

definition ceil_div :: "nat \<Rightarrow> nat \<Rightarrow> nat" where
  "ceil_div a b = (a + b - 1) div b"

definition mk_chunk :: "bytes \<Rightarrow> nat \<Rightarrow> nat \<Rightarrow> frame_type \<Rightarrow> nat \<Rightarrow> bytes" where
  "mk_chunk payload dpc tot ft seq =
     (let part = js_slice (seq * dpc) (min (seq * dpc + dpc) (length payload)) payload in
      [FRAME_MAGIC, push_bit 4 ft OR (of_nat seq AND 0x0f), of_nat tot, of_nat (length part)]
        @ part)"

definition chunkFrame :: "bytes \<Rightarrow> int \<Rightarrow> frame_type \<Rightarrow> frame_error + bytes list" where
  "chunkFrame payload mtu ft =
     (if length payload > MAX_FRAME_SIZE then Inl PayloadExceedsMax
      else if mtu - int FRAME_HEADER_LEN \<le> 0 then Inl MtuTooSmall
      else let dpc = nat (mtu - int FRAME_HEADER_LEN); tot = ceil_div (length payload) dpc in
        if tot > 16 then Inl TooManyChunks
        else if tot = 0 then Inl EmptyPayload
        else Inr (map (mk_chunk payload dpc tot ft) [0..<tot]))"

section \<open>The reassembler\<close>

record reassembler =
  slots :: "bytes option list"
  expectedTotal :: nat
  received :: nat
  currentFrameType :: "frame_type option"

definition new_reassembler :: reassembler where
  "new_reassembler = \<lparr>slots = [], expectedTotal = 0, received = 0, currentFrameType = None\<rparr>"

text \<open>
  The first chunk of a frame fixes the total and the type; the others must agree. An
  \<open>expectedTotal\<close> of zero means that no frame is in progress.
\<close>

definition accept_header ::
  "reassembler \<Rightarrow> frame_type \<Rightarrow> nat \<Rightarrow> frame_error + reassembler" where
  "accept_header r ft tot =
     (if expectedTotal r = 0
      then Inr (r\<lparr>expectedTotal := tot, slots := replicate tot None,
                  currentFrameType := Some ft\<rparr>)
      else if expectedTotal r \<noteq> tot then Inl TotalMismatch
      else if currentFrameType r \<noteq> Some ft then Inl FrameTypeMismatch
      else Inr r)"

text \<open>
  Store one slice. The completed payload is the concatenation of the slots, a hole among
  them is an error that leaves the object as it is. The type of the finished frame is the
  one on record, which \<open>accept_header\<close> has set or compared.
\<close>

definition store_slice ::
  "reassembler \<Rightarrow> nat \<Rightarrow> nat \<Rightarrow> bytes
     \<Rightarrow> reassembler \<times> (frame_error + reassembled_frame option)" where
  "store_slice r tot seq part =
     (if js_at (slots r) seq \<noteq> None then (r, Inr None)
      else
        let r' = r\<lparr>slots := js_put (slots r) seq part, received := Suc (received r)\<rparr> in
        if received r' < tot then (r', Inr None)
        else (case no_holes (slots r') of
            None \<Rightarrow> (r', Inl HoleInSlots)
          | Some ss \<Rightarrow> (r'\<lparr>expectedTotal := 0, received := 0, slots := [], currentFrameType := None\<rparr>,
                       Inr (Some \<lparr>rf_type = the (currentFrameType r'), rf_payload = concat ss\<rparr>))))"

definition pushWithType ::
  "reassembler \<Rightarrow> bytes \<Rightarrow> reassembler \<times> (frame_error + reassembled_frame option)" where
  "pushWithType r chunk =
     (if length chunk < FRAME_HEADER_LEN then (r, Inl ChunkTooShort)
      else if chunk ! 0 \<noteq> FRAME_MAGIC then (r, Inl BadMagic)
      else
        let ft = drop_bit 4 (chunk ! 1) AND 0x0f;
            seq = unat (chunk ! 1 AND 0x0f);
            tot = unat (chunk ! 2);
            len = unat (chunk ! 3) in
        if len \<noteq> length chunk - FRAME_HEADER_LEN then (r, Inl LenMismatch)
        else if tot > 16 then (r, Inl TotalExceeds16)
        else (case accept_header r ft tot of
            Inl e \<Rightarrow> (r, Inl e)
          | Inr r' \<Rightarrow> store_slice r' tot seq
                        (js_slice FRAME_HEADER_LEN (FRAME_HEADER_LEN + len) chunk)))"

text \<open>\<open>push\<close>, the older interface: the payload only.\<close>

definition push :: "reassembler \<Rightarrow> bytes \<Rightarrow> reassembler \<times> (frame_error + bytes option)" where
  "push r chunk = (case pushWithType r chunk of
      (r', Inl e) \<Rightarrow> (r', Inl e)
    | (r', Inr res) \<Rightarrow> (r', Inr (map_option rf_payload res)))"

text \<open>A run of the reassembler over a sequence of chunks, with the answer to each.\<close>

fun push_all :: "reassembler \<Rightarrow> bytes list
    \<Rightarrow> reassembler \<times> (frame_error + reassembled_frame option) list" where
  "push_all r [] = (r, [])"
| "push_all r (c # cs) =
     (let (r1, a) = pushWithType r c; (r2, as) = push_all r1 cs in (r2, a # as))"

section \<open>Header fields\<close>

lemma nibble_mask: "(0x0f :: byte) = mask 4"
  by (simp add: mask_eq_exp_minus_1)

lemma take_bit_4_small: "unat (b :: byte) < 16 \<Longrightarrow> take_bit 4 b = b"
  by (simp add: word_unat_eq_iff unsigned_take_bit_eq take_bit_nat_eq_self)

lemma header_type_nibble:
  "unat (ft :: byte) < 16 \<Longrightarrow> drop_bit 4 (push_bit 4 ft OR (s AND 0x0f)) AND 0x0f = ft"
  unfolding nibble_mask take_bit_eq_mask [symmetric]
proof -
  assume "unat ft < 16"
  then have ft: "take_bit 4 ft = ft" by (rule take_bit_4_small)
  have "take_bit 4 (drop_bit 4 (push_bit 4 ft OR take_bit 4 s)) = take_bit 4 ft"
    by (rule bit_word_eqI) (auto simp: bit_simps)
  with ft show "take_bit 4 (drop_bit 4 (push_bit 4 ft OR take_bit 4 s)) = ft" by simp
qed

lemma header_seq_nibble:
  "i < 16 \<Longrightarrow> unat ((push_bit 4 (ft :: byte) OR (of_nat i AND 0x0f)) AND 0x0f) = i"
  unfolding nibble_mask take_bit_eq_mask [symmetric]
proof -
  assume i: "i < 16"
  have "take_bit 4 (push_bit 4 ft OR take_bit 4 (of_nat i)) = take_bit 4 (of_nat i :: byte)"
    by (rule bit_word_eqI) (auto simp: bit_simps)
  moreover have "unat (take_bit 4 (of_nat i :: byte)) = i"
    using i by (simp add: unsigned_take_bit_eq unsigned_of_nat take_bit_nat_eq_self)
  ultimately show "unat (take_bit 4 (push_bit 4 ft OR take_bit 4 (of_nat i))) = i" by simp
qed

lemma unat_of_nat_byte: "n < 256 \<Longrightarrow> unat (of_nat n :: byte) = n"
  by (simp add: unsigned_of_nat take_bit_eq_mod)

section \<open>Slicing covers the payload\<close>

abbreviation chunk_part :: "bytes \<Rightarrow> nat \<Rightarrow> nat \<Rightarrow> bytes" where
  "chunk_part p d i \<equiv> js_slice (i * d) (min (i * d + d) (length p)) p"

lemma concat_chunk_parts: "concat (map (chunk_part p d) [0..<k]) = take (k * d) p"
proof (induction k)
  case (Suc k)
  have "take (k * d) p @ drop (k * d) (take (k * d + d) p) = take (k * d + d) p"
    by (metis append_take_drop_id min.absorb1 le_add1 take_take)
  then show ?case using Suc
    by (simp add: js_slice_def min_def add.commute split: if_splits)
qed simp

lemma ceil_div_covers: "0 < d \<Longrightarrow> n \<le> ceil_div n d * d"
proof -
  assume d: "0 < d"
  have "(n + d - 1) mod d < d" using d by simp
  moreover have "(n + d - 1) div d * d + (n + d - 1) mod d = n + d - 1" by simp
  ultimately show ?thesis unfolding ceil_div_def by linarith
qed

lemma ceil_div_tight: "0 < d \<Longrightarrow> i < ceil_div n d \<Longrightarrow> i * d < n"
proof -
  assume d: "0 < d" and i: "i < ceil_div n d"
  then have "Suc i \<le> (n + d - 1) div d" by (simp add: ceil_div_def)
  then have "Suc i * d \<le> (n + d - 1) div d * d" by (rule mult_le_mono1)
  also have "\<dots> \<le> n + d - 1" by simp
  finally show ?thesis using d by simp
qed

lemma concat_all_parts:
  "0 < d \<Longrightarrow> concat (map (chunk_part p d) [0..<ceil_div (length p) d]) = p"
  by (simp add: concat_chunk_parts ceil_div_covers)

lemma length_chunk_part: "length (chunk_part p d i) \<le> d"
  by (simp add: length_js_slice)

section \<open>One chunk through the reassembler\<close>

lemma push_mk_chunk:
  assumes "unat ft < 16" "i < tot" "tot \<le> 16" "d < 256"
  shows "pushWithType r (mk_chunk p d tot ft i) =
    (case accept_header r ft tot of Inl e \<Rightarrow> (r, Inl e)
     | Inr r' \<Rightarrow> store_slice r' tot i (chunk_part p d i))"
proof -
  let ?s = "chunk_part p d i"
  have "length ?s < 256" using length_chunk_part [of i d p] assms(4) by linarith
  then have len: "unat (of_nat (length ?s) :: byte) = length ?s" by (rule unat_of_nat_byte)
  have tot: "unat (of_nat tot :: byte) = tot" using assms(3) by (intro unat_of_nat_byte) simp
  have i16: "i < 16" using assms(2,3) by simp
  let ?c = "mk_chunk p d tot ft i"
  have c: "?c = [FRAME_MAGIC, push_bit 4 ft OR (of_nat i AND 0x0f), of_nat tot,
      of_nat (length ?s)] @ ?s"
    by (simp add: mk_chunk_def Let_def)
  have h0: "?c ! 0 = FRAME_MAGIC" and h1: "?c ! 1 = push_bit 4 ft OR (of_nat i AND 0x0f)"
    and h2: "?c ! 2 = of_nat tot" and h3: "?c ! 3 = of_nat (length ?s)"
    and l: "length ?c = 4 + length ?s" and part: "js_slice 4 (4 + length ?s) ?c = ?s"
    by (simp_all add: c js_slice_def)
  show ?thesis
    unfolding pushWithType_def Let_def h0 h1 h2 h3 l FRAME_HEADER_LEN_def
      header_type_nibble [OF assms(1)] header_seq_nibble [OF i16] tot len part
    using assms(3) by simp
qed

text \<open>
  What a reassembler knows after the chunks with indices in \<open>S\<close>, once the header of the
  frame has been accepted.
\<close>

definition holds :: "bytes \<Rightarrow> nat \<Rightarrow> nat \<Rightarrow> frame_type \<Rightarrow> nat set \<Rightarrow> reassembler \<Rightarrow> bool" where
  "holds p d tot ft S r \<longleftrightarrow>
     S \<subseteq> {..<tot} \<and> expectedTotal r = tot \<and> received r = card S
     \<and> currentFrameType r = Some ft
     \<and> slots r = map (\<lambda>i. if i \<in> S then Some (chunk_part p d i) else None) [0..<tot]"

definition ready :: "bytes \<Rightarrow> nat \<Rightarrow> nat \<Rightarrow> frame_type \<Rightarrow> nat set \<Rightarrow> reassembler \<Rightarrow> bool" where
  "ready p d tot ft S r \<longleftrightarrow>
     (S = {} \<and> r = new_reassembler) \<or> (S \<noteq> {} \<and> holds p d tot ft S r)"

lemma accept_ready:
  assumes "ready p d tot ft S r" "0 < tot"
  obtains r0 where "accept_header r ft tot = Inr r0" "holds p d tot ft S r0"
    "S \<noteq> {} \<Longrightarrow> r0 = r"
proof -
  show thesis
  proof (cases "S = {}")
    case True
    let ?r0 = "r\<lparr>expectedTotal := tot, slots := replicate tot None, currentFrameType := Some ft\<rparr>"
    have "r = new_reassembler" using assms(1) True by (simp add: ready_def)
    then have "accept_header r ft tot = Inr ?r0" "holds p d tot ft S ?r0"
      using True by (simp_all add: accept_header_def new_reassembler_def holds_def
          map_replicate_const)
    then show thesis using True by (intro that) auto
  next
    case False
    then have h: "holds p d tot ft S r" using assms(1) by (simp add: ready_def)
    then have "accept_header r ft tot = Inr r" using assms(2)
      by (auto simp: accept_header_def holds_def)
    then show thesis using h by (intro that) auto
  qed
qed

lemma js_at_holds:
  "holds p d tot ft S r \<Longrightarrow> i < tot \<Longrightarrow>
     js_at (slots r) i = (if i \<in> S then Some (chunk_part p d i) else None)"
  by (simp add: holds_def js_at_def)

lemma holds_insert:
  assumes h: "holds p d tot ft S r" and i: "i < tot" "i \<notin> S"
  shows "holds p d tot ft (insert i S)
    (r\<lparr>slots := js_put (slots r) i (chunk_part p d i), received := Suc (received r)\<rparr>)"
proof -
  have "finite S" using h finite_subset by (auto simp: holds_def)
  moreover have "js_put (slots r) i (chunk_part p d i) =
      map (\<lambda>j. if j \<in> insert i S then Some (chunk_part p d j) else None) [0..<tot]"
    using h i(1) by (auto simp: holds_def js_put_def intro!: nth_equalityI simp: nth_list_update)
  ultimately show ?thesis using h i by (auto simp: holds_def)
qed

lemma store_known:
  "holds p d tot ft S r \<Longrightarrow> i \<in> S \<Longrightarrow> i < tot \<Longrightarrow> store_slice r tot i x = (r, Inr None)"
  by (simp add: store_slice_def js_at_holds)

lemma store_new:
  assumes h: "holds p d tot ft S r" and i: "i < tot" "i \<notin> S" and n: "Suc (card S) < tot"
  obtains r' where "store_slice r tot i (chunk_part p d i) = (r', Inr None)"
    "holds p d tot ft (insert i S) r'"
proof
  let ?r = "r\<lparr>slots := js_put (slots r) i (chunk_part p d i), received := Suc (received r)\<rparr>"
  have "received r = card S" using h by (simp add: holds_def)
  then show "store_slice r tot i (chunk_part p d i) = (?r, Inr None)"
    using n i js_at_holds [OF h i(1)] by (simp add: store_slice_def)
  show "holds p d tot ft (insert i S) ?r" by (rule holds_insert [OF h i])
qed

lemma store_last:
  assumes h: "holds p d tot ft S r" and i: "i < tot" "i \<notin> S" and all: "insert i S = {..<tot}"
    and cover: "concat (map (chunk_part p d) [0..<tot]) = p"
  shows "store_slice r tot i (chunk_part p d i) =
    (new_reassembler, Inr (Some \<lparr>rf_type = ft, rf_payload = p\<rparr>))"
proof -
  let ?r = "r\<lparr>slots := js_put (slots r) i (chunk_part p d i), received := Suc (received r)\<rparr>"
  have h': "holds p d tot ft {..<tot} ?r" using holds_insert [OF h i] all by simp
  then have sl: "slots ?r = map Some (map (chunk_part p d) [0..<tot])"
    and rc: "received ?r = tot" by (auto simp: holds_def)
  from sl have nh: "no_holes (js_put (slots r) i (chunk_part p d i))
      = Some (map (chunk_part p d) [0..<tot])"
    by (simp del: map_map)
  have "Suc (received r) = tot" "currentFrameType r = Some ft"
    using rc h by (simp_all add: holds_def)
  then show ?thesis using nh cover js_at_holds [OF h i(1)] i(2)
    by (simp add: store_slice_def new_reassembler_def)
qed

section \<open>Any order, with duplicates\<close>

lemma push_known:
  assumes "unat ft < 16" "tot \<le> 16" "d < 256"
    and r: "ready p d tot ft S r" and i: "i < tot" "i \<in> S"
  shows "pushWithType r (mk_chunk p d tot ft i) = (r, Inr None)"
proof -
  have S: "S \<noteq> {}" using i by auto
  from accept_ready [OF r] i(1) S obtain r0 where
    "accept_header r ft tot = Inr r0" "holds p d tot ft S r0" "r0 = r" by auto
  with assms show ?thesis by (simp add: push_mk_chunk store_known)
qed

lemma push_new:
  assumes "unat ft < 16" "tot \<le> 16" "d < 256"
    and r: "ready p d tot ft S r" and i: "i < tot" "i \<notin> S" and n: "Suc (card S) < tot"
  obtains r' where "pushWithType r (mk_chunk p d tot ft i) = (r', Inr None)"
    "ready p d tot ft (insert i S) r'"
proof -
  from accept_ready [OF r] i(1) obtain r0 where
    a: "accept_header r ft tot = Inr r0" "holds p d tot ft S r0" by auto
  from store_new [OF a(2) i n] obtain r' where
    "store_slice r0 tot i (chunk_part p d i) = (r', Inr None)"
    "holds p d tot ft (insert i S) r'" .
  with a assms show thesis by (intro that) (auto simp: push_mk_chunk ready_def)
qed

lemma push_final:
  assumes "unat ft < 16" "tot \<le> 16" "d < 256"
    and r: "ready p d tot ft S r" and i: "i < tot" "i \<notin> S" and all: "insert i S = {..<tot}"
    and cover: "concat (map (chunk_part p d) [0..<tot]) = p"
  shows "pushWithType r (mk_chunk p d tot ft i) =
    (new_reassembler, Inr (Some \<lparr>rf_type = ft, rf_payload = p\<rparr>))"
proof -
  from accept_ready [OF r] i(1) obtain r0 where
    a: "accept_header r ft tot = Inr r0" "holds p d tot ft S r0" by auto
  from store_last [OF a(2) i all cover] a assms show ?thesis by (simp add: push_mk_chunk)
qed

lemma push_all_partial:
  assumes "unat ft < 16" "tot \<le> 16" "d < 256"
    and r: "ready p d tot ft S r" and js: "set js \<subseteq> {..<tot}" and i: "i < tot"
    and out: "i \<notin> S" "i \<notin> set js"
  obtains r' where
    "push_all r (map (mk_chunk p d tot ft) js) = (r', replicate (length js) (Inr None))"
    "ready p d tot ft (S \<union> set js) r'"
  using r js out
proof (induction js arbitrary: S r thesis)
  case Nil
  then show ?case by simp
next
  case (Cons j js)
  note base = assms(1-3)
  have j: "j < tot" using Cons.prems by auto
  have sub: "S \<subseteq> {..<tot}" using Cons.prems(2) by (auto simp: ready_def holds_def)
  show ?case
  proof (cases "j \<in> S")
    case True
    have e: "pushWithType r (mk_chunk p d tot ft j) = (r, Inr None)"
      by (rule push_known [OF base Cons.prems(2) j True])
    obtain r' where "push_all r (map (mk_chunk p d tot ft) js) = (r', replicate (length js) (Inr None))"
      "ready p d tot ft (S \<union> set js) r'"
      using Cons.IH [where S = S and r = r] Cons.prems by auto
    with e True show ?thesis by (intro Cons.prems(1)) (auto simp: insert_absorb)
  next
    case False
    have "insert j S \<subseteq> {..<tot} - {i}" using sub Cons.prems i by auto
    then have "card (insert j S) \<le> card ({..<tot} - {i})" by (rule card_mono [rotated]) simp
    moreover have "card (insert j S) = Suc (card S)"
      using False finite_subset [OF sub] by simp
    ultimately have n: "Suc (card S) < tot" using i by simp
    from push_new [OF base Cons.prems(2) j False n] obtain r1 where
      e: "pushWithType r (mk_chunk p d tot ft j) = (r1, Inr None)"
      and r1: "ready p d tot ft (insert j S) r1" .
    obtain r' where "push_all r1 (map (mk_chunk p d tot ft) js) = (r', replicate (length js) (Inr None))"
      "ready p d tot ft (insert j S \<union> set js) r'"
      using Cons.IH [where S = "insert j S" and r = r1] r1 Cons.prems by auto
    with e show ?thesis by (intro Cons.prems(1)) auto
  qed
qed

lemma push_all_append:
  "push_all r (xs @ ys) =
    (let (r1, as) = push_all r xs; (r2, bs) = push_all r1 ys in (r2, as @ bs))"
  by (induction xs arbitrary: r) (auto simp: Let_def split: prod.splits)

lemma chunkFrame_InrD:
  assumes "chunkFrame p mtu ft = Inr cs"
  obtains d tot where "int d = mtu - 4" "0 < d" "tot = ceil_div (length p) d" "0 < tot" "tot \<le> 16"
    "cs = map (mk_chunk p d tot ft) [0..<tot]" "length p \<le> MAX_FRAME_SIZE"
proof -
  let ?d = "nat (mtu - 4)"
  have "int ?d = mtu - 4" "0 < ?d" "0 < ceil_div (length p) ?d" "ceil_div (length p) ?d \<le> 16"
    "cs = map (mk_chunk p ?d (ceil_div (length p) ?d) ft) [0..<ceil_div (length p) ?d]"
    "length p \<le> MAX_FRAME_SIZE"
    using assms by (auto simp: chunkFrame_def Let_def FRAME_HEADER_LEN_def split: if_splits)
  then show thesis by (intro that [of ?d "ceil_div (length p) ?d"]) simp_all
qed

section \<open>Arbitrary input\<close>

text \<open>
  The header fields of a chunk that passes the checks, and the invariant of the object over
  a history of pushed chunks \<open>H\<close>: every stored slice is the data of a pushed chunk with that
  sequence number and the type on record.
\<close>

definition chunk_data :: "bytes \<Rightarrow> bytes" where
  "chunk_data c = drop FRAME_HEADER_LEN c"

definition chunk_seq :: "bytes \<Rightarrow> nat" where
  "chunk_seq c = unat (c ! 1 AND 0x0f)"

definition chunk_type :: "bytes \<Rightarrow> frame_type" where
  "chunk_type c = drop_bit 4 (c ! 1) AND 0x0f"

definition well_formed_chunk :: "bytes \<Rightarrow> bool" where
  "well_formed_chunk c \<longleftrightarrow> FRAME_HEADER_LEN \<le> length c \<and> c ! 0 = FRAME_MAGIC
     \<and> unat (c ! 3) = length c - FRAME_HEADER_LEN \<and> unat (c ! 2) \<le> 16"

definition from_history :: "bytes set \<Rightarrow> frame_type option \<Rightarrow> nat \<Rightarrow> bytes \<Rightarrow> bool" where
  "from_history H ft i s \<longleftrightarrow>
     (\<exists>c\<in>H. well_formed_chunk c \<and> chunk_seq c = i \<and> Some (chunk_type c) = ft \<and> chunk_data c = s)"

definition slots_inv :: "bytes set \<Rightarrow> reassembler \<Rightarrow> bool" where
  "slots_inv H r \<longleftrightarrow> length (slots r) \<le> 16 \<and> (expectedTotal r = 0 \<or> currentFrameType r \<noteq> None)
     \<and> (\<forall>i s. js_at (slots r) i = Some s \<longrightarrow> from_history H (currentFrameType r) i s)"

lemma from_history_mono: "from_history H ft i s \<Longrightarrow> H \<subseteq> H' \<Longrightarrow> from_history H' ft i s"
  by (auto simp: from_history_def)

lemma slots_inv_mono: "slots_inv H r \<Longrightarrow> H \<subseteq> H' \<Longrightarrow> slots_inv H' r"
  by (auto simp: slots_inv_def intro: from_history_mono)

lemma slots_inv_new: "slots_inv H new_reassembler"
  by (simp add: slots_inv_def new_reassembler_def js_at_def)

lemma chunk_seq_less: "chunk_seq c < 16"
  unfolding chunk_seq_def nibble_mask take_bit_eq_mask [symmetric]
proof -
  have "take_bit 4 (unat (c ! 1)) < (2 :: nat) ^ 4" by (rule take_bit_nat_less_exp)
  then show "unat (take_bit 4 (c ! 1)) < 16" by (simp add: unsigned_take_bit_eq)
qed

lemma push_well_formed:
  "well_formed_chunk c \<Longrightarrow> pushWithType r c =
    (case accept_header r (chunk_type c) (unat (c ! 2)) of Inl e \<Rightarrow> (r, Inl e)
     | Inr r' \<Rightarrow> store_slice r' (unat (c ! 2)) (chunk_seq c) (chunk_data c))"
proof -
  assume w: "well_formed_chunk c"
  then have l: "FRAME_HEADER_LEN \<le> length c" "c ! 0 = FRAME_MAGIC" "unat (c ! 2) \<le> 16"
    and n: "unat (c ! 3) = length c - FRAME_HEADER_LEN"
    by (simp_all add: well_formed_chunk_def)
  have part: "js_slice FRAME_HEADER_LEN (FRAME_HEADER_LEN + unat (c ! 3)) c = chunk_data c"
    using l(1) n by (simp add: js_slice_def chunk_data_def)
  show ?thesis
    unfolding pushWithType_def Let_def part chunk_type_def [symmetric] chunk_seq_def [symmetric]
    using l n by simp
qed

lemma push_malformed:
  "\<not> well_formed_chunk c \<Longrightarrow> \<exists>e. pushWithType r c = (r, Inl e)"
  by (auto simp: pushWithType_def well_formed_chunk_def Let_def FRAME_HEADER_LEN_def)

lemma accept_header_inv:
  assumes "slots_inv H r" "accept_header r ft tot = Inr r'" "tot \<le> 16"
  shows "slots_inv H r' \<and> currentFrameType r' = Some ft"
  using assms by (auto simp: accept_header_def slots_inv_def js_at_def split: if_splits)

lemma store_slice_inv:
  assumes inv: "slots_inv H r" and ft: "currentFrameType r = Some ft"
    and s: "seq < 16" "from_history H (Some ft) seq part"
  shows "slots_inv H (fst (store_slice r tot seq part))"
proof -
  let ?r = "r\<lparr>slots := js_put (slots r) seq part, received := Suc (received r)\<rparr>"
  have put: "slots_inv H ?r"
    using inv ft s by (auto simp: slots_inv_def length_js_put js_at_put)
  have clear: "slots_inv H (?r\<lparr>expectedTotal := 0, received := 0, slots := [],
      currentFrameType := None\<rparr>)"
    by (simp add: slots_inv_def js_at_def)
  from inv put clear show ?thesis
    by (simp add: store_slice_def Let_def split: option.split)
qed

lemma no_holes_nth:
  assumes "no_holes xs = Some ss"
  shows "length ss = length xs" and "i < length ss \<Longrightarrow> js_at xs i = Some (ss ! i)"
  using no_holes_SomeD [OF assms] by (auto simp: js_at_def)

lemma store_slice_frame:
  assumes inv: "slots_inv H r" and ft: "currentFrameType r = Some ft"
    and s: "seq < 16" "from_history H (Some ft) seq part"
    and out: "store_slice r tot seq part = (r', Inr (Some f))"
  shows "r' = new_reassembler \<and> rf_type f = ft \<and>
    (\<exists>ss. rf_payload f = concat ss \<and> length ss \<le> 16
       \<and> (\<forall>i < length ss. from_history H (Some ft) i (ss ! i)))"
proof -
  let ?r = "r\<lparr>slots := js_put (slots r) seq part, received := Suc (received r)\<rparr>"
  have put: "slots_inv H ?r"
    using inv ft s by (auto simp: slots_inv_def length_js_put js_at_put)
  obtain ss where ss: "no_holes (slots ?r) = Some ss"
    and f: "f = \<lparr>rf_type = ft, rf_payload = concat ss\<rparr>" and r': "r' = new_reassembler"
    using out ft
    by (auto simp: store_slice_def Let_def new_reassembler_def split: if_splits option.splits)
  have "length ss \<le> 16" using no_holes_nth(1) [OF ss] put by (simp add: slots_inv_def)
  moreover have "from_history H (Some ft) i (ss ! i)" if "i < length ss" for i
    using no_holes_nth(2) [OF ss that] put ft by (auto simp: slots_inv_def)
  ultimately show ?thesis using f r' by auto
qed

lemma push_inv:
  assumes inv: "slots_inv H r"
  shows "slots_inv (insert c H) (fst (pushWithType r c))"
proof (cases "well_formed_chunk c")
  case False
  have "slots_inv (insert c H) r" using slots_inv_mono [OF inv] by blast
  with False show ?thesis using push_malformed [of c r] by auto
next
  case True
  have inv': "slots_inv (insert c H) r" using slots_inv_mono [OF inv] by auto
  have h: "from_history (insert c H) (Some (chunk_type c)) (chunk_seq c) (chunk_data c)"
    using True by (auto simp: from_history_def)
  have "unat (c ! 2) \<le> 16" using True by (simp add: well_formed_chunk_def)
  then show ?thesis
    using store_slice_inv [OF _ _ chunk_seq_less h] accept_header_inv [OF inv'] inv'
    by (auto simp: push_well_formed [OF True] split: sum.split)
qed

lemma push_frame:
  assumes inv: "slots_inv H r" and out: "pushWithType r c = (r', Inr (Some f))"
  shows "r' = new_reassembler \<and> (\<exists>ss. rf_payload f = concat ss \<and> length ss \<le> 16
       \<and> (\<forall>i < length ss. from_history (insert c H) (Some (rf_type f)) i (ss ! i)))"
proof -
  have w: "well_formed_chunk c" using push_malformed [of c r] out by fastforce
  have inv': "slots_inv (insert c H) r" using slots_inv_mono [OF inv] by auto
  have h: "from_history (insert c H) (Some (chunk_type c)) (chunk_seq c) (chunk_data c)"
    using w by (auto simp: from_history_def)
  from out obtain r0 where a: "accept_header r (chunk_type c) (unat (c ! 2)) = Inr r0"
    and s: "store_slice r0 (unat (c ! 2)) (chunk_seq c) (chunk_data c) = (r', Inr (Some f))"
    by (auto simp: push_well_formed [OF w] split: sum.splits)
  have "unat (c ! 2) \<le> 16" using w by (simp add: well_formed_chunk_def)
  then have "slots_inv (insert c H) r0 \<and> currentFrameType r0 = Some (chunk_type c)"
    by (rule accept_header_inv [OF inv' a])
  then show ?thesis using store_slice_frame [OF _ _ chunk_seq_less h s] by auto
qed

lemma push_all_inv: "slots_inv H r \<Longrightarrow> slots_inv (H \<union> set cs) (fst (push_all r cs))"
proof (induction cs arbitrary: H r)
  case (Cons c cs)
  from Cons.IH [OF push_inv [OF Cons.prems, of c]] show ?case
    by (auto simp: split_beta)
qed simp

section \<open>A sequence number past the total\<close>

definition wedged :: "nat \<Rightarrow> reassembler \<Rightarrow> bool" where
  "wedged tot r \<longleftrightarrow> expectedTotal r = tot \<and> 0 < tot \<and> tot < length (slots r)
     \<and> js_at (slots r) tot = None"

lemma no_holes_hole: "i < length xs \<Longrightarrow> js_at xs i = None \<Longrightarrow> no_holes xs = None"
  using no_holes_SomeD [of xs] by (cases "no_holes xs") (auto simp: js_at_def)

lemma wedged_store:
  assumes w: "wedged tot r" and s: "seq < tot \<or> tot < seq"
  shows "wedged tot (fst (store_slice r tot seq x))
    \<and> (\<forall>f. snd (store_slice r tot seq x) \<noteq> Inr (Some f))"
proof -
  have "wedged tot (r\<lparr>slots := js_put (slots r) seq x, received := n\<rparr>)" for n
    using w s by (auto simp: wedged_def length_js_put js_at_put)
  moreover from this [of 0] have "no_holes (js_put (slots r) seq x) = None"
    using no_holes_hole [of tot "js_put (slots r) seq x"] by (simp add: wedged_def)
  ultimately show ?thesis using w by (simp add: store_slice_def Let_def)
qed

lemma wedged_push:
  assumes w: "wedged tot r" and x: "well_formed_chunk x \<longrightarrow> chunk_seq x < unat (x ! 2)"
  shows "wedged tot (fst (pushWithType r x)) \<and> (\<forall>f. snd (pushWithType r x) \<noteq> Inr (Some f))"
proof (cases "well_formed_chunk x")
  case False
  then show ?thesis using push_malformed [of x r] w by auto
next
  case True
  from w have "accept_header r (chunk_type x) (unat (x ! 2)) = Inr r
      \<and> unat (x ! 2) = tot \<or> (\<exists>e. accept_header r (chunk_type x) (unat (x ! 2)) = Inl e)"
    by (auto simp: accept_header_def wedged_def)
  then show ?thesis using w x True wedged_store [OF w, of "chunk_seq x"]
    by (auto simp: push_well_formed)
qed

lemma wedged_push_all:
  "wedged tot r \<Longrightarrow> \<forall>x \<in> set cs. well_formed_chunk x \<longrightarrow> chunk_seq x < unat (x ! 2) \<Longrightarrow>
     \<forall>a \<in> set (snd (push_all r cs)). \<forall>f. a \<noteq> Inr (Some f)"
proof (induction cs arbitrary: r)
  case (Cons c cs)
  then show ?case using wedged_push [OF Cons.prems(1), of c]
    by (auto simp: split_beta)
qed simp

section \<open>Properties\<close>

lemma sample_chunks:
  "chunkFrame [7, 8, 9] 6 SessionData = Inr [[0xc8, 0x30, 2, 2, 7, 8], [0xc8, 0x31, 2, 1, 9]]"
  by (simp add: chunkFrame_def Let_def frame_consts ceil_div_def mk_chunk_def js_slice_def upt_rec)

text \<open>Note: chunkFrame accepts a payload exactly when it is not empty, at most 65536 bytes, the MTU leaves
  room for data after the four header bytes, and sixteen chunks of that room can hold the payload;
  in every other case it throws.\<close>

theorem chunkFrame_succeeds_iff:
  "(\<exists>cs. chunkFrame p mtu ft = Inr cs) \<longleftrightarrow>
     p \<noteq> [] \<and> length p \<le> MAX_FRAME_SIZE \<and> 4 < mtu \<and> int (length p) \<le> 16 * (mtu - 4)"
proof (cases "4 < mtu")
  case True
  define d where "d = nat (mtu - 4)"
  have d: "0 < d" "int d = mtu - 4" using True by (simp_all add: d_def)
  have pos: "0 < ceil_div (length p) d \<longleftrightarrow> p \<noteq> []"
  proof
    assume "0 < ceil_div (length p) d"
    then show "p \<noteq> []" using ceil_div_tight [OF d(1), of 0 "length p"] by auto
  next
    assume "p \<noteq> []"
    show "0 < ceil_div (length p) d"
    proof (rule ccontr)
      assume "\<not> 0 < ceil_div (length p) d"
      with ceil_div_covers [OF d(1), of "length p"] \<open>p \<noteq> []\<close> show False by simp
    qed
  qed
  have le: "ceil_div (length p) d \<le> 16 \<longleftrightarrow> length p \<le> 16 * d"
  proof
    assume "ceil_div (length p) d \<le> 16"
    then have "ceil_div (length p) d * d \<le> 16 * d" by simp
    then show "length p \<le> 16 * d" using ceil_div_covers [OF d(1), of "length p"] by linarith
  next
    assume l: "length p \<le> 16 * d"
    show "ceil_div (length p) d \<le> 16"
    proof (rule ccontr)
      assume "\<not> ceil_div (length p) d \<le> 16"
      then have "16 * d < length p" using ceil_div_tight [OF d(1), of 16 "length p"] by simp
      with l show False by simp
    qed
  qed
  have "length p \<le> 16 * d \<longleftrightarrow> int (length p) \<le> 16 * (mtu - 4)"
    unfolding d(2) [symmetric] by linarith
  with True pos le show ?thesis
    by (auto simp: chunkFrame_def Let_def FRAME_HEADER_LEN_def d_def [symmetric])
qed (auto simp: chunkFrame_def FRAME_HEADER_LEN_def)

text \<open>Note: Wire bounds of the sender: at most sixteen chunks, none empty and none longer than the MTU,
  and every chunk but the last is exactly one MTU long.\<close>

theorem chunkFrame_bounds:
  assumes "chunkFrame p mtu ft = Inr cs"
  shows "length cs \<le> 16 \<and> (\<forall>c \<in> set cs. 4 < length c \<and> int (length c) \<le> mtu)
    \<and> (\<forall>i. Suc i < length cs \<longrightarrow> int (length (cs ! i)) = mtu)"
proof -
  from assms obtain d tot where d: "int d = mtu - 4" "0 < d"
    and tot: "tot = ceil_div (length p) d" "0 < tot" "tot \<le> 16"
    and cs: "cs = map (mk_chunk p d tot ft) [0..<tot]" by (rule chunkFrame_InrD)
  have len: "length (mk_chunk p d tot ft i) = 4 + (min (i * d + d) (length p) - i * d)" for i
    by (simp add: mk_chunk_def Let_def length_js_slice)
  have "i * d < length p" if "i < tot" for i using ceil_div_tight [OF d(2)] that tot(1) by simp
  then have "4 < length c \<and> int (length c) \<le> mtu" if "c \<in> set cs" for c
    using that d by (auto simp: cs len)
  moreover have "int (length (cs ! i)) = mtu" if i: "Suc i < length cs" for i
  proof -
    have "Suc i * d < length p"
      using i ceil_div_tight [OF d(2), of "Suc i" "length p"] tot(1) by (simp add: cs)
    then show ?thesis using i d by (simp add: cs len add.commute)
  qed
  ultimately show ?thesis using tot by (simp add: cs)
qed

theorem chunkFrame_bounds_witness:
  "list_all (\<lambda>c. 4 < length c \<and> int (length c) \<le> 6)
     [[0xc8, 0x30, 2, 2, 7, 8], [0xc8, 0x31, 2, 1, 9 :: byte]]"
  using chunkFrame_bounds [OF sample_chunks] by simp

text \<open>The chunks of a payload, pushed in any order.\<close>

lemma chunks_reassemble:
  assumes "chunkFrame p mtu ft = Inr cs" and "mtu \<le> 259" and "unat ft < 16"
    and "insert i (set js) = {..<length cs}" and "i \<notin> set js"
  shows "push_all new_reassembler (map ((!) cs) (js @ [i])) =
    (new_reassembler,
     replicate (length js) (Inr None) @ [Inr (Some \<lparr>rf_type = ft, rf_payload = p\<rparr>)])"
proof -
  from assms(1) obtain d tot where d: "int d = mtu - 4" "0 < d"
    and tot: "tot = ceil_div (length p) d" "0 < tot" "tot \<le> 16"
    and cs: "cs = map (mk_chunk p d tot ft) [0..<tot]" by (rule chunkFrame_InrD)
  note base = assms(3) tot(3)
  have d256: "d < 256" using d assms(2) by linarith
  have len: "length cs = tot" by (simp add: cs)
  have i: "i < tot" and js: "set js \<subseteq> {..<tot}" using assms(4) len by auto
  have idx: "map ((!) cs) (js @ [i]) = map (mk_chunk p d tot ft) (js @ [i])"
    using i js by (auto simp: cs)
  have r0: "ready p d tot ft {} new_reassembler" by (simp add: ready_def)
  obtain r' where part: "push_all new_reassembler (map (mk_chunk p d tot ft) js)
      = (r', replicate (length js) (Inr None))" and r': "ready p d tot ft (set js) r'"
    using push_all_partial [OF base d256 r0 js i _ assms(5)] by auto
  have "pushWithType r' (mk_chunk p d tot ft i) =
      (new_reassembler, Inr (Some \<lparr>rf_type = ft, rf_payload = p\<rparr>))"
    using assms(4) len tot(1) d(2)
    by (intro push_final [OF base d256 r' i assms(5)]) (simp_all add: concat_all_parts)
  with part show ?thesis unfolding idx by (simp add: push_all_append)
qed

text \<open>C8: Round trip in any order: for an MTU of at most 259 bytes the chunks that chunkFrame makes of a
  payload, delivered to a fresh FrameReassembler in any order and with any duplicates, give
  null until the last missing chunk arrives, which gives the frame type and exactly the
  payload, and leave the reassembler as new.\<close>

theorem reassemble_any_order:
  assumes "chunkFrame p mtu ft = Inr cs" and "mtu \<le> 259" and "unat ft < 16"
    and "insert i (set js) = {..<length cs}" and "i \<notin> set js"
  shows "push_all new_reassembler (map ((!) cs) (js @ [i])) =
    (new_reassembler,
     replicate (length js) (Inr None) @ [Inr (Some \<lparr>rf_type = ft, rf_payload = p\<rparr>)])"
  by (rule chunks_reassemble [OF assms])

theorem reassemble_any_order_witness:
  "push_all new_reassembler [[0xc8, 0x31, 2, 1, 9], [0xc8, 0x31, 2, 1, 9], [0xc8, 0x30, 2, 2, 7, 8]]
   = (new_reassembler, [Inr None, Inr None, Inr (Some \<lparr>rf_type = SessionData, rf_payload = [7, 8, 9]\<rparr>)])"
proof -
  have "insert 0 (set [1, 1]) = {..<length [[0xc8, 0x30, 2, 2, 7, 8], [0xc8, 0x31, 2, 1, 9 :: byte]]}"
    by auto
  moreover have "unat SessionData < 16" by (simp add: SessionData_def)
  ultimately show ?thesis
    using reassemble_any_order [OF sample_chunks, of 0 "[1, 1]"]
    by (simp del: push_all.simps)
qed

text \<open>Note: Hostile input: whatever bytes are pushed, the reassembler keeps at most sixteen slots and
  every byte it holds is the data of a chunk that was pushed, at the position its sequence
  nibble names.\<close>

theorem reassembler_bounded:
  "length (slots (fst (push_all new_reassembler cs))) \<le> 16 \<and>
   (\<forall>i s. js_at (slots (fst (push_all new_reassembler cs))) i = Some s \<longrightarrow>
      length s < 256 \<and> (\<exists>c \<in> set cs. chunk_seq c = i \<and> chunk_data c = s))"
proof -
  have inv: "slots_inv (set cs) (fst (push_all new_reassembler cs))"
    using push_all_inv [OF slots_inv_new [of "{}"], of cs] by simp
  have "length (chunk_data c) < 256" if "well_formed_chunk c" for c
    using that unat_byte_less [of "c ! 3"] by (simp add: well_formed_chunk_def chunk_data_def)
  with inv show ?thesis by (fastforce simp: slots_inv_def from_history_def)
qed

theorem reassembler_bounded_witness:
  "length (slots (fst (push_all new_reassembler [[0xc8, 0x3f, 2, 1, 5], [0xc8]]))) \<le> 16"
  using reassembler_bounded [of "[[0xc8, 0x3f, 2, 1, 5], [0xc8]]"] by simp

text \<open>C36: Soundness of reassembly against arbitrary input: a frame that the reassembler delivers is the
  concatenation, in sequence order, of the data of chunks that were pushed, all of the
  frame's own type and each with a valid header; delivery leaves the reassembler as new.\<close>

theorem reassembled_frame_sound:
  assumes "pushWithType (fst (push_all new_reassembler cs)) c = (r', Inr (Some f))"
  shows "r' = new_reassembler \<and> (\<exists>parts. set parts \<subseteq> set (c # cs) \<and> length parts \<le> 16
      \<and> map chunk_seq parts = [0..<length parts]
      \<and> (\<forall>x \<in> set parts. well_formed_chunk x \<and> chunk_type x = rf_type f)
      \<and> rf_payload f = concat (map chunk_data parts))"
proof -
  have "slots_inv (set cs) (fst (push_all new_reassembler cs))"
    using push_all_inv [OF slots_inv_new [of "{}"], of cs] by simp
  from push_frame [OF this assms] obtain ss where new: "r' = new_reassembler"
    and ss: "rf_payload f = concat ss" "length ss \<le> 16"
    and "\<forall>i < length ss. from_history (insert c (set cs)) (Some (rf_type f)) i (ss ! i)"
    by auto
  then have "\<forall>i. \<exists>x. i < length ss \<longrightarrow> x \<in> set (c # cs) \<and> well_formed_chunk x \<and> chunk_seq x = i
      \<and> chunk_type x = rf_type f \<and> chunk_data x = ss ! i"
    by (fastforce simp: from_history_def)
  then obtain g where g: "\<And>i. i < length ss \<Longrightarrow> g i \<in> set (c # cs) \<and> well_formed_chunk (g i)
      \<and> chunk_seq (g i) = i \<and> chunk_type (g i) = rf_type f \<and> chunk_data (g i) = ss ! i"
    by metis
  let ?parts = "map g [0..<length ss]"
  have "map chunk_seq ?parts = [0..<length ?parts]" "map chunk_data ?parts = ss"
    by (auto intro!: nth_equalityI simp: g)
  moreover have "set ?parts \<subseteq> set (c # cs)" using g by (simp add: image_subset_iff)
  moreover have "\<forall>x \<in> set ?parts. well_formed_chunk x \<and> chunk_type x = rf_type f"
    using g by auto
  ultimately show ?thesis using new ss by (intro conjI exI [of _ ?parts]) auto
qed

theorem reassembled_frame_sound_witness:
  "\<exists>parts. set parts \<subseteq> {[0xc8, 0x30, 2, 2, 7, 8], [0xc8, 0x31, 2, 1, 9 :: byte]}
     \<and> [7, 8, 9] = concat (map chunk_data parts)"
proof -
  have two: "replicate 2 x = [x, x]" for x :: "bytes option" by (simp add: numeral_2_eq_2)
  have "pushWithType (fst (push_all new_reassembler [[0xc8, 0x31, 2, 1, 9]])) [0xc8, 0x30, 2, 2, 7, 8]
      = (new_reassembler, Inr (Some \<lparr>rf_type = SessionData, rf_payload = [7, 8, 9]\<rparr>))"
    by (simp add: pushWithType_def accept_header_def store_slice_def new_reassembler_def
        frame_consts js_slice_def js_put_def js_at_def Let_def two)
  from reassembled_frame_sound [OF this] show ?thesis by auto
qed

text \<open>Note: One hostile chunk wedges the reassembler: the sequence nibble is not compared with the total, so
  after a first chunk whose sequence number exceeds its total, no frame is ever delivered from
  chunks with sequence numbers in range, however many are pushed.\<close>

theorem out_of_range_chunk_wedges:
  assumes "well_formed_chunk c" and "0 < unat (c ! 2)" and "unat (c ! 2) < chunk_seq c"
    and "\<forall>x \<in> set cs. well_formed_chunk x \<longrightarrow> chunk_seq x < unat (x ! 2)"
  shows "\<forall>a \<in> set (snd (push_all (fst (pushWithType new_reassembler c)) cs)). \<forall>f. a \<noteq> Inr (Some f)"
proof -
  let ?tot = "unat (c ! 2)"
  let ?r = "new_reassembler\<lparr>expectedTotal := ?tot, slots := replicate ?tot None,
      currentFrameType := Some (chunk_type c)\<rparr>"
  have put: "js_put (replicate ?tot None) (chunk_seq c) x
      = replicate ?tot None @ replicate (chunk_seq c - ?tot) None @ [Some x]" for x :: bytes
    using assms(3) by (simp add: js_put_def)
  have "0 < length (replicate (chunk_seq c - ?tot) None @ [Some (x :: bytes)])
     \<and> (replicate (chunk_seq c - ?tot) None @ [Some x]) ! 0 = None" for x
    using assms(3) by (simp add: nth_append)
  then have "wedged ?tot (?r\<lparr>slots := js_put (slots ?r) (chunk_seq c) x, received := 1\<rparr>)" for x
    using assms(2,3) by (auto simp: wedged_def put js_at_def nth_append)
  moreover have "no_holes (js_put (replicate ?tot None) (chunk_seq c) x) = None" for x :: bytes
    using assms(2) by (intro no_holes_hole [of 0]) (simp_all add: put js_at_def nth_append)
  moreover have "js_at (replicate ?tot (None :: bytes option)) (chunk_seq c) = None"
    by (simp add: js_at_def)
  ultimately have "wedged ?tot (fst (store_slice ?r ?tot (chunk_seq c) (chunk_data c)))"
    by (simp add: store_slice_def Let_def new_reassembler_def)
  then have "wedged ?tot (fst (pushWithType new_reassembler c))"
    by (simp add: push_well_formed [OF assms(1)] accept_header_def new_reassembler_def)
  from wedged_push_all [OF this assms(4)] show ?thesis .
qed

theorem out_of_range_chunk_wedges_witness:
  "list_all (\<lambda>a. \<forall>f. a \<noteq> Inr (Some f))
     (snd (push_all (fst (pushWithType new_reassembler [0xc8, 0x32, 1, 0])) [[0xc8, 0x30, 1, 1, 7]]))"
  unfolding list_all_iff
  by (rule out_of_range_chunk_wedges)
    (simp_all add: well_formed_chunk_def chunk_seq_def frame_consts)

end
