(* ===== verification/Ratchet.thy ===== *)
theory Ratchet
  imports Prelude
begin

unbundle bit_operations_syntax

text \<open>
  The per-frame session encryption of \<open>packages/mesh-core/src/crypto/session-ratchet.ts\<close>:
  the replay window, the cache of receive keys, and the session that composes them. HKDF and
  AES-GCM come from a package and from the platform, so they are the fields of the record
  \<open>ratchet_prims\<close>; what the proofs need of them are named hypotheses. The two halves of
  \<open>decrypt\<close>, before and after its \<open>await\<close>, are separate definitions, so that calls which
  overlap are sequences of steps.
\<close>

section \<open>Constants and errors\<close>

definition REPLAY_WINDOW_SIZE :: int where "REPLAY_WINDOW_SIZE = 64"
definition AEAD_NONCE_BYTES :: nat where "AEAD_NONCE_BYTES = 12"
definition AEAD_KEY_BYTES :: nat where "AEAD_KEY_BYTES = 16"
definition TAG_LEN :: nat where "TAG_LEN = 16"
definition CHAIN_KEY_BYTES :: nat where "CHAIN_KEY_BYTES = 32"
definition INFO_FRAME_KEY :: string where "INFO_FRAME_KEY = ''mesh/frame-ratchet/v1/key''"
definition INFO_FRAME_RATCHET :: string where
  "INFO_FRAME_RATCHET = ''mesh/frame-ratchet/v1/ratchet''"
definition RECV_WINDOW_SIZE :: int where "RECV_WINDOW_SIZE = REPLAY_WINDOW_SIZE"
definition RECV_LOOKAHEAD :: int where "RECV_LOOKAHEAD = 8"

datatype direction = Initiator | Responder

datatype ratchet_error =
    BadSendChainKey | BadRecvChainKey | WireTooShort
  | ReplayRejected int | KeyUnavailable int int | AeadFailed

section \<open>Replay window\<close>

record replay_window =
  rw_highest :: int
  rw_bitmap :: int

definition new_replay :: replay_window where
  "new_replay = \<lparr>rw_highest = -1, rw_bitmap = 0\<rparr>"

definition rw_canAccept :: "replay_window \<Rightarrow> int \<Rightarrow> bool" where
  "rw_canAccept w c =
     (if c < 0 then False
      else if rw_highest w < 0 then True
      else if c > rw_highest w then True
      else let off = rw_highest w - c in
        if off \<ge> REPLAY_WINDOW_SIZE then False
        else rw_bitmap w AND push_bit (nat off) 1 = 0)"

definition rw_commit :: "replay_window \<Rightarrow> int \<Rightarrow> replay_window" where
  "rw_commit w c =
     (if rw_highest w < 0 then \<lparr>rw_highest = c, rw_bitmap = 1\<rparr>
      else if c > rw_highest w then
        let shift = c - rw_highest w;
            b = (if shift \<ge> REPLAY_WINDOW_SIZE then 1
                 else push_bit (nat shift) (rw_bitmap w) OR 1);
            m = push_bit (nat REPLAY_WINDOW_SIZE) 1 - 1 in
        \<lparr>rw_highest = c, rw_bitmap = b AND m\<rparr>
      else
        let off = rw_highest w - c in
        w\<lparr>rw_bitmap := rw_bitmap w OR push_bit (nat off) 1\<rparr>)"

definition rw_checkAndAccept :: "replay_window \<Rightarrow> int \<Rightarrow> replay_window \<times> bool" where
  "rw_checkAndAccept w c = (if \<not> rw_canAccept w c then (w, False) else (rw_commit w c, True))"

text \<open>
  The specification: the window stands for the set of committed counters. The bitmap holds
  exactly the part of it within 64 of the highest.
\<close>

definition rw_rep :: "replay_window \<Rightarrow> int set \<Rightarrow> bool" where
  "rw_rep w S \<longleftrightarrow> finite S \<and> (\<forall>c\<in>S. 0 \<le> c) \<and>
     (if S = {} then w = new_replay
      else rw_highest w = Max S \<and> (\<forall>i < 64. bit (rw_bitmap w) i = (Max S - int i \<in> S)))"

lemma rw_rep_new: "rw_rep new_replay {}"
  by (simp add: rw_rep_def)

lemma rw_mask: "push_bit (nat REPLAY_WINDOW_SIZE) 1 - 1 = (mask 64 :: int)"
  by (simp add: REPLAY_WINDOW_SIZE_def push_bit_eq_mult mask_eq_exp_minus_1)

lemma rw_canAccept_rep:
  assumes "rw_rep w S"
  shows "rw_canAccept w c \<longleftrightarrow> 0 \<le> c \<and> c \<notin> S \<and> (\<forall>x\<in>S. x < c + 64)"
proof (cases "S = {}")
  case True
  then show ?thesis using assms by (simp add: rw_rep_def rw_canAccept_def new_replay_def)
next
  case False
  have fin: "finite S" and h: "rw_highest w = Max S"
    and bits: "\<And>i. i < 64 \<Longrightarrow> bit (rw_bitmap w) i = (Max S - int i \<in> S)"
    using assms False by (simp_all add: rw_rep_def)
  have mx: "Max S \<in> S" "0 \<le> Max S" using fin False assms by (auto simp: rw_rep_def)
  have lt: "(\<forall>x\<in>S. x < y) \<longleftrightarrow> Max S < y" for y using fin False by simp
  have out: "c \<notin> S" if "Max S < c"
    using Max_ge [OF fin, of c] that by (meson leD)
  have inn: "bit (rw_bitmap w) (nat (Max S - c)) = (c \<in> S)" if "c \<le> Max S" "Max S - c < 64"
    using bits [of "nat (Max S - c)"] that by simp
  show ?thesis unfolding lt using mx out inn
    by (auto simp: rw_canAccept_def h Let_def REPLAY_WINDOW_SIZE_def and_exp_eq_0_iff_not_bit)
qed

lemma rw_commit_rep:
  assumes rep: "rw_rep w S" and c: "0 \<le> c"
  shows "rw_rep (rw_commit w c) (insert c S)"
proof (cases "S = {}")
  case True
  then show ?thesis using rep c
    by (auto simp: rw_rep_def rw_commit_def new_replay_def bit_1_iff)
next
  case False
  have fin: "finite S" and h: "rw_highest w = Max S" and pos: "\<forall>c\<in>S. 0 \<le> c"
    and bits: "\<And>i. i < 64 \<Longrightarrow> bit (rw_bitmap w) i = (Max S - int i \<in> S)"
    using rep False by (simp_all add: rw_rep_def)
  have mx: "Max S \<in> S" "0 \<le> Max S" using fin False pos by auto
  have mi: "Max (insert c S) = max c (Max S)" using fin False by simp
  show ?thesis
  proof (cases "c > Max S")
    case True
    have eq: "rw_commit w c = \<lparr>rw_highest = c, rw_bitmap = (if 64 \<le> c - Max S then 1
        else push_bit (nat (c - Max S)) (rw_bitmap w) OR 1) AND mask 64\<rparr>"
      using True mx unfolding rw_commit_def h Let_def rw_mask
      by (simp add: REPLAY_WINDOW_SIZE_def)
    note bits_simps = eq bit_and_iff bit_or_iff bit_mask_iff bit_push_bit_iff_int bit_1_iff
    have "bit (rw_bitmap (rw_commit w c)) i = (c - int i \<in> insert c S)" if i: "i < 64" for i
    proof (cases "int i < c - Max S")
      case less: True
      then have "c - int i \<notin> S" using Max_ge [OF fin, of "c - int i"] by auto
      then show ?thesis using less True mx i
        by (auto simp: bits_simps)
    next
      case ge: False
      then have "i \<noteq> 0" "c - Max S < 64" using True i by auto
      moreover have "bit (rw_bitmap w) (i - nat (c - Max S)) = (c - int i \<in> S)"
        using bits [of "i - nat (c - Max S)"] ge True i by (simp add: of_nat_diff nat_le_iff)
      ultimately show ?thesis using ge True mx i
        by (auto simp: bits_simps nat_le_iff)
    qed
    moreover have "rw_highest (rw_commit w c) = c"
      by (simp add: eq)
    ultimately show ?thesis using True fin pos c mi by (simp add: rw_rep_def max_def)
  next
    case le: False
    then have "rw_commit w c = w\<lparr>rw_bitmap := rw_bitmap w OR push_bit (nat (Max S - c)) 1\<rparr>"
      using mx by (simp add: rw_commit_def h Let_def)
    then show ?thesis using le bits fin pos c mi h
      by (auto simp: rw_rep_def bit_or_iff bit_exp_iff max_def)
  qed
qed

definition rw_reachable :: "replay_window \<Rightarrow> bool" where
  "rw_reachable w \<longleftrightarrow> (\<exists>S. rw_rep w S)"

interpretation replay: once_filter rw_reachable "\<lambda>c. 0 \<le> c" rw_canAccept rw_commit
proof unfold_locales
  fix w c c'
  assume w: "rw_reachable w"
  then obtain S where S: "rw_rep w S" by (auto simp: rw_reachable_def)
  show "rw_reachable (rw_commit w c)" if "0 \<le> c"
    using rw_commit_rep [OF S that] by (auto simp: rw_reachable_def)
  show "\<not> rw_canAccept (rw_commit w c) c" if "0 \<le> c"
    using rw_canAccept_rep [OF rw_commit_rep [OF S that]] by auto
  show "\<not> rw_canAccept (rw_commit w c') c" if "0 \<le> c'" "\<not> rw_canAccept w c"
    using rw_canAccept_rep [OF rw_commit_rep [OF S that(1)]] rw_canAccept_rep [OF S] that(2)
    by auto
  show "0 \<le> c" if "rw_canAccept w c" using rw_canAccept_rep [OF S] that by auto
qed

text \<open>The counters of a sequence that \<open>checkAndAccept\<close> answers with true.\<close>

fun check_all :: "replay_window \<Rightarrow> int list \<Rightarrow> int list" where
  "check_all w [] = []"
| "check_all w (c # cs) = (case rw_checkAndAccept w c of
      (w', a) \<Rightarrow> (if a then [c] else []) @ check_all w' cs)"

lemma check_all_admit: "check_all w cs = snd (admit_run rw_canAccept rw_commit w cs)"
  by (induction cs arbitrary: w) (auto simp: rw_checkAndAccept_def split_beta)

lemma rw_commits_rep:
  "\<forall>c\<in>set cs. 0 \<le> c \<Longrightarrow> rw_rep w S \<Longrightarrow> rw_rep (foldl rw_commit w cs) (set cs \<union> S)"
proof (induction cs arbitrary: w S)
  case (Cons c cs)
  from Cons.IH [OF _ rw_commit_rep [OF Cons.prems(2)], of c] Cons.prems(1) show ?case by simp
qed simp

section \<open>Keys\<close>

text \<open>
  \<open>hkdf ikm info len\<close> is HKDF-SHA-256 without salt; \<open>gcm_enc key nonce ad pt\<close> and
  \<open>gcm_dec\<close> are AES-128-GCM, the latter \<open>None\<close> where WebCrypto rejects.
\<close>

record ratchet_prims =
  hkdf :: "bytes \<Rightarrow> string \<Rightarrow> nat \<Rightarrow> bytes"
  gcm_enc :: "bytes \<Rightarrow> bytes \<Rightarrow> bytes \<Rightarrow> bytes \<Rightarrow> bytes"
  gcm_dec :: "bytes \<Rightarrow> bytes \<Rightarrow> bytes \<Rightarrow> bytes \<Rightarrow> bytes option"

definition deriveFrameKey :: "ratchet_prims \<Rightarrow> bytes \<Rightarrow> bytes" where
  "deriveFrameKey P chainKey = hkdf P chainKey INFO_FRAME_KEY AEAD_KEY_BYTES"

definition ratchetChain :: "ratchet_prims \<Rightarrow> bytes \<Rightarrow> bytes" where
  "ratchetChain P chainKey = hkdf P chainKey INFO_FRAME_RATCHET CHAIN_KEY_BYTES"

text \<open>\<open>setBigUint64\<close> and \<open>getBigUint64\<close>, big-endian; the former reduces modulo \<open>2 ^ 64\<close>.\<close>

definition u64_be :: "int \<Rightarrow> bytes" where
  "u64_be c = map (\<lambda>i. word_of_int (c div 256 ^ i)) [7, 6, 5, 4, 3, 2, 1, 0]"

definition u64_of :: "bytes \<Rightarrow> int" where
  "u64_of b = foldl (\<lambda>a x. a * 256 + uint x) 0 b"

definition makeNonce :: "direction \<Rightarrow> int \<Rightarrow> bytes" where
  "makeNonce dir c = (if dir = Initiator then 0 else 1) # replicate (AEAD_NONCE_BYTES - 9) 0 @ u64_be c"

lemma length_u64_be [simp]: "length (u64_be c) = 8"
  by (simp add: u64_be_def)

lemma base256_digits:
  "foldl (\<lambda>a x. a * 256 + uint x) a (map (\<lambda>i. word_of_int (c div 256 ^ i) :: byte) (rev [0..<n]))
     = a * 256 ^ n + c mod 256 ^ n"
proof (induction n arbitrary: a)
  case (Suc n)
  have "c mod (256 ^ n * 256) = 256 ^ n * (c div 256 ^ n mod 256) + c mod 256 ^ n"
    by (simp add: zmod_zmult2_eq)
  moreover have "(a * 256 + c div 256 ^ n mod 256) * 256 ^ n =
      a * (256 ^ n * 256) + 256 ^ n * (c div 256 ^ n mod 256)"
    by (simp add: algebra_simps)
  ultimately show ?case using Suc [of "a * 256 + c div 256 ^ n mod 256"]
    by (simp add: uint_word_of_int take_bit_eq_mod mult.commute)
qed simp

lemma u64_roundtrip: "0 \<le> c \<Longrightarrow> c < 2 ^ 64 \<Longrightarrow> u64_of (u64_be c) = c"
proof -
  assume c: "0 \<le> c" "c < 2 ^ 64"
  have "[7, 6, 5, 4, 3, 2, 1, 0] = rev [0..<8]" by (simp add: upt_rec)
  then have "u64_of (u64_be c) = 0 * 256 ^ 8 + c mod 256 ^ 8"
    unfolding u64_of_def u64_be_def by (simp only: base256_digits)
  also have "\<dots> = c" using c by simp
  finally show ?thesis .
qed

lemma u64_of_nonneg: "0 \<le> u64_of b"
proof -
  have "0 \<le> foldl (\<lambda>a x. a * 256 + uint (x :: byte)) a b" if "0 \<le> a" for a :: int
    using that by (induction b arbitrary: a) auto
  then show ?thesis by (simp add: u64_of_def)
qed

lemma makeNonce_inj:
  assumes "makeNonce d c = makeNonce d' c'" "0 \<le> c" "c < 2 ^ 64" "0 \<le> c'" "c' < 2 ^ 64"
  shows "d = d' \<and> c = c'"
proof -
  have "u64_be c = u64_be c'" "d = d'"
    using assms(1) by (auto simp: makeNonce_def AEAD_NONCE_BYTES_def split: if_splits)
      (cases d; cases d'; simp)+
  then show ?thesis using u64_roundtrip assms(2-5) by metis
qed

section \<open>Key cache\<close>

record key_cache =
  kc_keys :: "(int, bytes) jsmap"
  lowestCounter :: int
  chainAtLowest :: bytes
  kc_chain :: bytes
  highestDerived :: int

definition fill_step :: "ratchet_prims \<Rightarrow> key_cache \<Rightarrow> key_cache" where
  "fill_step P k =
     (let ctr = highestDerived k + 1 in
      k\<lparr>kc_keys := jm_set ctr (deriveFrameKey P (kc_chain k)) (kc_keys k),
        kc_chain := ratchetChain P (kc_chain k),
        highestDerived := ctr\<rparr>)"

function fill :: "ratchet_prims \<Rightarrow> key_cache \<Rightarrow> int \<Rightarrow> key_cache" where
  "fill P k upTo = (if highestDerived k < upTo then fill P (fill_step P k) upTo else k)"
  by pat_completeness auto
termination
  by (relation "measure (\<lambda>(P, k, upTo). nat (upTo - highestDerived k))")
    (auto simp: fill_step_def Let_def)

declare fill.simps [simp del]

definition new_cache :: "ratchet_prims \<Rightarrow> bytes \<Rightarrow> int \<Rightarrow> key_cache" where
  "new_cache P initialChain startCounter =
     fill P \<lparr>kc_keys = [], lowestCounter = startCounter, chainAtLowest = initialChain,
             kc_chain = initialChain, highestDerived = startCounter - 1\<rparr>
       (startCounter + RECV_LOOKAHEAD - 1)"

definition kc_get :: "ratchet_prims \<Rightarrow> key_cache \<Rightarrow> int \<Rightarrow> key_cache \<times> bytes option" where
  "kc_get P k counter =
     (if counter < lowestCounter k then (k, None)
      else
        let maxExtend = highestDerived k + RECV_LOOKAHEAD * 2;
            k' = (if counter > highestDerived k \<and> counter \<le> maxExtend
                  then fill P k (counter + RECV_LOOKAHEAD) else k) in
        (k', jm_get (kc_keys k') counter))"

definition prune_step :: "ratchet_prims \<Rightarrow> int \<Rightarrow> key_cache \<Rightarrow> key_cache" where
  "prune_step P c k = k\<lparr>kc_keys := jm_delete c (kc_keys k),
                        chainAtLowest := ratchetChain P (chainAtLowest k)\<rparr>"

definition pruneOlderThan :: "ratchet_prims \<Rightarrow> key_cache \<Rightarrow> int \<Rightarrow> key_cache" where
  "pruneOlderThan P k counter =
     (let windowFloor = counter - RECV_WINDOW_SIZE + 1;
          pruneBelow = (if windowFloor > lowestCounter k then windowFloor else lowestCounter k);
          k1 = fold (prune_step P) [lowestCounter k .. pruneBelow - 1] k;
          k2 = (if pruneBelow > lowestCounter k1 then k1\<lparr>lowestCounter := pruneBelow\<rparr> else k1) in
      fill P k2 (counter + RECV_LOOKAHEAD))"

text \<open>
  The key schedule: the chain key after \<open>n\<close> steps from \<open>ck\<close>, and the frame key derived
  there. A cache whose chain started at counter \<open>b\<close> holds the keys of
  \<open>[lowestCounter .. highestDerived]\<close>, each the one of the schedule.
\<close>

definition chain_at :: "ratchet_prims \<Rightarrow> bytes \<Rightarrow> nat \<Rightarrow> bytes" where
  "chain_at P ck n = (ratchetChain P ^^ n) ck"

definition frame_key_at :: "ratchet_prims \<Rightarrow> bytes \<Rightarrow> int \<Rightarrow> int \<Rightarrow> bytes" where
  "frame_key_at P ck b c = deriveFrameKey P (chain_at P ck (nat (c - b)))"

definition cache_ok :: "ratchet_prims \<Rightarrow> bytes \<Rightarrow> int \<Rightarrow> key_cache \<Rightarrow> bool" where
  "cache_ok P ck b k \<longleftrightarrow> b \<le> lowestCounter k \<and> lowestCounter k \<le> highestDerived k + 1
     \<and> kc_keys k = map (\<lambda>c. (c, frame_key_at P ck b c)) [lowestCounter k .. highestDerived k]
     \<and> chainAtLowest k = chain_at P ck (nat (lowestCounter k - b))
     \<and> kc_chain k = chain_at P ck (nat (highestDerived k + 1 - b))"

lemma chain_at_Suc: "ratchetChain P (chain_at P ck n) = chain_at P ck (Suc n)"
  by (simp add: chain_at_def)

lemma jm_get_schedule:
  "jm_get (map (\<lambda>c. (c, f c)) xs) c = (if c \<in> set xs then Some (f c) else None)"
  by (induction xs) auto

lemma fill_step_ok:
  assumes "cache_ok P ck b k"
  shows "cache_ok P ck b (fill_step P k)"
proof -
  let ?h = "highestDerived k"
  have le: "b \<le> lowestCounter k" "lowestCounter k \<le> ?h + 1" and
    keys: "kc_keys k = map (\<lambda>c. (c, frame_key_at P ck b c)) [lowestCounter k .. ?h]" and
    ch: "kc_chain k = chain_at P ck (nat (?h + 1 - b))"
    using assms by (simp_all add: cache_ok_def)
  have "\<not> jm_has (kc_keys k) (?h + 1)" by (simp add: jm_has_def keys jm_get_schedule)
  moreover have "[lowestCounter k .. ?h + 1] = [lowestCounter k .. ?h] @ [?h + 1]"
    using upto_rec2 [of "lowestCounter k" "?h + 1"] le by simp
  moreover have "Suc (nat (?h + 1 - b)) = nat (?h + 2 - b)" using le by simp
  ultimately show ?thesis using assms
    by (simp add: cache_ok_def fill_step_def Let_def jm_set_fresh keys ch frame_key_at_def
        chain_at_Suc add.commute)
qed

lemma fill_step_fields:
  "lowestCounter (fill_step P k) = lowestCounter k"
  "highestDerived (fill_step P k) = highestDerived k + 1"
  by (simp_all add: fill_step_def Let_def)

lemma fill_ok:
  "cache_ok P ck b k \<Longrightarrow> cache_ok P ck b (fill P k u)
     \<and> lowestCounter (fill P k u) = lowestCounter k
     \<and> highestDerived (fill P k u) = max (highestDerived k) u"
proof (induction P k u rule: fill.induct)
  case (1 P k u)
  then show ?case
    by (subst (1 2 3) fill.simps) (auto simp: fill_step_ok fill_step_fields)
qed

lemma new_cache_ok:
  "cache_ok P ck b (new_cache P ck b) \<and> lowestCounter (new_cache P ck b) = b
     \<and> highestDerived (new_cache P ck b) = b + 7"
proof -
  have "cache_ok P ck b \<lparr>kc_keys = [], lowestCounter = b, chainAtLowest = ck,
             kc_chain = ck, highestDerived = b - 1\<rparr>"
    by (simp add: cache_ok_def chain_at_def)
  from fill_ok [OF this, of "b + RECV_LOOKAHEAD - 1"] show ?thesis
    by (simp add: new_cache_def RECV_LOOKAHEAD_def)
qed

lemma kc_get_ok:
  assumes ok: "cache_ok P ck b k" and g: "kc_get P k c = (k', res)"
  shows "cache_ok P ck b k' \<and> lowestCounter k' = lowestCounter k
    \<and> highestDerived k' = (if highestDerived k < c \<and> c \<le> highestDerived k + 16 then c + 8
                            else highestDerived k)
    \<and> res = (if lowestCounter k \<le> c \<and> c \<le> highestDerived k + 16
              then Some (frame_key_at P ck b c) else None)"
proof -
  have low: "lowestCounter k \<le> highestDerived k + 1" using ok by (simp add: cache_ok_def)
  have fill: "cache_ok P ck b (fill P k (c + 8))" "lowestCounter (fill P k (c + 8)) = lowestCounter k"
    "highestDerived (fill P k (c + 8)) = max (highestDerived k) (c + 8)"
    using fill_ok [OF ok] by simp_all
  have lookup: "jm_get (kc_keys k0) c = (if lowestCounter k0 \<le> c \<and> c \<le> highestDerived k0
      then Some (frame_key_at P ck b c) else None)" if "cache_ok P ck b k0" for k0
    using that by (simp add: cache_ok_def jm_get_schedule)
  show ?thesis using g ok low fill lookup [OF ok] lookup [OF fill(1)]
    by (auto simp: kc_get_def Let_def RECV_LOOKAHEAD_def split: if_splits)
qed

lemma prune_keys:
  "a \<le> m \<Longrightarrow> m \<le> h + 1 \<Longrightarrow> kc_keys k = map (\<lambda>c. (c, f c)) [a .. h] \<Longrightarrow>
     fold (prune_step P) [a .. m - 1] k =
       k\<lparr>kc_keys := map (\<lambda>c. (c, f c)) [m .. h],
         chainAtLowest := (ratchetChain P ^^ nat (m - a)) (chainAtLowest k)\<rparr>"
proof (induction "nat (m - a)" arbitrary: a k)
  case 0
  then show ?case by simp
next
  case (Suc n)
  let ?k = "prune_step P a k"
  have a: "a < m" "a \<le> h" using Suc by simp_all
  have "kc_keys ?k = map (\<lambda>c. (c, f c)) [a + 1 .. h]"
    using Suc.prems a upto_rec1 [of a h]
    by (auto simp: prune_step_def AList.delete_eq filter_map comp_def intro!: filter_True)
  then have "fold (prune_step P) [a + 1 .. m - 1] ?k =
       ?k\<lparr>kc_keys := map (\<lambda>c. (c, f c)) [m .. h],
         chainAtLowest := (ratchetChain P ^^ nat (m - (a + 1))) (chainAtLowest ?k)\<rparr>"
    using Suc by (intro Suc.hyps) simp_all
  moreover have "nat (m - a) = Suc (nat (m - (a + 1)))" using a by simp
  ultimately show ?case using upto_rec1 [of a "m - 1"] a
    by (simp add: prune_step_def funpow_swap1)
qed

lemma prune_ok:
  assumes ok: "cache_ok P ck b k" and c: "c \<le> highestDerived k + 64"
  shows "cache_ok P ck b (pruneOlderThan P k c)
    \<and> lowestCounter (pruneOlderThan P k c) = max (lowestCounter k) (c - 63)
    \<and> highestDerived (pruneOlderThan P k c) = max (highestDerived k) (c + 8)"
proof -
  let ?m = "max (lowestCounter k) (c - 63)"
  let ?k1 = "k\<lparr>kc_keys := map (\<lambda>c. (c, frame_key_at P ck b c)) [?m .. highestDerived k],
         chainAtLowest := (ratchetChain P ^^ nat (?m - lowestCounter k)) (chainAtLowest k)\<rparr>"
  let ?k2 = "?k1\<lparr>lowestCounter := ?m\<rparr>"
  have le: "b \<le> lowestCounter k" "lowestCounter k \<le> highestDerived k + 1"
    and at: "chainAtLowest k = chain_at P ck (nat (lowestCounter k - b))"
    using ok by (simp_all add: cache_ok_def)
  have "fold (prune_step P) [lowestCounter k .. ?m - 1] k = ?k1"
    using ok le c by (intro prune_keys) (auto simp: cache_ok_def)
  moreover have "(if c - RECV_WINDOW_SIZE + 1 > lowestCounter k then c - RECV_WINDOW_SIZE + 1
      else lowestCounter k) = ?m"
    by (simp add: RECV_WINDOW_SIZE_def REPLAY_WINDOW_SIZE_def max_def)
  moreover have "(if ?m > lowestCounter ?k1 then ?k1\<lparr>lowestCounter := ?m\<rparr> else ?k1) = ?k2"
    by (cases "lowestCounter k < c - 63") (simp_all add: max_def)
  ultimately have eq: "pruneOlderThan P k c = fill P ?k2 (c + 8)"
    by (simp only: pruneOlderThan_def Let_def RECV_LOOKAHEAD_def)
  have "nat (?m - lowestCounter k) + nat (lowestCounter k - b) = nat (?m - b)"
    using le by simp
  then have "cache_ok P ck b ?k2" using ok le c at
    by (simp add: cache_ok_def chain_at_def funpow_add [symmetric, THEN fun_cong, unfolded comp_def])
  from fill_ok [OF this, of "c + 8"] show ?thesis by (simp add: eq)
qed

section \<open>Session\<close>

record ratchet_session =
  sendChain :: bytes
  sendCounter :: int
  localDir :: direction
  remoteDir :: direction
  recvCache :: key_cache
  rs_replay :: replay_window

definition other_direction :: "direction \<Rightarrow> direction" where
  "other_direction d = (if d = Initiator then Responder else Initiator)"

definition newRatchetSession ::
  "ratchet_prims \<Rightarrow> bytes \<Rightarrow> bytes \<Rightarrow> direction \<Rightarrow> ratchet_error + ratchet_session" where
  "newRatchetSession P sendChainKey recvChainKey dir =
     (if length sendChainKey \<noteq> CHAIN_KEY_BYTES then Inl BadSendChainKey
      else if length recvChainKey \<noteq> CHAIN_KEY_BYTES then Inl BadRecvChainKey
      else Inr \<lparr>sendChain = sendChainKey, sendCounter = 0, localDir = dir,
                remoteDir = other_direction dir, recvCache = new_cache P recvChainKey 0,
                rs_replay = new_replay\<rparr>)"

definition fromCompromisedState ::
  "ratchet_prims \<Rightarrow> bytes \<Rightarrow> int \<Rightarrow> direction \<Rightarrow> ratchet_error + ratchet_session" where
  "fromCompromisedState P recvChainKey nextCounter dir =
     (if length recvChainKey \<noteq> CHAIN_KEY_BYTES then Inl BadRecvChainKey
      else Inr \<lparr>sendChain = replicate CHAIN_KEY_BYTES 0, sendCounter = 0, localDir = dir,
                remoteDir = other_direction dir, recvCache = new_cache P recvChainKey nextCounter,
                rs_replay = new_replay\<rparr>)"

definition encrypt ::
  "ratchet_prims \<Rightarrow> ratchet_session \<Rightarrow> bytes \<Rightarrow> bytes \<Rightarrow> ratchet_session \<times> bytes" where
  "encrypt P s plaintext ad =
     (let counter = sendCounter s;
          rawKey = deriveFrameKey P (sendChain s);
          nonce = makeNonce (localDir s) counter;
          ct = gcm_enc P rawKey nonce ad plaintext in
      (s\<lparr>sendCounter := counter + 1, sendChain := ratchetChain P (sendChain s)\<rparr>,
       u64_be counter @ ct))"

text \<open>
  \<open>decrypt\<close> up to the \<open>await\<close> of the AEAD, and what runs after it. Between the two other
  calls may run, so the second half takes the session it finds then.
\<close>

record pending_decrypt =
  pd_counter :: int
  pd_key :: bytes
  pd_nonce :: bytes
  pd_ad :: bytes
  pd_ct :: bytes

definition decrypt_begin ::
  "ratchet_prims \<Rightarrow> ratchet_session \<Rightarrow> bytes \<Rightarrow> bytes
     \<Rightarrow> ratchet_session \<times> (ratchet_error + pending_decrypt)" where
  "decrypt_begin P s wire ad =
     (if length wire < 8 + TAG_LEN then (s, Inl WireTooShort)
      else let counter = u64_of (take 8 wire) in
        if \<not> rw_canAccept (rs_replay s) counter then (s, Inl (ReplayRejected counter))
        else let (cache, rawKey) = kc_get P (recvCache s) counter; s' = s\<lparr>recvCache := cache\<rparr> in
          (case rawKey of
             None \<Rightarrow> (s', Inl (KeyUnavailable counter (lowestCounter cache)))
           | Some key \<Rightarrow> (s', Inr \<lparr>pd_counter = counter, pd_key = key,
                 pd_nonce = makeNonce (remoteDir s) counter, pd_ad = ad, pd_ct = drop 8 wire\<rparr>)))"

definition decrypt_finish ::
  "ratchet_prims \<Rightarrow> ratchet_session \<Rightarrow> pending_decrypt
     \<Rightarrow> ratchet_session \<times> (ratchet_error + bytes)" where
  "decrypt_finish P s p =
     (case gcm_dec P (pd_key p) (pd_nonce p) (pd_ad p) (pd_ct p) of
        None \<Rightarrow> (s, Inl AeadFailed)
      | Some pt \<Rightarrow> (s\<lparr>rs_replay := rw_commit (rs_replay s) (pd_counter p),
                       recvCache := pruneOlderThan P (recvCache s) (pd_counter p)\<rparr>, Inr pt))"

definition decrypt ::
  "ratchet_prims \<Rightarrow> ratchet_session \<Rightarrow> bytes \<Rightarrow> bytes
     \<Rightarrow> ratchet_session \<times> (ratchet_error + bytes)" where
  "decrypt P s wire ad = (case decrypt_begin P s wire ad of
      (s', Inl e) \<Rightarrow> (s', Inl e)
    | (s', Inr p) \<Rightarrow> decrypt_finish P s' p)"

definition snapshotRecvChain :: "ratchet_session \<Rightarrow> bytes" where
  "snapshotRecvChain s = chainAtLowest (recvCache s)"

definition recvCounter :: "ratchet_session \<Rightarrow> int" where
  "recvCounter s = lowestCounter (recvCache s)"

text \<open>Runs: a sequence of messages sent, and a sequence of frames received one after the other.\<close>

fun send_all :: "ratchet_prims \<Rightarrow> ratchet_session \<Rightarrow> (bytes \<times> bytes) list
    \<Rightarrow> ratchet_session \<times> bytes list" where
  "send_all P s [] = (s, [])"
| "send_all P s ((pt, ad) # ms) =
     (let (s1, w) = encrypt P s pt ad; (s2, ws) = send_all P s1 ms in (s2, w # ws))"

fun receive_all :: "ratchet_prims \<Rightarrow> ratchet_session \<Rightarrow> (bytes \<times> bytes) list
    \<Rightarrow> ratchet_session \<times> (ratchet_error + bytes) list" where
  "receive_all P s [] = (s, [])"
| "receive_all P s ((w, ad) # ws) =
     (let (s1, a) = decrypt P s w ad; (s2, as) = receive_all P s1 ws in (s2, a # as))"

definition wire_counter :: "bytes \<Rightarrow> int" where
  "wire_counter w = u64_of (take 8 w)"

text \<open>The counters of the frames that a run delivered, in order.\<close>

definition delivered_counters ::
  "ratchet_prims \<Rightarrow> ratchet_session \<Rightarrow> (bytes \<times> bytes) list \<Rightarrow> int list" where
  "delivered_counters P s ws =
     map (\<lambda>(w, a). wire_counter (fst w)) (filter (\<lambda>(w, a). \<not> isl a) (zip ws (snd (receive_all P s ws))))"

section \<open>Session invariant\<close>

text \<open>
  \<open>S\<close> is the set of counters delivered so far. The cache holds the schedule of the receive
  chain from the lower edge of the replay window on, and at least eight keys past the
  highest delivered counter.
\<close>

definition session_inv :: "ratchet_prims \<Rightarrow> bytes \<Rightarrow> int \<Rightarrow> int set \<Rightarrow> ratchet_session \<Rightarrow> bool" where
  "session_inv P ck b S s \<longleftrightarrow> cache_ok P ck b (recvCache s) \<and> rw_rep (rs_replay s) S
     \<and> b + 7 \<le> highestDerived (recvCache s)
     \<and> (\<forall>c\<in>S. c + 8 \<le> highestDerived (recvCache s) \<and> c - 63 \<le> lowestCounter (recvCache s))
     \<and> (lowestCounter (recvCache s) = b \<or> lowestCounter (recvCache s) + 63 \<in> S)"

lemma new_session_inv:
  assumes "newRatchetSession P sck rck d = Inr s"
  shows "session_inv P rck 0 {} s" "remoteDir s = other_direction d" "localDir s = d"
    "sendChain s = sck" "sendCounter s = 0" "highestDerived (recvCache s) = 7"
  using assms new_cache_ok [of P rck 0]
  by (auto simp: newRatchetSession_def session_inv_def rw_rep_new split: if_splits)

lemma begin_cases:
  fixes w ad :: bytes and s :: ratchet_session
  assumes inv: "session_inv P ck b S s"
  defines "c \<equiv> wire_counter w" and "h \<equiv> highestDerived (recvCache s)"
  shows "session_inv P ck b S (fst (decrypt_begin P s w ad))"
    and "rs_replay (fst (decrypt_begin P s w ad)) = rs_replay s"
    and "remoteDir (fst (decrypt_begin P s w ad)) = remoteDir s"
    and "h \<le> highestDerived (recvCache (fst (decrypt_begin P s w ad)))"
    and "snd (decrypt_begin P s w ad) =
     (if length w < 24 then Inl WireTooShort
      else if \<not> rw_canAccept (rs_replay s) c then Inl (ReplayRejected c)
      else if c < lowestCounter (recvCache s) \<or> h + 16 < c
        then Inl (KeyUnavailable c (lowestCounter (recvCache s)))
      else Inr \<lparr>pd_counter = c, pd_key = frame_key_at P ck b c,
             pd_nonce = makeNonce (remoteDir s) c, pd_ad = ad, pd_ct = drop 8 w\<rparr>)"
    and "snd (decrypt_begin P s w ad) = Inr p \<Longrightarrow>
      pd_counter p = c \<and> c \<le> highestDerived (recvCache (fst (decrypt_begin P s w ad)))"
    and "lowestCounter (recvCache (fst (decrypt_begin P s w ad))) = lowestCounter (recvCache s)"
    and "c \<le> h \<or> h + 16 < c \<Longrightarrow> fst (decrypt_begin P s w ad) = s"
    and "24 \<le> length w \<Longrightarrow> rw_canAccept (rs_replay s) c \<Longrightarrow> h < c \<Longrightarrow> c \<le> h + 16 \<Longrightarrow>
      highestDerived (recvCache (fst (decrypt_begin P s w ad))) = c + 8"
proof -
  obtain k' res where g: "kc_get P (recvCache s) c = (k', res)" by fastforce
  have ok: "cache_ok P ck b (recvCache s)" using inv by (simp add: session_inv_def)
  note get = kc_get_ok [OF ok g]
  have eq: "decrypt_begin P s w ad =
     (if length w < 24 then (s, Inl WireTooShort)
      else if \<not> rw_canAccept (rs_replay s) c then (s, Inl (ReplayRejected c))
      else (s\<lparr>recvCache := k'\<rparr>, case res of None \<Rightarrow> Inl (KeyUnavailable c (lowestCounter k'))
           | Some key \<Rightarrow> Inr \<lparr>pd_counter = c, pd_key = key,
                 pd_nonce = makeNonce (remoteDir s) c, pd_ad = ad, pd_ct = drop 8 w\<rparr>))"
    using g by (auto simp: decrypt_begin_def Let_def c_def wire_counter_def TAG_LEN_def
        split: option.split)
  have mono: "h \<le> highestDerived k'" using get by (auto simp: h_def)
  then have "session_inv P ck b S (s\<lparr>recvCache := k'\<rparr>)"
    using inv get by (fastforce simp: session_inv_def h_def)
  with inv show "session_inv P ck b S (fst (decrypt_begin P s w ad))" by (simp add: eq)
  show "rs_replay (fst (decrypt_begin P s w ad)) = rs_replay s"
    "remoteDir (fst (decrypt_begin P s w ad)) = remoteDir s" by (simp_all add: eq)
  show "h \<le> highestDerived (recvCache (fst (decrypt_begin P s w ad)))"
    using mono by (simp add: eq h_def)
  show "snd (decrypt_begin P s w ad) =
     (if length w < 24 then Inl WireTooShort
      else if \<not> rw_canAccept (rs_replay s) c then Inl (ReplayRejected c)
      else if c < lowestCounter (recvCache s) \<or> h + 16 < c
        then Inl (KeyUnavailable c (lowestCounter (recvCache s)))
      else Inr \<lparr>pd_counter = c, pd_key = frame_key_at P ck b c,
             pd_nonce = makeNonce (remoteDir s) c, pd_ad = ad, pd_ct = drop 8 w\<rparr>)"
    using get by (auto simp: eq h_def)
  show "pd_counter p = c \<and> c \<le> highestDerived (recvCache (fst (decrypt_begin P s w ad)))"
    if "snd (decrypt_begin P s w ad) = Inr p"
    using that get by (auto simp: eq split: if_splits)
  show "lowestCounter (recvCache (fst (decrypt_begin P s w ad))) = lowestCounter (recvCache s)"
    using get by (simp add: eq)
  show "fst (decrypt_begin P s w ad) = s" if "c \<le> h \<or> h + 16 < c"
    using that g by (auto simp: eq h_def kc_get_def Let_def RECV_LOOKAHEAD_def split: if_splits)
  show "highestDerived (recvCache (fst (decrypt_begin P s w ad))) = c + 8"
    if "24 \<le> length w" "rw_canAccept (rs_replay s) c" "h < c" "c \<le> h + 16"
    using that get by (simp add: eq h_def)
qed

lemma finish_inv:
  assumes inv: "session_inv P ck b S s" and c: "0 \<le> c" "b \<le> c"
    "c \<le> highestDerived (recvCache s)"
  shows "session_inv P ck b (insert c S) (s\<lparr>rs_replay := rw_commit (rs_replay s) c,
            recvCache := pruneOlderThan P (recvCache s) c\<rparr>)"
proof -
  have "cache_ok P ck b (recvCache s)" using inv by (simp add: session_inv_def)
  from prune_ok [OF this, of c] c have k: "cache_ok P ck b (pruneOlderThan P (recvCache s) c)"
    and l: "lowestCounter (pruneOlderThan P (recvCache s) c)
        = max (lowestCounter (recvCache s)) (c - 63)"
    and h: "highestDerived (pruneOlderThan P (recvCache s) c)
        = max (highestDerived (recvCache s)) (c + 8)"
    by simp_all
  have r: "rw_rep (rw_commit (rs_replay s) c) (insert c S)"
    using inv c by (intro rw_commit_rep) (simp_all add: session_inv_def)
  have old: "b + 7 \<le> highestDerived (recvCache s)"
    "\<forall>x\<in>S. x + 8 \<le> highestDerived (recvCache s) \<and> x - 63 \<le> lowestCounter (recvCache s)"
    "lowestCounter (recvCache s) = b \<or> lowestCounter (recvCache s) + 63 \<in> S"
    using inv by (simp_all add: session_inv_def)
  have "max (lowestCounter (recvCache s)) (c - 63) = b
      \<or> max (lowestCounter (recvCache s)) (c - 63) + 63 \<in> insert c S"
    using old(3) by (auto simp: max_def)
  moreover have "\<forall>x\<in>insert c S. x + 8 \<le> max (highestDerived (recvCache s)) (c + 8)
      \<and> x - 63 \<le> max (lowestCounter (recvCache s)) (c - 63)"
    using old(2) by auto
  ultimately show ?thesis using k r old(1) by (simp add: session_inv_def l h)
qed

text \<open>One call of \<open>decrypt\<close>, with no other in between.\<close>

definition accepts :: "ratchet_session \<Rightarrow> bytes \<Rightarrow> bool" where
  "accepts s w \<longleftrightarrow> 24 \<le> length w \<and> rw_canAccept (rs_replay s) (wire_counter w)
     \<and> lowestCounter (recvCache s) \<le> wire_counter w
     \<and> wire_counter w \<le> highestDerived (recvCache s) + 16"

definition opened :: "ratchet_prims \<Rightarrow> bytes \<Rightarrow> int \<Rightarrow> direction \<Rightarrow> bytes \<Rightarrow> bytes \<Rightarrow> bytes option" where
  "opened P ck b dir w ad = gcm_dec P (frame_key_at P ck b (wire_counter w))
     (makeNonce dir (wire_counter w)) ad (drop 8 w)"

lemma decrypt_delivers:
  assumes inv: "session_inv P ck b S s" and a: "accepts s w"
    and o: "opened P ck b (remoteDir s) w ad = Some pt"
  shows "snd (decrypt P s w ad) = Inr pt"
    and "session_inv P ck b (insert (wire_counter w) S) (fst (decrypt P s w ad))"
    and "remoteDir (fst (decrypt P s w ad)) = remoteDir s"
    and "wire_counter w \<le> highestDerived (recvCache s) \<Longrightarrow>
      highestDerived (recvCache (fst (decrypt P s w ad)))
        = max (highestDerived (recvCache s)) (wire_counter w + 8)"
proof -
  note bc = begin_cases [OF inv, of w ad]
  obtain s' p where e: "decrypt_begin P s w ad = (s', Inr p)"
    and p: "p = \<lparr>pd_counter = wire_counter w, pd_key = frame_key_at P ck b (wire_counter w),
       pd_nonce = makeNonce (remoteDir s) (wire_counter w), pd_ad = ad, pd_ct = drop 8 w\<rparr>"
    using bc(5) a by (cases "decrypt_begin P s w ad") (auto simp: accepts_def)
  have s': "session_inv P ck b S s'" "rs_replay s' = rs_replay s" "remoteDir s' = remoteDir s"
    "wire_counter w \<le> highestDerived (recvCache s')"
    using bc(1-3) bc(6) [of p] e by auto
  have d: "decrypt P s w ad = (s'\<lparr>rs_replay := rw_commit (rs_replay s') (wire_counter w),
       recvCache := pruneOlderThan P (recvCache s') (wire_counter w)\<rparr>, Inr pt)"
    using o by (simp add: decrypt_def e decrypt_finish_def p opened_def)
  have "b \<le> wire_counter w"
    using inv a by (simp add: session_inv_def accepts_def cache_ok_def)
  with finish_inv [OF s'(1) _ _ s'(4)] s'(3) show
    "snd (decrypt P s w ad) = Inr pt"
    "session_inv P ck b (insert (wire_counter w) S) (fst (decrypt P s w ad))"
    "remoteDir (fst (decrypt P s w ad)) = remoteDir s"
    by (simp_all add: d wire_counter_def u64_of_nonneg)
  show "highestDerived (recvCache (fst (decrypt P s w ad)))
        = max (highestDerived (recvCache s)) (wire_counter w + 8)"
    if le: "wire_counter w \<le> highestDerived (recvCache s)"
  proof -
    have "s' = s" using bc(8) le e by simp
    then show ?thesis using prune_ok [of P ck b "recvCache s" "wire_counter w"] inv le
      by (simp add: d session_inv_def)
  qed
qed

lemma decrypt_rejects:
  assumes inv: "session_inv P ck b S s"
    and no: "\<not> accepts s w \<or> opened P ck b (remoteDir s) w ad = None"
  shows "\<exists>e. snd (decrypt P s w ad) = Inl e"
    and "session_inv P ck b S (fst (decrypt P s w ad))"
    and "rs_replay (fst (decrypt P s w ad)) = rs_replay s"
    and "remoteDir (fst (decrypt P s w ad)) = remoteDir s"
    and "highestDerived (recvCache s) \<le> highestDerived (recvCache (fst (decrypt P s w ad)))"
    and "lowestCounter (recvCache (fst (decrypt P s w ad))) = lowestCounter (recvCache s)"
    and "fst (decrypt P s w ad) = fst (decrypt_begin P s w ad)"
proof -
  note bc = begin_cases [OF inv, of w ad]
  have eq: "(\<exists>e. snd (decrypt P s w ad) = Inl e) \<and> fst (decrypt P s w ad) = fst (decrypt_begin P s w ad)"
    using no bc(5) by (cases "decrypt_begin P s w ad")
      (auto simp: decrypt_def decrypt_finish_def accepts_def opened_def split: sum.split if_splits)
  with bc(1-4,7) show "\<exists>e. snd (decrypt P s w ad) = Inl e"
    and "session_inv P ck b S (fst (decrypt P s w ad))"
    and "rs_replay (fst (decrypt P s w ad)) = rs_replay s"
    and "remoteDir (fst (decrypt P s w ad)) = remoteDir s"
    and "highestDerived (recvCache s) \<le> highestDerived (recvCache (fst (decrypt P s w ad)))"
    and "lowestCounter (recvCache (fst (decrypt P s w ad))) = lowestCounter (recvCache s)"
    and "fst (decrypt P s w ad) = fst (decrypt_begin P s w ad)"
    by auto
qed

lemma decrypt_result:
  assumes inv: "session_inv P ck b S s"
  shows "snd (decrypt P s w ad) = Inr pt \<longleftrightarrow>
    accepts s w \<and> opened P ck b (remoteDir s) w ad = Some pt"
  using decrypt_delivers(1) [OF inv] decrypt_rejects(1) [OF inv, of w ad]
  by (metis Inl_Inr_False Inr_inject option.exhaust)

lemma decrypt_inv:
  assumes inv: "session_inv P ck b S s"
  shows "session_inv P ck b (if isl (snd (decrypt P s w ad)) then S else insert (wire_counter w) S)
    (fst (decrypt P s w ad)) \<and> remoteDir (fst (decrypt P s w ad)) = remoteDir s"
proof (cases "accepts s w \<and> opened P ck b (remoteDir s) w ad \<noteq> None")
  case True
  then show ?thesis using decrypt_delivers [OF inv] by fastforce
next
  case False
  then show ?thesis using decrypt_rejects [OF inv, of w ad] by fastforce
qed

lemma delivered_Nil [simp]: "delivered_counters P s [] = []"
  by (simp add: delivered_counters_def)

lemma delivered_Cons [simp]:
  "delivered_counters P s ((w, ad) # ws) =
     (if isl (snd (decrypt P s w ad)) then [] else [wire_counter w])
       @ delivered_counters P (fst (decrypt P s w ad)) ws"
  by (auto simp: delivered_counters_def split_beta)

lemma receive_all_Cons [simp]:
  "fst (receive_all P s ((w, ad) # ws)) = fst (receive_all P (fst (decrypt P s w ad)) ws)"
  "snd (receive_all P s ((w, ad) # ws))
     = snd (decrypt P s w ad) # snd (receive_all P (fst (decrypt P s w ad)) ws)"
  by (simp_all add: split_beta)

lemmas receive_all_simps = receive_all.simps(1) receive_all_Cons
declare receive_all.simps(2) [simp del]

lemma receive_all_inv:
  "session_inv P ck b S s \<Longrightarrow>
     session_inv P ck b (S \<union> set (delivered_counters P s ws)) (fst (receive_all P s ws))
     \<and> remoteDir (fst (receive_all P s ws)) = remoteDir s"
proof (induction ws arbitrary: s S)
  case (Cons x ws)
  obtain w ad where x: "x = (w, ad)" by fastforce
  from Cons.IH [OF conjunct1 [OF decrypt_inv [OF Cons.prems, of w ad]]]
    decrypt_inv [OF Cons.prems, of w ad] show ?case
    by (auto simp: x split: if_splits)
qed simp

lemma replay_reject_kept:
  assumes "session_inv P ck b S s" "c \<in> S"
  shows "c \<notin> set (delivered_counters P s ws)"
  using assms
proof (induction ws arbitrary: s S)
  case (Cons x ws)
  obtain w ad where x: "x = (w, ad)" by fastforce
  let ?s = "fst (decrypt P s w ad)"
  have "wire_counter w \<noteq> c" if "snd (decrypt P s w ad) = Inr pt" for pt
    using that Cons.prems rw_canAccept_rep [of "rs_replay s" S "wire_counter w"]
    by (auto simp: decrypt_result [OF Cons.prems(1)] accepts_def session_inv_def)
  moreover have "c \<notin> set (delivered_counters P ?s ws)"
    using Cons.IH [OF conjunct1 [OF decrypt_inv [OF Cons.prems(1), of w ad]]] Cons.prems(2)
    by simp
  ultimately show ?case by (cases "snd (decrypt P s w ad)") (auto simp: x)
qed simp

section \<open>Sending\<close>

lemma send_all_nth:
  "i < length ms \<Longrightarrow> snd (send_all P s ms) ! i =
     u64_be (sendCounter s + int i) @
       gcm_enc P (deriveFrameKey P (chain_at P (sendChain s) i))
         (makeNonce (localDir s) (sendCounter s + int i)) (snd (ms ! i)) (fst (ms ! i))"
proof (induction ms arbitrary: s i)
  case (Cons m ms)
  obtain pt ad where m: "m = (pt, ad)" by fastforce
  show ?case
  proof (cases i)
    case 0
    then show ?thesis by (simp add: m encrypt_def Let_def split_beta chain_at_def)
  next
    case (Suc j)
    then show ?thesis using Cons.IH [of j "fst (encrypt P s pt ad)"] Cons.prems
      by (simp add: m split_beta encrypt_def Let_def chain_at_def funpow_swap1 algebra_simps)
  qed
qed simp

lemma length_send_all: "length (snd (send_all P s ms)) = length ms"
  by (induction ms arbitrary: s) (auto simp: split_beta)

definition gcm_laws :: "ratchet_prims \<Rightarrow> bool" where
  "gcm_laws P \<longleftrightarrow> (\<forall>k n ad pt. gcm_dec P k n ad (gcm_enc P k n ad pt) = Some pt
     \<and> length (gcm_enc P k n ad pt) = length pt + 16)"

lemma sent_frame:
  assumes P: "gcm_laws P" and s: "sendCounter s = 0" "sendChain s = ck"
    and i: "i < length ms" "int i < 2 ^ 64" and w: "w = snd (send_all P s ms) ! i"
  shows "wire_counter w = int i" and "24 \<le> length w"
    and "opened P ck 0 (localDir s) w (snd (ms ! i)) = Some (fst (ms ! i))"
  using P send_all_nth [OF i(1), of P s] s i(2) u64_roundtrip [of "int i"]
  by (simp_all add: w gcm_laws_def wire_counter_def opened_def frame_key_at_def)

lemma receive_in_order:
  assumes P: "gcm_laws P" and n: "int (i + length ms) \<le> 2 ^ 64"
    and inv: "session_inv P ck 0 S r" and S: "\<forall>x\<in>S. x < int i"
    and h: "highestDerived (recvCache r) = int i + 7"
    and s: "sendCounter s = int i" "sendChain s = chain_at P ck i" "remoteDir r = localDir s"
  shows "snd (receive_all P r (zip (snd (send_all P s ms)) (map snd ms))) = map (Inr \<circ> fst) ms
    \<and> highestDerived (recvCache (fst (receive_all P r (zip (snd (send_all P s ms)) (map snd ms)))))
        = int (i + length ms) + 7"
  using n inv S h s
proof (induction ms arbitrary: i S r s)
  case (Cons m ms)
  obtain pt ad where m: "m = (pt, ad)" by fastforce
  let ?w = "snd (encrypt P s pt ad)" and ?s = "fst (encrypt P s pt ad)"
  have i: "int i < 2 ^ 64" using Cons.prems(1) by simp
  have w: "wire_counter ?w = int i" "24 \<le> length ?w"
    "opened P ck 0 (localDir s) ?w ad = Some pt"
    using P Cons.prems i u64_roundtrip [of "int i"]
    by (simp_all add: encrypt_def Let_def wire_counter_def gcm_laws_def opened_def frame_key_at_def)
  have "lowestCounter (recvCache r) \<le> int i" "int i \<notin> S"
    using Cons.prems(2,3) by (auto simp: session_inv_def)
  then have a: "accepts r ?w"
    using w Cons.prems rw_canAccept_rep [of "rs_replay r" S "int i"]
    by (auto simp: accepts_def session_inv_def)
  note d = decrypt_delivers [OF Cons.prems(2) a, of ad pt]
  have d': "snd (decrypt P r ?w ad) = Inr pt"
    "session_inv P ck 0 (insert (int i) S) (fst (decrypt P r ?w ad))"
    "remoteDir (fst (decrypt P r ?w ad)) = remoteDir r"
    "highestDerived (recvCache (fst (decrypt P r ?w ad))) = int (Suc i) + 7"
    using d w Cons.prems by simp_all
  have s': "sendCounter ?s = int (Suc i)" "sendChain ?s = chain_at P ck (Suc i)"
    "localDir ?s = localDir s"
    using Cons.prems by (simp_all add: encrypt_def Let_def chain_at_Suc)
  have "snd (receive_all P (fst (decrypt P r ?w ad)) (zip (snd (send_all P ?s ms)) (map snd ms)))
        = map (Inr \<circ> fst) ms
    \<and> highestDerived (recvCache (fst (receive_all P (fst (decrypt P r ?w ad))
        (zip (snd (send_all P ?s ms)) (map snd ms))))) = int (Suc i + length ms) + 7"
    using Cons.prems(1,3,7) d' s'
    by (intro Cons.IH [where S = "insert (int i) S"]) auto
  with d' show ?case by (simp add: m split_beta)
qed simp

lemma delivered_distinct:
  "session_inv P ck b S s \<Longrightarrow> distinct (delivered_counters P s ws)"
proof (induction ws arbitrary: s S)
  case (Cons x ws)
  obtain w ad where x: "x = (w, ad)" by fastforce
  note inv = conjunct1 [OF decrypt_inv [OF Cons.prems, of w ad]]
  show ?case using Cons.IH [OF inv] replay_reject_kept [OF inv, of "wire_counter w" ws]
    by (auto simp: x)
qed simp

text \<open>The state of a receiver after any sequence of frames.\<close>

lemma receiver_inv:
  assumes "newRatchetSession P sck rck d = Inr r0" "r = fst (receive_all P r0 ws)"
  shows "session_inv P rck 0 (set (delivered_counters P r0 ws)) r"
    and "remoteDir r = other_direction d"
  using receive_all_inv [OF new_session_inv(1) [OF assms(1)], of ws] new_session_inv(2) [OF assms(1)]
  by (simp_all add: assms(2))

section \<open>Properties\<close>

text \<open>A concrete instance of the primitives, for the witnesses.\<close>

definition sample_tag :: "bytes \<Rightarrow> bytes" where
  "sample_tag k = map (\<lambda>x. x OR 1) (take 16 (k @ replicate 16 0))"

definition sample_prims :: ratchet_prims where
  "sample_prims = \<lparr>hkdf = (\<lambda>ikm info len. map (\<lambda>i. of_nat (length info + i) + 3 * hd (ikm @ [0])) [0..<len]),
     gcm_enc = (\<lambda>k n ad pt. pt @ sample_tag k),
     gcm_dec = (\<lambda>k n ad ct. if drop (length ct - 16) ct = sample_tag k
                 then Some (take (length ct - 16) ct) else None)\<rparr>"

lemma sample_gcm_laws: "gcm_laws sample_prims"
  by (auto simp: gcm_laws_def sample_prims_def sample_tag_def min_def)

definition sample_session :: "byte \<Rightarrow> byte \<Rightarrow> direction \<Rightarrow> ratchet_session" where
  "sample_session a b d =
     projr (newRatchetSession sample_prims (replicate 32 a) (replicate 32 b) d)"

lemma sample_session:
  "newRatchetSession sample_prims (replicate 32 a) (replicate 32 b) d = Inr (sample_session a b d)"
  by (simp add: sample_session_def newRatchetSession_def CHAIN_KEY_BYTES_def)

lemma session_inv_first_frame:
  assumes "gcm_laws P" "newRatchetSession P k1 k2 d = Inr s"
    "newRatchetSession P k2 k1 (other_direction d) = Inr r" "ms \<noteq> []"
  shows "snd (decrypt P r (snd (send_all P s ms) ! 0) (snd (ms ! 0))) = Inr (fst (ms ! 0))"
proof -
  let ?w = "snd (send_all P s ms) ! 0"
  note inv = new_session_inv [OF assms(3)]
  have n: "0 < length ms" "int 0 < 2 ^ 64" using assms(4) by simp_all
  note w = sent_frame [OF assms(1) new_session_inv(5,4) [OF assms(2)] n refl]
  have "remoteDir r = localDir s"
    using inv(2) new_session_inv(3) [OF assms(2)] by (cases d) (simp_all add: other_direction_def)
  moreover have "lowestCounter (recvCache r) = 0" using inv(1) by (simp add: session_inv_def)
  then have "accepts r ?w"
    using w inv rw_canAccept_rep [of "rs_replay r" "{}" 0]
    by (simp add: accepts_def session_inv_def)
  ultimately show ?thesis using decrypt_result [OF inv(1)] w(3) by simp
qed

text \<open>C16: The replay window is exact: after committing any sequence of counters, canAccept answers true
  for precisely the counters that are not negative, were not committed, and are less than 64
  below every committed one.\<close>

theorem replay_window_exact:
  assumes "\<forall>x\<in>set cs. 0 \<le> x"
  shows "rw_canAccept (foldl rw_commit new_replay cs) c \<longleftrightarrow>
    0 \<le> c \<and> c \<notin> set cs \<and> (\<forall>x\<in>set cs. x < c + 64)"
  using rw_canAccept_rep [OF rw_commits_rep [OF assms rw_rep_new]] by simp

theorem replay_window_exact_witness:
  "rw_canAccept (foldl rw_commit new_replay [5, 70, 3]) 7
   \<and> \<not> rw_canAccept (foldl rw_commit new_replay [5, 70, 3]) 6
   \<and> \<not> rw_canAccept (foldl rw_commit new_replay [5, 70, 3]) 70"
  using replay_window_exact [of "[5, 70, 3]" 7] replay_window_exact [of "[5, 70, 3]" 6]
    replay_window_exact [of "[5, 70, 3]" 70] by simp

text \<open>Note: checkAndAccept admits no counter twice: of any sequence of counters offered to a fresh window,
  the accepted ones are distinct.\<close>

theorem replay_window_admits_once:
  "distinct (check_all new_replay cs)"
proof -
  have "rw_reachable new_replay" using rw_rep_new by (auto simp: rw_reachable_def)
  from replay.run_distinct [OF this, of cs] show ?thesis by (simp add: check_all_admit)
qed

text \<open>C12: No replay: decrypt calls that run one after the other on a session, over any frames whatever,
  deliver each frame counter at most once.\<close>

theorem decrypt_delivers_once:
  assumes "newRatchetSession P sck rck d = Inr s"
  shows "distinct (delivered_counters P s ws)"
  by (rule delivered_distinct [OF new_session_inv(1) [OF assms]])

theorem decrypt_delivers_once_witness:
  "distinct (delivered_counters sample_prims (sample_session 1 2 Responder)
     [(u64_be 0 @ sample_tag [], []), (u64_be 0 @ sample_tag [], [])])"
  by (rule decrypt_delivers_once [OF sample_session])

text \<open>Frames decrypted in the order of sending.\<close>

lemma in_order_roundtrip:
  assumes "gcm_laws P" and "newRatchetSession P k1 k2 d = Inr s"
    and "newRatchetSession P k2 k1 (other_direction d) = Inr r" and "length ms \<le> 2 ^ 64"
  shows "snd (receive_all P r (zip (snd (send_all P s ms)) (map snd ms))) = map (Inr \<circ> fst) ms"
proof -
  have dir: "remoteDir r = localDir s"
    using new_session_inv(2) [OF assms(3)] new_session_inv(3) [OF assms(2)]
    by (cases d) (simp_all add: other_direction_def)
  have "int (0 + length ms) \<le> 2 ^ 64" using assms(4) by simp
  from receive_in_order [OF assms(1) this new_session_inv(1) [OF assms(3)], of s] show ?thesis
    using new_session_inv [OF assms(2)] new_session_inv(6) [OF assms(3)] dir
    by (simp add: chain_at_def)
qed

text \<open>C11: Round trip in order: what one side encrypts, the other decrypts in the order sent, for any
  number of messages that the 64-bit counter can hold; no message is refused or altered.\<close>

theorem session_roundtrip_in_order:
  assumes "gcm_laws P" and "newRatchetSession P k1 k2 d = Inr s"
    and "newRatchetSession P k2 k1 (other_direction d) = Inr r" and "length ms \<le> 2 ^ 64"
  shows "snd (receive_all P r (zip (snd (send_all P s ms)) (map snd ms))) = map (Inr \<circ> fst) ms"
  by (rule in_order_roundtrip [OF assms])

theorem session_roundtrip_in_order_witness:
  "snd (receive_all sample_prims (sample_session 2 1 Responder)
     (zip (snd (send_all sample_prims (sample_session 1 2 Initiator) [([104, 105], []), ([], [9])]))
       [[], [9]])) = [Inr [104, 105], Inr []]"
proof -
  have r: "newRatchetSession sample_prims (replicate 32 2) (replicate 32 1)
      (other_direction Initiator) = Inr (sample_session 2 1 Responder)"
    using sample_session by (simp add: other_direction_def)
  show ?thesis
    using session_roundtrip_in_order [OF sample_gcm_laws sample_session r,
        of "[([104, 105], []), ([], [9])]"] by simp
qed

text \<open>C14: Out-of-order delivery: after any frames whatever were processed, genuine and hostile, a frame
  that the peer sent still decrypts to what was sent if it was not delivered before, is less
  than 64 behind every delivered counter, and is at most 24 ahead of some delivered counter
  (or among the first 24 of the session).\<close>

theorem reordered_frame_delivered:
  assumes "gcm_laws P" and "newRatchetSession P k1 k2 d = Inr s"
    and "newRatchetSession P k2 k1 (other_direction d) = Inr r0"
    and "r = fst (receive_all P r0 ws)" and "D = set (delivered_counters P r0 ws)"
    and "i < length ms" and "int i < 2 ^ 64"
    and "int i \<notin> D" and "\<forall>x\<in>D. x < int i + 64" and "i < 24 \<or> (\<exists>x\<in>D. int i \<le> x + 24)"
  shows "snd (decrypt P r (snd (send_all P s ms) ! i) (snd (ms ! i))) = Inr (fst (ms ! i))"
proof -
  let ?w = "snd (send_all P s ms) ! i"
  have inv: "session_inv P k1 0 D r" and rd: "remoteDir r = localDir s"
    using receiver_inv [OF assms(3,4)] new_session_inv(3) [OF assms(2)]
    by (cases d; simp add: other_direction_def assms(5))+
  note w = sent_frame [OF assms(1) new_session_inv(5,4) [OF assms(2)] assms(6,7) refl]
  have "lowestCounter (recvCache r) \<le> int i"
    using inv assms(9) by (auto simp: session_inv_def)
  moreover have "int i \<le> highestDerived (recvCache r) + 16"
    using inv assms(10) by (auto simp: session_inv_def)
  ultimately have "accepts r ?w"
    using w inv assms(8,9) rw_canAccept_rep [of "rs_replay r" D "int i"]
    by (simp add: accepts_def session_inv_def)
  then show ?thesis using decrypt_result [OF inv] w(3) rd by simp
qed

theorem reordered_frame_delivered_witness:
  "snd (decrypt sample_prims (sample_session 2 1 Responder)
     (snd (send_all sample_prims (sample_session 1 2 Initiator) [([1], []), ([2], []), ([3], [7])]) ! 2)
     [7]) = Inr [3]"
proof -
  have r: "newRatchetSession sample_prims (replicate 32 2) (replicate 32 1)
      (other_direction Initiator) = Inr (sample_session 2 1 Responder)"
    using sample_session by (simp add: other_direction_def)
  show ?thesis
    using reordered_frame_delivered [OF sample_gcm_laws sample_session r, of _ "[]" "{}" 2
        "[([1], []), ([2], []), ([3], [7])]"] by simp
qed

text \<open>C20: A frame that fails to decrypt does no harm: it leaves the replay window as it was, and every
  frame that would have decrypted before it still decrypts after it to the same plaintext, so
  a forged frame cannot block the genuine frame with its counter.\<close>

theorem rejected_frame_harmless:
  assumes "newRatchetSession P k2 k1 d = Inr r0" and "r = fst (receive_all P r0 ws)"
    and "snd (decrypt P r w ad) = Inl e" and "snd (decrypt P r w' ad') = Inr pt"
  shows "rs_replay (fst (decrypt P r w ad)) = rs_replay r
    \<and> snd (decrypt P (fst (decrypt P r w ad)) w' ad') = Inr pt"
proof -
  note inv = receiver_inv(1) [OF assms(1,2)]
  have "\<not> accepts r w \<or> opened P k1 0 (remoteDir r) w ad = None"
    using decrypt_result [OF inv, of w ad] assms(3) by (metis Inl_Inr_False option.exhaust)
  note rej = decrypt_rejects [OF inv this]
  from decrypt_result [OF inv] assms(4)
  have "accepts r w'" "opened P k1 0 (remoteDir r) w' ad' = Some pt" by simp_all
  then show ?thesis using decrypt_result [OF rej(2)] rej(3-6) by (simp add: accepts_def)
qed

theorem rejected_frame_harmless_witness:
  "snd (decrypt sample_prims (fst (decrypt sample_prims (sample_session 2 1 Responder) [] []))
     (snd (send_all sample_prims (sample_session 1 2 Initiator) [([1], [])]) ! 0) []) = Inr [1]"
proof -
  have r: "newRatchetSession sample_prims (replicate 32 2) (replicate 32 1)
      (other_direction Initiator) = Inr (sample_session 2 1 Responder)"
    using sample_session by (simp add: other_direction_def)
  have bad: "snd (decrypt sample_prims (sample_session 2 1 Responder) [] []) = Inl WireTooShort"
    by (simp add: decrypt_def decrypt_begin_def TAG_LEN_def)
  have good: "snd (decrypt sample_prims (sample_session 2 1 Responder)
     (snd (send_all sample_prims (sample_session 1 2 Initiator) [([1], [])]) ! 0) []) = Inr [1]"
    using session_inv_first_frame [OF sample_gcm_laws sample_session r, of "[([1], [])]"] by simp
  show ?thesis using rejected_frame_harmless [OF r _ bad good, of "[]"] by simp
qed

text \<open>C40: Forward-secrecy boundary: once a frame with counter c is delivered, the session holds no key
  of a counter below c - 63, and from then on, whatever else it receives, it refuses every
  frame below that boundary.\<close>

theorem forward_secrecy_boundary:
  assumes "newRatchetSession P k2 k1 d = Inr r0" and "r = fst (receive_all P r0 ws)"
    and "snd (decrypt P r w ad) = Inr pt"
    and "r' = fst (receive_all P (fst (decrypt P r w ad)) ws')"
  shows "(\<forall>(c, k) \<in> set (kc_keys (recvCache r')). wire_counter w - 63 \<le> c)
    \<and> (\<forall>w' ad'. wire_counter w' < wire_counter w - 63 \<longrightarrow> (\<exists>e. snd (decrypt P r' w' ad') = Inl e))"
proof -
  let ?D = "set (delivered_counters P r0 ws)"
  note inv = receiver_inv(1) [OF assms(1,2)]
  have "session_inv P k1 0 (insert (wire_counter w) ?D) (fst (decrypt P r w ad))"
    using decrypt_inv [OF inv, of w ad] assms(3) by simp
  from receive_all_inv [OF this, of ws'] obtain D where
    D: "session_inv P k1 0 D r'" "wire_counter w \<in> D" by (auto simp: assms(4))
  then have low: "wire_counter w - 63 \<le> lowestCounter (recvCache r')"
    by (auto simp: session_inv_def)
  then have "\<forall>(c, k) \<in> set (kc_keys (recvCache r')). wire_counter w - 63 \<le> c"
    using D by (auto simp: session_inv_def cache_ok_def)
  moreover have "\<exists>e. snd (decrypt P r' w' ad') = Inl e" if "wire_counter w' < wire_counter w - 63"
    for w' ad'
    using that low by (intro decrypt_rejects(1) [OF D(1)]) (simp add: accepts_def)
  ultimately show ?thesis by blast
qed

theorem forward_secrecy_boundary_witness:
  "list_all (\<lambda>(c, k). -63 \<le> c) (kc_keys (recvCache (fst (decrypt sample_prims
     (sample_session 2 1 Responder)
     (snd (send_all sample_prims (sample_session 1 2 Initiator) [([1], [])]) ! 0) []))))"
proof -
  have r: "newRatchetSession sample_prims (replicate 32 2) (replicate 32 1)
      (other_direction Initiator) = Inr (sample_session 2 1 Responder)"
    using sample_session by (simp add: other_direction_def)
  let ?w = "snd (send_all sample_prims (sample_session 1 2 Initiator) [([1], [])]) ! 0"
  have good: "snd (decrypt sample_prims (sample_session 2 1 Responder) ?w []) = Inr [1]"
    using session_inv_first_frame [OF sample_gcm_laws sample_session r, of "[([1], [])]"] by simp
  have "wire_counter ?w = 0"
    using sent_frame(1) [OF sample_gcm_laws _ refl, of "sample_session 1 2 Initiator" 0 "[([1], [])]"]
      new_session_inv(5) [OF sample_session, of 1 2 Initiator] by simp
  then show ?thesis
    using forward_secrecy_boundary [OF r _ good, of "[]" _ "[]"] by (simp add: list_all_iff)
qed

text \<open>
  What a sending run passes to AES-GCM: the cipher is a parameter, so it is replaced by one whose output is
  its nonce followed by its key, and the frames of the run are read back.
\<close>

definition recording :: "ratchet_prims \<Rightarrow> ratchet_prims" where
  "recording P = P\<lparr>gcm_enc := (\<lambda>key nonce ad pt. nonce @ key)\<rparr>"

definition gcm_calls :: "ratchet_prims \<Rightarrow> ratchet_session \<Rightarrow> (bytes \<times> bytes) list \<Rightarrow> (bytes \<times> bytes) list" where
  "gcm_calls P s ms = map (\<lambda>w. (drop (8 + AEAD_NONCE_BYTES) w, take AEAD_NONCE_BYTES (drop 8 w)))
     (snd (send_all (recording P) s ms))"

lemma length_makeNonce [simp]: "length (makeNonce d c) = AEAD_NONCE_BYTES"
  by (simp add: makeNonce_def AEAD_NONCE_BYTES_def)

lemma recording_chain: "chain_at (recording P) ck n = chain_at P ck n" "deriveFrameKey (recording P) ck = deriveFrameKey P ck"
proof -
  have "ratchetChain (recording P) = ratchetChain P" by (rule ext) (simp add: ratchetChain_def recording_def)
  then show "chain_at (recording P) ck n = chain_at P ck n" by (simp add: chain_at_def)
  show "deriveFrameKey (recording P) ck = deriveFrameKey P ck" by (simp add: deriveFrameKey_def recording_def)
qed

lemma gcm_calls_nth:
  assumes "i < length ms"
  shows "gcm_calls P s ms ! i
    = (deriveFrameKey P (chain_at P (sendChain s) i), makeNonce (localDir s) (sendCounter s + int i))"
  using assms send_all_nth [OF assms, of "recording P" s]
  by (simp add: gcm_calls_def length_send_all recording_chain) (simp add: recording_def)

lemma length_gcm_calls [simp]: "length (gcm_calls P s ms) = length ms"
  by (simp add: gcm_calls_def length_send_all)

text \<open>C39: No nonce is used twice. Over a session's whole run of up to 2^64 messages, the nonces passed to
  AES-GCM are pairwise distinct, whatever the keys; none of them is passed by the other end, whose
  session has the opposite direction, in its own run; and the frames on the wire are, one by one, the
  counter followed by the encryption of the message under just these keys and nonces.\<close>

theorem send_nonces_distinct:
  assumes "newRatchetSession P k1 k2 d = Inr s" and "length ms \<le> 2 ^ 64"
    and "newRatchetSession P k3 k4 (other_direction d) = Inr r" and "length ms' \<le> 2 ^ 64"
  shows "distinct (map snd (gcm_calls P s ms))
    \<and> set (map snd (gcm_calls P s ms)) \<inter> set (map snd (gcm_calls P r ms')) = {}
    \<and> (\<forall>i < length ms. snd (send_all P s ms) ! i = u64_be (int i) @
         gcm_enc P (fst (gcm_calls P s ms ! i)) (snd (gcm_calls P s ms ! i)) (snd (ms ! i)) (fst (ms ! i)))"
proof -
  note ctr = new_session_inv(3,5) [OF assms(1)] new_session_inv(3,5) [OF assms(3)]
  have n: "snd (gcm_calls P s ms ! i) = makeNonce d (int i)" if "i < length ms" for i
    using gcm_calls_nth [OF that] ctr by simp
  have n': "snd (gcm_calls P r ms' ! i) = makeNonce (other_direction d) (int i)" if "i < length ms'" for i
    using gcm_calls_nth [OF that] ctr by simp
  have b: "int i < 2 ^ 64" if "i < length ms \<or> i < length ms'" for i using that assms(2,4) by auto
  have "distinct (map snd (gcm_calls P s ms))"
    unfolding distinct_conv_nth
  proof (intro allI impI)
    fix i j
    assume "i < length (map snd (gcm_calls P s ms))" "j < length (map snd (gcm_calls P s ms))" "i \<noteq> j"
    then show "map snd (gcm_calls P s ms) ! i \<noteq> map snd (gcm_calls P s ms) ! j"
      using n b makeNonce_inj [of d "int i" d "int j"] by auto
  qed
  moreover have "makeNonce d (int i) \<noteq> makeNonce (other_direction d) (int j)" if "i < length ms" "j < length ms'" for i j
    using makeNonce_inj [of d "int i" "other_direction d" "int j"] b that
    by (cases d) (auto simp: other_direction_def)
  then have "set (map snd (gcm_calls P s ms)) \<inter> set (map snd (gcm_calls P r ms')) = {}"
    using n n' by (fastforce simp: in_set_conv_nth)
  moreover have "snd (send_all P s ms) ! i = u64_be (int i) @
      gcm_enc P (fst (gcm_calls P s ms ! i)) (snd (gcm_calls P s ms ! i)) (snd (ms ! i)) (fst (ms ! i))"
    if "i < length ms" for i
    using send_all_nth [OF that, of P s] gcm_calls_nth [OF that, of P s] ctr by simp
  ultimately show ?thesis by blast
qed

theorem send_nonces_distinct_witness:
  "distinct (map snd (gcm_calls sample_prims (sample_session 1 2 Initiator) [([1], []), ([1], [])]))
   \<and> set (map snd (gcm_calls sample_prims (sample_session 1 2 Initiator) [([1], []), ([1], [])]))
     \<inter> set (map snd (gcm_calls sample_prims (sample_session 2 1 Responder) [([7], []), ([8], [])])) = {}"
proof -
  have r: "newRatchetSession sample_prims (replicate 32 2) (replicate 32 1) (other_direction Initiator)
      = Inr (sample_session 2 1 Responder)"
    using sample_session by (simp add: other_direction_def)
  have l: "length [([1], []), ([1], [])] \<le> (2 :: nat) ^ 64" "length [([7], []), ([8], [])] \<le> (2 :: nat) ^ 64"
    by simp_all
  from send_nonces_distinct [OF sample_session l(1) r l(2), of 1 2] show ?thesis by blast
qed

text \<open>Note: The key cache does not follow the replay window forward: after n messages received in order,
  every frame with a counter of n + 24 or more is refused and leaves the session unchanged, so
  a receiver that has lost 24 consecutive frames refuses all later ones, although the replay
  window accepts their counters.\<close>

theorem lost_frames_end_session:
  assumes "gcm_laws P" and "newRatchetSession P k1 k2 d = Inr s"
    and "newRatchetSession P k2 k1 (other_direction d) = Inr r0" and "length ms \<le> 2 ^ 64"
    and "r = fst (receive_all P r0 (zip (snd (send_all P s ms)) (map snd ms)))"
    and "\<forall>(w, ad) \<in> set ws. int (length ms) + 24 \<le> wire_counter w"
  shows "fst (receive_all P r ws) = r \<and> (\<forall>a \<in> set (snd (receive_all P r ws)). isl a)
    \<and> (\<forall>(w, ad) \<in> set ws. rw_canAccept (rs_replay r) (wire_counter w))"
proof -
  have dir: "remoteDir r0 = localDir s"
    using new_session_inv(2) [OF assms(3)] new_session_inv(3) [OF assms(2)]
    by (cases d) (simp_all add: other_direction_def)
  have n: "int (0 + length ms) \<le> 2 ^ 64" using assms(4) by simp
  have h: "highestDerived (recvCache r) = int (length ms) + 7"
    using receive_in_order [OF assms(1) n new_session_inv(1) [OF assms(3)], of s]
      new_session_inv [OF assms(2)] new_session_inv(6) [OF assms(3)] dir
    by (simp add: chain_at_def assms(5))
  define D where "D = set (delivered_counters P r0 (zip (snd (send_all P s ms)) (map snd ms)))"
  have inv: "session_inv P k1 0 D r"
    using receiver_inv(1) [OF assms(3,5)] by (simp add: D_def)
  have "fst (receive_all P r ws) = r \<and> (\<forall>a \<in> set (snd (receive_all P r ws)). isl a)"
    using assms(6)
  proof (induction ws)
    case (Cons x ws)
    obtain w ad where x: "x = (w, ad)" by fastforce
    have c: "highestDerived (recvCache r) + 16 < wire_counter w" using Cons.prems h by (auto simp: x)
    then have "\<not> accepts r w \<or> opened P k1 0 (remoteDir r) w ad = None" by (simp add: accepts_def)
    from decrypt_rejects(1,7) [OF inv this] begin_cases(8) [OF inv, of w ad] c
    have "fst (decrypt P r w ad) = r" "\<exists>e. snd (decrypt P r w ad) = Inl e" by auto
    then show ?case using Cons by (auto simp: x)
  qed simp
  moreover have "rw_canAccept (rs_replay r) (wire_counter w)" if "(w, ad) \<in> set ws" for w ad
  proof -
    have "int (length ms) + 24 \<le> wire_counter w" using that assms(6) by auto
    then have "\<forall>x\<in>D. x < wire_counter w" using inv h by (fastforce simp: session_inv_def)
    then show ?thesis using inv rw_canAccept_rep [of "rs_replay r" D "wire_counter w"]
      by (auto simp: session_inv_def wire_counter_def u64_of_nonneg)
  qed
  ultimately show ?thesis by blast
qed

theorem lost_frames_end_session_witness:
  "fst (receive_all sample_prims (sample_session 2 1 Responder) [(u64_be 24 @ [1], []), (u64_be 99, [])])
     = sample_session 2 1 Responder"
proof -
  have r: "newRatchetSession sample_prims (replicate 32 2) (replicate 32 1)
      (other_direction Initiator) = Inr (sample_session 2 1 Responder)"
    using sample_session by (simp add: other_direction_def)
  have "\<forall>(w, ad) \<in> set [(u64_be 24 @ [1], [] :: bytes), (u64_be 99, [])]. int (length []) + 24 \<le> wire_counter w"
    by (simp add: wire_counter_def u64_roundtrip)
  from lost_frames_end_session [OF sample_gcm_laws sample_session r _ _ this] show ?thesis by simp
qed

text \<open>Note: Overlapping decrypt calls defeat the replay check: if a frame would be delivered, then two calls
  for it whose first halves both run before either second half both deliver it.\<close>

theorem overlapping_decrypts_deliver_twice:
  assumes "newRatchetSession P k2 k1 d = Inr r0" and "r = fst (receive_all P r0 ws)"
    and "snd (decrypt P r w ad) = Inr pt"
  shows "\<exists>p. snd (decrypt_begin P r w ad) = Inr p
    \<and> snd (decrypt_begin P (fst (decrypt_begin P r w ad)) w ad) = Inr p
    \<and> snd (decrypt_finish P (fst (decrypt_begin P (fst (decrypt_begin P r w ad)) w ad)) p) = Inr pt
    \<and> snd (decrypt_finish P (fst (decrypt_finish P (fst (decrypt_begin P
          (fst (decrypt_begin P r w ad)) w ad)) p)) p) = Inr pt"
proof -
  note inv = receiver_inv(1) [OF assms(1,2)]
  note b1 = begin_cases [OF inv, of w ad]
  note b2 = begin_cases [OF b1(1), of w ad]
  from decrypt_result [OF inv] assms(3) have acc: "accepts r w"
    and op: "opened P k1 0 (remoteDir r) w ad = Some pt" by simp_all
  define p where "p = \<lparr>pd_counter = wire_counter w, pd_key = frame_key_at P k1 0 (wire_counter w),
       pd_nonce = makeNonce (remoteDir r) (wire_counter w), pd_ad = ad, pd_ct = drop 8 w\<rparr>"
  have "snd (decrypt_begin P r w ad) = Inr p"
    using b1(5) acc by (auto simp: accepts_def p_def)
  moreover have "snd (decrypt_begin P (fst (decrypt_begin P r w ad)) w ad) = Inr p"
    using b2(5) b1(2-4,7) acc by (auto simp: accepts_def p_def)
  moreover have "snd (decrypt_finish P s p) = Inr pt" for s
    using op by (simp add: decrypt_finish_def p_def opened_def)
  ultimately show ?thesis by blast
qed

theorem overlapping_decrypts_deliver_twice_witness:
  "\<exists>p w. snd (decrypt_begin sample_prims (sample_session 2 1 Responder) w []) = Inr p
    \<and> snd (decrypt_begin sample_prims
          (fst (decrypt_begin sample_prims (sample_session 2 1 Responder) w [])) w []) = Inr p"
proof -
  have r: "newRatchetSession sample_prims (replicate 32 2) (replicate 32 1)
      (other_direction Initiator) = Inr (sample_session 2 1 Responder)"
    using sample_session by (simp add: other_direction_def)
  have good: "snd (decrypt sample_prims (sample_session 2 1 Responder)
     (snd (send_all sample_prims (sample_session 1 2 Initiator) [([1], [])]) ! 0) []) = Inr [1]"
    using session_inv_first_frame [OF sample_gcm_laws sample_session r, of "[([1], [])]"] by simp
  from overlapping_decrypts_deliver_twice [OF r _ good, of "[]"] show ?thesis by auto
qed

section \<open>Forged frames and the key cache\<close>

text \<open>The \<open>i\<close>-th of a series of forged frames, each sixteen past the head of the cache.\<close>

definition forged :: "nat \<Rightarrow> bytes" where
  "forged i = u64_be (24 * int i + 23) @ replicate 16 0"

lemma forged_counter: "24 * int i + 23 < 2 ^ 64 \<Longrightarrow> wire_counter (forged i) = 24 * int i + 23"
  using u64_roundtrip [of "24 * int i + 23"] by (simp add: wire_counter_def forged_def)

lemma forged_run:
  assumes bad: "\<forall>k n ad. gcm_dec P k n ad (replicate 16 0) = None"
    and inv: "session_inv P ck 0 {} s" and h: "highestDerived (recvCache s) = 24 * int m + 7"
    and n: "24 * int (m + n) < 2 ^ 64"
  shows "session_inv P ck 0 {} (fst (receive_all P s (map (\<lambda>i. (forged i, [])) [m..<m + n])))
    \<and> highestDerived (recvCache (fst (receive_all P s (map (\<lambda>i. (forged i, [])) [m..<m + n]))))
        = 24 * int (m + n) + 7
    \<and> (\<forall>a \<in> set (snd (receive_all P s (map (\<lambda>i. (forged i, [])) [m..<m + n]))). isl a)"
  using inv h n
proof (induction n arbitrary: m s)
  case (Suc n)
  let ?s = "fst (decrypt P s (forged m) [])"
  have c: "wire_counter (forged m) = 24 * int m + 23"
    using Suc.prems(3) by (intro forged_counter) simp
  have "opened P ck 0 (remoteDir s) (forged m) [] = None"
    using bad by (simp add: opened_def forged_def)
  then have rej: "\<not> accepts s (forged m) \<or> opened P ck 0 (remoteDir s) (forged m) [] = None" by simp
  note d = decrypt_rejects [OF Suc.prems(1) rej]
  have can: "rw_canAccept (rs_replay s) (wire_counter (forged m))"
    using Suc.prems(1) c rw_canAccept_rep [of "rs_replay s" "{}"] by (simp add: session_inv_def)
  have "highestDerived (recvCache ?s) = 24 * int (Suc m) + 7"
    using begin_cases(9) [OF Suc.prems(1), of "forged m" "[]"] can c Suc.prems(2) d(7)
    by (simp add: forged_def)
  with Suc.IH [OF d(2), of "Suc m"] Suc.prems(3) d(1) have
    "session_inv P ck 0 {} (fst (receive_all P ?s (map (\<lambda>i. (forged i, [])) [Suc m..<Suc m + n])))
    \<and> highestDerived (recvCache (fst (receive_all P ?s (map (\<lambda>i. (forged i, [])) [Suc m..<Suc m + n]))))
        = 24 * int (Suc m + n) + 7
    \<and> (\<forall>a \<in> set (snd (receive_all P ?s (map (\<lambda>i. (forged i, [])) [Suc m..<Suc m + n]))). isl a)"
    by simp
  moreover have "[m..<m + Suc n] = m # [Suc m..<Suc m + n]" by (simp add: upt_rec)
  ultimately show ?case using d(1) by auto
qed simp

text \<open>Note: The receive-key cache grows before authentication: n forged frames of 24 bytes, all of them
  refused, make the session derive and keep 24 n keys beyond its initial eight.\<close>

theorem forged_frames_grow_cache:
  assumes "\<forall>k n ad. gcm_dec P k n ad (replicate 16 0) = None"
    and "newRatchetSession P k2 k1 d = Inr r" and "24 * int n < 2 ^ 64"
  shows "length (kc_keys (recvCache (fst (receive_all P r (map (\<lambda>i. (forged i, [])) [0..<n]))))) = 8 + 24 * n
    \<and> (\<forall>a \<in> set (snd (receive_all P r (map (\<lambda>i. (forged i, [])) [0..<n]))). isl a)"
proof -
  from new_session_inv(1,6) [OF assms(2)] forged_run [OF assms(1), of k1 r 0 n] assms(3)
  have inv: "session_inv P k1 0 {} (fst (receive_all P r (map (\<lambda>i. (forged i, [])) [0..<n])))"
    and h: "highestDerived (recvCache (fst (receive_all P r (map (\<lambda>i. (forged i, [])) [0..<n]))))
      = 24 * int n + 7"
    and rej: "\<forall>a \<in> set (snd (receive_all P r (map (\<lambda>i. (forged i, [])) [0..<n]))). isl a"
    by simp_all
  from inv h have "length (kc_keys (recvCache (fst (receive_all P r (map (\<lambda>i. (forged i, [])) [0..<n])))))
      = nat (24 * int n + 8)"
    by (simp add: session_inv_def cache_ok_def)
  with rej show ?thesis by (simp add: nat_add_distrib)
qed

theorem forged_frames_grow_cache_witness:
  "length (kc_keys (recvCache (fst (receive_all sample_prims (sample_session 2 1 Responder)
     (map (\<lambda>i. (forged i, [])) [0..<1000]))))) = 24008"
proof -
  have "sample_tag k \<noteq> replicate 16 0" for k
  proof
    assume eq: "sample_tag k = replicate 16 0"
    have "bit (sample_tag k ! 0) 0"
      by (cases k) (simp_all add: sample_tag_def bit_or_iff)
    then show False by (simp add: eq)
  qed
  then have "\<forall>k n ad. gcm_dec sample_prims k n ad (replicate 16 0) = None"
    by (simp add: sample_prims_def eq_commute)
  from forged_frames_grow_cache [OF this sample_session, of 1000] show ?thesis by simp
qed

end
