(* ===== verification/Sas.thy ===== *)
theory Sas
  imports Prelude
begin

text \<open>
  The short authentication string of \<open>packages/mesh-core/src/crypto/sas.ts\<close>: five decimal
  digits of the first eight bytes of the handshake hash.
\<close>

section \<open>Decimal text\<close>

text \<open>\<open>n.toString(10)\<close> and \<open>padStart\<close> with zeros.\<close>

function dec_text :: "nat \<Rightarrow> string" where
  "dec_text n = (if n < 10 then [char_of (48 + n)] else dec_text (n div 10) @ [char_of (48 + n mod 10)])"
  by pat_completeness auto
termination by (relation "measure id") auto

declare dec_text.simps [simp del]

definition pad_zeros :: "nat \<Rightarrow> string \<Rightarrow> string" where
  "pad_zeros k s = replicate (k - length s) (CHR ''0'') @ s"

text \<open>The value of a decimal numeral.\<close>

definition dec_value :: "string \<Rightarrow> nat" where
  "dec_value s = foldl (\<lambda>a c. a * 10 + (of_char c - 48)) 0 s"

lemma of_char_digit: "n < (10 :: nat) \<Longrightarrow> of_char (char_of (48 + n) :: char) = 48 + n"
  by simp

lemma dec_value_append: "dec_value (s @ [c]) = dec_value s * 10 + (of_char c - 48)"
  by (simp add: dec_value_def)

lemma dec_value_text: "dec_value (dec_text n) = n"
proof (induction n rule: dec_text.induct)
  case (1 n)
  show ?case
  proof (cases "n < 10")
    case True
    then show ?thesis by (subst dec_text.simps) (simp add: dec_value_def)
  next
    case False
    have "dec_value (dec_text n) = dec_value (dec_text (n div 10)) * 10 + n mod 10"
      using False of_char_digit [of "n mod 10"]
      by (subst dec_text.simps) (simp add: dec_value_append)
    then show ?thesis using 1 False by simp
  qed
qed

lemma dec_value_pad: "dec_value (pad_zeros k s) = dec_value s"
proof -
  have "foldl (\<lambda>a c. a * 10 + (of_char c - 48)) 0 (replicate m (CHR ''0'')) = (0 :: nat)" for m
    by (induction m) simp_all
  then show ?thesis by (simp add: dec_value_def pad_zeros_def)
qed

lemma length_dec_text: "n < 10 ^ Suc k \<Longrightarrow> length (dec_text n) \<le> Suc k"
proof (induction k arbitrary: n)
  case 0
  then show ?case by (subst dec_text.simps) simp
next
  case (Suc k)
  then have "n div 10 < 10 ^ Suc k" by (simp add: div_less_iff_less_mult)
  from Suc.IH [OF this] show ?case by (subst dec_text.simps) simp
qed

definition is_digit :: "char \<Rightarrow> bool" where
  "is_digit c \<longleftrightarrow> c \<in> set ''0123456789''"

lemma is_digit_char_of: "n < (10 :: nat) \<Longrightarrow> is_digit (char_of (48 + n))"
proof -
  assume n: "n < (10 :: nat)"
  have "list_all (\<lambda>n :: nat. is_digit (char_of (48 + n))) [0..<10]" by code_simp
  then show ?thesis using n by (simp add: list_all_iff)
qed

lemma dec_text_digits: "list_all is_digit (dec_text n)"
proof (induction n rule: dec_text.induct)
  case (1 n)
  then show ?case
    by (subst dec_text.simps) (simp add: is_digit_char_of)
qed

section \<open>The string\<close>

definition SAS_DIGIT_COUNT :: nat where "SAS_DIGIT_COUNT = 5"
definition SAS_MODULUS :: nat where "SAS_MODULUS = 10 ^ SAS_DIGIT_COUNT"

definition be_value :: "bytes \<Rightarrow> nat" where
  "be_value b = foldl (\<lambda>n x. n * 256 + unat x) 0 b"

text \<open>
  \<open>(n << 8n) | b\<close> of the source is \<open>n * 256 + b\<close> for a byte; \<open>None\<close> is the thrown error.
\<close>

definition computeSas :: "bytes \<Rightarrow> string option" where
  "computeSas hh =
     (if length hh \<noteq> 32 then None
      else Some (pad_zeros SAS_DIGIT_COUNT (dec_text (be_value (take 8 hh) mod SAS_MODULUS))))"

section \<open>Properties\<close>

text \<open>Note: The authentication string of any 32-byte hash is exactly five decimal digits, and they are the
  value of the first eight bytes, big-endian, modulo 100000; any other length is an error.\<close>

theorem computeSas_digits:
  "case computeSas hh of None \<Rightarrow> length hh \<noteq> 32
   | Some s \<Rightarrow> length hh = 32 \<and> length s = 5 \<and> list_all is_digit s
       \<and> dec_value s = be_value (take 8 hh) mod 100000"
proof (cases "computeSas hh")
  case None
  then show ?thesis by (simp add: computeSas_def split: if_splits)
next
  case (Some s)
  then have l: "length hh = 32" and s: "s = pad_zeros 5 (dec_text (be_value (take 8 hh) mod 100000))"
    by (simp_all add: computeSas_def SAS_MODULUS_def SAS_DIGIT_COUNT_def split: if_splits)
  have "be_value (take 8 hh) mod 100000 < 10 ^ Suc 4" by simp
  then have "length (dec_text (be_value (take 8 hh) mod 100000)) \<le> 5"
    using length_dec_text by fastforce
  moreover have "list_all is_digit (replicate m (CHR ''0''))" for m
    by (induction m) (simp_all add: is_digit_def)
  moreover have "dec_value s = be_value (take 8 hh) mod 100000"
    by (simp only: s dec_value_pad dec_value_text)
  ultimately show ?thesis using Some l dec_text_digits by (simp add: s pad_zeros_def)
qed

end
