(* ===== verification/Noise_XX.thy ===== *)
theory Noise_XX
  imports Prelude Sas
begin

text \<open>
  The hybrid handshake of \<open>packages/mesh-core/src/crypto/noise-xx.ts\<close>, with the wrapper
  \<open>mlkem-wrap.ts\<close>. The packages and WebCrypto are the fields of \<open>noise_prims\<close>, the device
  identity is a record of its own, and what a message writer draws at random is an argument.
  Every handler returns the object it leaves behind together with a result, so a handler that
  throws half-way shows which fields it has already assigned.
\<close>

section \<open>Primitives, identity, errors\<close>

record noise_prims =
  sha256 :: "bytes \<Rightarrow> bytes"
  hmac :: "bytes \<Rightarrow> bytes \<Rightarrow> bytes"
  hkdf_salted :: "bytes \<Rightarrow> bytes \<Rightarrow> string \<Rightarrow> nat \<Rightarrow> bytes"
  x25519_pub :: "bytes \<Rightarrow> bytes"
  x25519_dh :: "bytes \<Rightarrow> bytes \<Rightarrow> bytes option"
  aes_enc :: "bytes \<Rightarrow> bytes \<Rightarrow> bytes \<Rightarrow> bytes \<Rightarrow> bytes"
  aes_dec :: "bytes \<Rightarrow> bytes \<Rightarrow> bytes \<Rightarrow> bytes \<Rightarrow> bytes option"
  kem_keygen :: "bytes \<Rightarrow> bytes \<times> bytes"
  kem_encap :: "bytes \<Rightarrow> bytes \<Rightarrow> bytes \<times> bytes"
  kem_decap :: "bytes \<Rightarrow> bytes \<Rightarrow> bytes"

text \<open>\<open>DeviceIdentityProvider\<close>: the two public keys and the static Diffie-Hellman.\<close>

record device_identity =
  id_ed25519 :: bytes
  id_x25519 :: bytes
  id_dh :: "bytes \<Rightarrow> bytes option"

text \<open>The random draws of one message: an X25519 secret and a seed for ML-KEM.\<close>

record draws =
  d_eph :: bytes
  d_kem :: bytes

datatype role = InitiatorRole | ResponderRole

datatype noise_error =
    NoiseStateError role nat
  | PayloadTooLarge | MessageTooLarge | Msg1TooShort
  | MissingRemoteEphemeral | MissingMlkemState | MissingLocalEphemeral | MissingMlkemKeypair
  | MissingEphemerals | SplitIncomplete | SplitMissingSecret
  | AeadRejected | DhRejected
  | KemPublicKeySize | KemCiphertextSize | KemSecretSize | KemKeygenSize

definition MLKEM_PUBLIC_KEY_BYTES :: nat where "MLKEM_PUBLIC_KEY_BYTES = 1184"
definition MLKEM_CIPHERTEXT_BYTES :: nat where "MLKEM_CIPHERTEXT_BYTES = 1088"
definition MLKEM_SHARED_SECRET_BYTES :: nat where "MLKEM_SHARED_SECRET_BYTES = 32"
definition MAX_HANDSHAKE_MSG_BYTES :: nat where "MAX_HANDSHAKE_MSG_BYTES = 1500"
definition NOISE_KEY_BYTES :: nat where "NOISE_KEY_BYTES = 16"
definition S_CT_BYTES :: nat where "S_CT_BYTES = 64 + 16"
definition SPLIT_KEY_BYTES :: nat where "SPLIT_KEY_BYTES = 32"
definition HKDF_INFO :: string where "HKDF_INFO = ''oxpulse-mesh-b2-v1''"
definition PROTOCOL_NAME :: string where
  "PROTOCOL_NAME = ''Noise_XX_25519_AESGCM_SHA256_OXPULSE_MESH_B2_V1''"

lemmas noise_consts = MLKEM_PUBLIC_KEY_BYTES_def MLKEM_CIPHERTEXT_BYTES_def
  MLKEM_SHARED_SECRET_BYTES_def MAX_HANDSHAKE_MSG_BYTES_def NOISE_KEY_BYTES_def S_CT_BYTES_def
  SPLIT_KEY_BYTES_def

definition ascii_bytes :: "string \<Rightarrow> bytes" where
  "ascii_bytes s = map of_char s"

section \<open>The ML-KEM wrapper\<close>

definition generateMlkemKeypair :: "noise_prims \<Rightarrow> bytes \<Rightarrow> noise_error + bytes \<times> bytes" where
  "generateMlkemKeypair P seed =
     (let (pk, sk) = kem_keygen P seed in
      if length pk \<noteq> MLKEM_PUBLIC_KEY_BYTES then Inl KemKeygenSize else Inr (pk, sk))"

definition encapsulate :: "noise_prims \<Rightarrow> bytes \<Rightarrow> bytes \<Rightarrow> noise_error + bytes \<times> bytes" where
  "encapsulate P seed pk =
     (if length pk \<noteq> MLKEM_PUBLIC_KEY_BYTES then Inl KemPublicKeySize
      else let (ct, ss) = kem_encap P seed pk in
        if length ct \<noteq> MLKEM_CIPHERTEXT_BYTES then Inl KemCiphertextSize
        else if length ss \<noteq> MLKEM_SHARED_SECRET_BYTES then Inl KemSecretSize
        else Inr (ct, ss))"

definition decapsulate :: "noise_prims \<Rightarrow> bytes \<Rightarrow> bytes \<Rightarrow> noise_error + bytes" where
  "decapsulate P sk ct =
     (if length ct \<noteq> MLKEM_CIPHERTEXT_BYTES then Inl KemCiphertextSize
      else let ss = kem_decap P sk ct in
        if length ss \<noteq> MLKEM_SHARED_SECRET_BYTES then Inl KemSecretSize else Inr ss)"

section \<open>Symmetric state\<close>

record noise_state =
  ns_ck :: bytes
  ns_h :: bytes
  ns_k :: "bytes option"
  ns_n :: int

fun expand_from :: "noise_prims \<Rightarrow> bytes \<Rightarrow> bytes \<Rightarrow> nat \<Rightarrow> nat \<Rightarrow> bytes list" where
  "expand_from P prk prev i 0 = []"
| "expand_from P prk prev i (Suc n) =
     (let t = hmac P prk (prev @ [of_nat i]) in t # expand_from P prk t (Suc i) n)"

definition hkdfExpand :: "noise_prims \<Rightarrow> bytes \<Rightarrow> bytes \<Rightarrow> nat \<Rightarrow> bytes list" where
  "hkdfExpand P ck input n = expand_from P (hmac P ck input) [] 1 n"

definition mixHash :: "noise_prims \<Rightarrow> noise_state \<Rightarrow> bytes \<Rightarrow> noise_state" where
  "mixHash P s dat = s\<lparr>ns_h := sha256 P (ns_h s @ dat)\<rparr>"

definition mixKey :: "noise_prims \<Rightarrow> noise_state \<Rightarrow> bytes \<Rightarrow> noise_state" where
  "mixKey P s ikm =
     (let out = hkdfExpand P (ns_ck s) ikm 2 in
      s\<lparr>ns_ck := out ! 0, ns_k := Some (js_slice 0 NOISE_KEY_BYTES (out ! 1)), ns_n := 0\<rparr>)"

text \<open>Twelve bytes: four zeros and the counter, big-endian.\<close>

definition nonceBytes :: "int \<Rightarrow> bytes" where
  "nonceBytes n = replicate 4 0 @ map (\<lambda>i. word_of_int (n div 256 ^ i)) [7, 6, 5, 4, 3, 2, 1, 0]"

definition encryptAndHash :: "noise_prims \<Rightarrow> noise_state \<Rightarrow> bytes \<Rightarrow> noise_state \<times> bytes" where
  "encryptAndHash P s plaintext =
     (case ns_k s of
        None \<Rightarrow> (mixHash P s plaintext, plaintext)
      | Some k \<Rightarrow>
          let ct = aes_enc P k (nonceBytes (ns_n s)) (ns_h s) plaintext in
          (mixHash P (s\<lparr>ns_n := ns_n s + 1\<rparr>) ct, ct))"

definition decryptAndHash ::
  "noise_prims \<Rightarrow> noise_state \<Rightarrow> bytes \<Rightarrow> noise_state \<times> (noise_error + bytes)" where
  "decryptAndHash P s ciphertext =
     (case ns_k s of
        None \<Rightarrow> (mixHash P s ciphertext, Inr ciphertext)
      | Some k \<Rightarrow>
          (case aes_dec P k (nonceBytes (ns_n s)) (ns_h s) ciphertext of
             None \<Rightarrow> (s, Inl AeadRejected)
           | Some pt \<Rightarrow> (mixHash P (s\<lparr>ns_n := ns_n s + 1\<rparr>) ciphertext, Inr pt)))"

section \<open>The handshake object\<close>

record handshake =
  hs_role :: role
  hs_id :: device_identity
  ns :: noise_state
  msgIdx :: nat
  eSecret :: "bytes option"
  ePublic :: "bytes option"
  rePublic :: "bytes option"
  mlkemKeypair :: "(bytes \<times> bytes) option"
  mlkemSharedSecret :: "bytes option"
  rsPublic :: "bytes option"
  rsX25519Public :: "bytes option"

definition new_handshake :: "noise_prims \<Rightarrow> role \<Rightarrow> device_identity \<Rightarrow> handshake" where
  "new_handshake P r iden =
     (let protoHash = sha256 P (ascii_bytes PROTOCOL_NAME) in
      \<lparr>hs_role = r, hs_id = iden,
       ns = \<lparr>ns_ck = protoHash, ns_h = protoHash, ns_k = None, ns_n = 0\<rparr>,
       msgIdx = 0, eSecret = None, ePublic = None, rePublic = None, mlkemKeypair = None,
       mlkemSharedSecret = None, rsPublic = None, rsX25519Public = None\<rparr>)"

definition isComplete :: "handshake \<Rightarrow> bool" where
  "isComplete c = (msgIdx c = 3)"

definition peerStaticPublicKey :: "handshake \<Rightarrow> bytes option" where
  "peerStaticPublicKey c = rsPublic c"

type_synonym answer = "handshake \<times> (noise_error + bytes)"

definition writeMsg1 :: "noise_prims \<Rightarrow> draws \<Rightarrow> handshake \<Rightarrow> bytes \<Rightarrow> answer" where
  "writeMsg1 P d c payload =
     (let eS = d_eph d; eP = x25519_pub P eS;
          c1 = c\<lparr>eSecret := Some eS, ePublic := Some eP, ns := mixHash P (ns c) eP\<rparr> in
      (case generateMlkemKeypair P (d_kem d) of
         Inl e \<Rightarrow> (c1, Inl e)
       | Inr (pk, sk) \<Rightarrow>
           let (s, ct) = encryptAndHash P (ns c1) (pk @ payload) in
           (c1\<lparr>mlkemKeypair := Some (pk, sk), ns := s, msgIdx := 1\<rparr>, Inr (eP @ ct))))"

definition readMsg1 :: "noise_prims \<Rightarrow> draws \<Rightarrow> handshake \<Rightarrow> bytes \<Rightarrow> answer" where
  "readMsg1 P d c message =
     (if length message < 32 + MLKEM_PUBLIC_KEY_BYTES then (c, Inl Msg1TooShort)
      else
        let re = js_slice 0 32 message;
            c1 = c\<lparr>rePublic := Some re, ns := mixHash P (ns c) re\<rparr> in
        (case decryptAndHash P (ns c1) (drop 32 message) of
           (s, Inl e) \<Rightarrow> (c1\<lparr>ns := s\<rparr>, Inl e)
         | (s, Inr payload) \<Rightarrow>
             (case encapsulate P (d_kem d) (js_slice 0 MLKEM_PUBLIC_KEY_BYTES payload) of
                Inl e \<Rightarrow> (c1\<lparr>ns := s\<rparr>, Inl e)
              | Inr (ct, ss) \<Rightarrow>
                  (c1\<lparr>ns := s, mlkemKeypair := Some (ct, []), mlkemSharedSecret := Some ss, msgIdx := 1\<rparr>,
                   Inr (drop MLKEM_PUBLIC_KEY_BYTES payload)))))"

definition writeMsg2 :: "noise_prims \<Rightarrow> draws \<Rightarrow> handshake \<Rightarrow> bytes \<Rightarrow> answer" where
  "writeMsg2 P d c payload =
     (case rePublic c of None \<Rightarrow> (c, Inl MissingRemoteEphemeral) | Some re \<Rightarrow>
      if mlkemKeypair c = None \<or> mlkemSharedSecret c = None then (c, Inl MissingMlkemState)
      else
        let eS = d_eph d; eP = x25519_pub P eS;
            c1 = c\<lparr>eSecret := Some eS, ePublic := Some eP, ns := mixHash P (ns c) eP\<rparr> in
        (case x25519_dh P eS re of None \<Rightarrow> (c1, Inl DhRejected) | Some ee \<Rightarrow>
         let (s3, sCt) = encryptAndHash P (mixKey P (ns c1) ee)
                           (id_ed25519 (hs_id c) @ id_x25519 (hs_id c)) in
         (case id_dh (hs_id c) re of None \<Rightarrow> (c1\<lparr>ns := s3\<rparr>, Inl DhRejected) | Some es \<Rightarrow>
          let (s5, ctPayload) = encryptAndHash P (mixKey P s3 es)
                                  (fst (the (mlkemKeypair c)) @ payload) in
          (c1\<lparr>ns := s5, msgIdx := 2\<rparr>, Inr (eP @ sCt @ ctPayload)))))"

definition readMsg2 :: "noise_prims \<Rightarrow> handshake \<Rightarrow> bytes \<Rightarrow> answer" where
  "readMsg2 P c message =
     (case eSecret c of None \<Rightarrow> (c, Inl MissingLocalEphemeral) | Some eS \<Rightarrow>
      (case mlkemKeypair c of None \<Rightarrow> (c, Inl MissingMlkemKeypair) | Some kp \<Rightarrow>
       let re = js_slice 0 32 message;
           c1 = c\<lparr>rePublic := Some re, ns := mixHash P (ns c) re\<rparr> in
       (case x25519_dh P eS re of None \<Rightarrow> (c1, Inl DhRejected) | Some ee \<Rightarrow>
        (case decryptAndHash P (mixKey P (ns c1) ee) (js_slice 32 (32 + S_CT_BYTES) message) of
           (s, Inl e) \<Rightarrow> (c1\<lparr>ns := s\<rparr>, Inl e)
         | (s3, Inr sPayload) \<Rightarrow>
           let c2 = c1\<lparr>ns := s3, rsPublic := Some (js_slice 0 32 sPayload),
                      rsX25519Public := Some (js_slice 32 64 sPayload)\<rparr> in
           (case x25519_dh P eS (js_slice 32 64 sPayload) of None \<Rightarrow> (c2, Inl DhRejected) | Some es \<Rightarrow>
            (case decryptAndHash P (mixKey P s3 es) (drop (32 + S_CT_BYTES) message) of
               (s, Inl e) \<Rightarrow> (c2\<lparr>ns := s\<rparr>, Inl e)
             | (s5, Inr payload) \<Rightarrow>
               (case decapsulate P (snd kp) (js_slice 0 MLKEM_CIPHERTEXT_BYTES payload) of
                  Inl e \<Rightarrow> (c2\<lparr>ns := s5\<rparr>, Inl e)
                | Inr ss \<Rightarrow> (c2\<lparr>ns := s5, mlkemSharedSecret := Some ss, msgIdx := 2\<rparr>,
                            Inr (drop MLKEM_CIPHERTEXT_BYTES payload)))))))))"

definition writeMsg3 :: "noise_prims \<Rightarrow> handshake \<Rightarrow> bytes \<Rightarrow> answer" where
  "writeMsg3 P c payload =
     (case (eSecret c, rePublic c) of
        (Some eS, Some re) \<Rightarrow>
          let (s1, sCt) = encryptAndHash P (ns c) (id_ed25519 (hs_id c) @ id_x25519 (hs_id c)) in
          (case id_dh (hs_id c) re of None \<Rightarrow> (c\<lparr>ns := s1\<rparr>, Inl DhRejected) | Some se \<Rightarrow>
           let (s3, ctPayload) = encryptAndHash P (mixKey P s1 se) payload in
           (c\<lparr>ns := s3, msgIdx := 3\<rparr>, Inr (sCt @ ctPayload)))
      | _ \<Rightarrow> (c, Inl MissingEphemerals))"

definition readMsg3 :: "noise_prims \<Rightarrow> handshake \<Rightarrow> bytes \<Rightarrow> answer" where
  "readMsg3 P c message =
     (case eSecret c of None \<Rightarrow> (c, Inl MissingLocalEphemeral) | Some eS \<Rightarrow>
      (case decryptAndHash P (ns c) (js_slice 0 S_CT_BYTES message) of
         (s, Inl e) \<Rightarrow> (c\<lparr>ns := s\<rparr>, Inl e)
       | (s1, Inr sPayload) \<Rightarrow>
         let c1 = c\<lparr>ns := s1, rsPublic := Some (js_slice 0 32 sPayload),
                   rsX25519Public := Some (js_slice 32 64 sPayload)\<rparr> in
         (case x25519_dh P eS (js_slice 32 64 sPayload) of None \<Rightarrow> (c1, Inl DhRejected) | Some se \<Rightarrow>
          (case decryptAndHash P (mixKey P s1 se) (drop S_CT_BYTES message) of
             (s, Inl e) \<Rightarrow> (c1\<lparr>ns := s\<rparr>, Inl e)
           | (s3, Inr payload) \<Rightarrow> (c1\<lparr>ns := s3, msgIdx := 3\<rparr>, Inr payload)))))"

definition writeMessage :: "noise_prims \<Rightarrow> draws \<Rightarrow> handshake \<Rightarrow> bytes \<Rightarrow> answer" where
  "writeMessage P d c payload =
     (if length payload > MAX_HANDSHAKE_MSG_BYTES then (c, Inl PayloadTooLarge)
      else if hs_role c = InitiatorRole \<and> msgIdx c = 0 then writeMsg1 P d c payload
      else if hs_role c = ResponderRole \<and> msgIdx c = 1 then writeMsg2 P d c payload
      else if hs_role c = InitiatorRole \<and> msgIdx c = 2 then writeMsg3 P c payload
      else (c, Inl (NoiseStateError (hs_role c) (msgIdx c))))"

definition readMessage :: "noise_prims \<Rightarrow> draws \<Rightarrow> handshake \<Rightarrow> bytes \<Rightarrow> answer" where
  "readMessage P d c message =
     (if length message > MAX_HANDSHAKE_MSG_BYTES + 256 then (c, Inl MessageTooLarge)
      else if hs_role c = ResponderRole \<and> msgIdx c = 0 then readMsg1 P d c message
      else if hs_role c = InitiatorRole \<and> msgIdx c = 1 then readMsg2 P c message
      else if hs_role c = ResponderRole \<and> msgIdx c = 2 then readMsg3 P c message
      else (c, Inl (NoiseStateError (hs_role c) (msgIdx c))))"

record noise_split =
  sendKey :: bytes
  recvKey :: bytes

definition split_keys :: "noise_prims \<Rightarrow> handshake \<Rightarrow> noise_error + noise_split" where
  "split_keys P c =
     (if msgIdx c \<noteq> 3 then Inl SplitIncomplete
      else (case mlkemSharedSecret c of None \<Rightarrow> Inl SplitMissingSecret | Some ss \<Rightarrow>
        let okm = hkdf_salted P (ns_ck (ns c) @ ss) (ns_h (ns c)) HKDF_INFO (SPLIT_KEY_BYTES * 2);
            k1 = js_slice 0 SPLIT_KEY_BYTES okm;
            k2 = js_slice SPLIT_KEY_BYTES (SPLIT_KEY_BYTES * 2) okm in
        Inr (if hs_role c = InitiatorRole then \<lparr>sendKey = k1, recvKey = k2\<rparr>
             else \<lparr>sendKey = k2, recvKey = k1\<rparr>)))"

definition noise_sas :: "handshake \<Rightarrow> string option" where
  "noise_sas c = computeSas (ns_h (ns c))"

lemma new_handshake_fields [simp]:
  "hs_role (new_handshake P ro iden) = ro" "hs_id (new_handshake P ro iden) = iden"
  "msgIdx (new_handshake P ro iden) = 0" "ns_k (ns (new_handshake P ro iden)) = None"
  by (simp_all add: new_handshake_def Let_def)

lemma new_handshake_ns: "ns (new_handshake P ro iden) = ns (new_handshake P ro' iden')"
  by (simp add: new_handshake_def Let_def)

section \<open>What the primitives promise\<close>

text \<open>
  AES-GCM opens what it sealed and adds sixteen bytes; X25519 agrees on both sides and does not
  fail on honestly made public keys; ML-KEM-768 has the sizes of FIPS 203 and decapsulates what
  was encapsulated.
\<close>

definition noise_laws :: "noise_prims \<Rightarrow> bool" where
  "noise_laws P \<longleftrightarrow>
     (\<forall>k n ad pt. aes_dec P k n ad (aes_enc P k n ad pt) = Some pt
        \<and> length (aes_enc P k n ad pt) = length pt + 16)
     \<and> (\<forall>a b. x25519_dh P a (x25519_pub P b) = x25519_dh P b (x25519_pub P a)
        \<and> x25519_dh P a (x25519_pub P b) \<noteq> None \<and> length (x25519_pub P a) = 32)
     \<and> (\<forall>seed r. length (fst (kem_keygen P seed)) = 1184
        \<and> length (fst (kem_encap P r (fst (kem_keygen P seed)))) = 1088
        \<and> length (snd (kem_encap P r (fst (kem_keygen P seed)))) = 32
        \<and> kem_decap P (snd (kem_keygen P seed)) (fst (kem_encap P r (fst (kem_keygen P seed))))
           = snd (kem_encap P r (fst (kem_keygen P seed))))"

text \<open>The identity whose X25519 secret is \<open>x\<close>.\<close>

definition identity_of :: "noise_prims \<Rightarrow> bytes \<Rightarrow> device_identity \<Rightarrow> bool" where
  "identity_of P x iden \<longleftrightarrow> length (id_ed25519 iden) = 32 \<and> id_x25519 iden = x25519_pub P x
     \<and> id_dh iden = x25519_dh P x"

lemma laws_aes:
  "noise_laws P \<Longrightarrow> aes_dec P k n ad (aes_enc P k n ad pt) = Some pt"
  "noise_laws P \<Longrightarrow> length (aes_enc P k n ad pt) = length pt + 16"
  by (simp_all add: noise_laws_def)

lemma laws_dh:
  assumes "noise_laws P"
  shows "length (x25519_pub P a) = 32"
    and "\<exists>z. x25519_dh P a (x25519_pub P b) = Some z \<and> x25519_dh P b (x25519_pub P a) = Some z"
  using assms by (auto simp: noise_laws_def)

lemma laws_kem:
  assumes "noise_laws P" "kem_keygen P seed = (pk, sk)" "kem_encap P r pk = (ct, ss)"
  shows "length pk = 1184" "length ct = 1088" "length ss = 32" "kem_decap P sk ct = ss"
proof -
  from assms(1) have "length (fst (kem_keygen P seed)) = 1184
    \<and> length (fst (kem_encap P r (fst (kem_keygen P seed)))) = 1088
    \<and> length (snd (kem_encap P r (fst (kem_keygen P seed)))) = 32
    \<and> kem_decap P (snd (kem_keygen P seed)) (fst (kem_encap P r (fst (kem_keygen P seed))))
       = snd (kem_encap P r (fst (kem_keygen P seed)))"
    by (simp add: noise_laws_def)
  then show "length pk = 1184" "length ct = 1088" "length ss = 32" "kem_decap P sk ct = ss"
    using assms(2,3) by simp_all
qed

lemma decrypt_encrypt_hash:
  "noise_laws P \<Longrightarrow> encryptAndHash P s pt = (s', ct) \<Longrightarrow> decryptAndHash P s ct = (s', Inr pt)"
  by (auto simp: encryptAndHash_def decryptAndHash_def Let_def laws_aes split: option.splits)

lemma length_encryptAndHash:
  "noise_laws P \<Longrightarrow> encryptAndHash P s pt = (s', ct) \<Longrightarrow>
     length ct = (if ns_k s = None then length pt else length pt + 16)"
  by (auto simp: encryptAndHash_def Let_def laws_aes split: option.splits)

lemma mixKey_has_key [simp]: "ns_k (mixKey P s ikm) \<noteq> None"
  by (simp add: mixKey_def Let_def)

lemma encrypt_keeps_key:
  "encryptAndHash P s pt = (s', ct) \<Longrightarrow> ns_k s' = ns_k s"
  by (auto simp: encryptAndHash_def Let_def mixHash_def split: option.splits)

section \<open>One message each way\<close>

text \<open>What the two ends share after the first and after the second message.\<close>

definition after_msg1 :: "noise_prims \<Rightarrow> draws \<Rightarrow> draws \<Rightarrow> handshake \<Rightarrow> handshake \<Rightarrow> bool" where
  "after_msg1 P dI dR i r \<longleftrightarrow> hs_role i = InitiatorRole \<and> hs_role r = ResponderRole
     \<and> msgIdx i = 1 \<and> msgIdx r = 1 \<and> ns i = ns r \<and> ns_k (ns i) = None
     \<and> eSecret i = Some (d_eph dI) \<and> rePublic r = Some (x25519_pub P (d_eph dI))
     \<and> mlkemKeypair i = Some (kem_keygen P (d_kem dI))
     \<and> (case kem_encap P (d_kem dR) (fst (kem_keygen P (d_kem dI))) of
          (ct, ss) \<Rightarrow> mlkemKeypair r = Some (ct, []) \<and> mlkemSharedSecret r = Some ss)"

definition after_msg2 :: "noise_prims \<Rightarrow> draws \<Rightarrow> draws \<Rightarrow> handshake \<Rightarrow> handshake \<Rightarrow> bool" where
  "after_msg2 P dI dR i r \<longleftrightarrow> hs_role i = InitiatorRole \<and> hs_role r = ResponderRole
     \<and> msgIdx i = 2 \<and> msgIdx r = 2 \<and> ns i = ns r \<and> ns_k (ns i) \<noteq> None
     \<and> eSecret i = Some (d_eph dI) \<and> rePublic i = Some (x25519_pub P (d_eph dR))
     \<and> eSecret r = Some (d_eph dR)
     \<and> (\<exists>ss. mlkemSharedSecret i = Some ss \<and> mlkemSharedSecret r = Some ss)
     \<and> rsPublic i = Some (id_ed25519 (hs_id r))"

lemma msg1_exchange:
  assumes P: "noise_laws P"
    and st: "hs_role i = InitiatorRole" "hs_role r = ResponderRole" "msgIdx i = 0" "msgIdx r = 0"
      "ns i = ns r" "ns_k (ns i) = None"
    and p: "length p \<le> 540"
  obtains i' r' m where "writeMessage P dI i p = (i', Inr m)" "readMessage P dR r m = (r', Inr p)"
    "length m = 1216 + length p" "after_msg1 P dI dR i' r'" "hs_id i' = hs_id i" "hs_id r' = hs_id r"
proof -
  let ?eP = "x25519_pub P (d_eph dI)"
  obtain pk sk where kg: "kem_keygen P (d_kem dI) = (pk, sk)" by fastforce
  obtain ct ss where en: "kem_encap P (d_kem dR) pk = (ct, ss)" by fastforce
  note kem = laws_kem [OF P kg en] and dh = laws_dh(1) [OF P, of "d_eph dI"]
  let ?s1 = "mixHash P (ns i) ?eP" and ?hp = "pk @ p"
  let ?s2 = "mixHash P ?s1 ?hp"
  have k: "ns_k ?s1 = None" using st by (simp add: mixHash_def)
  let ?i = "i\<lparr>eSecret := Some (d_eph dI), ePublic := Some ?eP, ns := ?s2,
      mlkemKeypair := Some (pk, sk), msgIdx := 1\<rparr>"
  let ?r = "r\<lparr>rePublic := Some ?eP, ns := ?s2, mlkemKeypair := Some (ct, []),
      mlkemSharedSecret := Some ss, msgIdx := 1\<rparr>"
  have w: "writeMessage P dI i p = (?i, Inr (?eP @ ?hp))"
    using st p kem k by (simp add: writeMessage_def writeMsg1_def generateMlkemKeypair_def kg
        encryptAndHash_def noise_consts Let_def)
  have m: "js_slice 0 32 (?eP @ ?hp) = ?eP" "drop 32 (?eP @ ?hp) = ?hp"
    "js_slice 0 1184 ?hp = pk" "drop 1184 ?hp = p"
    using dh kem by (simp_all add: js_slice_def)
  have r: "readMessage P dR r (?eP @ ?hp) = (?r, Inr p)"
    using st p kem k dh m by (simp add: readMessage_def readMsg1_def noise_consts Let_def
        decryptAndHash_def encapsulate_def en)
  have a: "after_msg1 P dI dR ?i ?r" using st k kg en by (simp add: after_msg1_def mixHash_def)
  have l: "length (?eP @ ?hp) = 1216 + length p" using dh kem by simp
  show thesis by (rule that [OF w r l a]) simp_all
qed

lemma msg2_exchange:
  assumes P: "noise_laws P" and a: "after_msg1 P dI dR i r"
    and idr: "identity_of P xR (hs_id r)" and p: "length p \<le> 540"
  obtains i' r' m where "writeMessage P dR r p = (r', Inr m)" "readMessage P dI i m = (i', Inr p)"
    "length m = 1216 + length p" "after_msg2 P dI dR i' r'" "hs_id i' = hs_id i" "hs_id r' = hs_id r"
proof -
  let ?eI = "x25519_pub P (d_eph dI)" and ?eR = "x25519_pub P (d_eph dR)"
  obtain pk sk where kg: "kem_keygen P (d_kem dI) = (pk, sk)" by fastforce
  obtain ct ss where en: "kem_encap P (d_kem dR) pk = (ct, ss)" by fastforce
  note kem = laws_kem [OF P kg en]
  note st = a [unfolded after_msg1_def kg fst_conv en prod.case]
  obtain ee where ee: "x25519_dh P (d_eph dR) ?eI = Some ee" "x25519_dh P (d_eph dI) ?eR = Some ee"
    using laws_dh(2) [OF P] by blast
  obtain es where es: "x25519_dh P xR ?eI = Some es"
    "x25519_dh P (d_eph dI) (x25519_pub P xR) = Some es"
    using laws_dh(2) [OF P] by blast
  have dh: "length ?eR = 32" "length (x25519_pub P xR) = 32" by (rule laws_dh(1) [OF P])+
  let ?ed = "id_ed25519 (hs_id r)" and ?xs = "x25519_pub P xR"
  have ids: "length ?ed = 32" "id_x25519 (hs_id r) = ?xs" "id_dh (hs_id r) = x25519_dh P xR"
    using idr by (simp_all add: identity_of_def)
  let ?s2 = "mixKey P (mixHash P (ns i) ?eR) ee"
  obtain s3 sCt where e3: "encryptAndHash P ?s2 (?ed @ ?xs) = (s3, sCt)" by fastforce
  obtain s5 ctp where e5: "encryptAndHash P (mixKey P s3 es) (ct @ p) = (s5, ctp)" by fastforce
  note d3 = decrypt_encrypt_hash [OF P e3] and d5 = decrypt_encrypt_hash [OF P e5]
  have l3: "length sCt = 80" using length_encryptAndHash [OF P e3] dh ids by simp
  have l5: "length ctp = 1104 + length p" using length_encryptAndHash [OF P e5] kem by simp
  let ?m = "?eR @ sCt @ ctp"
  let ?r = "r\<lparr>eSecret := Some (d_eph dR), ePublic := Some ?eR, ns := s5, msgIdx := 2\<rparr>"
  let ?i = "i\<lparr>rePublic := Some ?eR, ns := s5, rsPublic := Some ?ed, rsX25519Public := Some ?xs,
      mlkemSharedSecret := Some ss, msgIdx := 2\<rparr>"
  have w: "writeMessage P dR r p = (?r, Inr ?m)"
    using st p ee es ids e3 e5 by (simp add: writeMessage_def writeMsg2_def noise_consts Let_def)
  have m: "js_slice 0 32 ?m = ?eR" "js_slice 32 112 ?m = sCt" "drop 112 ?m = ctp"
    "js_slice 0 32 (?ed @ ?xs) = ?ed" "js_slice 32 64 (?ed @ ?xs) = ?xs"
    "js_slice 0 1088 (ct @ p) = ct" "drop 1088 (ct @ p) = p"
    using dh l3 ids kem by (simp_all add: js_slice_def)
  have rd: "readMessage P dI i ?m = (?i, Inr p)"
    using st p dh l3 l5 m ee es d3 d5 kem
    by (simp add: readMessage_def readMsg2_def noise_consts Let_def decapsulate_def kg)
  have l: "length ?m = 1216 + length p" using dh l3 l5 by simp
  have "ns_k s5 \<noteq> None" using encrypt_keeps_key [OF e5] by simp
  then have af: "after_msg2 P dI dR ?i ?r" using st by (simp add: after_msg2_def)
  show thesis by (rule that [OF w rd l af]) simp_all
qed

lemma msg3_exchange:
  assumes P: "noise_laws P" and a: "after_msg2 P dI dR i r"
    and idi: "identity_of P xI (hs_id i)" and p: "length p \<le> 1500"
  obtains i' r' m where "writeMessage P dI' i p = (i', Inr m)" "readMessage P dR' r m = (r', Inr p)"
    "length m = 96 + length p" "isComplete i'" "isComplete r'" "ns i' = ns r'"
    "mlkemSharedSecret i' = mlkemSharedSecret r'" "mlkemSharedSecret i' \<noteq> None"
    "hs_role i' = InitiatorRole" "hs_role r' = ResponderRole"
    "rsPublic i' = Some (id_ed25519 (hs_id r))" "rsPublic r' = Some (id_ed25519 (hs_id i))"
proof -
  let ?eR = "x25519_pub P (d_eph dR)"
  note st = a [unfolded after_msg2_def]
  obtain se where se: "x25519_dh P xI ?eR = Some se"
    "x25519_dh P (d_eph dR) (x25519_pub P xI) = Some se"
    using laws_dh(2) [OF P] by blast
  have dh: "length (x25519_pub P xI) = 32" by (rule laws_dh(1) [OF P])
  let ?ed = "id_ed25519 (hs_id i)" and ?xs = "x25519_pub P xI"
  have ids: "length ?ed = 32" "id_x25519 (hs_id i) = ?xs" "id_dh (hs_id i) = x25519_dh P xI"
    using idi by (simp_all add: identity_of_def)
  obtain s1 sCt where e1: "encryptAndHash P (ns r) (?ed @ ?xs) = (s1, sCt)" by fastforce
  obtain s3 ctp where e3: "encryptAndHash P (mixKey P s1 se) p = (s3, ctp)" by fastforce
  note d1 = decrypt_encrypt_hash [OF P e1] and d3 = decrypt_encrypt_hash [OF P e3]
  have "ns_k (ns r) \<noteq> None" using st by metis
  then have l1: "length sCt = 80" using length_encryptAndHash [OF P e1] dh ids by simp
  have l3: "length ctp = 16 + length p" using length_encryptAndHash [OF P e3] by simp
  let ?m = "sCt @ ctp"
  let ?i = "i\<lparr>ns := s3, msgIdx := 3\<rparr>"
  let ?r = "r\<lparr>ns := s3, rsPublic := Some ?ed, rsX25519Public := Some ?xs, msgIdx := 3\<rparr>"
  have w: "writeMessage P dI' i p = (?i, Inr ?m)"
    using st p se ids e1 e3 by (simp add: writeMessage_def writeMsg3_def noise_consts)
  have m: "js_slice 0 80 ?m = sCt" "drop 80 ?m = ctp"
    "js_slice 0 32 (?ed @ ?xs) = ?ed" "js_slice 32 64 (?ed @ ?xs) = ?xs"
    using dh l1 ids by (simp_all add: js_slice_def)
  have rd: "readMessage P dR' r ?m = (?r, Inr p)"
    using st p l1 l3 m se d1 d3
    by (simp add: readMessage_def readMsg3_def noise_consts Let_def)
  have l: "length ?m = 96 + length p" using l1 l3 by simp
  have ss: "mlkemSharedSecret ?i = mlkemSharedSecret ?r" "mlkemSharedSecret ?i \<noteq> None"
    using st by auto
  show thesis
    by (rule that [OF w rd l _ _ _ ss]) (use st in \<open>simp_all add: isComplete_def\<close>)
qed

section \<open>The whole handshake\<close>

text \<open>The three messages, carried from one object to the other; the first error ends the run.\<close>

definition run_handshake ::
  "noise_prims \<Rightarrow> draws \<Rightarrow> draws \<Rightarrow> handshake \<Rightarrow> handshake \<Rightarrow> bytes \<Rightarrow> bytes \<Rightarrow> bytes
     \<Rightarrow> noise_error + handshake \<times> handshake \<times> bytes list" where
  "run_handshake P dI dR i r p1 p2 p3 =
     (case writeMessage P dI i p1 of (i1, Inl e) \<Rightarrow> Inl e | (i1, Inr m1) \<Rightarrow>
     (case readMessage P dR r m1 of (r1, Inl e) \<Rightarrow> Inl e | (r1, Inr q1) \<Rightarrow>
     (case writeMessage P dR r1 p2 of (r2, Inl e) \<Rightarrow> Inl e | (r2, Inr m2) \<Rightarrow>
     (case readMessage P dI i1 m2 of (i2, Inl e) \<Rightarrow> Inl e | (i2, Inr q2) \<Rightarrow>
     (case writeMessage P dI i2 p3 of (i3, Inl e) \<Rightarrow> Inl e | (i3, Inr m3) \<Rightarrow>
     (case readMessage P dR r2 m3 of (r3, Inl e) \<Rightarrow> Inl e | (r3, Inr q3) \<Rightarrow>
        Inr (i3, r3, [q1, q2, q3])))))))"

section \<open>An honest run\<close>

lemma handshake_run:
  assumes "noise_laws P" and "identity_of P xI idI" and "identity_of P xR idR"
    and "length p1 \<le> 540" and "length p2 \<le> 540" and "length p3 \<le> 1500"
  shows "\<exists>i r k. run_handshake P dI dR (new_handshake P InitiatorRole idI)
        (new_handshake P ResponderRole idR) p1 p2 p3 = Inr (i, r, [p1, p2, p3])
    \<and> isComplete i \<and> isComplete r
    \<and> split_keys P i = Inr k \<and> split_keys P r = Inr \<lparr>sendKey = recvKey k, recvKey = sendKey k\<rparr>
    \<and> noise_sas i = noise_sas r
    \<and> peerStaticPublicKey i = Some (id_ed25519 idR) \<and> peerStaticPublicKey r = Some (id_ed25519 idI)"
proof -
  let ?i = "new_handshake P InitiatorRole idI" and ?r = "new_handshake P ResponderRole idR"
  obtain i1 r1 m1 where 1: "writeMessage P dI ?i p1 = (i1, Inr m1)" "readMessage P dR ?r m1 = (r1, Inr p1)"
    and a1: "after_msg1 P dI dR i1 r1" "hs_id i1 = idI" "hs_id r1 = idR"
    using msg1_exchange [OF assms(1), of ?i ?r p1 dI dR] assms(4) new_handshake_ns
    by (metis new_handshake_fields)
  obtain i2 r2 m2 where 2: "writeMessage P dR r1 p2 = (r2, Inr m2)" "readMessage P dI i1 m2 = (i2, Inr p2)"
    and a2: "after_msg2 P dI dR i2 r2" "hs_id i2 = idI" "hs_id r2 = idR"
    using msg2_exchange [OF assms(1) a1(1), of xR p2] assms(3,5) a1(2,3) by metis
  obtain i3 r3 m3 where 3: "writeMessage P dI i2 p3 = (i3, Inr m3)" "readMessage P dR r2 m3 = (r3, Inr p3)"
    and c: "isComplete i3" "isComplete r3" "ns i3 = ns r3"
    "mlkemSharedSecret i3 = mlkemSharedSecret r3" "mlkemSharedSecret i3 \<noteq> None"
    "hs_role i3 = InitiatorRole" "hs_role r3 = ResponderRole"
    "rsPublic i3 = Some (id_ed25519 idR)" "rsPublic r3 = Some (id_ed25519 idI)"
    using msg3_exchange [OF assms(1) a2(1), of xI p3 dI dR] assms(2,6) a2(2,3) by metis
  have "run_handshake P dI dR ?i ?r p1 p2 p3 = Inr (i3, r3, [p1, p2, p3])"
    by (simp add: run_handshake_def 1 2 3)
  moreover obtain sec where "mlkemSharedSecret i3 = Some sec" "mlkemSharedSecret r3 = Some sec"
    using c(4,5) by auto
  then have "split_keys P i3 = Inr (projr (split_keys P i3))"
    "split_keys P r3 = Inr \<lparr>sendKey = recvKey (projr (split_keys P i3)),
        recvKey = sendKey (projr (split_keys P i3))\<rparr>"
    using c(1-3,6,7) by (simp_all add: split_keys_def isComplete_def Let_def)
  ultimately show ?thesis using c by (auto simp: noise_sas_def peerStaticPublicKey_def)
qed

section \<open>Properties\<close>

text \<open>C2: The handshake completes and agrees: between two honest parties, for any payloads that fit (540
  bytes in the first two messages, 1500 in the third), all three messages are read with their
  payloads, both ends are complete, derive complementary session keys and the same
  authentication string, and each has learned the other's Ed25519 key.\<close>

theorem handshake_agrees:
  assumes "noise_laws P" and "identity_of P xI idI" and "identity_of P xR idR"
    and "length p1 \<le> 540" and "length p2 \<le> 540" and "length p3 \<le> 1500"
  shows "\<exists>i r k. run_handshake P dI dR (new_handshake P InitiatorRole idI)
        (new_handshake P ResponderRole idR) p1 p2 p3 = Inr (i, r, [p1, p2, p3])
    \<and> isComplete i \<and> isComplete r
    \<and> split_keys P i = Inr k \<and> split_keys P r = Inr \<lparr>sendKey = recvKey k, recvKey = sendKey k\<rparr>
    \<and> noise_sas i = noise_sas r
    \<and> peerStaticPublicKey i = Some (id_ed25519 idR) \<and> peerStaticPublicKey r = Some (id_ed25519 idI)"
  by (rule handshake_run [OF assms])

text \<open>A concrete instance of the primitives, for the witnesses.\<close>

definition pad32 :: "bytes \<Rightarrow> bytes" where
  "pad32 a = take 32 (a @ replicate 32 0)"

definition sample_noise :: noise_prims where
  "sample_noise = \<lparr>sha256 = (\<lambda>x. replicate 32 (sum_list x)),
     hmac = (\<lambda>k x. replicate 32 (sum_list k + 3 * sum_list x)),
     hkdf_salted = (\<lambda>ikm salt info len. map (\<lambda>i. of_nat i + sum_list ikm + sum_list salt) [0..<len]),
     x25519_pub = pad32,
     x25519_dh = (\<lambda>a p. Some (map2 (+) (pad32 a) p)),
     aes_enc = (\<lambda>k n ad pt. pt @ replicate 16 (sum_list k + sum_list ad)),
     aes_dec = (\<lambda>k n ad ct. if drop (length ct - 16) ct = replicate 16 (sum_list k + sum_list ad)
                 then Some (take (length ct - 16) ct) else None),
     kem_keygen = (\<lambda>seed. (pad32 seed @ replicate 1152 0, seed)),
     kem_encap = (\<lambda>r pk. (pad32 r @ replicate 1056 0, pad32 r)),
     kem_decap = (\<lambda>sk ct. take 32 ct)\<rparr>"

lemma length_pad32 [simp]: "length (pad32 a) = 32"
  by (simp add: pad32_def)

lemma pad32_sum_commute: "map2 (+) (pad32 a) (pad32 b) = map2 (+) (pad32 b) (pad32 a)"
  by (rule nth_equalityI) (simp_all add: add.commute)

lemma sample_noise_laws: "noise_laws sample_noise"
  by (auto simp: noise_laws_def sample_noise_def pad32_sum_commute)

definition sample_identity :: "byte \<Rightarrow> device_identity" where
  "sample_identity b = \<lparr>id_ed25519 = replicate 32 b, id_x25519 = x25519_pub sample_noise [b],
     id_dh = x25519_dh sample_noise [b]\<rparr>"

lemma sample_identity_of: "identity_of sample_noise [b] (sample_identity b)"
  by (simp add: identity_of_def sample_identity_def)

theorem handshake_agrees_witness:
  "\<exists>i r. run_handshake sample_noise \<lparr>d_eph = [5], d_kem = [6]\<rparr> \<lparr>d_eph = [7], d_kem = [8]\<rparr>
        (new_handshake sample_noise InitiatorRole (sample_identity 1))
        (new_handshake sample_noise ResponderRole (sample_identity 2)) [104] [] [105]
      = Inr (i, r, [[104], [], [105]]) \<and> noise_sas i = noise_sas r"
  using handshake_agrees [OF sample_noise_laws sample_identity_of [of 1] sample_identity_of [of 2],
      of "[104]" "[]" "[105]" "\<lparr>d_eph = [5], d_kem = [6]\<rparr>" "\<lparr>d_eph = [7], d_kem = [8]\<rparr>"] by auto

text \<open>Note: Message order is enforced: a message is written or read successfully only in the caller's turn
  (the initiator writes at 0 and 2 and reads at 1, the responder reads at 0 and 2 and writes at
  1) and then moves the index on by one; a failed call never moves it, and out of turn a call
  of acceptable size is a NoiseStateError that changes nothing.\<close>

theorem message_turns:
  "(case writeMessage P d c x of
      (c', Inr m) \<Rightarrow> msgIdx c' = Suc (msgIdx c) \<and>
        (hs_role c, msgIdx c) \<in> {(InitiatorRole, 0), (ResponderRole, 1), (InitiatorRole, 2)}
    | (c', Inl e) \<Rightarrow> msgIdx c' = msgIdx c)
   \<and> (case readMessage P d c x of
      (c', Inr m) \<Rightarrow> msgIdx c' = Suc (msgIdx c) \<and>
        (hs_role c, msgIdx c) \<in> {(ResponderRole, 0), (InitiatorRole, 1), (ResponderRole, 2)}
    | (c', Inl e) \<Rightarrow> msgIdx c' = msgIdx c)
   \<and> (writeMessage P d c x = (c, Inl (NoiseStateError (hs_role c) (msgIdx c)))
      \<or> length x > 1500
      \<or> (hs_role c, msgIdx c) \<in> {(InitiatorRole, 0), (ResponderRole, 1), (InitiatorRole, 2)})
   \<and> (readMessage P d c x = (c, Inl (NoiseStateError (hs_role c) (msgIdx c)))
      \<or> length x > 1756
      \<or> (hs_role c, msgIdx c) \<in> {(ResponderRole, 0), (InitiatorRole, 1), (ResponderRole, 2)})"
  (is "?w \<and> ?r \<and> ?wo \<and> ?ro")
proof (intro conjI)
  show ?w
    by (auto simp: writeMessage_def writeMsg1_def writeMsg2_def writeMsg3_def Let_def
        split: prod.splits sum.splits option.splits)
  show ?r
    by (auto simp: readMessage_def readMsg1_def readMsg2_def readMsg3_def Let_def
        split: prod.splits sum.splits option.splits)
  show ?wo by (cases "hs_role c") (auto simp: writeMessage_def noise_consts)
  show ?ro by (cases "hs_role c") (auto simp: readMessage_def noise_consts)
qed

text \<open>Note: The size limits do not match: a first message with a payload of 541 to 1500 bytes is written
  without an error, and every reader refuses it as too large.\<close>

theorem long_first_payload_unreadable:
  assumes "noise_laws P" and "540 < length p" and "length p \<le> 1500"
  shows "\<exists>i m. writeMessage P d (new_handshake P InitiatorRole iden) p = (i, Inr m)
    \<and> (\<forall>c d'. readMessage P d' c m = (c, Inl MessageTooLarge))"
proof -
  obtain pk sk where kg: "kem_keygen P (d_kem d) = (pk, sk)" by fastforce
  have l: "length pk = 1184" using laws_kem(1) [OF assms(1) kg] by fastforce
  have k: "ns_k (mixHash P (ns (new_handshake P InitiatorRole iden)) x) = None" for x
    by (simp add: mixHash_def)
  have "\<exists>i. writeMessage P d (new_handshake P InitiatorRole iden) p
      = (i, Inr (x25519_pub P (d_eph d) @ pk @ p))"
    using assms(3) l k by (simp add: writeMessage_def writeMsg1_def noise_consts Let_def
        generateMlkemKeypair_def kg encryptAndHash_def)
  moreover have "length (x25519_pub P (d_eph d) @ pk @ p) > 1756"
    using laws_dh(1) [OF assms(1)] l assms(2) by simp
  ultimately show ?thesis by (fastforce simp: readMessage_def noise_consts)
qed

theorem long_first_payload_unreadable_witness:
  "\<exists>i m. writeMessage sample_noise \<lparr>d_eph = [5], d_kem = [6]\<rparr>
       (new_handshake sample_noise InitiatorRole (sample_identity 1)) (replicate 600 0) = (i, Inr m)
     \<and> (\<forall>c d'. readMessage sample_noise d' c m = (c, Inl MessageTooLarge))"
  by (rule long_first_payload_unreadable [OF sample_noise_laws]) simp_all

text \<open>Note: A rejected second message is not undone: when the initiator reads a message whose first
  ciphertext fails to authenticate, it stays at index 1, yet its hash and chaining key have
  absorbed the bogus ephemeral key, so what it reads next is checked against another state.\<close>

theorem rejected_message2_stays_mixed:
  assumes "hs_role c = InitiatorRole" and "msgIdx c = 1" and "eSecret c = Some eS"
    and "mlkemKeypair c = Some kp" and "length m \<le> 1756"
    and "x25519_dh P eS (js_slice 0 32 m) = Some ee"
    and "snd (decryptAndHash P (mixKey P (mixHash P (ns c) (js_slice 0 32 m)) ee) (js_slice 32 112 m))
      = Inl AeadRejected"
  shows "readMessage P d c m =
    (c\<lparr>rePublic := Some (js_slice 0 32 m), ns := mixKey P (mixHash P (ns c) (js_slice 0 32 m)) ee\<rparr>,
     Inl AeadRejected)"
proof -
  let ?s = "mixKey P (mixHash P (ns c) (js_slice 0 32 m)) ee"
  have "decryptAndHash P ?s (js_slice 32 112 m) = (?s, Inl AeadRejected)"
    using assms(7) by (auto simp: decryptAndHash_def split: option.splits)
  then show ?thesis using assms(1-6)
    by (simp add: readMessage_def readMsg2_def noise_consts Let_def)
qed

theorem rejected_message2_stays_mixed_witness:
  "ns_h (ns (fst (readMessage (sample_noise\<lparr>aes_dec := \<lambda>k n ad ct. None\<rparr>) \<lparr>d_eph = [], d_kem = []\<rparr>
      (new_handshake sample_noise InitiatorRole (sample_identity 1)
        \<lparr>msgIdx := 1, eSecret := Some [5], mlkemKeypair := Some ([], [])\<rparr>) (replicate 112 1))))
   = sha256 sample_noise (ns_h (ns (new_handshake sample_noise InitiatorRole (sample_identity 1)))
       @ replicate 32 1)"
proof -
  let ?P = "sample_noise\<lparr>aes_dec := \<lambda>k n ad ct. None\<rparr>"
  let ?c = "new_handshake sample_noise InitiatorRole (sample_identity 1)
        \<lparr>msgIdx := 1, eSecret := Some [5], mlkemKeypair := Some ([], [])\<rparr>"
  let ?ee = "map2 (+) (pad32 [5]) (replicate 32 1)"
  have m: "js_slice 0 32 (replicate 112 (1 :: byte)) = replicate 32 1"
    by (simp add: js_slice_def)
  have dh: "x25519_dh ?P [5] (js_slice 0 32 (replicate 112 1)) = Some ?ee"
    by (simp add: m sample_noise_def)
  have bad: "snd (decryptAndHash ?P (mixKey ?P s ?ee) ct) = Inl AeadRejected" for s ct
    by (auto simp: decryptAndHash_def mixKey_def Let_def)
  have "readMessage ?P \<lparr>d_eph = [], d_kem = []\<rparr> ?c (replicate 112 1) =
    (?c\<lparr>rePublic := Some (replicate 32 1),
        ns := mixKey ?P (mixHash ?P (ns ?c) (replicate 32 1)) ?ee\<rparr>, Inl AeadRejected)"
    using rejected_message2_stays_mixed [of ?c "[5]" "([], [])" "replicate 112 1" ?P ?ee, OF _ _ _ _ _ dh bad]
    by (simp add: m)
  then show ?thesis by (simp add: mixKey_def mixHash_def Let_def)
qed

end
