(* ===== verification/Object_Store.thy ===== *)
theory Object_Store
  imports Prelude "HOL-Library.Multiset" "HOL-Library.Char_ord" "HOL-Library.List_Lexorder"
begin

text \<open>
  What the mailboxes use of an IndexedDB object store. The store is the list of its records in
  the order of their primary key; an index cursor visits them in the order of the index key,
  ties in the order of the primary key; a transaction that aborts leaves the store as it was.
  The loops of the mailboxes that walk a cursor and delete stand here once, as do the
  operations that \<open>inbox.ts\<close>, \<open>spool.ts\<close> and \<open>outbox.ts\<close> write out for each store.
\<close>

section \<open>Store\<close>

fun os_put :: "('v \<Rightarrow> 'k :: linorder) \<Rightarrow> 'v \<Rightarrow> 'v list \<Rightarrow> 'v list" where
  "os_put key v [] = [v]"
| "os_put key v (x # xs) =
     (if key x < key v then x # os_put key v xs
      else if key x = key v then v # xs
      else v # x # xs)"

definition os_delete :: "('v \<Rightarrow> 'k) \<Rightarrow> 'k \<Rightarrow> 'v list \<Rightarrow> 'v list" where
  "os_delete key k s = filter (\<lambda>x. key x \<noteq> k) s"

definition os_get :: "('v \<Rightarrow> 'k) \<Rightarrow> 'k \<Rightarrow> 'v list \<Rightarrow> 'v option" where
  "os_get key k s = find (\<lambda>x. key x = k) s"

text \<open>The records in the order of an index.\<close>

definition os_index :: "('v \<Rightarrow> 'i :: linorder) \<Rightarrow> 'v list \<Rightarrow> 'v list" where
  "os_index ix s = sort_key ix s"

definition os_wf :: "('v \<Rightarrow> 'k :: linorder) \<Rightarrow> 'v list \<Rightarrow> bool" where
  "os_wf key s \<longleftrightarrow> sorted_wrt (<) (map key s)"

named_theorems store_simps \<open>contents of an object store\<close>

lemma os_wf_Nil [simp]: "os_wf key []"
  by (simp add: os_wf_def)

lemma os_wf_distinct: "os_wf key s \<Longrightarrow> distinct (map key s)"
  by (simp add: os_wf_def strict_sorted_iff)

lemma os_wf_filter: "os_wf key s \<Longrightarrow> os_wf key (filter P s)"
  by (induction s) (auto simp: os_wf_def)

lemma os_wf_delete [simp]: "os_wf key s \<Longrightarrow> os_wf key (os_delete key k s)"
  by (simp add: os_delete_def os_wf_filter)

lemma set_os_put_subset: "set (os_put key v s) \<subseteq> insert v (set s)"
  by (induction s) auto

lemma os_wf_put [simp]: "os_wf key s \<Longrightarrow> os_wf key (os_put key v s)"
proof (induction s)
  case (Cons x s)
  then show ?case using set_os_put_subset [of key v s]
    by (auto simp: os_wf_def dest: order.strict_trans)
qed (simp add: os_wf_def)

lemma set_os_put [store_simps]:
  "os_wf key s \<Longrightarrow> set (os_put key v s) = insert v {x \<in> set s. key x \<noteq> key v}"
proof (induction s)
  case (Cons x s)
  then have "os_wf key s" "\<forall>y\<in>set s. key x < key y" by (auto simp: os_wf_def)
  then show ?case using Cons.IH by (auto simp: not_less_iff_gr_or_eq)
qed simp

lemma set_os_delete [store_simps]: "set (os_delete key k s) = {x \<in> set s. key x \<noteq> k}"
  by (simp add: os_delete_def)

lemma length_os_put:
  "os_wf key s \<Longrightarrow> length (os_put key v s)
     = (if key v \<in> key ` set s then length s else Suc (length s))"
proof (induction s)
  case (Cons x s)
  then have "os_wf key s" "\<forall>y\<in>set s. key x < key y" by (auto simp: os_wf_def)
  then show ?case using Cons.IH by (auto simp: not_less_iff_gr_or_eq)
qed simp

lemma os_get_Some:
  "os_wf key s \<Longrightarrow> os_get key k s = Some x \<longleftrightarrow> x \<in> set s \<and> key x = k"
proof (induction s)
  case (Cons y s)
  then have "os_wf key s" "\<forall>z\<in>set s. key y < key z" by (auto simp: os_wf_def)
  then show ?case using Cons.IH by (auto simp: os_get_def)
qed (simp add: os_get_def)

lemma os_get_None: "os_get key k s = None \<longleftrightarrow> k \<notin> key ` set s"
  by (auto simp: os_get_def find_None_iff)

lemma os_get_put:
  assumes "os_wf key s"
  shows "os_get key k (os_put key v s) = (if k = key v then Some v else os_get key k s)"
proof -
  have "os_get key k (os_put key v s) = Some x \<longleftrightarrow>
      (if k = key v then Some v else os_get key k s) = Some x" for x
    using assms by (auto simp: os_get_Some set_os_put)
  then show ?thesis by (metis not_Some_eq)
qed

text \<open>Replacing a record by one that a filter drops removes it from the filtered records.\<close>

lemma filter_os_put_out:
  assumes "os_wf key s" "x \<in> set s" "key x = key v" "\<not> P v"
  shows "filter P (os_put key v s) = filter (\<lambda>y. key y \<noteq> key v) (filter P s)"
  using assms(1,2)
proof (induction s)
  case (Cons y s)
  then have s: "os_wf key s" "\<forall>z\<in>set s. key y < key z" by (auto simp: os_wf_def)
  show ?case
  proof (cases "x = y")
    case True
    then show ?thesis using s assms(3,4) by (auto intro!: filter_True [symmetric] filter_cong)
  next
    case False
    then have "x \<in> set s" "key y < key v" using Cons.prems s assms(3) by auto
    then show ?thesis using Cons.IH [OF s(1)] False assms(3) by auto
  qed
qed simp

lemma length_filter_bound: "length s \<le> n \<Longrightarrow> length (filter P s) \<le> n"
  by (meson length_filter_le order.trans)

lemma os_get_key: "os_get key k s = Some x \<Longrightarrow> x \<in> set s \<and> key x = k"
  by (auto simp: os_get_def find_Some_iff)

lemma length_update:
  "os_wf key s \<Longrightarrow> os_get key k s = Some x \<Longrightarrow> key y = k \<Longrightarrow> length (os_put key y s) = length s"
  using os_get_key [of key k s x] by (simp add: length_os_put) (metis image_eqI)

section \<open>Walking a cursor and deleting\<close>

text \<open>
  The handler of the cursor's success event: stop at the end of the cursor or once the limit
  is reached, delete the record under the cursor otherwise.
\<close>

fun evict_walk :: "('v \<Rightarrow> 'k) \<Rightarrow> nat \<Rightarrow> 'v list \<Rightarrow> nat \<Rightarrow> 'v list \<Rightarrow> 'v list \<times> nat" where
  "evict_walk key lim [] evicted s = (s, evicted)"
| "evict_walk key lim (x # cursor) evicted s =
     (if evicted \<ge> lim then (s, evicted)
      else evict_walk key lim cursor (Suc evicted) (os_delete key (key x) s))"

text \<open>The handler without a limit, over a key range of the index.\<close>

fun delete_walk :: "('v \<Rightarrow> 'k) \<Rightarrow> 'v list \<Rightarrow> 'v list \<Rightarrow> 'v list" where
  "delete_walk key [] s = s"
| "delete_walk key (x # cursor) s = delete_walk key cursor (os_delete key (key x) s)"

lemma evict_walk_filter:
  "evicted \<le> lim \<Longrightarrow> evict_walk key lim cur evicted s =
     (filter (\<lambda>x. key x \<notin> key ` set (take (lim - evicted) cur)) s,
      min lim (evicted + length cur))"
proof (induction cur arbitrary: evicted s)
  case (Cons x cur)
  show ?case
  proof (cases "evicted = lim")
    case False
    then have "Suc (lim - Suc evicted) = lim - evicted" using Cons.prems by simp
    then have "take (lim - evicted) (x # cur) = x # take (lim - Suc evicted) cur"
      by (metis take_Suc_Cons)
    then show ?thesis using Cons False
      by (auto simp: os_delete_def intro!: filter_cong)
  qed simp
qed simp

lemma delete_walk_filter:
  "delete_walk key cur s = filter (\<lambda>x. key x \<notin> key ` set cur) s"
  by (induction cur arbitrary: s) (auto simp: os_delete_def intro!: filter_cong)

lemma length_filter_out:
  assumes "distinct (map key s)" "set xs \<subseteq> set s" "distinct xs"
  shows "length (filter (\<lambda>x. key x \<notin> key ` set xs) s) = length s - length xs"
proof -
  have inj: "inj_on key (set s)" using assms(1) by (simp add: distinct_map)
  have "set (filter (\<lambda>x. key x \<notin> key ` set xs) s) = set s - set xs"
    using inj assms(2) by (auto simp: inj_on_def)
  then have "card (set (filter (\<lambda>x. key x \<notin> key ` set xs) s)) = card (set s) - card (set xs)"
    using assms(2) by (simp add: card_Diff_subset)
  moreover have d: "distinct s" using assms(1) by (simp add: distinct_map)
  moreover have "distinct (filter (\<lambda>x. key x \<notin> key ` set xs) s)" using d by simp
  ultimately show ?thesis using assms(3) by (metis distinct_card)
qed

section \<open>The bounded put\<close>

text \<open>
  The one transaction of \<open>putBounded\<close> and \<open>enqueue\<close>: count, evict the excess by the age
  index, put.
\<close>

definition put_tx ::
  "('v \<Rightarrow> 'k :: linorder) \<Rightarrow> ('v list \<Rightarrow> 'v list) \<Rightarrow> nat \<Rightarrow> 'v \<Rightarrow> 'v list \<Rightarrow> 'v list" where
  "put_tx key walk cap v s =
     (let total = length s;
          toEvict = (if total \<ge> cap then total - cap + 1 else 0) in
      if toEvict = 0 then os_put key v s
      else os_put key v (fst (evict_walk key toEvict (walk s) 0 s)))"

text \<open>
  How the transaction ends: \<open>QuotaAtRequest\<close> is a quota error of the put request, whose error
  handler rejects the promise before the abort handler runs; \<open>QuotaAtCommit\<close> is an abort at
  commit, after the success handler has resolved it. Either abort rolls the store back, evicts
  a tenth of the capacity in a transaction of its own and retries once.
\<close>

datatype tx_end = TxOk | QuotaAtRequest | QuotaAtCommit | OtherError

datatype mb_error = NotOpen | QuotaExceeded | TxAborted | BadLimit

definition evictAggressive ::
  "('v \<Rightarrow> 'k) \<Rightarrow> ('v list \<Rightarrow> 'v list) \<Rightarrow> nat \<Rightarrow> 'v list \<Rightarrow> 'v list" where
  "evictAggressive key walk n s = fst (evict_walk key n (walk s) 0 s)"

definition quota_retry ::
  "('v \<Rightarrow> 'k :: linorder) \<Rightarrow> ('v list \<Rightarrow> 'v list) \<Rightarrow> nat \<Rightarrow> tx_end \<Rightarrow> 'v \<Rightarrow> 'v list \<Rightarrow> 'v list" where
  "quota_retry key walk cap second v s =
     (let s1 = evictAggressive key walk (max 1 (cap div 10)) s in
      if second = TxOk then put_tx key walk cap v s1 else s1)"

definition putBounded ::
  "('v \<Rightarrow> 'k :: linorder) \<Rightarrow> ('v list \<Rightarrow> 'v list) \<Rightarrow> nat \<Rightarrow> tx_end \<Rightarrow> tx_end \<Rightarrow> 'v \<Rightarrow> 'v list
     \<Rightarrow> 'v list \<times> (mb_error + unit)" where
  "putBounded key walk cap first second v s =
     (case first of
        TxOk \<Rightarrow> (put_tx key walk cap v s, Inr ())
      | QuotaAtRequest \<Rightarrow> (quota_retry key walk cap second v s, Inl QuotaExceeded)
      | QuotaAtCommit \<Rightarrow> (quota_retry key walk cap second v s, Inr ())
      | OtherError \<Rightarrow> (s, Inl TxAborted))"

section \<open>Sweeps\<close>

definition evictExcess ::
  "('v \<Rightarrow> 'k) \<Rightarrow> ('v list \<Rightarrow> 'v list) \<Rightarrow> int \<Rightarrow> 'v list \<Rightarrow> 'v list \<times> (mb_error + nat)" where
  "evictExcess key walk maxEntries s =
     (if maxEntries < 0 then (s, Inl BadLimit)
      else let total = length s in
        if int total \<le> maxEntries then (s, Inr 0)
        else let (s', deleted) = evict_walk key (total - nat maxEntries) (walk s) 0 s in
          (s', Inr deleted))"

definition evictOlderThan ::
  "('v \<Rightarrow> 'k) \<Rightarrow> ('v \<Rightarrow> int) \<Rightarrow> ('v list \<Rightarrow> 'v list) \<Rightarrow> int \<Rightarrow> int \<Rightarrow> 'v list \<Rightarrow> 'v list" where
  "evictOlderThan key age walk now ttlMs s =
     (let cutoff = now - ttlMs in delete_walk key (filter (\<lambda>x. age x \<le> cutoff) (walk s)) s)"

section \<open>The contract of a bounded store\<close>

text \<open>
  The mailboxes differ in their records, keys and indexes; what they rely on is this: an index
  order that lists every record once, by increasing age key.
\<close>

locale aged_store =
  fixes key :: "'v \<Rightarrow> 'k :: linorder"
    and age :: "'v \<Rightarrow> 'i :: linorder"
    and walk :: "'v list \<Rightarrow> 'v list"
  assumes walk_mset: "mset (walk s) = mset s"
    and walk_sorted: "sorted (map age (walk s))"
begin

lemma walk_set [simp]: "set (walk s) = set s"
  by (metis set_mset_mset walk_mset)

lemma walk_length [simp]: "length (walk s) = length s"
  by (metis size_mset walk_mset)

lemma walk_distinct: "distinct s \<Longrightarrow> distinct (walk s)"
  by (metis mset_eq_imp_distinct_iff walk_mset)

text \<open>Evicting \<open>n\<close> records removes exactly the \<open>n\<close> first of the index.\<close>

lemma evict_contents:
  assumes wf: "os_wf key s"
  shows "set (fst (evict_walk key n (walk s) 0 s)) = set (drop n (walk s))"
    and "length (fst (evict_walk key n (walk s) 0 s)) = length s - n"
    and "snd (evict_walk key n (walk s) 0 s) = min n (length s)"
    and "os_wf key (fst (evict_walk key n (walk s) 0 s))"
proof -
  have dk: "distinct (map key s)" and inj: "inj_on key (set s)"
    using os_wf_distinct [OF wf] by (simp_all add: distinct_map)
  have d: "distinct s" using dk by (simp add: distinct_map)
  have sub: "set (take n (walk s)) \<subseteq> set s" using set_take_subset walk_set by metis
  have dis: "set (take n (walk s)) \<inter> set (drop n (walk s)) = {}"
    using walk_distinct [OF d] by (metis append_take_drop_id distinct_append)
  have un: "set (take n (walk s)) \<union> set (drop n (walk s)) = set s"
    by (metis append_take_drop_id set_append walk_set)
  have "set (filter (\<lambda>x. key x \<notin> key ` set (take n (walk s))) s) = set s - set (take n (walk s))"
    using inj sub by (auto simp: inj_on_def)
  also have "\<dots> = set (drop n (walk s))" using dis un by auto
  finally show "set (fst (evict_walk key n (walk s) 0 s)) = set (drop n (walk s))"
    by (simp add: evict_walk_filter)
  have "distinct (take n (walk s))" using walk_distinct [OF d] by (rule distinct_take)
  from length_filter_out [OF dk sub this]
  show "length (fst (evict_walk key n (walk s) 0 s)) = length s - n"
    by (simp add: evict_walk_filter)
  show "snd (evict_walk key n (walk s) 0 s) = min n (length s)"
    by (simp add: evict_walk_filter)
  show "os_wf key (fst (evict_walk key n (walk s) 0 s))"
    using wf by (simp add: evict_walk_filter os_wf_filter)
qed

text \<open>None of the evicted records is younger than a record that stays.\<close>

lemma evict_oldest:
  assumes wf: "os_wf key s" and x: "x \<in> set s" "x \<notin> set (fst (evict_walk key n (walk s) 0 s))"
    and y: "y \<in> set (fst (evict_walk key n (walk s) 0 s))"
  shows "age x \<le> age y"
proof -
  have "x \<in> set (take n (walk s))" "y \<in> set (drop n (walk s))"
    using x y evict_contents(1) [OF wf, of n] walk_set [of s]
    by (metis Un_iff append_take_drop_id set_append, simp)
  moreover have "sorted (map age (take n (walk s) @ drop n (walk s)))"
    using walk_sorted by simp
  ultimately show ?thesis by (auto simp only: map_append sorted_append set_map image_iff)
qed

lemma put_tx_under:
  "length s < cap \<Longrightarrow> put_tx key walk cap v s = os_put key v s"
  by (simp add: put_tx_def)

lemma put_tx_at:
  "cap \<le> length s \<Longrightarrow>
     put_tx key walk cap v s = os_put key v (fst (evict_walk key (length s - cap + 1) (walk s) 0 s))"
  by (simp add: put_tx_def)

lemma put_tx_wf: "os_wf key s \<Longrightarrow> os_wf key (put_tx key walk cap v s)"
  by (simp add: put_tx_def Let_def evict_contents(4))

lemma put_tx_bound:
  assumes "os_wf key s" "0 < cap"
  shows "length (put_tx key walk cap v s) \<le> cap"
proof (cases "length s < cap")
  case True
  then show ?thesis using assms by (simp add: put_tx_under length_os_put)
next
  case False
  have "length (fst (evict_walk key (length s - cap + 1) (walk s) 0 s)) = cap - 1"
    using evict_contents(2) [OF assms(1), of "length s - cap + 1"] False assms(2) by simp
  then show ?thesis
    using False assms evict_contents(4) [OF assms(1), of "length s - cap + 1"]
    by (simp add: put_tx_at length_os_put)
qed

lemma put_tx_stored:
  assumes "os_wf key s"
  shows "os_get key (key v) (put_tx key walk cap v s) = Some v"
  using assms evict_contents(4) [OF assms] by (simp add: put_tx_def Let_def os_get_put)

lemma put_tx_keeps:
  assumes "os_wf key s"
  shows "set (put_tx key walk cap v s) \<subseteq> insert v (set s)"
    and "x \<in> set s \<Longrightarrow> x \<notin> set (put_tx key walk cap v s) \<Longrightarrow> key x \<noteq> key v \<Longrightarrow>
      y \<in> set (put_tx key walk cap v s) \<Longrightarrow> y \<noteq> v \<Longrightarrow> age x \<le> age y"
proof -
  let ?e = "fst (evict_walk key (length s - cap + 1) (walk s) 0 s)"
  have e: "os_wf key ?e" "set ?e \<subseteq> set s"
    by (rule evict_contents(4) [OF assms]) (auto simp: evict_walk_filter)
  show "set (put_tx key walk cap v s) \<subseteq> insert v (set s)"
    using assms e by (auto simp: put_tx_def Let_def set_os_put)
  show "age x \<le> age y"
    if "x \<in> set s" "x \<notin> set (put_tx key walk cap v s)" "key x \<noteq> key v"
      "y \<in> set (put_tx key walk cap v s)" "y \<noteq> v"
  proof (cases "length s < cap")
    case True
    then show ?thesis using that assms by (simp add: put_tx_under set_os_put)
  next
    case False
    then show ?thesis using that e evict_oldest [OF assms, of x "length s - cap + 1" y]
      by (simp add: put_tx_at set_os_put)
  qed
qed

text \<open>
  A put of a key that is present, on a full store, still evicts: unless the evicted record is
  the one being replaced, the store ends one below its capacity.
\<close>

lemma put_tx_replace:
  assumes wf: "os_wf key s" and full: "length s = cap" "0 < cap"
    and x: "x \<in> set s" "key x = key v" and old: "x \<noteq> hd (walk s)"
  shows "length (put_tx key walk cap v s) = cap - 1"
    and "hd (walk s) \<notin> set (put_tx key walk cap v s) \<or> hd (walk s) = v"
proof -
  let ?e = "fst (evict_walk key 1 (walk s) 0 s)"
  have w: "walk s \<noteq> []" using full walk_length [of s] by force
  have d: "distinct (walk s)"
    using os_wf_distinct [OF wf] walk_distinct by (simp add: distinct_map)
  have "set (drop 1 (walk s)) = set s - {hd (walk s)}"
    using w d walk_set [of s] by (cases "walk s") auto
  then have e: "set ?e = set s - {hd (walk s)}" "os_wf key ?e" "length ?e = cap - 1"
    using evict_contents [OF wf, of 1] full by simp_all
  then have "key v \<in> key ` set ?e" using x old by (metis Diff_iff image_eqI singletonD)
  then show "length (put_tx key walk cap v s) = cap - 1"
    using e full by (simp add: put_tx_at length_os_put)
  show "hd (walk s) \<notin> set (put_tx key walk cap v s) \<or> hd (walk s) = v"
    using e full by (simp add: put_tx_at set_os_put)
qed

lemma putBounded_ok:
  assumes "os_wf key s" "0 < cap" "length s \<le> cap"
  shows "os_wf key (fst (putBounded key walk cap f g v s))
    \<and> length (fst (putBounded key walk cap f g v s)) \<le> cap"
proof -
  let ?a = "evictAggressive key walk (max 1 (cap div 10)) s"
  have a: "os_wf key ?a" "length ?a \<le> cap"
    using evict_contents(2,4) [OF assms(1)] assms(3) by (simp_all add: evictAggressive_def)
  have tx: "os_wf key (put_tx key walk cap v s') \<and> length (put_tx key walk cap v s') \<le> cap"
    if "os_wf key s'" for s'
    using put_tx_wf [OF that] put_tx_bound [OF that assms(2)] by simp
  show ?thesis using tx [OF assms(1)] tx [OF a(1)] a assms
    by (simp add: putBounded_def quota_retry_def Let_def split: tx_end.split)
qed

lemma evictExcess_ok:
  assumes "os_wf key s" "0 \<le> n" "evictExcess key walk n s = (s', r)"
  shows "r = Inr (length s - nat n) \<and> os_wf key s' \<and> set s' \<subseteq> set s
    \<and> length s' = min (length s) (nat n)
    \<and> (\<forall>x \<in> set s - set s'. \<forall>y \<in> set s'. age x \<le> age y)"
proof (cases "int (length s) \<le> n")
  case True
  then show ?thesis using assms by (auto simp: evictExcess_def)
next
  case False
  let ?w = "evict_walk key (length s - nat n) (walk s) 0 s"
  have eq: "s' = fst ?w" "r = Inr (snd ?w)"
    using assms False by (auto simp: evictExcess_def Let_def split: prod.splits)
  note c = evict_contents [OF assms(1), of "length s - nat n"]
  have "set s' \<subseteq> set s" by (auto simp: eq(1) evict_walk_filter)
  moreover have "length s' = min (length s) (nat n)" using c(2) eq(1) False assms(2) by simp
  moreover have "r = Inr (length s - nat n)" using c(3) eq(2) by simp
  moreover have "\<forall>x \<in> set s - set s'. \<forall>y \<in> set s'. age x \<le> age y"
    using evict_oldest [OF assms(1)] eq(1) by blast
  ultimately show ?thesis using c(4) eq(1) by simp
qed

lemma evictExcess_inv:
  assumes "os_wf key s" "length s \<le> cap"
  shows "os_wf key (fst (evictExcess key walk n s)) \<and> length (fst (evictExcess key walk n s)) \<le> cap"
proof (cases "n < 0")
  case True
  then show ?thesis using assms by (simp add: evictExcess_def)
next
  case False
  then have "0 \<le> n" by simp
  from evictExcess_ok [OF assms(1) this prod.collapse [symmetric]] assms(2) show ?thesis by simp
qed

lemma delete_by_age:
  assumes "os_wf key s"
  shows "delete_walk key (filter P (walk s)) s = filter (\<lambda>x. \<not> P x) s"
proof -
  have "inj_on key (set s)" using os_wf_distinct [OF assms] by (simp add: distinct_map)
  then show ?thesis unfolding delete_walk_filter
    by (intro filter_cong) (auto simp: inj_on_def)
qed

lemma evictOlderThan_eq:
  "os_wf key s \<Longrightarrow> evictOlderThan key stamp walk now ttl s = filter (\<lambda>x. now - ttl < stamp x) s"
  by (simp add: evictOlderThan_def delete_by_age not_le)

end

text \<open>Every index of an object store meets the contract.\<close>

lemma aged_store_index: "aged_store age (os_index age)"
  by unfold_locales (simp_all add: os_index_def)

section \<open>The object around a store\<close>

text \<open>A mailbox object: whether it is open, its capacity, and the data in the database.\<close>

record 'v mailbox =
  mb_open :: bool
  maxEntries :: nat
  mb_store :: "'v list"

text \<open>All three classes: \<open>open\<close> is idempotent, \<open>close\<close> drops the handle and keeps the data.\<close>

definition mb_new :: "nat \<Rightarrow> 'v list \<Rightarrow> 'v mailbox" where
  "mb_new cap stored = \<lparr>mb_open = False, maxEntries = cap, mb_store = stored\<rparr>"

definition mb_do_open :: "'v mailbox \<Rightarrow> 'v mailbox" where
  "mb_do_open mb = mb\<lparr>mb_open := True\<rparr>"

definition mb_close :: "'v mailbox \<Rightarrow> 'v mailbox" where
  "mb_close mb = mb\<lparr>mb_open := False\<rparr>"

text \<open>An operation on the store, guarded by \<open>getDb\<close>.\<close>

definition on_store ::
  "('v list \<Rightarrow> 'v list \<times> (mb_error + 'r)) \<Rightarrow> 'v mailbox \<Rightarrow> 'v mailbox \<times> (mb_error + 'r)" where
  "on_store f mb =
     (if \<not> mb_open mb then (mb, Inl NotOpen)
      else let (s', r) = f (mb_store mb) in (mb\<lparr>mb_store := s'\<rparr>, r))"

text \<open>The invariant: records in key order, one per key, at most the capacity.\<close>

definition mb_inv :: "('v \<Rightarrow> string) \<Rightarrow> nat \<Rightarrow> 'v mailbox \<Rightarrow> bool" where
  "mb_inv key cap mb \<longleftrightarrow> maxEntries mb = cap \<and> os_wf key (mb_store mb) \<and> length (mb_store mb) \<le> cap"

lemma on_store_inv:
  assumes "mb_inv key cap mb"
    and "os_wf key (mb_store mb) \<Longrightarrow> length (mb_store mb) \<le> cap \<Longrightarrow>
      os_wf key (fst (f (mb_store mb))) \<and> length (fst (f (mb_store mb))) \<le> cap"
  shows "mb_inv key cap (fst (on_store f mb))"
  using assms by (auto simp: on_store_def mb_inv_def split_beta)

lemma on_store_open:
  "mb_open mb \<Longrightarrow> on_store f mb = (mb\<lparr>mb_store := fst (f (mb_store mb))\<rparr>, snd (f (mb_store mb)))"
  by (simp add: on_store_def split_beta)

end
