(* ===== verification/Mailbox.thy ===== *)
theory Mailbox
  imports Object_Store
begin

text \<open>
  The two mailboxes of \<open>packages/mesh-core/src/mailbox\<close>: \<open>Inbox\<close> (received bundles waiting
  for the application) and \<open>Spool\<close> (bundles held for forwarding). An object is its open flag,
  its capacity and its object store; a call on an object that is not open is the error of
  \<open>getDb\<close>. The clock is an argument.
\<close>

section \<open>Inbox\<close>

record inbox_entry =
  ib_msgId :: string
  ib_channelId :: bytes
  ib_bundle :: bytes
  receivedAtMs :: int
  consumed :: bool

definition MESH_INBOX_MAX_ENTRIES :: nat where "MESH_INBOX_MAX_ENTRIES = 30000"
definition MESH_SPOOL_MAX_ENTRIES :: nat where "MESH_SPOOL_MAX_ENTRIES = 30000"

abbreviation inbox_walk :: "inbox_entry list \<Rightarrow> inbox_entry list" where
  "inbox_walk \<equiv> os_index receivedAtMs"

definition inbox_put ::
  "tx_end \<Rightarrow> tx_end \<Rightarrow> inbox_entry \<Rightarrow> inbox_entry mailbox \<Rightarrow> inbox_entry mailbox \<times> (mb_error + unit)" where
  "inbox_put first second e mb =
     on_store (putBounded ib_msgId inbox_walk (maxEntries mb) first second e) mb"

definition inbox_unconsumed :: "inbox_entry mailbox \<Rightarrow> mb_error + inbox_entry list" where
  "inbox_unconsumed mb =
     (if \<not> mb_open mb then Inl NotOpen else Inr (filter (\<lambda>e. \<not> consumed e) (mb_store mb)))"

definition inbox_markConsumed ::
  "string \<Rightarrow> inbox_entry mailbox \<Rightarrow> inbox_entry mailbox \<times> (mb_error + unit)" where
  "inbox_markConsumed msgId =
     on_store (\<lambda>s. case os_get ib_msgId msgId s of
        None \<Rightarrow> (s, Inr ())
      | Some entry \<Rightarrow> (os_put ib_msgId (entry\<lparr>consumed := True\<rparr>) s, Inr ()))"

definition inbox_evictExcess ::
  "int \<Rightarrow> inbox_entry mailbox \<Rightarrow> inbox_entry mailbox \<times> (mb_error + nat)" where
  "inbox_evictExcess n mb =
     (if n < 0 then (mb, Inl BadLimit) else on_store (evictExcess ib_msgId inbox_walk n) mb)"

definition inbox_evictOlderThan ::
  "int \<Rightarrow> int \<Rightarrow> inbox_entry mailbox \<Rightarrow> inbox_entry mailbox \<times> (mb_error + unit)" where
  "inbox_evictOlderThan now ttlMs =
     on_store (\<lambda>s. (evictOlderThan ib_msgId receivedAtMs inbox_walk now ttlMs s, Inr ()))"

section \<open>Spool\<close>

record spool_entry =
  sp_msgId :: string
  sp_channelId :: bytes
  sp_bundle :: bytes
  addedAtMs :: int
  hopsRemaining :: int

abbreviation spool_walk :: "spool_entry list \<Rightarrow> spool_entry list" where
  "spool_walk \<equiv> os_index addedAtMs"

definition spool_put ::
  "tx_end \<Rightarrow> tx_end \<Rightarrow> spool_entry \<Rightarrow> spool_entry mailbox \<Rightarrow> spool_entry mailbox \<times> (mb_error + unit)" where
  "spool_put first second e mb =
     on_store (putBounded sp_msgId spool_walk (maxEntries mb) first second e) mb"

text \<open>The cursor of \<open>recent\<close> runs backwards through the index and stops at the limit.\<close>

fun take_walk :: "int \<Rightarrow> 'v list \<Rightarrow> 'v list \<Rightarrow> 'v list" where
  "take_walk limit results [] = results"
| "take_walk limit results (x # cursor) =
     (if int (length results) \<ge> limit then results else take_walk limit (results @ [x]) cursor)"

definition spool_recent :: "int \<Rightarrow> spool_entry mailbox \<Rightarrow> mb_error + spool_entry list" where
  "spool_recent limit mb =
     (if limit < 0 then Inl BadLimit
      else if \<not> mb_open mb then Inl NotOpen
      else Inr (take_walk limit [] (rev (spool_walk (mb_store mb)))))"

definition spool_all :: "spool_entry mailbox \<Rightarrow> mb_error + spool_entry list" where
  "spool_all mb = (if \<not> mb_open mb then Inl NotOpen else Inr (mb_store mb))"

definition spool_size :: "spool_entry mailbox \<Rightarrow> mb_error + nat" where
  "spool_size mb = (if \<not> mb_open mb then Inl NotOpen else Inr (length (mb_store mb)))"

definition spool_remove ::
  "string \<Rightarrow> spool_entry mailbox \<Rightarrow> spool_entry mailbox \<times> (mb_error + unit)" where
  "spool_remove msgId = on_store (\<lambda>s. (os_delete sp_msgId msgId s, Inr ()))"

definition spool_decrementHops ::
  "string \<Rightarrow> spool_entry mailbox \<Rightarrow> spool_entry mailbox \<times> (mb_error + unit)" where
  "spool_decrementHops msgId =
     on_store (\<lambda>s. case os_get sp_msgId msgId s of
        None \<Rightarrow> (s, Inr ())
      | Some entry \<Rightarrow>
          let next = hopsRemaining entry - 1 in
          if next \<le> 0 then (os_delete sp_msgId msgId s, Inr ())
          else (os_put sp_msgId (entry\<lparr>hopsRemaining := next\<rparr>) s, Inr ()))"

definition spool_evictExcess ::
  "int \<Rightarrow> spool_entry mailbox \<Rightarrow> spool_entry mailbox \<times> (mb_error + nat)" where
  "spool_evictExcess n mb =
     (if n < 0 then (mb, Inl BadLimit) else on_store (evictExcess sp_msgId spool_walk n) mb)"

definition spool_evictOlderThan ::
  "int \<Rightarrow> int \<Rightarrow> spool_entry mailbox \<Rightarrow> spool_entry mailbox \<times> (mb_error + unit)" where
  "spool_evictOlderThan now ttlMs =
     on_store (\<lambda>s. (evictOlderThan sp_msgId addedAtMs spool_walk now ttlMs s, Inr ()))"

interpretation inbox: aged_store ib_msgId receivedAtMs inbox_walk
  by (rule aged_store_index)

interpretation spool: aged_store sp_msgId addedAtMs spool_walk
  by (rule aged_store_index)

section \<open>Reachable states\<close>

text \<open>One call on an inbox, or on a spool, whatever its arguments and however it ends.\<close>

inductive inbox_step :: "inbox_entry mailbox \<Rightarrow> inbox_entry mailbox \<Rightarrow> bool" where
  "inbox_step mb (mb_do_open mb)"
| "inbox_step mb (mb_close mb)"
| "inbox_step mb (fst (inbox_put f g e mb))"
| "inbox_step mb (fst (inbox_markConsumed k mb))"
| "inbox_step mb (fst (inbox_evictExcess n mb))"
| "inbox_step mb (fst (inbox_evictOlderThan now ttl mb))"

inductive spool_step :: "spool_entry mailbox \<Rightarrow> spool_entry mailbox \<Rightarrow> bool" where
  "spool_step mb (mb_do_open mb)"
| "spool_step mb (mb_close mb)"
| "spool_step mb (fst (spool_put f g e mb))"
| "spool_step mb (fst (spool_remove k mb))"
| "spool_step mb (fst (spool_decrementHops k mb))"
| "spool_step mb (fst (spool_evictExcess n mb))"
| "spool_step mb (fst (spool_evictOlderThan now ttl mb))"

definition inbox_reachable :: "nat \<Rightarrow> inbox_entry mailbox \<Rightarrow> bool" where
  "inbox_reachable cap mb \<longleftrightarrow> inbox_step\<^sup>*\<^sup>* (mb_new cap []) mb"

definition spool_reachable :: "nat \<Rightarrow> spool_entry mailbox \<Rightarrow> bool" where
  "spool_reachable cap mb \<longleftrightarrow> spool_step\<^sup>*\<^sup>* (mb_new cap []) mb"

lemmas mailbox_defs = inbox_put_def inbox_markConsumed_def inbox_evictExcess_def
  inbox_evictOlderThan_def spool_put_def spool_remove_def spool_decrementHops_def
  spool_evictExcess_def spool_evictOlderThan_def

lemma inbox_step_inv:
  "inbox_step mb mb' \<Longrightarrow> mb_inv ib_msgId cap mb \<Longrightarrow> 0 < cap \<Longrightarrow> mb_inv ib_msgId cap mb'"
proof (induction rule: inbox_step.induct)
  case (3 mb f g e)
  then have "maxEntries mb = cap" by (simp add: mb_inv_def)
  with 3 show ?case unfolding inbox_put_def
    by (intro on_store_inv) (use inbox.putBounded_ok in auto)
next
  case (4 mb k)
  show ?case unfolding inbox_markConsumed_def
  proof (rule on_store_inv [OF 4(1)])
    assume wf: "os_wf ib_msgId (mb_store mb)" and l: "length (mb_store mb) \<le> cap"
    show "os_wf ib_msgId (fst (case os_get ib_msgId k (mb_store mb) of
        None \<Rightarrow> (mb_store mb, Inr ())
      | Some entry \<Rightarrow> (os_put ib_msgId (entry\<lparr>consumed := True\<rparr>) (mb_store mb), Inr ())))
      \<and> length (fst (case os_get ib_msgId k (mb_store mb) of
        None \<Rightarrow> (mb_store mb, Inr ())
      | Some entry \<Rightarrow> (os_put ib_msgId (entry\<lparr>consumed := True\<rparr>) (mb_store mb), Inr ()))) \<le> cap"
      using wf l length_update [OF wf] os_get_key by (fastforce split: option.split)
  qed
next
  case (5 mb n)
  then show ?case unfolding inbox_evictExcess_def
    by (auto intro!: on_store_inv inbox.evictExcess_inv)
next
  case (6 mb now ttl)
  then show ?case unfolding inbox_evictOlderThan_def
    by (intro on_store_inv) (auto simp: inbox.evictOlderThan_eq os_wf_filter
        intro: length_filter_bound)
qed (simp_all add: mb_inv_def mb_do_open_def mb_close_def)

lemma inbox_reachable_inv:
  "inbox_reachable cap mb \<Longrightarrow> 0 < cap \<Longrightarrow> mb_inv ib_msgId cap mb"
  unfolding inbox_reachable_def
  by (induction rule: rtranclp_induct) (auto simp: mb_inv_def mb_new_def dest: inbox_step_inv)

lemma spool_step_inv:
  "spool_step mb mb' \<Longrightarrow> mb_inv sp_msgId cap mb \<Longrightarrow> 0 < cap \<Longrightarrow> mb_inv sp_msgId cap mb'"
proof (induction rule: spool_step.induct)
  case (3 mb f g e)
  then have "maxEntries mb = cap" by (simp add: mb_inv_def)
  with 3 show ?case unfolding spool_put_def
    by (intro on_store_inv) (use spool.putBounded_ok in auto)
next
  case (4 mb k)
  then show ?case unfolding spool_remove_def
    by (intro on_store_inv) (auto simp: os_delete_def os_wf_filter
        intro: length_filter_bound)
next
  case (5 mb k)
  let ?s = "mb_store mb"
  show ?case unfolding spool_decrementHops_def
  proof (rule on_store_inv [OF 5(1)])
    assume wf: "os_wf sp_msgId ?s" and l: "length ?s \<le> cap"
    have del: "length (os_delete sp_msgId k ?s) \<le> cap"
      using l by (simp add: os_delete_def length_filter_bound)
    have upd: "length (os_put sp_msgId (x\<lparr>hopsRemaining := n\<rparr>) ?s) \<le> cap"
      if "os_get sp_msgId k ?s = Some x" for x n
      using length_update [OF wf that] os_get_key [OF that] l by simp
    show "os_wf sp_msgId (fst (case os_get sp_msgId k ?s of None \<Rightarrow> (?s, Inr ())
        | Some entry \<Rightarrow> let next = hopsRemaining entry - 1 in
            if next \<le> 0 then (os_delete sp_msgId k ?s, Inr ())
            else (os_put sp_msgId (entry\<lparr>hopsRemaining := next\<rparr>) ?s, Inr ())))
      \<and> length (fst (case os_get sp_msgId k ?s of None \<Rightarrow> (?s, Inr ())
        | Some entry \<Rightarrow> let next = hopsRemaining entry - 1 in
            if next \<le> 0 then (os_delete sp_msgId k ?s, Inr ())
            else (os_put sp_msgId (entry\<lparr>hopsRemaining := next\<rparr>) ?s, Inr ()))) \<le> cap"
      using wf l del upd by (auto simp: Let_def split: option.split)
  qed
next
  case (6 mb n)
  then show ?case unfolding spool_evictExcess_def
    by (auto intro!: on_store_inv spool.evictExcess_inv)
next
  case (7 mb now ttl)
  then show ?case unfolding spool_evictOlderThan_def
    by (intro on_store_inv) (auto simp: spool.evictOlderThan_eq os_wf_filter
        intro: length_filter_bound)
qed (simp_all add: mb_inv_def mb_do_open_def mb_close_def)

lemma spool_reachable_inv:
  "spool_reachable cap mb \<Longrightarrow> 0 < cap \<Longrightarrow> mb_inv sp_msgId cap mb"
  unfolding spool_reachable_def
  by (induction rule: rtranclp_induct) (auto simp: mb_inv_def mb_new_def dest: spool_step_inv)

lemma take_walk_take:
  "take_walk limit results cur = results @ take (nat limit - length results) cur"
proof (induction limit results cur rule: take_walk.induct)
  case (2 limit results x cursor)
  show ?case
  proof (cases "int (length results) \<ge> limit")
    case True
    then show ?thesis by simp
  next
    case False
    then have "nat limit - length results = Suc (nat limit - Suc (length results))" by simp
    then show ?thesis using 2 False by simp
  qed
qed simp

section \<open>Properties\<close>

text \<open>Sample states for the witnesses.\<close>

definition sample_inbox_entry :: "char \<Rightarrow> int \<Rightarrow> inbox_entry" where
  "sample_inbox_entry c t = \<lparr>ib_msgId = [c], ib_channelId = [], ib_bundle = [],
     receivedAtMs = t, consumed = False\<rparr>"

definition sample_inbox :: "inbox_entry list \<Rightarrow> inbox_entry mailbox" where
  "sample_inbox es = fold (\<lambda>e mb. fst (inbox_put TxOk TxOk e mb)) es (mb_do_open (mb_new 2 []))"

lemma sample_inbox_reachable: "inbox_reachable 2 (sample_inbox es)"
proof -
  have "inbox_step\<^sup>*\<^sup>* mb (fold (\<lambda>e mb. fst (inbox_put TxOk TxOk e mb)) es mb)" for mb
  proof (induction es arbitrary: mb)
    case (Cons e es)
    have "inbox_step mb (fst (inbox_put TxOk TxOk e mb))" by (rule inbox_step.intros)
    with Cons [of "fst (inbox_put TxOk TxOk e mb)"] show ?case
      by (simp add: converse_rtranclp_into_rtranclp)
  qed simp
  moreover have "inbox_step (mb_new 2 []) (mb_do_open (mb_new 2 []))" by (rule inbox_step.intros)
  ultimately show ?thesis unfolding inbox_reachable_def sample_inbox_def
    by (meson converse_rtranclp_into_rtranclp)
qed

text \<open>Note: Capacity: whatever calls are made on an inbox, quota failures and retries included, it never
  holds more than maxEntries records, and one record per msgId.\<close>

theorem inbox_never_exceeds_cap:
  assumes "inbox_reachable cap mb" and "0 < cap"
  shows "length (mb_store mb) \<le> cap \<and> distinct (map ib_msgId (mb_store mb))"
  using inbox_reachable_inv [OF assms] os_wf_distinct by (auto simp: mb_inv_def)

theorem inbox_never_exceeds_cap_witness:
  "length (mb_store (sample_inbox (map (sample_inbox_entry CHR ''a'') [0..9]))) \<le> 2"
  using inbox_never_exceeds_cap [OF sample_inbox_reachable] by simp

text \<open>Note: The same capacity bound for the spool, over all of its operations.\<close>

theorem spool_never_exceeds_cap:
  assumes "spool_reachable cap mb" and "0 < cap"
  shows "length (mb_store mb) \<le> cap \<and> distinct (map sp_msgId (mb_store mb))"
  using spool_reachable_inv [OF assms] os_wf_distinct by (auto simp: mb_inv_def)

theorem spool_never_exceeds_cap_witness:
  "length (mb_store (fst (spool_remove ''a'' (mb_do_open (mb_new 2 []))))) \<le> 2"
proof -
  have "spool_reachable 2 (fst (spool_remove ''a'' (mb_do_open (mb_new 2 []))))"
  proof -
    have "spool_step (mb_new 2 []) (mb_do_open (mb_new 2 []))"
      "spool_step (mb_do_open (mb_new 2 [])) (fst (spool_remove ''a'' (mb_do_open (mb_new 2 []))))"
      by (rule spool_step.intros)+
    then show ?thesis unfolding spool_reachable_def
      by (meson converse_rtranclp_into_rtranclp r_into_rtranclp)
  qed
  from spool_never_exceeds_cap [OF this] show ?thesis by simp
qed

text \<open>Note: A put that succeeds stores its entry and evicts only what it must: the entry is found under its
  msgId, every other record was there before, and no evicted record is younger than one that
  stays; on an inbox below capacity nothing is evicted.\<close>

theorem inbox_put_evicts_oldest:
  assumes "inbox_reachable cap mb" and "0 < cap" and "mb_open mb"
    and "inbox_put TxOk second e mb = (mb', r)"
  shows "r = Inr () \<and> os_get ib_msgId (ib_msgId e) (mb_store mb') = Some e
    \<and> set (mb_store mb') \<subseteq> insert e (set (mb_store mb))
    \<and> (\<forall>x \<in> set (mb_store mb) - set (mb_store mb'). ib_msgId x = ib_msgId e
         \<or> (\<forall>y \<in> set (mb_store mb') - {e}. receivedAtMs x \<le> receivedAtMs y))
    \<and> (length (mb_store mb) < cap \<longrightarrow>
         set (mb_store mb') = insert e {x \<in> set (mb_store mb). ib_msgId x \<noteq> ib_msgId e})"
proof -
  have wf: "os_wf ib_msgId (mb_store mb)" and cap: "maxEntries mb = cap"
    using inbox_reachable_inv [OF assms(1,2)] by (simp_all add: mb_inv_def)
  have eq: "mb_store mb' = put_tx ib_msgId inbox_walk cap e (mb_store mb)" "r = Inr ()"
    using assms(3,4) cap by (auto simp: inbox_put_def on_store_open putBounded_def)
  have "ib_msgId x = ib_msgId e \<or> (\<forall>y \<in> set (mb_store mb') - {e}. receivedAtMs x \<le> receivedAtMs y)"
    if "x \<in> set (mb_store mb) - set (mb_store mb')" for x
    using that inbox.put_tx_keeps(2) [OF wf, of x cap e] unfolding eq(1) by blast
  moreover have "set (mb_store mb') = insert e {x \<in> set (mb_store mb). ib_msgId x \<noteq> ib_msgId e}"
    if "length (mb_store mb) < cap"
    using that by (simp add: eq(1) inbox.put_tx_under set_os_put [OF wf])
  moreover have "os_get ib_msgId (ib_msgId e) (mb_store mb') = Some e"
    "set (mb_store mb') \<subseteq> insert e (set (mb_store mb))"
    unfolding eq(1) by (rule inbox.put_tx_stored [OF wf] inbox.put_tx_keeps(1) [OF wf])+
  ultimately show ?thesis using eq(2) by auto
qed

theorem inbox_put_evicts_oldest_witness:
  "os_get ib_msgId ''c'' (mb_store (fst (inbox_put TxOk TxOk (sample_inbox_entry CHR ''c'' 3)
     (sample_inbox [sample_inbox_entry CHR ''a'' 1, sample_inbox_entry CHR ''b'' 2]))))
   = Some (sample_inbox_entry CHR ''c'' 3)"
proof -
  have "mb_open (fold (\<lambda>e mb. fst (inbox_put TxOk TxOk e mb)) es mb)" if "mb_open mb" for es mb
    using that by (induction es arbitrary: mb) (simp_all add: inbox_put_def on_store_open)
  then have o: "mb_open (sample_inbox es)" for es by (simp add: sample_inbox_def mb_do_open_def)
  show ?thesis
    using inbox_put_evicts_oldest [OF sample_inbox_reachable _ o prod.collapse [symmetric],
        of TxOk "sample_inbox_entry CHR ''c'' 3"]
    by (simp add: sample_inbox_entry_def)
qed

text \<open>Note: Storing a msgId again on a full inbox loses another message: unless the record replaced is the
  oldest of all, the oldest is evicted although nothing needs to make room, and the inbox ends
  one below its capacity.\<close>

theorem inbox_reput_loses_oldest:
  assumes "inbox_reachable cap mb" and "0 < cap" and "mb_open mb" and "length (mb_store mb) = cap"
    and "x \<in> set (mb_store mb)" and "ib_msgId x = ib_msgId e" and "x \<noteq> hd (inbox_walk (mb_store mb))"
    and "e \<noteq> hd (inbox_walk (mb_store mb))"
  shows "length (mb_store (fst (inbox_put TxOk second e mb))) = cap - 1
    \<and> hd (inbox_walk (mb_store mb)) \<notin> set (mb_store (fst (inbox_put TxOk second e mb)))"
proof -
  have wf: "os_wf ib_msgId (mb_store mb)" and cap: "maxEntries mb = cap"
    using inbox_reachable_inv [OF assms(1,2)] by (simp_all add: mb_inv_def)
  have "mb_store (fst (inbox_put TxOk second e mb)) = put_tx ib_msgId inbox_walk cap e (mb_store mb)"
    using assms(3) cap by (simp add: inbox_put_def on_store_open putBounded_def)
  then show ?thesis using inbox.put_tx_replace [OF wf assms(4,2,5,6,7)] assms(8) by auto
qed

theorem inbox_reput_loses_oldest_witness:
  "mb_store (fst (inbox_put TxOk TxOk (sample_inbox_entry CHR ''b'' 3)
     (sample_inbox [sample_inbox_entry CHR ''a'' 1, sample_inbox_entry CHR ''b'' 2])))
   = [sample_inbox_entry CHR ''b'' 3]
   \<and> length (mb_store (fst (inbox_put TxOk TxOk (sample_inbox_entry CHR ''b'' 3)
     (sample_inbox [sample_inbox_entry CHR ''a'' 1, sample_inbox_entry CHR ''b'' 2])))) = 2 - 1"
proof -
  let ?mb = "sample_inbox [sample_inbox_entry CHR ''a'' 1, sample_inbox_entry CHR ''b'' 2]"
  have mb: "?mb = \<lparr>mb_open = True, maxEntries = 2,
      mb_store = [sample_inbox_entry CHR ''a'' 1, sample_inbox_entry CHR ''b'' 2]\<rparr>"
    by (simp add: sample_inbox_def inbox_put_def on_store_def mb_do_open_def mb_new_def
        putBounded_def put_tx_def sample_inbox_entry_def)
  have o: "mb_open ?mb" "length (mb_store ?mb) = 2"
    "sample_inbox_entry CHR ''b'' 2 \<in> set (mb_store ?mb)"
    "ib_msgId (sample_inbox_entry CHR ''b'' 2) = ib_msgId (sample_inbox_entry CHR ''b'' 3)"
    and h: "hd (inbox_walk (mb_store ?mb)) = sample_inbox_entry CHR ''a'' 1"
    unfolding mb by (simp_all add: os_index_def sample_inbox_entry_def)
  have ne: "sample_inbox_entry CHR ''b'' t \<noteq> hd (inbox_walk (mb_store ?mb))" for t
    unfolding h by (simp add: sample_inbox_entry_def)
  have "mb_store (fst (inbox_put TxOk TxOk (sample_inbox_entry CHR ''b'' 3) ?mb))
      = [sample_inbox_entry CHR ''b'' 3]"
    unfolding mb by (simp add: os_index_def sample_inbox_entry_def inbox_put_def on_store_def
        putBounded_def put_tx_def os_delete_def)
  then show ?thesis
    using inbox_reput_loses_oldest [OF sample_inbox_reachable _ o ne ne, of TxOk] by simp
qed

text \<open>Note: The promise of put does not tell what is stored after a quota failure: when the put request
  fails for quota the promise rejects, yet the retry stores the entry; when the abort comes at
  commit the promise has resolved, and if the retry fails as well the entry is not stored.\<close>

theorem inbox_quota_outcome:
  assumes "inbox_reachable cap mb" and "0 < cap" and "mb_open mb"
  shows "snd (inbox_put QuotaAtRequest TxOk e mb) = Inl QuotaExceeded
    \<and> os_get ib_msgId (ib_msgId e) (mb_store (fst (inbox_put QuotaAtRequest TxOk e mb))) = Some e
    \<and> snd (inbox_put QuotaAtCommit QuotaAtCommit e mb) = Inr ()
    \<and> (os_get ib_msgId (ib_msgId e) (mb_store mb) = None \<longrightarrow>
         os_get ib_msgId (ib_msgId e) (mb_store (fst (inbox_put QuotaAtCommit QuotaAtCommit e mb))) = None)"
proof -
  have wf: "os_wf ib_msgId (mb_store mb)"
    using inbox_reachable_inv [OF assms(1,2)] by (simp add: mb_inv_def)
  let ?a = "evictAggressive ib_msgId inbox_walk (max 1 (maxEntries mb div 10)) (mb_store mb)"
  have a: "os_wf ib_msgId ?a" "set ?a \<subseteq> set (mb_store mb)"
    using inbox.evict_contents(4) [OF wf] by (auto simp: evictAggressive_def evict_walk_filter)
  then show ?thesis using assms(3) inbox.put_tx_stored [OF a(1)]
    by (auto simp: inbox_put_def on_store_open putBounded_def quota_retry_def Let_def os_get_None)
qed

theorem inbox_quota_outcome_witness:
  "snd (inbox_put QuotaAtRequest TxOk (sample_inbox_entry CHR ''a'' 1) (sample_inbox [])) = Inl QuotaExceeded
   \<and> os_get ib_msgId ''a'' (mb_store (fst (inbox_put QuotaAtRequest TxOk (sample_inbox_entry CHR ''a'' 1)
       (sample_inbox [])))) = Some (sample_inbox_entry CHR ''a'' 1)"
  using inbox_quota_outcome [OF sample_inbox_reachable, of "[]" "sample_inbox_entry CHR ''a'' 1"]
  by (simp add: sample_inbox_def mb_do_open_def sample_inbox_entry_def)

text \<open>Note: The sweeps remove exactly what they say: evictExcess leaves the smaller of the store and the cap,
  drops no record younger than one it keeps and returns the number dropped; evictOlderThan
  keeps exactly the records younger than the time to live.\<close>

theorem inbox_sweeps_exact:
  assumes "inbox_reachable cap mb" and "0 < cap" and "mb_open mb" and "0 \<le> n"
    and "inbox_evictExcess n mb = (mb', r)"
  shows "r = Inr (length (mb_store mb) - nat n)
    \<and> length (mb_store mb') = min (length (mb_store mb)) (nat n)
    \<and> set (mb_store mb') \<subseteq> set (mb_store mb)
    \<and> (\<forall>x \<in> set (mb_store mb) - set (mb_store mb'). \<forall>y \<in> set (mb_store mb').
         receivedAtMs x \<le> receivedAtMs y)
    \<and> mb_store (fst (inbox_evictOlderThan now ttl mb))
       = filter (\<lambda>x. now - ttl < receivedAtMs x) (mb_store mb)"
proof -
  have wf: "os_wf ib_msgId (mb_store mb)"
    using inbox_reachable_inv [OF assms(1,2)] by (simp add: mb_inv_def)
  have "evictExcess ib_msgId inbox_walk n (mb_store mb) = (mb_store mb', r)"
    using assms(3-5) by (auto simp: inbox_evictExcess_def on_store_open prod_eq_iff)
  from inbox.evictExcess_ok [OF wf assms(4) this] show ?thesis
    using assms(3) by (simp add: inbox_evictOlderThan_def on_store_open inbox.evictOlderThan_eq [OF wf])
qed

theorem inbox_sweeps_exact_witness:
  "snd (inbox_evictExcess 1 (sample_inbox [])) = Inr 0"
  using inbox_sweeps_exact [OF sample_inbox_reachable _ _ _ prod.collapse [symmetric], of "[]" 1]
  by (simp add: sample_inbox_def mb_do_open_def mb_new_def)

text \<open>Note: Consumption: marking a message consumed removes exactly that message from the unconsumed list
  and leaves the others in their order; an unknown msgId changes nothing.\<close>

theorem inbox_consumed_once:
  assumes "inbox_reachable cap mb" and "0 < cap" and "mb_open mb"
    and "inbox_unconsumed mb = Inr us"
  shows "inbox_unconsumed (fst (inbox_markConsumed k mb)) = Inr (filter (\<lambda>x. ib_msgId x \<noteq> k) us)"
proof -
  have wf: "os_wf ib_msgId (mb_store mb)"
    using inbox_reachable_inv [OF assms(1,2)] by (simp add: mb_inv_def)
  have us: "us = filter (\<lambda>e. \<not> consumed e) (mb_store mb)"
    using assms(3,4) by (simp add: inbox_unconsumed_def)
  show ?thesis
  proof (cases "os_get ib_msgId k (mb_store mb)")
    case None
    then have "k \<notin> ib_msgId ` set (mb_store mb)" by (simp add: os_get_None)
    then show ?thesis using assms(3) None
      by (auto simp: inbox_markConsumed_def on_store_open inbox_unconsumed_def us
          intro!: filter_cong)
  next
    case (Some x)
    then show ?thesis using assms(3) os_get_key [OF Some]
        filter_os_put_out [OF wf, of x "x\<lparr>consumed := True\<rparr>" "\<lambda>e. \<not> consumed e"]
      by (simp add: inbox_markConsumed_def on_store_open inbox_unconsumed_def us)
  qed
qed

theorem inbox_consumed_once_witness:
  "inbox_unconsumed (fst (inbox_markConsumed ''a'' (sample_inbox [sample_inbox_entry CHR ''a'' 1]))) = Inr []"
proof -
  have "sample_inbox [sample_inbox_entry CHR ''a'' 1]
      = \<lparr>mb_open = True, maxEntries = 2, mb_store = [sample_inbox_entry CHR ''a'' 1]\<rparr>"
    by (simp add: sample_inbox_def inbox_put_def on_store_def mb_do_open_def mb_new_def
        putBounded_def put_tx_def)
  then have "mb_open (sample_inbox [sample_inbox_entry CHR ''a'' 1])"
    "inbox_unconsumed (sample_inbox [sample_inbox_entry CHR ''a'' 1])
      = Inr [sample_inbox_entry CHR ''a'' 1]"
    by (simp_all add: inbox_unconsumed_def sample_inbox_entry_def)
  from inbox_consumed_once [OF sample_inbox_reachable _ this, of "''a''"] show ?thesis
    by (simp add: sample_inbox_entry_def)
qed

text \<open>The calls of \<open>decrementHops\<close> for one message.\<close>

fun forward_times :: "nat \<Rightarrow> string \<Rightarrow> spool_entry mailbox \<Rightarrow> spool_entry mailbox" where
  "forward_times 0 k mb = mb"
| "forward_times (Suc n) k mb = forward_times n k (fst (spool_decrementHops k mb))"

lemma decrementHops_get:
  fixes k :: string
  assumes "os_wf sp_msgId (mb_store mb)" "mb_open mb"
  defines "mb' \<equiv> fst (spool_decrementHops k mb)"
  shows "mb_open mb' \<and> os_wf sp_msgId (mb_store mb')
    \<and> os_get sp_msgId k (mb_store mb') = (case os_get sp_msgId k (mb_store mb) of
         None \<Rightarrow> None
       | Some x \<Rightarrow> if hopsRemaining x \<le> 1 then None
                   else Some (x\<lparr>hopsRemaining := hopsRemaining x - 1\<rparr>))
    \<and> (\<forall>k'. k' \<noteq> k \<longrightarrow> os_get sp_msgId k' (mb_store mb') = os_get sp_msgId k' (mb_store mb))"
proof -
  have del: "os_get sp_msgId k' (os_delete sp_msgId k s) = (if k' = k then None else os_get sp_msgId k' s)"
    for k' and s :: "spool_entry list"
  proof (induction s)
    case (Cons x s)
    then show ?case by (auto simp: os_get_def os_delete_def)
  qed (simp add: os_get_def os_delete_def)
  show ?thesis
  proof (cases "os_get sp_msgId k (mb_store mb)")
    case None
    then show ?thesis using assms(1,2) by (simp add: mb'_def spool_decrementHops_def on_store_open)
  next
    case (Some x)
    then show ?thesis using assms(1,2) del os_get_key [OF Some]
      by (auto simp: mb'_def spool_decrementHops_def on_store_open Let_def os_get_put)
  qed
qed

text \<open>Note: Hop budget: a spooled message with h hops left survives exactly the first h - 1 forwards, losing
  one hop at each, and is gone from the h-th on; no forward touches another message.\<close>

theorem spool_hop_budget:
  assumes "spool_reachable cap mb" and "0 < cap" and "mb_open mb"
    and "os_get sp_msgId k (mb_store mb) = Some x"
  shows "os_get sp_msgId k (mb_store (forward_times n k mb)) =
      (if int n < hopsRemaining x \<or> n = 0 then Some (x\<lparr>hopsRemaining := hopsRemaining x - int n\<rparr>) else None)
    \<and> (\<forall>k'. k' \<noteq> k \<longrightarrow>
         os_get sp_msgId k' (mb_store (forward_times n k mb)) = os_get sp_msgId k' (mb_store mb))"
proof -
  have "os_wf sp_msgId (mb_store mb)" using spool_reachable_inv [OF assms(1,2)] by (simp add: mb_inv_def)
  then have gen: "mb_open (forward_times n k mb) \<and> (os_get sp_msgId k (mb_store mb) = Some y \<longrightarrow>
      os_get sp_msgId k (mb_store (forward_times n k mb)) =
      (if int n < hopsRemaining y \<or> n = 0 then Some (y\<lparr>hopsRemaining := hopsRemaining y - int n\<rparr>) else None))
    \<and> (os_get sp_msgId k (mb_store mb) = None \<longrightarrow> os_get sp_msgId k (mb_store (forward_times n k mb)) = None)
    \<and> (\<forall>k'. k' \<noteq> k \<longrightarrow>
         os_get sp_msgId k' (mb_store (forward_times n k mb)) = os_get sp_msgId k' (mb_store mb))" for y
    using assms(3)
  proof (induction n arbitrary: mb y)
    case (Suc n)
    note d = decrementHops_get [OF Suc.prems, of k]
    show ?case
    proof (cases "hopsRemaining y \<le> 1 \<or> os_get sp_msgId k (mb_store mb) \<noteq> Some y")
      case True
      then show ?thesis using d Suc.IH [of "fst (spool_decrementHops k mb)" y] by auto
    next
      case False
      then show ?thesis
        using d Suc.IH [of "fst (spool_decrementHops k mb)" "y\<lparr>hopsRemaining := hopsRemaining y - 1\<rparr>"]
        by (auto simp: algebra_simps)
    qed
  qed simp
  show ?thesis using gen [of x] assms(4) by blast
qed

theorem spool_hop_budget_witness:
  "os_get sp_msgId ''a'' (mb_store (forward_times 2 ''a'' (fst (spool_put TxOk TxOk
      \<lparr>sp_msgId = ''a'', sp_channelId = [], sp_bundle = [], addedAtMs = 0, hopsRemaining = 2\<rparr>
      (mb_do_open (mb_new 2 [])))))) = None"
proof -
  let ?x = "\<lparr>sp_msgId = ''a'', sp_channelId = [], sp_bundle = [], addedAtMs = 0, hopsRemaining = 2\<rparr>"
  let ?mb = "fst (spool_put TxOk TxOk ?x (mb_do_open (mb_new 2 [])))"
  have "spool_step (mb_new 2 []) (mb_do_open (mb_new 2 []))"
    "spool_step (mb_do_open (mb_new 2 [])) ?mb" by (rule spool_step.intros)+
  then have r: "spool_reachable 2 ?mb" unfolding spool_reachable_def
    by (meson converse_rtranclp_into_rtranclp r_into_rtranclp)
  have "mb_open ?mb" "os_get sp_msgId ''a'' (mb_store ?mb) = Some ?x"
    by (simp_all add: spool_put_def on_store_def mb_do_open_def mb_new_def putBounded_def
        put_tx_def os_get_def)
  from spool_hop_budget [OF r _ this, of 2] show ?thesis by simp
qed

text \<open>Note: Gossip reads the newest first: recent returns at most limit records, in order of decreasing
  addedAtMs, each of them stored, and no record it leaves out is newer than one it returns.\<close>

theorem spool_recent_newest:
  assumes "spool_reachable cap mb" and "0 < cap" and "spool_recent limit mb = Inr es"
  shows "length es = min (nat limit) (length (mb_store mb)) \<and> set es \<subseteq> set (mb_store mb)
    \<and> distinct es \<and> sorted (rev (map addedAtMs es))
    \<and> (\<forall>x \<in> set (mb_store mb) - set es. \<forall>y \<in> set es. addedAtMs x \<le> addedAtMs y)"
proof -
  let ?w = "rev (spool_walk (mb_store mb))"
  have es: "es = take (nat limit) ?w" using assms(3)
    by (auto simp: spool_recent_def take_walk_take split: if_splits)
  have wf: "os_wf sp_msgId (mb_store mb)" using spool_reachable_inv [OF assms(1,2)] by (simp add: mb_inv_def)
  have d: "distinct ?w" using spool.walk_distinct os_wf_distinct [OF wf] by (simp add: distinct_map)
  have srt: "sorted (map addedAtMs (rev (take (nat limit) ?w @ drop (nat limit) ?w)))"
    using spool.walk_sorted [of "mb_store mb"] by simp
  then have "\<forall>x \<in> set (drop (nat limit) ?w). \<forall>y \<in> set es. addedAtMs x \<le> addedAtMs y"
    unfolding es rev_append map_append sorted_append by auto
  moreover have "set (mb_store mb) - set es \<subseteq> set (drop (nat limit) ?w)"
    unfolding es by (metis Diff_subset_conv append_take_drop_id order_refl set_append set_rev spool.walk_set)
  moreover have "sorted (rev (map addedAtMs es))"
    using srt unfolding es rev_append map_append sorted_append by (simp add: rev_map)
  moreover have "set es \<subseteq> set (mb_store mb)"
    unfolding es using set_take_subset [of "nat limit" ?w] by simp
  moreover have "distinct es" unfolding es using d by (rule distinct_take)
  ultimately show ?thesis by (auto simp: es)
qed

theorem spool_recent_newest_witness:
  "spool_recent 5 (mb_do_open (mb_new 2 [])) = Inr [] \<and> distinct (projr (spool_recent 5 (mb_do_open (mb_new 2 []))))"
proof -
  have r: "spool_reachable 2 (mb_do_open (mb_new 2 []))"
    unfolding spool_reachable_def by (rule r_into_rtranclp, rule spool_step.intros)
  have e: "spool_recent 5 (mb_do_open (mb_new 2 [])) = Inr []"
    by (simp add: spool_recent_def mb_do_open_def mb_new_def os_index_def)
  from spool_recent_newest [OF r _ e] e show ?thesis by simp
qed

end
