(* ===== verification/Outbox.thy ===== *)
theory Outbox
  imports Object_Store
begin

text \<open>
  The queue of outgoing bundles of \<open>packages/mesh-core/src/outbox.ts\<close> and the loop of
  \<open>outbox-drainer.ts\<close> that sends them when the browser comes online. \<open>Date.now()\<close> is an
  argument, and the bridge is a function from the entry to its reply.
\<close>

section \<open>Outbox\<close>

datatype send_status = Pending | Sent | Failed

record outbox_entry =
  ob_msgId :: string
  ob_channelId :: bytes
  ob_bundle :: bytes
  attempts :: nat
  lastAttemptMs :: int
  status :: send_status

definition MAX_OUTBOX_ATTEMPTS :: nat where "MAX_OUTBOX_ATTEMPTS = 8"
definition MESH_OUTBOX_MAX_ENTRIES :: nat where "MESH_OUTBOX_MAX_ENTRIES = 5000"

abbreviation outbox_walk :: "outbox_entry list \<Rightarrow> outbox_entry list" where
  "outbox_walk \<equiv> os_index lastAttemptMs"

interpretation outbox: aged_store ob_msgId lastAttemptMs outbox_walk
  by (rule aged_store_index)

record enqueue_args =
  ea_msgId :: string
  ea_channelId :: bytes
  ea_bundle :: bytes
  ea_lastAttemptMs :: "int option"

definition new_entry :: "enqueue_args \<Rightarrow> outbox_entry" where
  "new_entry a = \<lparr>ob_msgId = ea_msgId a, ob_channelId = ea_channelId a, ob_bundle = ea_bundle a,
     attempts = 0, lastAttemptMs = (case ea_lastAttemptMs a of None \<Rightarrow> 0 | Some t \<Rightarrow> t),
     status = Pending\<rparr>"

definition enqueue :: "enqueue_args \<Rightarrow> outbox_entry mailbox \<Rightarrow> outbox_entry mailbox \<times> (mb_error + unit)" where
  "enqueue a mb =
     on_store (\<lambda>s. (put_tx ob_msgId outbox_walk (maxEntries mb) (new_entry a) s, Inr ())) mb"

text \<open>The cursor over one value of the \<open>status\<close> index, in the order of the primary key.\<close>

definition with_status :: "send_status \<Rightarrow> outbox_entry list \<Rightarrow> outbox_entry list" where
  "with_status st s = filter (\<lambda>e. status e = st) s"

definition nextPending :: "outbox_entry mailbox \<Rightarrow> mb_error + outbox_entry option" where
  "nextPending mb =
     (if \<not> mb_open mb then Inl NotOpen
      else Inr (case with_status Pending (mb_store mb) of [] \<Rightarrow> None | e # _ \<Rightarrow> Some e))"

definition updateEntry ::
  "string \<Rightarrow> (outbox_entry \<Rightarrow> outbox_entry) \<Rightarrow> outbox_entry mailbox
     \<Rightarrow> outbox_entry mailbox \<times> (mb_error + unit)" where
  "updateEntry msgId f =
     on_store (\<lambda>s. case os_get ob_msgId msgId s of
        None \<Rightarrow> (s, Inr ())
      | Some existing \<Rightarrow> (os_put ob_msgId (f existing) s, Inr ()))"

definition markSent :: "string \<Rightarrow> outbox_entry mailbox \<Rightarrow> outbox_entry mailbox \<times> (mb_error + unit)" where
  "markSent msgId = updateEntry msgId (\<lambda>e. e\<lparr>status := Sent\<rparr>)"

definition fail_entry :: "int \<Rightarrow> outbox_entry \<Rightarrow> outbox_entry" where
  "fail_entry now e =
     (let n = attempts e + 1; terminal = n \<ge> MAX_OUTBOX_ATTEMPTS in
      e\<lparr>status := (if terminal then Failed else Pending), attempts := n, lastAttemptMs := now\<rparr>)"

definition markFailed ::
  "int \<Rightarrow> string \<Rightarrow> outbox_entry mailbox \<Rightarrow> outbox_entry mailbox \<times> (mb_error + unit)" where
  "markFailed now msgId = updateEntry msgId (fail_entry now)"

definition failedEntries :: "outbox_entry mailbox \<Rightarrow> mb_error + outbox_entry list" where
  "failedEntries mb =
     (if \<not> mb_open mb then Inl NotOpen else Inr (with_status Failed (mb_store mb)))"

definition clearFailed :: "outbox_entry mailbox \<Rightarrow> outbox_entry mailbox \<times> (mb_error + unit)" where
  "clearFailed = on_store (\<lambda>s. (delete_walk ob_msgId (with_status Failed s) s, Inr ()))"

text \<open>
  The range \<open>[1, cutoff]\<close> of the index; \<open>IDBKeyRange.bound\<close> throws when its bounds are out of
  order, which rejects the promise.
\<close>

definition outbox_evictOlderThan ::
  "int \<Rightarrow> int \<Rightarrow> outbox_entry mailbox \<Rightarrow> outbox_entry mailbox \<times> (mb_error + unit)" where
  "outbox_evictOlderThan now ms =
     (let cutoff = now - ms in
      on_store (\<lambda>s. if cutoff < 1 then (s, Inl BadLimit)
        else (delete_walk ob_msgId (filter (\<lambda>e. 1 \<le> lastAttemptMs e \<and> lastAttemptMs e \<le> cutoff)
                (outbox_walk s)) s, Inr ())))"

section \<open>Drainer\<close>

definition MAX_DRAIN_PER_CYCLE :: nat where "MAX_DRAIN_PER_CYCLE = 50"

datatype send_reply = ReplyOk | ReplyFailed | ReplyThrows

text \<open>
  The loop of \<open>drain\<close>, with the number of entries it may still send. It answers with the
  entries handed to \<open>bridgeSend\<close>, and whether an exception went to \<open>onError\<close>.
\<close>

fun drain_loop :: "(outbox_entry \<Rightarrow> send_reply) \<Rightarrow> int \<Rightarrow> nat \<Rightarrow> outbox_entry mailbox
    \<Rightarrow> outbox_entry mailbox \<times> outbox_entry list \<times> bool" where
  "drain_loop reply now 0 mb = (mb, [], False)"
| "drain_loop reply now (Suc n) mb =
     (case nextPending mb of
        Inl e \<Rightarrow> (mb, [], True)
      | Inr None \<Rightarrow> (mb, [], False)
      | Inr (Some entry) \<Rightarrow>
          (case reply entry of
             ReplyThrows \<Rightarrow> (mb, [entry], True)
           | ReplyOk \<Rightarrow>
               (case markSent (ob_msgId entry) mb of
                  (mb', Inl e) \<Rightarrow> (mb', [entry], True)
                | (mb', Inr _) \<Rightarrow> (case drain_loop reply now n mb' of (mb'', tried, err) \<Rightarrow> (mb'', entry # tried, err)))
           | ReplyFailed \<Rightarrow>
               (case markFailed now (ob_msgId entry) mb of
                  (mb', Inl e) \<Rightarrow> (mb', [entry], True)
                | (mb', Inr _) \<Rightarrow> (mb', [entry], False))))"

text \<open>One \<open>online\<close> event: ignored while a cycle is in flight.\<close>

definition drain :: "(outbox_entry \<Rightarrow> send_reply) \<Rightarrow> int \<Rightarrow> bool \<Rightarrow> outbox_entry mailbox
    \<Rightarrow> outbox_entry mailbox \<times> outbox_entry list \<times> bool" where
  "drain reply now draining mb =
     (if draining then (mb, [], False) else drain_loop reply now MAX_DRAIN_PER_CYCLE mb)"

section \<open>Reachable states\<close>

inductive outbox_step :: "outbox_entry mailbox \<Rightarrow> outbox_entry mailbox \<Rightarrow> bool" where
  "outbox_step mb (mb_do_open mb)"
| "outbox_step mb (mb_close mb)"
| "outbox_step mb (fst (enqueue a mb))"
| "outbox_step mb (fst (markSent k mb))"
| "outbox_step mb (fst (markFailed now k mb))"
| "outbox_step mb (fst (clearFailed mb))"
| "outbox_step mb (fst (outbox_evictOlderThan now ms mb))"

definition outbox_reachable :: "nat \<Rightarrow> outbox_entry mailbox \<Rightarrow> bool" where
  "outbox_reachable cap mb \<longleftrightarrow> outbox_step\<^sup>*\<^sup>* (mb_new cap []) mb"

text \<open>A pending entry has attempts left, a failed one has used them.\<close>

definition entry_ok :: "outbox_entry \<Rightarrow> bool" where
  "entry_ok e \<longleftrightarrow> (case status e of Pending \<Rightarrow> attempts e < 8 | Failed \<Rightarrow> 8 \<le> attempts e | Sent \<Rightarrow> True)"

definition outbox_inv :: "nat \<Rightarrow> outbox_entry mailbox \<Rightarrow> bool" where
  "outbox_inv cap mb \<longleftrightarrow> mb_inv ob_msgId cap mb \<and> (\<forall>e \<in> set (mb_store mb). entry_ok e)"

lemma outbox_on_store:
  assumes "outbox_inv cap mb"
    and "os_wf ob_msgId (mb_store mb) \<Longrightarrow> length (mb_store mb) \<le> cap \<Longrightarrow>
      os_wf ob_msgId (fst (f (mb_store mb))) \<and> length (fst (f (mb_store mb))) \<le> cap"
    and "os_wf ob_msgId (mb_store mb) \<Longrightarrow>
      \<forall>e \<in> set (fst (f (mb_store mb))). e \<in> set (mb_store mb) \<or> entry_ok e"
  shows "outbox_inv cap (fst (on_store f mb))"
proof -
  have "mb_inv ob_msgId cap (fst (on_store f mb))"
    using assms(1) by (intro on_store_inv assms(2)) (simp_all add: outbox_inv_def)
  moreover have "\<forall>e \<in> set (mb_store (fst (on_store f mb))). entry_ok e"
    using assms(1,3) by (auto simp: outbox_inv_def mb_inv_def on_store_def split_beta)
  ultimately show ?thesis by (simp add: outbox_inv_def)
qed

lemma updateEntry_inv:
  assumes "outbox_inv cap mb" "\<And>e. ob_msgId (f e) = ob_msgId e" "\<And>e. entry_ok e \<Longrightarrow> entry_ok (f e)"
  shows "outbox_inv cap (fst (updateEntry k f mb))"
  unfolding updateEntry_def
proof (rule outbox_on_store [OF assms(1)])
  let ?s = "mb_store mb"
  let ?f = "\<lambda>s. case os_get ob_msgId k s of None \<Rightarrow> (s, Inr ())
      | Some existing \<Rightarrow> (os_put ob_msgId (f existing) s, Inr ())"
  have ok: "\<forall>e\<in>set ?s. entry_ok e" using assms(1) by (simp add: outbox_inv_def)
  show "os_wf ob_msgId (fst (?f ?s)) \<and> length (fst (?f ?s)) \<le> cap"
    if "os_wf ob_msgId ?s" "length ?s \<le> cap"
    using that assms(2) length_update [OF that(1), of k] os_get_key [of ob_msgId k ?s]
    by (auto split: option.split)
  show "\<forall>e \<in> set (fst (?f ?s)). e \<in> set ?s \<or> entry_ok e" if "os_wf ob_msgId ?s"
    using ok assms(3) os_get_key [of ob_msgId k ?s]
    by (auto simp: set_os_put [OF that] split: option.split)
qed

lemma entry_ok_fail: "entry_ok (fail_entry now e)"
  by (simp add: fail_entry_def entry_ok_def Let_def MAX_OUTBOX_ATTEMPTS_def)

lemma fail_entry_key: "ob_msgId (fail_entry now e) = ob_msgId e"
  by (simp add: fail_entry_def Let_def)

lemma outbox_step_inv:
  "outbox_step mb mb' \<Longrightarrow> outbox_inv cap mb \<Longrightarrow> 0 < cap \<Longrightarrow> outbox_inv cap mb'"
proof (induction rule: outbox_step.induct)
  case (3 mb a)
  then have cap: "maxEntries mb = cap" by (simp add: outbox_inv_def mb_inv_def)
  have "entry_ok (new_entry a)" by (simp add: new_entry_def entry_ok_def)
  with 3 show ?case unfolding enqueue_def cap
    by (intro outbox_on_store)
      (auto simp: outbox.put_tx_wf outbox.put_tx_bound dest!: subsetD [OF outbox.put_tx_keeps(1), rotated])
next
  case (4 mb k)
  then show ?case unfolding markSent_def
    by (intro updateEntry_inv) (auto simp: entry_ok_def)
next
  case (5 mb now k)
  then show ?case unfolding markFailed_def
    by (intro updateEntry_inv) (auto simp: entry_ok_fail fail_entry_key)
next
  case (6 mb)
  then show ?case unfolding clearFailed_def
    by (intro outbox_on_store) (auto simp: delete_walk_filter os_wf_filter length_filter_bound)
next
  case (7 mb now ms)
  then show ?case unfolding outbox_evictOlderThan_def Let_def
    by (intro outbox_on_store) (auto simp: delete_walk_filter os_wf_filter length_filter_bound)
qed (simp_all add: outbox_inv_def mb_inv_def mb_do_open_def mb_close_def)

lemma outbox_reachable_inv:
  "outbox_reachable cap mb \<Longrightarrow> 0 < cap \<Longrightarrow> outbox_inv cap mb"
  unfolding outbox_reachable_def
  by (induction rule: rtranclp_induct)
    (auto simp: outbox_inv_def mb_inv_def mb_new_def dest: outbox_step_inv [unfolded outbox_inv_def])

section \<open>One drain cycle\<close>

text \<open>The entries that a cycle tries: those before the first failure, and that one.\<close>

fun upto_failure :: "(outbox_entry \<Rightarrow> send_reply) \<Rightarrow> outbox_entry list \<Rightarrow> outbox_entry list" where
  "upto_failure reply [] = []"
| "upto_failure reply (e # es) = (if reply e = ReplyOk then e # upto_failure reply es else [e])"

text \<open>What a cycle makes of an entry that it tries.\<close>

definition after_try :: "(outbox_entry \<Rightarrow> send_reply) \<Rightarrow> int \<Rightarrow> outbox_entry \<Rightarrow> outbox_entry" where
  "after_try reply now e = (case reply e of ReplyOk \<Rightarrow> e\<lparr>status := Sent\<rparr>
     | ReplyFailed \<Rightarrow> fail_entry now e | ReplyThrows \<Rightarrow> e)"

lemma update_open:
  assumes "os_get ob_msgId k (mb_store mb) = Some e" "mb_open mb"
  shows "updateEntry k f mb = (mb\<lparr>mb_store := os_put ob_msgId (f e) (mb_store mb)\<rparr>, Inr ())"
  using assms by (simp add: updateEntry_def on_store_open)

lemma drain_loop_exact:
  assumes "os_wf ob_msgId (mb_store mb)" "mb_open mb"
    and "drain_loop reply now n mb = (mb', tried, err)"
  shows "tried = take n (upto_failure reply (with_status Pending (mb_store mb)))
    \<and> err = (\<exists>e \<in> set tried. reply e = ReplyThrows)
    \<and> (\<forall>k. os_get ob_msgId k (mb_store mb') = (case os_get ob_msgId k (mb_store mb) of
          None \<Rightarrow> None | Some e \<Rightarrow> Some (if e \<in> set tried then after_try reply now e else e)))"
  using assms
proof (induction n arbitrary: mb mb' tried err)
  case 0
  then show ?case by (auto split: option.split)
next
  case (Suc n)
  let ?s = "mb_store mb"
  note wf = Suc.prems(1) and op = Suc.prems(2)
  show ?case
  proof (cases "with_status Pending ?s")
    case Nil
    then show ?thesis using Suc.prems by (auto simp: nextPending_def split: option.split)
  next
    case (Cons e es)
    then have e: "e \<in> set ?s" "status e = Pending"
      by (auto simp: with_status_def filter_eq_Cons_iff)
    have get: "os_get ob_msgId (ob_msgId e) ?s = Some e" using e wf by (simp add: os_get_Some)
    have np: "nextPending mb = Inr (Some e)" using Cons op by (simp add: nextPending_def)
    have other: "k = ob_msgId e \<longleftrightarrow> x = e" if "os_get ob_msgId k ?s = Some x" for k x
      using that get os_get_key by force
    show ?thesis
    proof (cases "reply e")
      case ReplyThrows
      then show ?thesis using Suc.prems np Cons by (auto simp: after_try_def split: option.split)
    next
      case ReplyFailed
      have "mb' = mb\<lparr>mb_store := os_put ob_msgId (fail_entry now e) ?s\<rparr> \<and> tried = [e] \<and> \<not> err"
        using Suc.prems np ReplyFailed update_open [OF get op] by (simp add: markFailed_def)
      then show ?thesis using ReplyFailed Cons other get
        by (auto simp: os_get_put [OF wf] fail_entry_key after_try_def split: option.split)
    next
      case ReplyOk
      let ?e = "e\<lparr>status := Sent\<rparr>"
      let ?mb = "mb\<lparr>mb_store := os_put ob_msgId ?e ?s\<rparr>"
      obtain tried' where d: "drain_loop reply now n ?mb = (mb', tried', err)" "tried = e # tried'"
        using Suc.prems np ReplyOk update_open [OF get op]
        by (auto simp: markSent_def split: prod.splits)
      have ps: "with_status Pending (os_put ob_msgId ?e ?s) = es"
      proof -
        have "with_status Pending (os_put ob_msgId ?e ?s) = filter (\<lambda>y. ob_msgId y \<noteq> ob_msgId e) (e # es)"
          unfolding Cons [symmetric]
          using filter_os_put_out [OF wf e(1), of ?e "\<lambda>x. status x = Pending"]
          by (simp add: with_status_def del: filter_filter)
        moreover have "distinct (map ob_msgId (e # es))"
          unfolding Cons [symmetric] with_status_def
          by (rule os_wf_distinct [OF os_wf_filter [OF wf]])
        then have "filter (\<lambda>y. ob_msgId y \<noteq> ob_msgId e) (e # es) = es"
          by (simp, intro filter_True) (metis image_eqI)
        with calculation show ?thesis by simp
      qed
      have ih: "tried' = take n (upto_failure reply es)"
        "err = (\<exists>x \<in> set tried'. reply x = ReplyThrows)"
        "\<And>k. os_get ob_msgId k (mb_store mb') = (case os_get ob_msgId k (os_put ob_msgId ?e ?s) of
          None \<Rightarrow> None | Some x \<Rightarrow> Some (if x \<in> set tried' then after_try reply now x else x))"
        using Suc.IH [of ?mb mb' tried' err] d(1) wf op ps by simp_all
      have "set (upto_failure reply es) \<subseteq> set es" by (induction es) auto
      then have "set tried' \<subseteq> set es" using ih(1) set_take_subset by fastforce
      then have "?e \<notin> set tried'" using Cons by (fastforce simp: with_status_def filter_eq_Cons_iff)
      then show ?thesis using ih Cons ReplyOk d(2) other get
        by (auto simp: os_get_put [OF wf] after_try_def split: option.split)
    qed
  qed
qed

section \<open>Properties\<close>

definition sample_args :: "char \<Rightarrow> enqueue_args" where
  "sample_args c = \<lparr>ea_msgId = [c], ea_channelId = [], ea_bundle = [], ea_lastAttemptMs = None\<rparr>"

definition sample_outbox :: "char list \<Rightarrow> outbox_entry mailbox" where
  "sample_outbox cs = fold (\<lambda>c mb. fst (enqueue (sample_args c) mb)) cs (mb_do_open (mb_new 2 []))"

lemma sample_outbox_reachable: "outbox_reachable 2 (sample_outbox cs)"
proof -
  have "outbox_step\<^sup>*\<^sup>* mb (fold (\<lambda>c mb. fst (enqueue (sample_args c) mb)) cs mb)" for mb
  proof (induction cs arbitrary: mb)
    case (Cons c cs)
    have "outbox_step mb (fst (enqueue (sample_args c) mb))" by (rule outbox_step.intros)
    with Cons [of "fst (enqueue (sample_args c) mb)"] show ?case
      by (simp add: converse_rtranclp_into_rtranclp)
  qed simp
  moreover have "outbox_step (mb_new 2 []) (mb_do_open (mb_new 2 []))" by (rule outbox_step.intros)
  ultimately show ?thesis unfolding outbox_reachable_def sample_outbox_def
    by (meson converse_rtranclp_into_rtranclp)
qed

text \<open>C23: A drain cycle does exactly its contract: it hands to the bridge the pending entries in key order
  up to and including the first that fails, at most fifty and none twice; those accepted are
  marked sent, the one refused has one attempt more, and no other entry changes.\<close>

theorem drain_cycle_exact:
  assumes "outbox_reachable cap mb" and "0 < cap" and "mb_open mb"
    and "drain reply now False mb = (mb', tried, err)"
  shows "tried = take 50 (upto_failure reply (with_status Pending (mb_store mb))) \<and> distinct tried
    \<and> err = (\<exists>e \<in> set tried. reply e = ReplyThrows)
    \<and> (\<forall>k. os_get ob_msgId k (mb_store mb') = (case os_get ob_msgId k (mb_store mb) of
          None \<Rightarrow> None | Some e \<Rightarrow> Some (if e \<in> set tried then after_try reply now e else e)))"
proof -
  have wf: "os_wf ob_msgId (mb_store mb)"
    using outbox_reachable_inv [OF assms(1,2)] by (simp add: outbox_inv_def mb_inv_def)
  have "\<exists>m. upto_failure reply es = take m es" for es
  proof (induction es)
    case (Cons e es)
    then obtain m where "upto_failure reply es = take m es" by blast
    then show ?case by (cases "reply e = ReplyOk") (auto intro: exI [of _ "Suc m"] exI [of _ 1])
  qed simp
  moreover have "distinct (with_status Pending (mb_store mb))"
    using os_wf_distinct [OF wf] by (simp add: with_status_def distinct_map)
  ultimately have "distinct (upto_failure reply (with_status Pending (mb_store mb)))"
    by (metis distinct_take)
  then show ?thesis using drain_loop_exact [OF wf assms(3), of reply now 50 mb' tried err] assms(4)
    by (simp add: drain_def MAX_DRAIN_PER_CYCLE_def)
qed

theorem drain_cycle_exact_witness:
  "fst (snd (drain (\<lambda>e. ReplyFailed) 7 False (sample_outbox ''ab''))) = [new_entry (sample_args CHR ''a'')]"
proof -
  have o: "mb_open (sample_outbox ''ab'')"
    and s: "mb_store (sample_outbox ''ab'') = [new_entry (sample_args CHR ''a''), new_entry (sample_args CHR ''b'')]"
    by (simp_all add: sample_outbox_def enqueue_def on_store_def mb_do_open_def mb_new_def
        put_tx_def new_entry_def sample_args_def)
  have "\<exists>mb' tried err. drain (\<lambda>e. ReplyFailed) 7 False (sample_outbox ''ab'') = (mb', tried, err)"
    by (metis prod.exhaust)
  then obtain mb' tried err where
    d: "drain (\<lambda>e. ReplyFailed) 7 False (sample_outbox ''ab'') = (mb', tried, err)" by blast
  from drain_cycle_exact [OF sample_outbox_reachable _ o d] show ?thesis
    by (simp add: d s with_status_def new_entry_def)
qed

text \<open>Note: Retries are bounded: on any outbox, a pending entry has failed fewer than eight times and a
  failed one at least eight times, and the store respects its capacity.\<close>

theorem outbox_attempts_bounded:
  assumes "outbox_reachable cap mb" and "0 < cap"
  shows "length (mb_store mb) \<le> cap \<and> (\<forall>e \<in> set (mb_store mb).
    (status e = Pending \<longrightarrow> attempts e < 8) \<and> (status e = Failed \<longrightarrow> 8 \<le> attempts e))"
proof -
  have "outbox_inv cap mb" by (rule outbox_reachable_inv [OF assms])
  then show ?thesis by (auto simp: outbox_inv_def mb_inv_def entry_ok_def split: send_status.splits)
qed

theorem outbox_attempts_bounded_witness:
  "length (mb_store (sample_outbox ''abcabc'')) \<le> 2"
  using outbox_attempts_bounded [OF sample_outbox_reachable] by simp

text \<open>Note: A full outbox drops the message that was never tried: when one entry has not been attempted yet
  and all others have, sent and failed ones included, enqueueing a new message evicts exactly
  the untried one.\<close>

theorem enqueue_drops_untried:
  assumes "outbox_reachable cap mb" and "0 < cap" and "mb_open mb" and "length (mb_store mb) = cap"
    and "p \<in> set (mb_store mb)" and "lastAttemptMs p = 0"
    and "\<forall>e \<in> set (mb_store mb). e \<noteq> p \<longrightarrow> 0 < lastAttemptMs e"
    and "ea_msgId a \<notin> ob_msgId ` set (mb_store mb)"
  shows "set (mb_store (fst (enqueue a mb))) = insert (new_entry a) (set (mb_store mb) - {p})"
proof -
  let ?s = "mb_store mb"
  have inv: "outbox_inv cap mb" by (rule outbox_reachable_inv [OF assms(1,2)])
  then have wf: "os_wf ob_msgId ?s" and cap: "maxEntries mb = cap"
    by (simp_all add: outbox_inv_def mb_inv_def)
  have ne: "outbox_walk ?s \<noteq> []" using assms(2,4) outbox.walk_length [of ?s] by force
  have "lastAttemptMs (hd (outbox_walk ?s)) \<le> lastAttemptMs p"
  proof -
    have "p \<in> set (outbox_walk ?s)" using assms(5) by simp
    then show ?thesis using outbox.walk_sorted [of ?s] ne by (cases "outbox_walk ?s") auto
  qed
  moreover have "hd (outbox_walk ?s) \<in> set ?s" using ne outbox.walk_set [of ?s] by (metis hd_in_set)
  ultimately have hd: "hd (outbox_walk ?s) = p" using assms(6,7) by force
  have d: "distinct (outbox_walk ?s)"
    using os_wf_distinct [OF wf] outbox.walk_distinct by (simp add: distinct_map)
  have "set (drop 1 (outbox_walk ?s)) = set ?s - {p}"
    using ne d hd outbox.walk_set [of ?s] by (cases "outbox_walk ?s") auto
  then have e: "set (fst (evict_walk ob_msgId 1 (outbox_walk ?s) 0 ?s)) = set ?s - {p}"
    "os_wf ob_msgId (fst (evict_walk ob_msgId 1 (outbox_walk ?s) 0 ?s))"
    using outbox.evict_contents(1,4) [OF wf, of 1] by simp_all
  have k: "ob_msgId (new_entry a) = ea_msgId a" by (simp add: new_entry_def)
  have "mb_store (fst (enqueue a mb)) = os_put ob_msgId (new_entry a)
      (fst (evict_walk ob_msgId 1 (outbox_walk ?s) 0 ?s))"
    using assms(3,4) by (simp add: enqueue_def on_store_open cap outbox.put_tx_at)
  moreover have "ob_msgId x \<noteq> ob_msgId (new_entry a)" if "x \<in> set ?s" for x
    using assms(8) that unfolding k by (metis image_eqI)
  ultimately show ?thesis using e by (auto simp: set_os_put)
qed

theorem enqueue_drops_untried_witness:
  "set (mb_store (fst (enqueue (sample_args CHR ''c'') (fst (markFailed 5 ''b'' (sample_outbox ''ab''))))))
   = {new_entry (sample_args CHR ''c''), fail_entry 5 (new_entry (sample_args CHR ''b''))}"
proof -
  let ?mb = "fst (markFailed 5 ''b'' (sample_outbox ''ab''))"
  let ?a = "new_entry (sample_args CHR ''a'')" and ?b = "new_entry (sample_args CHR ''b'')"
  have "sample_outbox ''ab'' = \<lparr>mb_open = True, maxEntries = 2, mb_store = [?a, ?b]\<rparr>"
    by (simp add: sample_outbox_def enqueue_def on_store_def mb_do_open_def mb_new_def
        put_tx_def new_entry_def sample_args_def)
  then have mb: "?mb = \<lparr>mb_open = True, maxEntries = 2, mb_store = [?a, fail_entry 5 ?b]\<rparr>"
    by (simp add: markFailed_def updateEntry_def on_store_def os_get_def new_entry_def sample_args_def
        fail_entry_key)
  have ne: "fail_entry 5 ?b \<noteq> ?a" "lastAttemptMs (fail_entry 5 ?b) = 5" "lastAttemptMs ?a = 0"
    by (simp_all add: fail_entry_def new_entry_def sample_args_def Let_def)
  have "outbox_step (sample_outbox ''ab'') ?mb" by (rule outbox_step.intros)
  then have r: "outbox_reachable 2 ?mb"
    using sample_outbox_reachable [of "''ab''"] unfolding outbox_reachable_def
    by (rule rtranclp.rtrancl_into_rtrancl [rotated])
  have pre: "mb_open ?mb" "length (mb_store ?mb) = 2" "?a \<in> set (mb_store ?mb)"
    "\<forall>e \<in> set (mb_store ?mb). e \<noteq> ?a \<longrightarrow> 0 < lastAttemptMs e"
    "ea_msgId (sample_args CHR ''c'') \<notin> ob_msgId ` set (mb_store ?mb)"
    unfolding mb by (simp_all add: ne fail_entry_key) (simp add: new_entry_def sample_args_def)
  have "set (mb_store ?mb) - {?a} = {fail_entry 5 ?b}" unfolding mb using ne by auto
  then show ?thesis using enqueue_drops_untried [OF r _ pre(1-3) ne(3) pre(4,5)] by simp
qed

text \<open>Note: Ageing out the outbox spares what was never tried: evictOlderThan keeps every entry whose
  lastAttemptMs is zero, a message sent at its first attempt included, and removes of the
  others exactly those not younger than the limit.\<close>

theorem outbox_eviction_exact:
  assumes "outbox_reachable cap mb" and "0 < cap" and "mb_open mb" and "1 \<le> now - ms"
  shows "mb_store (fst (outbox_evictOlderThan now ms mb)) =
      filter (\<lambda>e. lastAttemptMs e < 1 \<or> now - ms < lastAttemptMs e) (mb_store mb)"
proof -
  have wf: "os_wf ob_msgId (mb_store mb)"
    using outbox_reachable_inv [OF assms(1,2)] by (simp add: outbox_inv_def mb_inv_def)
  show ?thesis using assms(3,4)
    by (simp add: outbox_evictOlderThan_def Let_def on_store_open outbox.delete_by_age [OF wf])
      (rule filter_cong; auto)
qed

theorem outbox_eviction_exact_witness:
  "mb_store (fst (outbox_evictOlderThan 100 1 (fst (markSent ''a'' (sample_outbox ''a'')))))
   = [(new_entry (sample_args CHR ''a''))\<lparr>status := Sent\<rparr>]"
proof -
  let ?mb = "fst (markSent ''a'' (sample_outbox ''a''))"
  have s: "mb_open ?mb" "mb_store ?mb = [(new_entry (sample_args CHR ''a''))\<lparr>status := Sent\<rparr>]"
    by (simp_all add: sample_outbox_def enqueue_def on_store_def mb_do_open_def mb_new_def
        put_tx_def new_entry_def sample_args_def markSent_def updateEntry_def os_get_def)
  have "outbox_step (sample_outbox ''a'') ?mb" by (rule outbox_step.intros)
  then have r: "outbox_reachable 2 ?mb"
    using sample_outbox_reachable [of "''a''"] unfolding outbox_reachable_def
    by (rule rtranclp.rtrancl_into_rtrancl [rotated])
  from outbox_eviction_exact [OF r _ s(1), of 100 1] show ?thesis
    by (simp add: s(2) new_entry_def sample_args_def)
qed

end
