(* ===== verification/Base64url.thy ===== *)
theory Base64url
  imports Prelude
begin

text \<open>
  \<open>packages/identity/src/base64url.ts\<close> and the encoder that \<open>transport.ts\<close> has of its own.
  \<open>btoa\<close> and \<open>atob\<close> are those of the platform: RFC 4648 with padding, and the forgiving
  decoder, whose \<open>InvalidCharacterError\<close> is \<open>None\<close>.
\<close>

section \<open>The platform's base64\<close>

definition b64_char :: "nat \<Rightarrow> char" where
  "b64_char n = char_of (if n < 26 then 65 + n else if n < 52 then 71 + n
     else if n < 62 then n - 4 else if n = 62 then 43 else 47 :: nat)"

definition b64_val :: "char \<Rightarrow> nat option" where
  "b64_val c = (let n = of_char c :: nat in
     if 65 \<le> n \<and> n \<le> 90 then Some (n - 65)
     else if 97 \<le> n \<and> n \<le> 122 then Some (n - 71)
     else if 48 \<le> n \<and> n \<le> 57 then Some (n + 4)
     else if n = 43 then Some 62 else if n = 47 then Some 63 else None)"

text \<open>The six-bit groups of a byte string.\<close>

fun sextets :: "bytes \<Rightarrow> nat list" where
  "sextets [] = []"
| "sextets [a] = [unat a div 4, unat a mod 4 * 16]"
| "sextets [a, b] = [unat a div 4, unat a mod 4 * 16 + unat b div 16, unat b mod 16 * 4]"
| "sextets (a # b # c # bs) =
     unat a div 4 # (unat a mod 4 * 16 + unat b div 16) # (unat b mod 16 * 4 + unat c div 64)
       # unat c mod 64 # sextets bs"

fun unsextets :: "nat list \<Rightarrow> bytes" where
  "unsextets (p # q # r # s # xs) =
     of_nat (p * 4 + q div 16) # of_nat (q mod 16 * 16 + r div 4) # of_nat (r mod 4 * 64 + s)
       # unsextets xs"
| "unsextets [p, q, r] = [of_nat (p * 4 + q div 16), of_nat (q mod 16 * 16 + r div 4)]"
| "unsextets [p, q] = [of_nat (p * 4 + q div 16)]"
| "unsextets xs = []"

definition btoa :: "bytes \<Rightarrow> string" where
  "btoa bs = map b64_char (sextets bs) @ replicate ((3 - length bs mod 3) mod 3) (CHR ''='')"

definition is_space :: "char \<Rightarrow> bool" where
  "is_space c \<longleftrightarrow> of_char c \<in> {9, 10, 12, 13, 32 :: nat}"

definition strip_pad :: "string \<Rightarrow> string" where
  "strip_pad s = (if length s mod 4 \<noteq> 0 then s
     else if 2 \<le> length s \<and> drop (length s - 2) s = ''=='' then take (length s - 2) s
     else if s \<noteq> [] \<and> last s = CHR ''='' then butlast s else s)"

definition atob :: "string \<Rightarrow> bytes option" where
  "atob s = (let s1 = strip_pad (filter (\<lambda>c. \<not> is_space c) s) in
     if length s1 mod 4 = 1 \<or> (\<exists>c \<in> set s1. b64_val c = None) then None
     else Some (unsextets (map (the \<circ> b64_val) s1)))"

section \<open>The URL alphabet\<close>

definition to_url_char :: "char \<Rightarrow> char" where
  "to_url_char c = (if c = CHR ''+'' then CHR ''-'' else if c = CHR ''/'' then CHR ''_'' else c)"

definition of_url_char :: "char \<Rightarrow> char" where
  "of_url_char c = (if c = CHR ''-'' then CHR ''+'' else if c = CHR ''_'' then CHR ''/'' else c)"

definition toBase64url :: "bytes \<Rightarrow> string" where
  "toBase64url bs = filter (\<lambda>c. c \<noteq> CHR ''='') (map to_url_char (btoa bs))"

definition fromBase64url :: "string \<Rightarrow> bytes option" where
  "fromBase64url s =
     (let pad = length s mod 4;
          s1 = (if pad \<noteq> 0 then s @ replicate (4 - pad) (CHR ''='') else s) in
      atob (map of_url_char s1))"

text \<open>The copy in \<open>transport.ts\<close> strips trailing padding only.\<close>

definition uint8ToBase64Url :: "bytes \<Rightarrow> string" where
  "uint8ToBase64Url bs =
     rev (dropWhile (\<lambda>c. c = CHR ''='') (rev (map to_url_char (btoa bs))))"

section \<open>Groups of six bits\<close>

lemma byte_parts:
  "unat (a :: byte) div 4 < 64" "unat a mod 4 < 4" "unat a div 16 < 16" "unat a mod 16 < 16"
  "unat a div 64 < 4" "unat a mod 64 < 64"
  using unat_byte_less [of a] by (simp_all add: div_less_iff_less_mult)

lemma sextets_less: "n \<in> set (sextets bs) \<Longrightarrow> n < 64"
proof -
  have mid: "unat a mod 4 * 16 + unat b div 16 < 64" "unat b mod 16 * 4 + unat c div 64 < 64"
    "unat a mod 4 * 16 < 64" "unat b mod 16 * 4 < 64" for a b c :: byte
    using byte_parts(2) [of a] byte_parts(3,4) [of b] byte_parts(5) [of c] by linarith+
  show "n \<in> set (sextets bs) \<Longrightarrow> n < 64"
    by (induction bs rule: sextets.induct) (auto simp: mid byte_parts)
qed

lemma of_nat_byte: "n = unat b \<Longrightarrow> of_nat n = (b :: byte)"
  by simp

lemma join_digits: "x < m \<Longrightarrow> (q * m + x) div m = q \<and> (q * m + x) mod m = (x :: nat)"
  by simp

lemma unsextets_sextets: "unsextets (sextets bs) = bs"
proof -
  have ab: "(unat a mod 4 * 16 + unat b div 16) div 16 = unat a mod 4"
    "(unat a mod 4 * 16 + unat b div 16) mod 16 = unat b div 16" for a b :: byte
    using join_digits [OF byte_parts(3)] by blast+
  have bc: "(unat b mod 16 * 4 + unat c div 64) div 4 = unat b mod 16"
    "(unat b mod 16 * 4 + unat c div 64) mod 4 = unat c div 64" for b c :: byte
    using join_digits [OF byte_parts(5)] by blast+
  have a0: "unat a mod 4 * 16 div 16 = unat a mod 4" "unat b mod 16 * 4 div 4 = unat b mod 16"
    for a b :: byte by simp_all
  have whole: "of_nat (unat a div 4 * 4 + unat a mod 4) = a"
    "of_nat (unat a div 16 * 16 + unat a mod 16) = a"
    "of_nat (unat a div 64 * 64 + unat a mod 64) = a" for a :: byte
    by (simp_all only: div_mult_mod_eq) simp_all
  show ?thesis
    by (induction bs rule: sextets.induct) (simp_all only: sextets.simps unsextets.simps ab bc a0 whole)
qed

lemma length_sextets: "length (sextets bs) = (4 * length bs + 2) div 3"
  by (induction bs rule: sextets.induct) auto

lemma char_of_eq: "v < 256 \<Longrightarrow> char_of (v :: nat) = c \<longleftrightarrow> v = of_char c"
  by auto

definition b64_code :: "nat \<Rightarrow> nat" where
  "b64_code n = (if n < 26 then 65 + n else if n < 52 then 71 + n
     else if n < 62 then n - 4 else if n = 62 then 43 else 47)"

lemma b64_char_code: "b64_char n = char_of (b64_code n)"
  by (simp add: b64_char_def b64_code_def)

lemma b64_code_less: "n < 64 \<Longrightarrow> b64_code n < 256"
  by (auto simp: b64_code_def)

lemma of_b64_char: "n < 64 \<Longrightarrow> of_char (b64_char n) = b64_code n"
  using b64_code_less [of n] by (simp add: b64_char_code)

lemma b64_val_char: "n < 64 \<Longrightarrow> b64_val (b64_char n) = Some n"
  by (simp add: b64_val_def Let_def of_b64_char) (auto simp: b64_code_def)

lemma b64_char_eq: "n < 64 \<Longrightarrow> b64_char n = c \<longleftrightarrow> b64_code n = of_char c"
  by (simp add: b64_char_code char_of_eq b64_code_less)

lemma b64_char_plain:
  "n < 64 \<Longrightarrow> b64_char n \<noteq> CHR ''='' \<and> b64_char n \<noteq> CHR ''-'' \<and> b64_char n \<noteq> CHR ''_''
     \<and> \<not> is_space (b64_char n)"
  by (simp add: b64_char_eq is_space_def of_b64_char) (auto simp: b64_code_def)

lemma url_char_roundtrip: "n < 64 \<Longrightarrow> of_url_char (to_url_char (b64_char n)) = b64_char n"
  using b64_char_plain [of n] by (simp add: of_url_char_def to_url_char_def)

lemma to_url_char_eq: "to_url_char c = CHR ''='' \<longleftrightarrow> c = CHR ''=''"
  by (simp add: to_url_char_def)

section \<open>Round trip\<close>

lemma toBase64url_sextets: "toBase64url bs = map (to_url_char \<circ> b64_char) (sextets bs)"
proof -
  have "filter (\<lambda>c. c \<noteq> CHR ''='') (map (to_url_char \<circ> b64_char) (sextets bs))
      = map (to_url_char \<circ> b64_char) (sextets bs)"
    using sextets_less b64_char_plain by (intro filter_True) (auto simp: to_url_char_eq)
  moreover have "filter (\<lambda>c. c \<noteq> CHR ''='') (map to_url_char (replicate n (CHR ''=''))) = []" for n
    by (simp add: to_url_char_def)
  ultimately show ?thesis by (simp add: toBase64url_def btoa_def)
qed

lemma length_sextets_mod: "length (sextets bs) mod 4 = (case length bs mod 3 of 0 \<Rightarrow> 0 | Suc n \<Rightarrow> n + 2)"
proof (induction bs rule: sextets.induct)
  case (4 a b c bs)
  have s: "length (sextets (a # b # c # bs)) = length (sextets bs) + 4" by simp
  have l: "length (a # b # c # bs) = length bs + 3" by simp
  show ?case using 4 unfolding s l by simp
qed simp_all

lemma strip_pad_pad:
  assumes "length s mod 4 \<noteq> 1" "CHR ''='' \<notin> set s"
  shows "strip_pad (if length s mod 4 \<noteq> 0 then s @ replicate (4 - length s mod 4) (CHR ''='') else s) = s"
proof -
  have "length s mod 4 < 4" by simp
  with assms(1) consider "length s mod 4 = 0" | "length s mod 4 = 2" | "length s mod 4 = 3" by linarith
  then show ?thesis
  proof cases
    case 1
    have "drop (length s - 2) s \<noteq> ''==''" "s \<noteq> [] \<Longrightarrow> last s \<noteq> CHR ''=''"
      using assms(2) in_set_dropD [of "CHR ''=''" "length s - 2" s] by (force, metis last_in_set)
    then show ?thesis using 1 by (auto simp: strip_pad_def)
  next
    case 2
    then have "(length s + 2) mod 4 = 0" by presburger
    then show ?thesis using 2 by (simp add: strip_pad_def numeral_2_eq_2)
  next
    case 3
    have "(length s + 1) mod 4 = 0" using 3 by presburger
    moreover have "drop (length s - 1) (s @ ''='') \<noteq> ''==''"
    proof
      assume eq: "drop (length s - 1) (s @ ''='') = ''==''"
      have "s \<noteq> []" using 3 by auto
      then have "drop (length s - 1) (s @ ''='') = [last s, CHR ''='']"
        by (cases s rule: rev_cases) simp_all
      with eq have "last s = CHR ''=''" by simp
      with \<open>s \<noteq> []\<close> assms(2) show False by (metis last_in_set)
    qed
    ultimately show ?thesis using 3 by (simp add: strip_pad_def)
  qed
qed

lemma decode_encode: "fromBase64url (toBase64url bs) = Some bs"
proof -
  let ?b = "map b64_char (sextets bs)"
  let ?pad = "\<lambda>s. if length s mod 4 \<noteq> 0 then s @ replicate (4 - length s mod 4) (CHR ''='') else s"
  have "map of_url_char (toBase64url bs) = ?b"
    using sextets_less url_char_roundtrip by (auto simp: toBase64url_sextets)
  moreover have "length (toBase64url bs) = length ?b" by (simp add: toBase64url_sextets)
  ultimately have "map of_url_char (?pad (toBase64url bs)) = ?pad ?b"
    by (simp add: of_url_char_def)
  moreover have "filter (\<lambda>c. \<not> is_space c) (?pad ?b) = ?pad ?b"
    using sextets_less b64_char_plain by (intro filter_True) (auto simp: is_space_def split: if_splits)
  moreover have "length ?b mod 4 \<noteq> 1"
    by (simp add: length_sextets_mod split: nat.split)
  moreover have "CHR ''='' \<notin> set ?b" using sextets_less b64_char_plain by fastforce
  moreover have "map (the \<circ> b64_val) ?b = sextets bs" "\<forall>c \<in> set ?b. b64_val c \<noteq> None"
    using sextets_less b64_val_char by (auto intro!: map_idI)
  ultimately show ?thesis using strip_pad_pad [of ?b]
    by (simp add: fromBase64url_def atob_def Let_def unsextets_sextets)
qed

section \<open>Properties\<close>

text \<open>Note: Base64url loses nothing: decoding what toBase64url made of any bytes gives the bytes back.\<close>

theorem base64url_roundtrip: "fromBase64url (toBase64url bs) = Some bs"
  by (rule decode_encode)

text \<open>Note: The two encoders agree: the copy in transport.ts, which strips only trailing padding, computes
  the same text as toBase64url for every input, so keys encoded by either compare equal
  exactly when their bytes do.\<close>

theorem encoders_agree:
  "uint8ToBase64Url bs = toBase64url bs \<and> (toBase64url as = toBase64url bs) = (as = bs)"
proof -
  have eq: "to_url_char (CHR ''='') = CHR ''=''" by (simp add: to_url_char_def)
  have "dropWhile (\<lambda>c. c = CHR ''='') (replicate n (CHR ''='') @ xs) = xs"
    if "CHR ''='' \<notin> set xs" for n xs
    using that by (induction n) (cases xs, auto)
  moreover have "CHR ''='' \<notin> set (map (to_url_char \<circ> b64_char) (sextets bs))"
    unfolding toBase64url_sextets [symmetric] by (simp add: toBase64url_def)
  ultimately have "uint8ToBase64Url bs = toBase64url bs"
    by (simp add: uint8ToBase64Url_def btoa_def eq toBase64url_sextets rev_map [symmetric])
  moreover have "toBase64url as = toBase64url bs \<Longrightarrow> as = bs"
    using decode_encode by (metis option.inject)
  ultimately show ?thesis by auto
qed

end
