(* ===== verification/Registry.thy ===== *)
theory Registry
  imports Prelude
begin

text \<open>
  The table of sighted peers of \<open>peer-registry.ts\<close> and the timer of \<open>mac-rotation.ts\<close>. The
  registry is an insertion-ordered map from the hexadecimal peer id; the clock is an argument.
  The timer is the state machine of its two handles.
\<close>

section \<open>Peer registry\<close>

record peer =
  p_id :: bytes
  idHex :: string
  mac :: string
  lastSeen :: int
  p_rssi :: "int option"

record peer_registry =
  byId :: "(string, peer) jsmap"
  ttlMs :: int

definition new_registry :: "int option \<Rightarrow> peer_registry" where
  "new_registry ttl = \<lparr>byId = [], ttlMs = (case ttl of None \<Rightarrow> 120000 | Some t \<Rightarrow> t)\<rparr>"

definition upsert :: "int \<Rightarrow> bytes \<Rightarrow> string \<Rightarrow> int option \<Rightarrow> peer_registry \<Rightarrow> peer_registry" where
  "upsert now i m rssi r =
     (let h = to_hex i in
      case jm_get (byId r) h of
        Some existing \<Rightarrow>
          r\<lparr>byId := jm_set h (existing\<lparr>lastSeen := now, mac := m,
              p_rssi := (case rssi of None \<Rightarrow> p_rssi existing | Some x \<Rightarrow> Some x)\<rparr>) (byId r)\<rparr>
      | None \<Rightarrow>
          r\<lparr>byId := jm_set h \<lparr>p_id = i, idHex = h, mac = m, lastSeen = now, p_rssi = rssi\<rparr> (byId r)\<rparr>)"

definition reg_remove :: "string \<Rightarrow> peer_registry \<Rightarrow> peer_registry" where
  "reg_remove h r = r\<lparr>byId := jm_delete h (byId r)\<rparr>"

text \<open>The loop over the entries, deleting the stale ones.\<close>

fun gc_walk :: "int \<Rightarrow> int \<Rightarrow> (string \<times> peer) list \<Rightarrow> (string, peer) jsmap \<Rightarrow> (string, peer) jsmap" where
  "gc_walk now ttl [] m = m"
| "gc_walk now ttl ((k, p) # es) m =
     gc_walk now ttl es (if now - lastSeen p > ttl then jm_delete k m else m)"

definition gc :: "int \<Rightarrow> peer_registry \<Rightarrow> peer_registry" where
  "gc now r = r\<lparr>byId := gc_walk now (ttlMs r) (byId r) (byId r)\<rparr>"

definition reg_list :: "peer_registry \<Rightarrow> peer list" where
  "reg_list r = map snd (byId r)"

definition reg_clear :: "peer_registry \<Rightarrow> peer_registry" where
  "reg_clear r = r\<lparr>byId := []\<rparr>"

text \<open>One entry per id, filed under its own id.\<close>

definition reg_inv :: "peer_registry \<Rightarrow> bool" where
  "reg_inv r \<longleftrightarrow> jm_wf (byId r) \<and> (\<forall>(k, p) \<in> set (byId r). k = idHex p \<and> idHex p = to_hex (p_id p))"

lemma map_of_mem: "jm_wf m \<Longrightarrow> jm_get m k = Some v \<longleftrightarrow> (k, v) \<in> set m"
  by (simp add: jm_wf_def)

lemma reg_inv_upsert:
  assumes "reg_inv r"
  shows "reg_inv (upsert now i m rssi r)"
proof (cases "jm_get (byId r) (to_hex i)")
  case None
  then show ?thesis using assms set_jm_set [of "to_hex i"]
    by (fastforce simp: reg_inv_def upsert_def Let_def)
next
  case (Some p)
  then have "(to_hex i, p) \<in> set (byId r)" using map_of_SomeD by fastforce
  then have p: "idHex p = to_hex i" "to_hex (p_id p) = to_hex i" using assms by (auto simp: reg_inv_def)
  let ?p = "p\<lparr>lastSeen := now, mac := m,
              p_rssi := (case rssi of None \<Rightarrow> p_rssi p | Some x \<Rightarrow> Some x)\<rparr>"
  have "\<forall>(k, q) \<in> set (jm_set (to_hex i) ?p (byId r)). k = idHex q \<and> idHex q = to_hex (p_id q)"
    using set_jm_set [of "to_hex i" ?p "byId r"] assms p by (fastforce simp: reg_inv_def)
  then show ?thesis using assms Some by (simp add: reg_inv_def upsert_def Let_def)
qed

lemma gc_walk_filter:
  "jm_wf (es @ rest) \<Longrightarrow> gc_walk now ttl es (es @ rest) =
     filter (\<lambda>(k, p). \<not> (now - lastSeen p > ttl)) es @ rest"
proof (induction es arbitrary: rest)
  case (Cons e es)
  obtain k p where e: "e = (k, p)" by fastforce
  have k: "k \<notin> fst ` set (es @ rest)" and wf: "jm_wf (es @ rest)"
    using Cons.prems by (auto simp: jm_wf_def e)
  have del: "jm_delete k ((k, p) # es @ rest) = es @ rest" using k by simp
  have keep: "gc_walk now ttl es' ((k, p) # m) = (k, p) # gc_walk now ttl es' m"
    if "k \<notin> fst ` set es'" for es' m
    using that
  proof (induction es' arbitrary: m)
    case (Cons e' es')
    then show ?case by (cases e') auto
  qed simp
  show ?case using Cons.IH [OF wf] del k keep [of es "es @ rest"] by (auto simp: e)
qed simp

lemma gc_filter:
  "reg_inv r \<Longrightarrow> byId (gc now r) = filter (\<lambda>(k, p). now - lastSeen p \<le> ttlMs r) (byId r)"
  using gc_walk_filter [of "byId r" "[]" now "ttlMs r"] by (simp add: gc_def reg_inv_def not_less)

section \<open>MAC rotation timer\<close>

record mac_timer =
  mt_interval :: bool
  mt_jitter :: bool
  mt_paused :: bool
  mt_initialJitter :: bool
  mt_rotations :: nat

definition new_mac_timer :: "bool option \<Rightarrow> mac_timer" where
  "new_mac_timer j = \<lparr>mt_interval = False, mt_jitter = False, mt_paused = False,
     mt_initialJitter = (case j of None \<Rightarrow> True | Some b \<Rightarrow> b), mt_rotations = 0\<rparr>"

text \<open>\<open>start\<close> throws when a handle is set: \<open>None\<close>.\<close>

definition mt_start :: "mac_timer \<Rightarrow> mac_timer option" where
  "mt_start t = (if mt_interval t \<or> mt_jitter t then None
     else if mt_initialJitter t then Some (t\<lparr>mt_jitter := True\<rparr>)
     else Some (t\<lparr>mt_interval := True\<rparr>))"

definition mt_rotate :: "mac_timer \<Rightarrow> mac_timer" where
  "mt_rotate t = (if mt_paused t then t else t\<lparr>mt_rotations := Suc (mt_rotations t)\<rparr>)"

text \<open>The two callbacks; the runtime fires one only while its handle is set.\<close>

definition mt_jitter_fires :: "mac_timer \<Rightarrow> mac_timer" where
  "mt_jitter_fires t = (mt_rotate (t\<lparr>mt_jitter := False\<rparr>))\<lparr>mt_interval := True\<rparr>"

definition mt_tick :: "mac_timer \<Rightarrow> mac_timer" where
  "mt_tick t = mt_rotate t"

definition mt_stop :: "mac_timer \<Rightarrow> mac_timer" where
  "mt_stop t = t\<lparr>mt_jitter := False, mt_interval := False\<rparr>"

definition mt_visibility :: "bool \<Rightarrow> mac_timer \<Rightarrow> mac_timer" where
  "mt_visibility visible t = t\<lparr>mt_paused := \<not> visible\<rparr>"

inductive mt_step :: "mac_timer \<Rightarrow> mac_timer \<Rightarrow> bool" where
  "mt_start t = Some t' \<Longrightarrow> mt_step t t'"
| "mt_jitter t \<Longrightarrow> mt_step t (mt_jitter_fires t)"
| "mt_interval t \<Longrightarrow> mt_step t (mt_tick t)"
| "mt_step t (mt_stop t)"
| "mt_step t (mt_visibility v t)"

inductive_cases mt_stepE: "mt_step t t'"

section \<open>Properties\<close>

text \<open>Note: The registry keeps one entry per peer: whatever is upserted, an id is present once, filed under
  the hexadecimal of its own bytes, with the address and time of its last sighting; the others
  are untouched.\<close>

theorem upsert_latest:
  assumes "reg_inv r"
  shows "reg_inv (upsert now i m rssi r)
    \<and> (\<exists>p. jm_get (byId (upsert now i m rssi r)) (to_hex i) = Some p \<and> p_id p = i
         \<and> mac p = m \<and> lastSeen p = now)
    \<and> (\<forall>j. j \<noteq> i \<longrightarrow>
         jm_get (byId (upsert now i m rssi r)) (to_hex j) = jm_get (byId r) (to_hex j))"
proof -
  have "\<exists>p. jm_get (byId (upsert now i m rssi r)) (to_hex i) = Some p \<and> p_id p = i
         \<and> mac p = m \<and> lastSeen p = now"
  proof (cases "jm_get (byId r) (to_hex i)")
    case None
    then show ?thesis by (simp add: upsert_def Let_def jm_get_set)
  next
    case (Some p)
    then have "(to_hex i, p) \<in> set (byId r)" using map_of_SomeD by fastforce
    then have "to_hex (p_id p) = to_hex i" using assms by (auto simp: reg_inv_def)
    then have "p_id p = i" by (rule to_hex_inj)
    then show ?thesis using Some by (simp add: upsert_def Let_def jm_get_set)
  qed
  moreover have "jm_get (byId (upsert now i m rssi r)) (to_hex j) = jm_get (byId r) (to_hex j)"
    if "j \<noteq> i" for j
    using that to_hex_inj [of i j] by (auto simp: upsert_def Let_def jm_get_set split: option.split)
  ultimately show ?thesis using reg_inv_upsert [OF assms] by blast
qed

theorem upsert_latest_witness:
  "reg_inv (upsert 5 [1, 2] ''aa'' None (upsert 3 [1, 2] ''bb'' (Some 7) (new_registry None)))"
proof -
  have "reg_inv (new_registry None)" by (simp add: reg_inv_def new_registry_def)
  from upsert_latest [OF conjunct1 [OF upsert_latest [OF this]]] show ?thesis by blast
qed

text \<open>Note: At most one timer is armed, and a hidden page does not rotate: over any events, the jitter timer
  and the interval are never set together, nothing is counted while paused, and a stopped
  timer stays silent until it is started again.\<close>

theorem rotation_timer_safe:
  assumes "mt_step\<^sup>*\<^sup>* (new_mac_timer j) t" and "mt_step t t'"
  shows "\<not> (mt_interval t \<and> mt_jitter t)
    \<and> (mt_paused t \<longrightarrow> mt_rotations t' = mt_rotations t)
    \<and> (\<not> mt_interval t \<and> \<not> mt_jitter t \<longrightarrow> mt_rotations t' = mt_rotations t)"
proof -
  have "\<not> (mt_interval t \<and> mt_jitter t)"
    using assms(1)
  proof (induction rule: rtranclp_induct)
    case base
    then show ?case by (simp add: new_mac_timer_def)
  next
    case (step t t')
    from step(2,3) show ?case
      by (elim mt_stepE) (auto simp: mt_start_def mt_jitter_fires_def mt_tick_def mt_rotate_def
          mt_stop_def mt_visibility_def split: if_splits)
  qed
  moreover from assms(2) have "mt_paused t \<or> \<not> mt_interval t \<and> \<not> mt_jitter t \<longrightarrow>
      mt_rotations t' = mt_rotations t"
    by (elim mt_stepE) (auto simp: mt_start_def mt_jitter_fires_def mt_tick_def mt_rotate_def
          mt_stop_def mt_visibility_def split: if_splits)
  ultimately show ?thesis by blast
qed

theorem rotation_timer_safe_witness:
  "mt_rotations (mt_visibility False (new_mac_timer None)) = 0"
  using rotation_timer_safe [of None "new_mac_timer None" "mt_visibility False (new_mac_timer None)"]
    mt_step.intros(5) [of "new_mac_timer None" False]
  by (simp add: new_mac_timer_def)

end
