(* ===== verification/Tofu.thy ===== *)
theory Tofu
  imports Prelude "HOL-Library.Multiset"
begin

text \<open>
  The trust-on-first-use registry of \<open>packages/mesh-core/src/transport.ts\<close> (\<open>tofuLoad\<close>,
  \<open>tofuEvict\<close>, \<open>tofuSave\<close>, \<open>tofuCheck\<close>). The store is an object, that is an
  insertion-ordered map from the peer id; it lives in \<open>localStorage\<close> when there is one, in a
  module variable otherwise. A stored text that \<open>JSON.parse\<close> rejects is \<open>Corrupt\<close>.
\<close>

record tofu_record =
  pubkeyB64 :: string
  tr_firstSeen :: int
  tr_lastSeen :: int

type_synonym tofu_store = "(string, tofu_record) jsmap"

datatype ls_item = Absent | Corrupt | Stored tofu_store

record tofu_env =
  has_ls :: bool
  ls_content :: ls_item
  ls_refuses :: bool
  tofuMemStore :: "tofu_store option"

definition TOFU_MAX_ENTRIES :: nat where "TOFU_MAX_ENTRIES = 1000"

definition tofuLoad :: "tofu_env \<Rightarrow> tofu_store" where
  "tofuLoad env =
     (if has_ls env then (case ls_content env of Absent \<Rightarrow> [] | Corrupt \<Rightarrow> [] | Stored s \<Rightarrow> s)
      else (case tofuMemStore env of None \<Rightarrow> [] | Some s \<Rightarrow> s))"

definition tofuEvict :: "tofu_store \<Rightarrow> tofu_store" where
  "tofuEvict store =
     (if length store \<le> TOFU_MAX_ENTRIES then store
      else let entries = sort_key (\<lambda>e. tr_lastSeen (snd e)) store in
        drop (length entries - TOFU_MAX_ENTRIES) entries)"

text \<open>\<open>ls_refuses\<close>: \<open>setItem\<close> throws (quota, private mode), and the error is swallowed.\<close>

definition tofuSave :: "tofu_store \<Rightarrow> tofu_env \<Rightarrow> tofu_env" where
  "tofuSave store env =
     (let evicted = tofuEvict store in
      if has_ls env then (if ls_refuses env then env else env\<lparr>ls_content := Stored evicted\<rparr>)
      else env\<lparr>tofuMemStore := Some evicted\<rparr>)"

definition resetTofuStore :: "tofu_env \<Rightarrow> tofu_env" where
  "resetTofuStore env = env\<lparr>tofuMemStore := None\<rparr>"

definition getTofuStoreSize :: "tofu_env \<Rightarrow> nat" where
  "getTofuStoreSize env = length (tofuLoad env)"

record tofu_verdict =
  trusted :: bool
  keyChanged :: bool

definition tofuCheck :: "int \<Rightarrow> string \<Rightarrow> string \<Rightarrow> tofu_env \<Rightarrow> tofu_env \<times> tofu_verdict" where
  "tofuCheck now peer key env =
     (let store = tofuLoad env in
      case jm_get store peer of
        None \<Rightarrow>
          (tofuSave (jm_set peer \<lparr>pubkeyB64 = key, tr_firstSeen = now, tr_lastSeen = now\<rparr> store) env,
           \<lparr>trusted = True, keyChanged = False\<rparr>)
      | Some existing \<Rightarrow>
          if pubkeyB64 existing = key
          then (tofuSave (jm_set peer (existing\<lparr>tr_lastSeen := now\<rparr>) store) env,
                \<lparr>trusted = True, keyChanged = False\<rparr>)
          else (env, \<lparr>trusted = False, keyChanged = True\<rparr>))"

section \<open>The store after a save\<close>

text \<open>The environments in which a save is kept.\<close>

definition tofu_ok :: "tofu_env \<Rightarrow> bool" where
  "tofu_ok env \<longleftrightarrow> jm_wf (tofuLoad env) \<and> length (tofuLoad env) \<le> TOFU_MAX_ENTRIES
     \<and> (has_ls env \<longrightarrow> \<not> ls_refuses env)"

lemma tofuLoad_save:
  "has_ls env \<longrightarrow> \<not> ls_refuses env \<Longrightarrow> tofuLoad (tofuSave store env) = tofuEvict store"
  by (simp add: tofuLoad_def tofuSave_def Let_def)

lemma tofuEvict_mset: "set (tofuEvict store) \<subseteq> set store"
  by (auto simp: tofuEvict_def Let_def dest: in_set_dropD)

lemma tofuEvict_length: "length (tofuEvict store) \<le> TOFU_MAX_ENTRIES"
  by (simp add: tofuEvict_def Let_def)

lemma tofuEvict_wf: "jm_wf store \<Longrightarrow> jm_wf (tofuEvict store)"
proof -
  assume "jm_wf store"
  then have d: "distinct (map fst store)" by (simp add: jm_wf_def)
  have "mset (map fst (sort_key (\<lambda>e. tr_lastSeen (snd e)) store)) = mset (map fst store)" by simp
  then have "distinct (map fst (sort_key (\<lambda>e. tr_lastSeen (snd e)) store))"
    using d mset_eq_imp_distinct_iff by blast
  then show ?thesis using d by (simp add: jm_wf_def tofuEvict_def Let_def drop_map [symmetric] del: mset_map)
qed

lemma tofuEvict_oldest:
  assumes "x \<in> set store" "x \<notin> set (tofuEvict store)" "y \<in> set (tofuEvict store)"
  shows "tr_lastSeen (snd x) \<le> tr_lastSeen (snd y)"
proof -
  let ?f = "\<lambda>e. tr_lastSeen (snd e)" and ?n = "length store - TOFU_MAX_ENTRIES"
  let ?s = "sort_key ?f store"
  have big: "\<not> length store \<le> TOFU_MAX_ENTRIES" using assms(1,2) by (auto simp: tofuEvict_def)
  have "x \<in> set (take ?n ?s)" "y \<in> set (drop ?n ?s)"
    using assms big append_take_drop_id [of ?n ?s] set_append [of "take ?n ?s" "drop ?n ?s"]
    by (auto simp: tofuEvict_def Let_def)
  moreover have "sorted (map ?f (take ?n ?s @ drop ?n ?s))" by simp
  ultimately show ?thesis by (simp only: map_append sorted_append set_map) blast
qed

lemma tofu_touched_kept:
  assumes ok: "tofu_ok env" and r: "\<forall>x \<in> set (tofuLoad env). tr_lastSeen (snd x) \<le> now"
    and n: "tr_lastSeen rec = now"
  shows "jm_get (tofuEvict (jm_set peer rec (tofuLoad env))) peer = Some rec"
proof -
  let ?s = "jm_set peer rec (tofuLoad env)"
  let ?f = "\<lambda>e. tr_lastSeen (snd e)"
  have wf: "jm_wf ?s" using ok by (simp add: tofu_ok_def)
  show ?thesis
  proof (cases "length ?s \<le> TOFU_MAX_ENTRIES")
    case True
    then show ?thesis by (simp add: tofuEvict_def jm_get_set)
  next
    case False
    then have len: "length ?s = Suc TOFU_MAX_ENTRIES" and fresh: "\<not> jm_has (tofuLoad env) peer"
      using ok by (auto simp: tofu_ok_def length_jm_set split: if_splits)
    have app: "?s = tofuLoad env @ [(peer, rec)]" using fresh by (rule jm_set_fresh)
    have last: "sort_key ?f ?s = sort_key ?f (tofuLoad env) @ [(peer, rec)]"
      unfolding app
    proof (rule properties_for_sort_key)
      have st: "filter (\<lambda>x. v = ?f x) (sort_key ?f l) = filter (\<lambda>x. v = ?f x) l" for v l
        using sort_key_stable [of ?f v l] by (simp add: eq_commute)
      show "filter (\<lambda>x. ?f k = ?f x) (sort_key ?f (tofuLoad env) @ [(peer, rec)])
          = filter (\<lambda>x. ?f k = ?f x) (tofuLoad env @ [(peer, rec)])" for k
        by (simp only: filter_append st)
    qed (use r n in \<open>auto simp: sorted_append\<close>)
    have "(peer, rec) \<in> set (tofuEvict ?s)"
      using False len by (simp add: tofuEvict_def Let_def last drop_append TOFU_MAX_ENTRIES_def)
    then show ?thesis using tofuEvict_wf [OF wf] by (simp add: jm_wf_def)
  qed
qed

lemma tofuCheck_trusted:
  assumes "tofuCheck now peer key env = (env', v)" "trusted v"
  obtains rec where "pubkeyB64 rec = key" "tr_lastSeen rec = now"
    "env' = tofuSave (jm_set peer rec (tofuLoad env)) env"
proof (cases "jm_get (tofuLoad env) peer")
  case None
  with assms(1) show thesis
    by (intro that [of "\<lparr>pubkeyB64 = key, tr_firstSeen = now, tr_lastSeen = now\<rparr>"])
      (simp_all add: tofuCheck_def Let_def)
next
  case (Some existing)
  then have "pubkeyB64 existing = key" using assms
    by (auto simp: tofuCheck_def Let_def split: if_splits)
  with Some assms(1) show thesis
    by (intro that [of "existing\<lparr>tr_lastSeen := now\<rparr>"]) (simp_all add: tofuCheck_def Let_def)
qed

lemma tofuCheck_untrusted:
  "tofuCheck now peer key env = (env', v) \<Longrightarrow> \<not> trusted v \<Longrightarrow> env' = env"
  by (auto simp: tofuCheck_def Let_def split: option.splits if_splits)

section \<open>Properties\<close>

text \<open>Checks of any peers with any keys, one after another: the time, the peer and the key offered.\<close>

fun run_checks :: "(int \<times> string \<times> string) list \<Rightarrow> tofu_env \<Rightarrow> tofu_env" where
  "run_checks [] env = env"
| "run_checks ((t, q, k) # cs) env = run_checks cs (fst (tofuCheck t q k env))"

definition other_peers :: "string \<Rightarrow> (int \<times> string \<times> string) list \<Rightarrow> string set" where
  "other_peers peer cs = (fst \<circ> snd) ` set cs - {peer}"

lemma other_peers_simps [simp]:
  "other_peers peer [] = {}"
  "other_peers peer ((t, q, k) # cs) = (if q = peer then other_peers peer cs else insert q (other_peers peer cs))"
  "finite (other_peers peer cs)"
  by (auto simp: other_peers_def)

text \<open>A peer pinned since \<open>since\<close>: every other record as recent belongs to a peer of the given set.\<close>

definition pinned :: "string \<Rightarrow> string \<Rightarrow> int \<Rightarrow> string set \<Rightarrow> tofu_env \<Rightarrow> bool" where
  "pinned peer key since recent env \<longleftrightarrow> tofu_ok env
     \<and> (\<exists>rec. jm_get (tofuLoad env) peer = Some rec \<and> pubkeyB64 rec = key \<and> since \<le> tr_lastSeen rec)
     \<and> (\<forall>x \<in> set (tofuLoad env). fst x \<noteq> peer \<longrightarrow> since \<le> tr_lastSeen (snd x) \<longrightarrow> fst x \<in> recent)"

lemma jm_get_mem: "jm_wf m \<Longrightarrow> jm_get m k = Some v \<longleftrightarrow> (k, v) \<in> set m"
  by (simp add: jm_wf_def)

lemma tofuEvict_short: "length store \<le> TOFU_MAX_ENTRIES \<Longrightarrow> tofuEvict store = store"
  by (simp add: tofuEvict_def)

lemma save_ok:
  assumes "tofu_ok env" and "jm_wf store"
  shows "tofu_ok (tofuSave store env)" "tofuLoad (tofuSave store env) = tofuEvict store"
proof -
  show l: "tofuLoad (tofuSave store env) = tofuEvict store" using assms(1) by (simp add: tofuLoad_save tofu_ok_def)
  have "has_ls (tofuSave store env) \<longrightarrow> \<not> ls_refuses (tofuSave store env)"
    using assms(1) by (simp add: tofuSave_def tofu_ok_def Let_def)
  then show "tofu_ok (tofuSave store env)"
    using tofuEvict_wf [OF assms(2)] tofuEvict_length by (simp add: tofu_ok_def l)
qed

text \<open>Dropping a pinned peer takes a full store of records as recent as its own.\<close>

lemma pinned_kept:
  assumes "jm_wf store" and "jm_get store peer = Some rec" and "since \<le> tr_lastSeen rec"
    and "\<forall>x \<in> set store. fst x \<noteq> peer \<longrightarrow> since \<le> tr_lastSeen (snd x) \<longrightarrow> fst x \<in> recent"
    and "finite recent" and "card recent < TOFU_MAX_ENTRIES"
  shows "jm_get (tofuEvict store) peer = Some rec"
proof (rule ccontr)
  assume lost: "jm_get (tofuEvict store) peer \<noteq> Some rec"
  have wf: "jm_wf (tofuEvict store)" by (rule tofuEvict_wf [OF assms(1)])
  have gone: "(peer, rec) \<notin> set (tofuEvict store)" using lost jm_get_mem [OF wf] by blast
  have mem: "(peer, rec) \<in> set store" using assms(2) jm_get_mem [OF assms(1)] by blast
  have "fst x \<in> recent" if x: "x \<in> set (tofuEvict store)" for x
  proof -
    have "since \<le> tr_lastSeen (snd x)" using tofuEvict_oldest [OF mem gone x] assms(3) by simp
    moreover have "x \<in> set store" using x tofuEvict_mset by blast
    moreover have "fst x \<noteq> peer"
    proof
      assume "fst x = peer"
      then have "jm_get store peer = Some (snd x)" using calculation(2) jm_get_mem [OF assms(1)] by (metis prod.collapse)
      then have "x = (peer, rec)" using assms(2) \<open>fst x = peer\<close> by (simp add: prod_eq_iff)
      then show False using gone x by simp
    qed
    ultimately show ?thesis using assms(4) by blast
  qed
  then have "fst ` set (tofuEvict store) \<subseteq> recent" by blast
  then have "card (fst ` set (tofuEvict store)) \<le> card recent" by (rule card_mono [OF assms(5)])
  moreover have "card (fst ` set (tofuEvict store)) = length (tofuEvict store)"
    using wf distinct_card [of "map fst (tofuEvict store)"] by (simp add: jm_wf_def)
  moreover have "\<not> length store \<le> TOFU_MAX_ENTRIES" using mem gone tofuEvict_short by metis
  then have "length (tofuEvict store) = TOFU_MAX_ENTRIES" by (simp add: tofuEvict_def Let_def)
  ultimately show False using assms(6) by simp
qed

lemma jm_set_mem:
  "jm_wf m \<Longrightarrow> x \<in> set (jm_set k v m) \<Longrightarrow> x = (k, v) \<or> fst x \<noteq> k \<and> x \<in> set m"
  using jm_get_mem [of "jm_set k v m" "fst x" "snd x"] jm_get_mem [of m "fst x" "snd x"]
  by (auto simp: jm_get_set split: if_splits)

lemma pinned_save:
  assumes "pinned peer key since recent env" and "since \<le> tr_lastSeen rec" and "q = peer \<Longrightarrow> pubkeyB64 rec = key"
    and "finite recent" and "card (if q = peer then recent else insert q recent) < TOFU_MAX_ENTRIES"
  shows "pinned peer key since (if q = peer then recent else insert q recent)
    (tofuSave (jm_set q rec (tofuLoad env)) env)"
proof -
  let ?s = "jm_set q rec (tofuLoad env)" and ?R = "if q = peer then recent else insert q recent"
  have ok: "tofu_ok env" and wf: "jm_wf (tofuLoad env)" and wfs: "jm_wf ?s"
    using assms(1) by (simp_all add: pinned_def tofu_ok_def)
  obtain r where r: "jm_get ?s peer = Some r" "pubkeyB64 r = key" "since \<le> tr_lastSeen r"
    using assms(1-3) by (cases "q = peer") (auto simp: pinned_def jm_get_set)
  have rc: "fst x \<in> ?R" if "x \<in> set ?s" "fst x \<noteq> peer" "since \<le> tr_lastSeen (snd x)" for x
    using that jm_set_mem [OF wf that(1)] assms(1) by (auto simp: pinned_def)
  have "jm_get (tofuEvict ?s) peer = Some r"
    by (rule pinned_kept [where since = since and recent = ?R])
      (use wfs r rc assms(4,5) in auto)
  moreover have "fst x \<in> ?R" if "x \<in> set (tofuEvict ?s)" "fst x \<noteq> peer" "since \<le> tr_lastSeen (snd x)" for x
    using rc that tofuEvict_mset by blast
  ultimately show ?thesis
    using save_ok [OF ok wfs] r(2,3) by (simp add: pinned_def)
qed

lemma pinned_mono: "pinned peer key since R env \<Longrightarrow> R \<subseteq> R' \<Longrightarrow> pinned peer key since R' env"
  by (auto simp: pinned_def)

lemma pinned_check:
  assumes "pinned peer key since recent env" and "since \<le> t" and "finite recent"
    and "card (if q = peer then recent else insert q recent) < TOFU_MAX_ENTRIES"
  shows "pinned peer key since (if q = peer then recent else insert q recent) (fst (tofuCheck t q k env))"
proof (cases "trusted (snd (tofuCheck t q k env))")
  case False
  then have "fst (tofuCheck t q k env) = env" using tofuCheck_untrusted prod.collapse by metis
  then show ?thesis using assms(1) by (auto intro: pinned_mono)
next
  case True
  obtain rec where r: "pubkeyB64 rec = k" "tr_lastSeen rec = t"
    "fst (tofuCheck t q k env) = tofuSave (jm_set q rec (tofuLoad env)) env"
    by (rule tofuCheck_trusted [OF prod.collapse [symmetric] True])
  have "k = key" if "q = peer"
    using True assms(1) that by (auto simp: pinned_def tofuCheck_def Let_def split: if_splits)
  then show ?thesis using pinned_save [OF assms(1) _ _ assms(3,4)] r assms(2) by simp
qed

lemma pinned_checks:
  assumes "pinned peer key since recent env" and "\<forall>(t, q, k) \<in> set cs. since \<le> t" and "finite recent"
    and "card (recent \<union> other_peers peer cs) < TOFU_MAX_ENTRIES"
  shows "pinned peer key since (recent \<union> other_peers peer cs) (run_checks cs env)"
  using assms
proof (induction cs arbitrary: recent env)
  case (Cons c cs)
  obtain t q k where c: "c = (t, q, k)" by (cases c)
  let ?R = "if q = peer then recent else insert q recent"
  have R: "finite ?R" "?R \<union> other_peers peer cs = recent \<union> other_peers peer (c # cs)"
    using Cons.prems(3) by (auto simp: c)
  have "card ?R \<le> card (?R \<union> other_peers peer cs)" by (rule card_mono) (use R(1) in auto)
  then have "card ?R < TOFU_MAX_ENTRIES" using Cons.prems(4) R(2) by simp
  then have "pinned peer key since ?R (fst (tofuCheck t q k env))"
    using pinned_check [OF Cons.prems(1) _ Cons.prems(3)] Cons.prems(2) c by auto
  from Cons.IH [OF this _ R(1)] show ?case using Cons.prems(2,4) R(2) c by auto
qed simp

text \<open>C25: Trust on first use. Once tofuCheck has accepted a key for a peer, then after any sequence of later
  checks, of this peer or others, with any keys, trusted or not, as long as fewer than 1000 other
  peers occur in it: the peer's key is still accepted, and every other key is flagged as a change without
  touching the store. So a stored key is replaced only after the registry's cap evicted it.
  Conditions: the store accepts writes and is within its cap, the records of other peers in it are
  older than the accepting check, and no later check is dated before that one.\<close>

theorem tofu_pins_first_key:
  assumes "tofu_ok env" and "\<forall>x \<in> set (tofuLoad env). fst x \<noteq> peer \<longrightarrow> tr_lastSeen (snd x) < now"
    and "tofuCheck now peer key env = (env', v)" and "trusted v"
    and "\<forall>(t, q, k) \<in> set cs. now \<le> t" and "card (other_peers peer cs) < 1000"
  shows "snd (tofuCheck now' peer key (run_checks cs env')) = \<lparr>trusted = True, keyChanged = False\<rparr>
    \<and> (\<forall>other. other \<noteq> key \<longrightarrow> tofuCheck now' peer other (run_checks cs env')
         = (run_checks cs env', \<lparr>trusted = False, keyChanged = True\<rparr>))"
proof -
  obtain rec where r: "pubkeyB64 rec = key" "tr_lastSeen rec = now"
    and e: "env' = tofuSave (jm_set peer rec (tofuLoad env)) env"
    by (rule tofuCheck_trusted [OF assms(3,4)])
  let ?s = "jm_set peer rec (tofuLoad env)"
  have wf: "jm_wf (tofuLoad env)" "jm_wf ?s" using assms(1) by (simp_all add: tofu_ok_def)
  have old: "tr_lastSeen (snd x) < now" if "x \<in> set ?s" "fst x \<noteq> peer" for x
    using jm_set_mem [OF wf(1) that(1)] that(2) assms(2) by auto
  have get: "jm_get ?s peer = Some rec" by (simp add: jm_get_set)
  have "jm_get (tofuEvict ?s) peer = Some rec"
  proof (rule pinned_kept [where since = now and recent = "{}"])
    show "\<forall>x \<in> set ?s. fst x \<noteq> peer \<longrightarrow> now \<le> tr_lastSeen (snd x) \<longrightarrow> fst x \<in> {}" using old by fastforce
  qed (use wf get r in \<open>simp_all add: TOFU_MAX_ENTRIES_def\<close>)
  then have "pinned peer key now {} env'"
    using save_ok [OF assms(1) wf(2)] r old tofuEvict_mset [of ?s] unfolding e pinned_def by fastforce
  from pinned_checks [OF this assms(5)] assms(6)
  have "pinned peer key now (other_peers peer cs) (run_checks cs env')" by (simp add: TOFU_MAX_ENTRIES_def)
  then show ?thesis by (auto simp: pinned_def tofuCheck_def Let_def)
qed

theorem tofu_pins_first_key_witness:
  "snd (tofuCheck 9 ''p'' ''k2'' (run_checks [(2, ''q'', ''a''), (3, ''p'', ''k2''), (4, ''r'', ''b''), (5, ''q'', ''c'')]
      (fst (tofuCheck 1 ''p'' ''k1'' \<lparr>has_ls = False, ls_content = Absent, ls_refuses = False, tofuMemStore = None\<rparr>))))
    = \<lparr>trusted = False, keyChanged = True\<rparr>"
proof -
  let ?env = "\<lparr>has_ls = False, ls_content = Absent, ls_refuses = False, tofuMemStore = None\<rparr>"
  let ?cs = "[(2, ''q'', ''a''), (3, ''p'', ''k2''), (4, ''r'', ''b''), (5, ''q'', ''c'')] :: (int \<times> string \<times> string) list"
  have pre: "tofu_ok ?env" "\<forall>x \<in> set (tofuLoad ?env). fst x \<noteq> ''p'' \<longrightarrow> tr_lastSeen (snd x) < 1"
    by (simp_all add: tofu_ok_def tofuLoad_def)
  have "trusted (snd (tofuCheck 1 ''p'' ''k1'' ?env))" by (simp add: tofuCheck_def tofuLoad_def)
  from tofu_pins_first_key [OF pre prod.collapse [symmetric] this, of ?cs 9] show ?thesis by (simp add: card_insert_if)
qed

text \<open>
  The other side of the cap: a record as old as the accepting check is gone once 1000 new peers have
  been checked at later times.
\<close>

definition crowded :: "string \<Rightarrow> int \<Rightarrow> string set \<Rightarrow> string set \<Rightarrow> tofu_env \<Rightarrow> bool" where
  "crowded peer now old newer env \<longleftrightarrow> tofu_ok env
     \<and> (\<forall>q r. jm_get (tofuLoad env) q = Some r \<longrightarrow> q \<in> old \<union> newer)
     \<and> (\<forall>rec. jm_get (tofuLoad env) peer = Some rec \<longrightarrow>
          tr_lastSeen rec \<le> now \<and> (\<forall>q \<in> newer. \<exists>r. jm_get (tofuLoad env) q = Some r \<and> now < tr_lastSeen r))"

lemma evict_spares:
  assumes "jm_wf store" and "jm_get (tofuEvict store) peer = Some rec" and "tr_lastSeen rec < tr_lastSeen r"
    and "jm_get store q = Some r"
  shows "jm_get (tofuEvict store) q = Some r"
proof -
  have wf: "jm_wf (tofuEvict store)" by (rule tofuEvict_wf [OF assms(1)])
  have "(peer, rec) \<in> set (tofuEvict store)" "(q, r) \<in> set store"
    using assms(2,4) jm_get_mem [OF wf] jm_get_mem [OF assms(1)] by blast+
  then have "(q, r) \<in> set (tofuEvict store)" using tofuEvict_oldest [of "(q, r)" store "(peer, rec)"] assms(3) by fastforce
  then show ?thesis using jm_get_mem [OF wf] by blast
qed

lemma evict_sub:
  assumes "jm_wf store" and "jm_get (tofuEvict store) q = Some r"
  shows "jm_get store q = Some r"
  using assms jm_get_mem [OF assms(1)] jm_get_mem [OF tofuEvict_wf [OF assms(1)]] tofuEvict_mset by blast

lemma crowded_check:
  assumes "crowded peer now old newer env" and "now < t" and "q \<notin> old \<union> newer" and "q \<noteq> peer"
  shows "crowded peer now old (insert q newer) (fst (tofuCheck t q k env))"
proof -
  let ?rec = "\<lparr>pubkeyB64 = k, tr_firstSeen = t, tr_lastSeen = t\<rparr>"
  let ?s = "jm_set q ?rec (tofuLoad env)"
  have ok: "tofu_ok env" and wf: "jm_wf ?s" using assms(1) by (simp_all add: crowded_def tofu_ok_def)
  have "jm_get (tofuLoad env) q = None"
    using assms(1,3) by (cases "jm_get (tofuLoad env) q") (auto simp: crowded_def)
  then have c: "fst (tofuCheck t q k env) = tofuSave ?s env" by (simp add: tofuCheck_def Let_def)
  have "\<exists>r. jm_get (tofuEvict ?s) x = Some r \<and> now < tr_lastSeen r"
    if p: "jm_get (tofuEvict ?s) peer = Some rec" and x: "x \<in> insert q newer" for rec x
  proof -
    have "jm_get (tofuLoad env) peer = Some rec" using evict_sub [OF wf p] assms(4) by (simp add: jm_get_set)
    then have old: "tr_lastSeen rec \<le> now" "\<forall>y \<in> newer. \<exists>r. jm_get (tofuLoad env) y = Some r \<and> now < tr_lastSeen r"
      using assms(1) by (auto simp: crowded_def)
    obtain r where r: "jm_get ?s x = Some r" "now < tr_lastSeen r"
    proof (cases "x = q")
      case True
      then show thesis using that [of ?rec] assms(2) by (simp add: jm_get_set)
    next
      case False
      then show thesis using that old(2) x by (auto simp: jm_get_set)
    qed
    have "jm_get (tofuEvict ?s) x = Some r" by (rule evict_spares [OF wf p _ r(1)]) (use r(2) old(1) in simp)
    then show ?thesis using r(2) by blast
  qed
  moreover have "x \<in> old \<union> insert q newer" if "jm_get (tofuEvict ?s) x = Some r" for x r
    using evict_sub [OF wf that] assms(1) by (auto simp: jm_get_set crowded_def split: if_splits)
  moreover have "tr_lastSeen rec \<le> now" if "jm_get (tofuEvict ?s) peer = Some rec" for rec
    using evict_sub [OF wf that] assms(1,4) by (auto simp: jm_get_set crowded_def)
  ultimately show ?thesis using save_ok [OF ok wf] by (simp add: crowded_def c)
qed

lemma crowded_checks:
  assumes "crowded peer now old newer env" and "\<forall>(t, q, k) \<in> set cs. now < t \<and> q \<noteq> peer \<and> q \<notin> old \<union> newer"
    and "distinct (map (fst \<circ> snd) cs)"
  shows "crowded peer now old ((fst \<circ> snd) ` set cs \<union> newer) (run_checks cs env)"
  using assms
proof (induction cs arbitrary: newer env)
  case (Cons c cs)
  obtain t q k where c: "c = (t, q, k)" by (cases c)
  have "crowded peer now old (insert q newer) (fst (tofuCheck t q k env))"
    using Cons.prems(1,2) c by (intro crowded_check) auto
  from Cons.IH [OF this] show ?case using Cons.prems(2,3) c by force
qed simp

text \<open>C38: The cap unpins. A peer whose record is no newer than some time is evicted once 1000 new peers have
  been checked after it, and from then on any key is accepted for it as if it had never been seen: the
  bound of tofu_pins_first_key is exact.\<close>

theorem tofu_eviction_unpins:
  assumes "tofu_ok env" and "jm_get (tofuLoad env) peer = Some rec" and "tr_lastSeen rec \<le> now"
    and "\<forall>(t, q, k) \<in> set cs. now < t \<and> jm_get (tofuLoad env) q = None" and "distinct (map (fst \<circ> snd) cs)"
    and "1000 \<le> length cs"
  shows "jm_get (tofuLoad (run_checks cs env)) peer = None
    \<and> (\<forall>other. snd (tofuCheck now' peer other (run_checks cs env)) = \<lparr>trusted = True, keyChanged = False\<rparr>)"
proof -
  let ?old = "{q. jm_get (tofuLoad env) q \<noteq> None}" and ?new = "(fst \<circ> snd) ` set cs"
  let ?s = "tofuLoad (run_checks cs env)"
  have "crowded peer now ?old {} env" using assms(1-3) by (auto simp: crowded_def)
  moreover have "\<forall>(t, q, k) \<in> set cs. now < t \<and> q \<noteq> peer \<and> q \<notin> ?old \<union> {}" using assms(2,4) by auto
  ultimately have c: "crowded peer now ?old ?new (run_checks cs env)"
    using crowded_checks [OF _ _ assms(5)] by fastforce
  have "jm_get ?s peer = None"
  proof (rule ccontr)
    assume "jm_get ?s peer \<noteq> None"
    then have get: "jm_get ?s q \<noteq> None" if "q \<in> insert peer ?new" for q
      using c that unfolding crowded_def by fastforce
    have "jm_wf ?s" using c by (simp add: crowded_def tofu_ok_def)
    then have "q \<in> fst ` set ?s" if "q \<in> insert peer ?new" for q
      using get [OF that] jm_get_mem [of ?s q] by (metis fst_conv image_eqI not_None_eq)
    then have "insert peer ?new \<subseteq> fst ` set ?s" by blast
    then have "card (insert peer ?new) \<le> card (fst ` set ?s)" by (rule card_mono [rotated]) simp
    also have "\<dots> \<le> length ?s" by (metis card_length length_map list.set_map)
    also have "\<dots> \<le> 1000" using c by (simp add: crowded_def tofu_ok_def TOFU_MAX_ENTRIES_def)
    finally have "card (insert peer ?new) \<le> 1000" .
    moreover have "peer \<notin> ?new" using assms(2,4) by fastforce
    moreover have "card ?new = length cs" using distinct_card [OF assms(5)] by (simp add: image_comp)
    ultimately show False using assms(6) by simp
  qed
  then show ?thesis by (simp add: tofuCheck_def Let_def)
qed

theorem tofu_eviction_unpins_witness:
  "snd (tofuCheck 3 ''p'' ''k2'' (run_checks (map (\<lambda>i. (2, replicate (Suc (Suc i)) CHR ''q'', ''a'')) [0..<1000])
      \<lparr>has_ls = False, ls_content = Absent, ls_refuses = False,
       tofuMemStore = Some [(''p'', \<lparr>pubkeyB64 = ''k1'', tr_firstSeen = 1, tr_lastSeen = 1\<rparr>)]\<rparr>))
    = \<lparr>trusted = True, keyChanged = False\<rparr>"
proof -
  let ?env = "\<lparr>has_ls = False, ls_content = Absent, ls_refuses = False,
       tofuMemStore = Some [(''p'', \<lparr>pubkeyB64 = ''k1'', tr_firstSeen = 1, tr_lastSeen = 1\<rparr>)]\<rparr>"
  let ?cs = "map (\<lambda>i. (2 :: int, replicate (Suc (Suc i)) CHR ''q'', ''a'')) [0..<1000]"
  have pre: "tofu_ok ?env" "jm_get (tofuLoad ?env) ''p'' = Some \<lparr>pubkeyB64 = ''k1'', tr_firstSeen = 1, tr_lastSeen = 1\<rparr>"
    "tr_lastSeen \<lparr>pubkeyB64 = ''k1'', tr_firstSeen = 1, tr_lastSeen = 1\<rparr> \<le> 1"
    by (simp_all add: tofu_ok_def tofuLoad_def jm_wf_def TOFU_MAX_ENTRIES_def)
  have "inj_on (\<lambda>i. replicate (Suc (Suc i)) CHR ''q'') {0..<1000}"
    by (rule inj_onI) (metis length_replicate nat.inject)
  then have d: "distinct (map (fst \<circ> snd) ?cs)" by (simp add: distinct_map o_def del: replicate.simps)
  have n: "\<forall>(t, q, k) \<in> set ?cs. 1 < t \<and> jm_get (tofuLoad ?env) q = None"
    by (auto simp: tofuLoad_def)
  from tofu_eviction_unpins [OF pre n d] show ?thesis by simp
qed

text \<open>Note: The registry is bounded and forgets the least recently seen: a check leaves at most 1000
  records, one per peer, and every record it drops was last seen no later than every record
  that stays.\<close>

theorem tofu_bounded:
  assumes "tofu_ok env" and "tofuCheck now peer key env = (env', v)"
  shows "tofu_ok env' \<and> (\<forall>x \<in> set (tofuLoad env). fst x \<noteq> peer \<longrightarrow> x \<notin> set (tofuLoad env') \<longrightarrow>
      (\<forall>y \<in> set (tofuLoad env'). tr_lastSeen (snd x) \<le> tr_lastSeen (snd y)))"
proof (cases "trusted v")
  case False
  then show ?thesis using tofuCheck_untrusted [OF assms(2)] assms(1) by simp
next
  case True
  obtain rec where e: "env' = tofuSave (jm_set peer rec (tofuLoad env)) env"
    by (rule tofuCheck_trusted [OF assms(2) True])
  let ?s = "jm_set peer rec (tofuLoad env)"
  have l: "tofuLoad env' = tofuEvict ?s" using assms(1) by (simp add: e tofuLoad_save tofu_ok_def)
  have wf: "jm_wf (tofuLoad env)" "jm_wf ?s" using assms(1) by (simp_all add: tofu_ok_def)
  have "has_ls env' \<longrightarrow> \<not> ls_refuses env'"
    using assms(1) by (simp add: e tofuSave_def tofu_ok_def Let_def)
  then have "tofu_ok env'" using wf tofuEvict_wf tofuEvict_length by (simp add: tofu_ok_def l)
  moreover have "x \<in> set ?s" if "x \<in> set (tofuLoad env)" "fst x \<noteq> peer" for x
    using that wf jm_get_set [of peer rec "tofuLoad env" "fst x"]
    by (metis jm_wf_def map_of_eq_Some_iff prod.collapse)
  ultimately show ?thesis using tofuEvict_oldest [of _ ?s] unfolding l by blast
qed

theorem tofu_bounded_witness:
  "tofu_ok (fst (tofuCheck 1 ''p'' ''k1'' \<lparr>has_ls = True, ls_content = Corrupt,
      ls_refuses = False, tofuMemStore = None\<rparr>))"
proof -
  have "tofu_ok \<lparr>has_ls = True, ls_content = Corrupt, ls_refuses = False, tofuMemStore = None\<rparr>"
    by (simp add: tofu_ok_def tofuLoad_def)
  from tofu_bounded [OF this prod.collapse [symmetric]] show ?thesis by blast
qed

end
