(* ===== verification/Transport.thy ===== *)
theory Transport
  imports Frame Ratchet Noise_XX Registry Tofu Base64url "HOL-Library.Sublist"
begin

text \<open>
  The mesh facade of \<open>packages/mesh-core/src/transport.ts\<close>: scanning and connecting with
  backoff, the handshake per device, verdicts, session frames, timeouts, start and stop.

  The module-level variables are the fields of \<open>transport\<close>. \<open>CryptoState\<close> objects are
  mutable and shared between the map and the continuations that were suspended with a
  reference in hand, so they live in a heap (\<open>heap\<close>) and the map holds references. What an
  \<open>async\<close> function has left to do after an \<open>await\<close> is a value of \<open>task\<close> in \<open>tasks\<close>; the
  event loop may resume any of them at any moment, with the outcome the radio gives. A call of
  the handshake object or of \<open>encrypt\<close> runs in one piece; \<open>decrypt\<close> is suspended at its AEAD.
\<close>

section \<open>Verdicts\<close>

datatype verdict = Pending | Accepted | Rejected

instantiation verdict :: order
begin

definition less_eq_verdict :: "verdict \<Rightarrow> verdict \<Rightarrow> bool" where
  "less_eq_verdict v w = (v = Pending \<or> v = w)"

definition less_verdict :: "verdict \<Rightarrow> verdict \<Rightarrow> bool" where
  "less_verdict v w = (v = Pending \<and> w \<noteq> Pending)"

instance
  by standard (auto simp: less_eq_verdict_def less_verdict_def)

end

section \<open>State\<close>

record crypto_state =
  cs_handshake :: handshake
  cs_role :: role
  cs_session :: "ratchet_session option"
  cs_sas :: "string option"
  cs_verdict :: verdict
  cs_peerPubkeyB64 :: "string option"
  cs_keyChanged :: bool
  cs_peerIdHex :: string
  handshakeFailures :: nat
  handshakeStartedAt :: int

datatype mesh_error =
    BleOff | PermissionDenied | PluginAbsent | HandshakeFailed | ReplayRejectedError
  | SasMismatch | UnknownPeerKey | UnknownError

text \<open>
  What is left after an \<open>await\<close>: of the scan callback (after \<open>connect\<close>, \<open>negotiateMtu\<close> and
  \<open>subscribeTx\<close>), of \<open>initiateHandshake\<close> and the responder path (after the identity is
  loaded), of the loops that write chunks, and of a session decryption.
\<close>

datatype task =
    Connecting string bytes "int option"
  | MtuQuery string bytes "int option"
  | Subscribing string bytes "int option"
  | InitIdentity string bytes
  | ResponderIdentity string role string frame_type bytes
  | SendMsg1 string "bytes list"
  | SendReply nat string "bytes list"
  | SendData string "bytes list"
  | Decrypting nat pending_decrypt

record transport =
  registry :: peer_registry
  peerId :: "bytes option"
  mtuCache :: "(string, int) jsmap"
  reassemblers :: "(string, reassembler) jsmap"
  cryptoStates :: "(string, nat) jsmap"
  heap :: "crypto_state list"
  connectedDevices :: "(string, bool) jsmap"
  backoff :: "(string, int) jsmap"
  backoffCounts :: "(string, nat) jsmap"
  tofu :: tofu_env
  frameHandlers :: nat
  peers :: "peer list"
  advertising :: bool
  scanning :: bool
  m_error :: "mesh_error option"
  macRotation :: "mac_timer option"
  listenerRemovers :: nat
  timersOn :: bool
  radioScanning :: bool
  radioAdvertising :: bool
  tasks :: "task list"
  written :: "(string \<times> bytes) list"
  handed :: "(string \<times> bytes) list"
  notified :: nat

definition new_transport :: "tofu_env \<Rightarrow> transport" where
  "new_transport env = \<lparr>registry = new_registry None, peerId = None, mtuCache = [],
     reassemblers = [], cryptoStates = [], heap = [], connectedDevices = [], backoff = [],
     backoffCounts = [], tofu = env, frameHandlers = 0, peers = [], advertising = False,
     scanning = False, m_error = None, macRotation = None, listenerRemovers = 0,
     timersOn = False, radioScanning = False, radioAdvertising = False, tasks = [],
     written = [], handed = [], notified = 0\<rparr>"

definition MAX_BLE_CONNECTIONS :: nat where "MAX_BLE_CONNECTIONS = 6"
definition HANDSHAKE_TIMEOUT_MS :: int where "HANDSHAKE_TIMEOUT_MS = 15000"
definition BACKOFF_STEPS_MS :: "int list" where "BACKOFF_STEPS_MS = [5000, 15000, 60000]"

definition spawn :: "task \<Rightarrow> transport \<Rightarrow> transport" where
  "spawn t st = st\<lparr>tasks := tasks st @ [t]\<rparr>"

definition notifyHandshakeChange :: "transport \<Rightarrow> transport" where
  "notifyHandshakeChange st = st\<lparr>notified := Suc (notified st)\<rparr>"

definition set_error :: "mesh_error \<Rightarrow> transport \<Rightarrow> transport" where
  "set_error e st = st\<lparr>m_error := Some e\<rparr>"

definition modify_cs :: "nat \<Rightarrow> (crypto_state \<Rightarrow> crypto_state) \<Rightarrow> transport \<Rightarrow> transport" where
  "modify_cs ref f st = st\<lparr>heap := (heap st)[ref := f (heap st ! ref)]\<rparr>"

definition mtu_of :: "transport \<Rightarrow> string \<Rightarrow> int" where
  "mtu_of st dev = (case jm_get (mtuCache st) dev of None \<Rightarrow> GATT_MTU_DEFAULT | Some m \<Rightarrow> m)"

section \<open>Verdict transitions and failures\<close>

text \<open>The new object and whether the transition took place.\<close>

definition transitionVerdict :: "verdict \<Rightarrow> crypto_state \<Rightarrow> crypto_state \<times> bool" where
  "transitionVerdict next_v cs =
     (if cs_verdict cs = Pending then (cs\<lparr>cs_verdict := next_v\<rparr>, True) else (cs, False))"

definition set_verdict :: "nat \<Rightarrow> verdict \<Rightarrow> transport \<Rightarrow> transport" where
  "set_verdict ref v st = modify_cs ref (fst \<circ> transitionVerdict v) st"

definition failHandshake :: "nat option \<Rightarrow> transport \<Rightarrow> transport" where
  "failHandshake cs st =
     set_error HandshakeFailed
       (case cs of
          None \<Rightarrow> st
        | Some ref \<Rightarrow>
            if snd (transitionVerdict Rejected (heap st ! ref))
            then notifyHandshakeChange (set_verdict ref Rejected st) else st)"

section \<open>Backoff and disconnects\<close>

definition nextBackoffMs :: "string \<Rightarrow> transport \<Rightarrow> transport \<times> int" where
  "nextBackoffMs dev st =
     (let count = (case jm_get (backoffCounts st) dev of None \<Rightarrow> 0 | Some c \<Rightarrow> c) in
      (st\<lparr>backoffCounts := jm_set dev (count + 1) (backoffCounts st)\<rparr>,
       BACKOFF_STEPS_MS ! min count (length BACKOFF_STEPS_MS - 1)))"

definition retry_at :: "transport \<Rightarrow> string \<Rightarrow> int" where
  "retry_at st dev = (case jm_get (backoff st) dev of None \<Rightarrow> 0 | Some t \<Rightarrow> t)"

definition clearBackoff :: "int \<Rightarrow> string \<Rightarrow> transport \<Rightarrow> transport" where
  "clearBackoff now dev st =
     (if retry_at st dev > now then st
      else st\<lparr>backoff := jm_delete dev (backoff st), backoffCounts := jm_delete dev (backoffCounts st)\<rparr>)"

definition on_disconnect :: "int \<Rightarrow> string \<Rightarrow> transport \<Rightarrow> transport" where
  "on_disconnect now dev st =
     clearBackoff now dev (st\<lparr>connectedDevices := jm_delete dev (connectedDevices st),
       mtuCache := jm_delete dev (mtuCache st), reassemblers := jm_delete dev (reassemblers st),
       cryptoStates := jm_delete dev (cryptoStates st)\<rparr>)"

text \<open>The \<open>connection\<close> event of the native GATT server; an inbound device is filed as \<open>False\<close>.\<close>

definition on_connection :: "int \<Rightarrow> string \<Rightarrow> bool \<Rightarrow> transport \<Rightarrow> transport" where
  "on_connection now dev connected st =
     (if \<not> connected then on_disconnect now dev st
      else if \<not> jm_has (connectedDevices st) dev
      then st\<lparr>connectedDevices := jm_set dev False (connectedDevices st)\<rparr>
      else st)"

fun prune_backoff :: "int \<Rightarrow> (string \<times> int) list \<Rightarrow> transport \<Rightarrow> transport" where
  "prune_backoff now [] st = st"
| "prune_backoff now ((dev, t) # es) st =
     prune_backoff now es
       (if t \<le> now then st\<lparr>backoff := jm_delete dev (backoff st),
                          backoffCounts := jm_delete dev (backoffCounts st)\<rparr> else st)"

definition gc_tick :: "int \<Rightarrow> transport \<Rightarrow> transport" where
  "gc_tick now st =
     (let r = gc now (registry st) in
      prune_backoff now (backoff st) (st\<lparr>registry := r, peers := reg_list r\<rparr>))"

section \<open>Scanning and connecting\<close>

definition on_sighting :: "int \<Rightarrow> string \<Rightarrow> bytes \<Rightarrow> int option \<Rightarrow> transport \<Rightarrow> transport" where
  "on_sighting now dev pid rssi st =
     (if jm_has (connectedDevices st) dev then st
      else if length (connectedDevices st) \<ge> MAX_BLE_CONNECTIONS then st
      else if now < retry_at st dev then st
      else spawn (Connecting dev pid rssi) st)"

definition connect_failed :: "int \<Rightarrow> string \<Rightarrow> transport \<Rightarrow> transport" where
  "connect_failed now dev st =
     (let (st', ms) = nextBackoffMs dev st in st'\<lparr>backoff := jm_set dev (now + ms) (backoff st')\<rparr>)"

text \<open>\<open>negotiateMtu\<close>: what the platform answers, \<open>None\<close> when the query throws.\<close>

definition negotiateMtu :: "int option \<Rightarrow> int" where
  "negotiateMtu answer =
     (case answer of
        Some mtu \<Rightarrow> if mtu > 0 \<and> mtu \<le> GATT_MTU_TARGET then mtu
                    else if mtu > GATT_MTU_TARGET then GATT_MTU_TARGET
                    else GATT_MTU_DEFAULT
      | None \<Rightarrow> GATT_MTU_DEFAULT)"

definition mtu_answered :: "string \<Rightarrow> bytes \<Rightarrow> int option \<Rightarrow> int option \<Rightarrow> transport \<Rightarrow> transport" where
  "mtu_answered dev pid rssi answer st =
     spawn (Subscribing dev pid rssi) (st\<lparr>mtuCache := jm_set dev (negotiateMtu answer) (mtuCache st)\<rparr>)"

definition subscribed :: "int \<Rightarrow> string \<Rightarrow> bytes \<Rightarrow> int option \<Rightarrow> transport \<Rightarrow> transport" where
  "subscribed now dev pid rssi st =
     (let r = upsert now pid dev rssi (registry st) in
      spawn (InitIdentity dev pid)
        (st\<lparr>registry := r, peers := reg_list r,
           connectedDevices := jm_set dev True (connectedDevices st),
           backoff := jm_delete dev (backoff st),
           backoffCounts := jm_delete dev (backoffCounts st)\<rparr>))"


section \<open>The handshake\<close>

fun roleFor :: "bytes \<Rightarrow> bytes \<Rightarrow> role" where
  "roleFor (a # as) (b # bs) =
     (if a < b then InitiatorRole else if b < a then ResponderRole else roleFor as bs)"
| "roleFor _ _ = InitiatorRole"

definition new_cs :: "noise_prims \<Rightarrow> device_identity \<Rightarrow> role \<Rightarrow> string \<Rightarrow> int \<Rightarrow> crypto_state" where
  "new_cs P iden r hex now = \<lparr>cs_handshake = new_handshake P r iden, cs_role = r,
     cs_session = None, cs_sas = None, cs_verdict = Pending, cs_peerPubkeyB64 = None,
     cs_keyChanged = False, cs_peerIdHex = hex, handshakeFailures = 0, handshakeStartedAt = now\<rparr>"

text \<open>A new object in the heap, filed under its device.\<close>

definition alloc_cs :: "string \<Rightarrow> crypto_state \<Rightarrow> transport \<Rightarrow> transport" where
  "alloc_cs dev cs st = st\<lparr>heap := heap st @ [cs],
     cryptoStates := jm_set dev (length (heap st)) (cryptoStates st)\<rparr>"

text \<open>
  \<open>initiateHandshake\<close> once \<open>getLocalIdentity\<close> has answered (\<open>None\<close>: it threw). The caller's
  handler takes any error to \<open>failHandshake\<close>.
\<close>

definition initiateHandshake ::
  "noise_prims \<Rightarrow> draws \<Rightarrow> int \<Rightarrow> device_identity option \<Rightarrow> string \<Rightarrow> bytes \<Rightarrow> transport \<Rightarrow> transport" where
  "initiateHandshake P d now idn dev pid st =
     (case (idn, peerId st) of
        (None, _) \<Rightarrow> failHandshake (jm_get (cryptoStates st) dev) st
      | (Some iden, None) \<Rightarrow> st
      | (Some iden, Some own) \<Rightarrow>
          if \<not> jm_has (connectedDevices st) dev then st
          else
            let r = roleFor own pid; ref = length (heap st);
                st1 = alloc_cs dev (new_cs P iden r (to_hex pid) now) st in
            if r \<noteq> InitiatorRole then st1
            else (case writeMessage P d (cs_handshake (heap st1 ! ref)) [] of
                (h, Inl e) \<Rightarrow> failHandshake (Some ref) (modify_cs ref (cs_handshake_update (\<lambda>_. h)) st1)
              | (h, Inr msg1) \<Rightarrow>
                  let st2 = modify_cs ref (cs_handshake_update (\<lambda>_. h)) st1 in
                  (case chunkFrame msg1 (mtu_of st2 dev) HandshakeMsg1 of
                     Inl e \<Rightarrow> failHandshake (Some ref) st2
                   | Inr chunks \<Rightarrow> spawn (SendMsg1 dev chunks) st2)))"

text \<open>The branches of \<open>advanceHandshake\<close> that set the error and reject without notifying.\<close>

definition reject_quietly :: "nat \<Rightarrow> transport \<Rightarrow> transport" where
  "reject_quietly ref st = set_verdict ref Rejected (set_error HandshakeFailed st)"

text \<open>The end of \<open>advanceHandshake\<close>: the object is complete, so the session starts.\<close>

definition tofu_step :: "int \<Rightarrow> nat \<Rightarrow> transport \<Rightarrow> transport" where
  "tofu_step now ref st =
     (let cs = heap st ! ref in
      case peerStaticPublicKey (cs_handshake cs) of
        None \<Rightarrow> st
      | Some pub \<Rightarrow>
          let key = uint8ToBase64Url pub; (env, v) = tofuCheck now (cs_peerIdHex cs) key (tofu st);
              st1 = modify_cs ref (\<lambda>c. c\<lparr>cs_peerPubkeyB64 := Some key, cs_keyChanged := keyChanged v\<rparr>)
                      (st\<lparr>tofu := env\<rparr>) in
          if trusted v then st1 else set_error UnknownPeerKey st1)"

definition direction_of :: "role \<Rightarrow> direction" where
  "direction_of r = (case r of InitiatorRole \<Rightarrow> Initiator | ResponderRole \<Rightarrow> Responder)"

definition finish_handshake ::
  "noise_prims \<Rightarrow> ratchet_prims \<Rightarrow> int \<Rightarrow> nat \<Rightarrow> transport \<Rightarrow> transport" where
  "finish_handshake P R now ref st =
     (let cs = heap st ! ref in
      if \<not> isComplete (cs_handshake cs) then st
      else (case split_keys P (cs_handshake cs) of
          Inl e \<Rightarrow> reject_quietly ref st
        | Inr k \<Rightarrow>
            (case newRatchetSession R (sendKey k) (recvKey k) (direction_of (cs_role cs)) of
               Inl e \<Rightarrow> failHandshake (Some ref) st
             | Inr sess \<Rightarrow>
                 let st1 = modify_cs ref (cs_session_update (\<lambda>_. Some sess)) st in
                 (case noise_sas (cs_handshake cs) of
                    None \<Rightarrow> failHandshake (Some ref) st1
                  | Some sas \<Rightarrow>
                      notifyHandshakeChange (tofu_step now ref
                        (modify_cs ref (\<lambda>c. c\<lparr>cs_sas := Some sas, handshakeFailures := 0\<rparr>) st1))))))"

definition count_violation :: "nat \<Rightarrow> transport \<Rightarrow> transport" where
  "count_violation ref st =
     (let st1 = modify_cs ref (\<lambda>c. c\<lparr>handshakeFailures := Suc (handshakeFailures c)\<rparr>) st in
      if handshakeFailures (heap st1 ! ref) < 3 then st1 else reject_quietly ref st1)"

definition advanceHandshake ::
  "noise_prims \<Rightarrow> ratchet_prims \<Rightarrow> draws \<Rightarrow> draws \<Rightarrow> int \<Rightarrow> nat \<Rightarrow> string \<Rightarrow> frame_type \<Rightarrow> bytes
     \<Rightarrow> transport \<Rightarrow> transport" where
  "advanceHandshake P R d d' now ref dev ft payload st =
     (let cs = heap st ! ref in
      case readMessage P d (cs_handshake cs) payload of
        (h, Inl (NoiseStateError r i)) \<Rightarrow> modify_cs ref (cs_handshake_update (\<lambda>_. h)) st
      | (h, Inl e) \<Rightarrow> count_violation ref (modify_cs ref (cs_handshake_update (\<lambda>_. h)) st)
      | (h, Inr _) \<Rightarrow>
          let st1 = modify_cs ref (cs_handshake_update (\<lambda>_. h)) st in
          if ft = HandshakeMsg1 \<and> cs_role cs = ResponderRole
             \<or> ft = HandshakeMsg2 \<and> cs_role cs = InitiatorRole
          then (case writeMessage P d' h [] of
              (h', Inl e) \<Rightarrow> reject_quietly ref (modify_cs ref (cs_handshake_update (\<lambda>_. h')) st1)
            | (h', Inr msg) \<Rightarrow>
                let st2 = modify_cs ref (cs_handshake_update (\<lambda>_. h')) st1 in
                (case chunkFrame msg (mtu_of st2 dev)
                        (if ft = HandshakeMsg1 then HandshakeMsg2 else HandshakeMsg3) of
                   Inl e \<Rightarrow> reject_quietly ref st2
                 | Inr chunks \<Rightarrow> spawn (SendReply ref dev chunks) st2))
          else finish_handshake P R now ref st1)"

section \<open>Incoming chunks\<close>

definition hex_val :: "char \<Rightarrow> nat" where
  "hex_val c = (let n = of_char c :: nat in if n < 58 then n - 48 else n - 87)"

text \<open>\<open>parseInt(h, 16)\<close> of every pair of digits.\<close>

fun from_hex :: "string \<Rightarrow> bytes" where
  "from_hex (a # b # cs) = of_nat (16 * hex_val a + hex_val b) # from_hex cs"
| "from_hex _ = []"

definition peer_with_mac :: "string \<Rightarrow> transport \<Rightarrow> peer option" where
  "peer_with_mac addr st = find (\<lambda>p. mac p = addr) (reg_list (registry st))"

text \<open>A handshake frame from a device without state: the responder path up to its \<open>await\<close>.\<close>

definition responder_begin :: "string \<Rightarrow> frame_type \<Rightarrow> bytes \<Rightarrow> transport \<Rightarrow> transport" where
  "responder_begin dev ft payload st =
     (case peerId st of
        None \<Rightarrow> st
      | Some own \<Rightarrow>
          (case peer_with_mac dev st of
             None \<Rightarrow> spawn (ResponderIdentity dev ResponderRole dev ft payload) st
           | Some p \<Rightarrow> spawn (ResponderIdentity dev (roleFor own (from_hex (idHex p))) (idHex p) ft payload) st))"

definition responder_resume ::
  "noise_prims \<Rightarrow> ratchet_prims \<Rightarrow> draws \<Rightarrow> draws \<Rightarrow> int \<Rightarrow> device_identity option \<Rightarrow> string \<Rightarrow> role
     \<Rightarrow> string \<Rightarrow> frame_type \<Rightarrow> bytes \<Rightarrow> transport \<Rightarrow> transport" where
  "responder_resume P R d d' now idn dev r hex ft payload st =
     (case idn of
        None \<Rightarrow> failHandshake None st
      | Some iden \<Rightarrow>
          if \<not> jm_has (connectedDevices st) dev then st
          else if jm_has (cryptoStates st) dev then st
          else advanceHandshake P R d d' now (length (heap st)) dev ft payload
                 (alloc_cs dev (new_cs P iden r hex now) st))"

text \<open>The \<open>catch\<close> of a session decryption: only the replay message contains the word.\<close>

definition decrypt_failed :: "ratchet_error \<Rightarrow> transport \<Rightarrow> transport" where
  "decrypt_failed e st =
     set_error (case e of ReplayRejected c \<Rightarrow> ReplayRejectedError | _ \<Rightarrow> HandshakeFailed) st"

definition session_frame :: "ratchet_prims \<Rightarrow> string \<Rightarrow> bytes \<Rightarrow> transport \<Rightarrow> transport" where
  "session_frame R dev payload st =
     (case jm_get (cryptoStates st) dev of
        None \<Rightarrow> st
      | Some ref \<Rightarrow>
          (case cs_session (heap st ! ref) of
             None \<Rightarrow> st
           | Some s \<Rightarrow>
               if cs_verdict (heap st ! ref) \<noteq> Accepted then st
               else (case decrypt_begin R s payload [] of
                   (s', Inl e) \<Rightarrow>
                     decrypt_failed e (modify_cs ref (cs_session_update (\<lambda>_. Some s')) st)
                 | (s', Inr pd) \<Rightarrow>
                     spawn (Decrypting ref pd) (modify_cs ref (cs_session_update (\<lambda>_. Some s')) st))))"

definition decrypt_resume :: "ratchet_prims \<Rightarrow> nat \<Rightarrow> pending_decrypt \<Rightarrow> transport \<Rightarrow> transport" where
  "decrypt_resume R ref pd st =
     (case cs_session (heap st ! ref) of
        None \<Rightarrow> st
      | Some s \<Rightarrow>
          (case decrypt_finish R s pd of
             (s', Inl e) \<Rightarrow> decrypt_failed e (modify_cs ref (cs_session_update (\<lambda>_. Some s')) st)
           | (s', Inr pt) \<Rightarrow>
               (modify_cs ref (cs_session_update (\<lambda>_. Some s')) st)
                 \<lparr>handed := handed st @ replicate (frameHandlers st) (cs_peerIdHex (heap st ! ref), pt)\<rparr>))"

definition handleIncomingChunk ::
  "noise_prims \<Rightarrow> ratchet_prims \<Rightarrow> draws \<Rightarrow> draws \<Rightarrow> int \<Rightarrow> string \<Rightarrow> bytes \<Rightarrow> transport \<Rightarrow> transport" where
  "handleIncomingChunk P R d d' now dev chunk st =
     (let r = (case jm_get (reassemblers st) dev of None \<Rightarrow> new_reassembler | Some r \<Rightarrow> r);
          put = (\<lambda>r. st\<lparr>reassemblers := jm_set dev r (reassemblers st)\<rparr>) in
      case pushWithType r chunk of
        (r', Inl e) \<Rightarrow> put new_reassembler
      | (r', Inr None) \<Rightarrow> put r'
      | (r', Inr (Some res)) \<Rightarrow>
          if rf_type res = SessionData then session_frame R dev (rf_payload res) (put r')
          else (case jm_get (cryptoStates st) dev of
              None \<Rightarrow> responder_begin dev (rf_type res) (rf_payload res) (put r')
            | Some ref \<Rightarrow> advanceHandshake P R d d' now ref dev (rf_type res) (rf_payload res) (put r')))"


section \<open>Timeouts, verdicts, sending\<close>

fun timeout_walk :: "int \<Rightarrow> (string \<times> nat) list \<Rightarrow> transport \<Rightarrow> transport" where
  "timeout_walk now [] st = st"
| "timeout_walk now ((dev, ref) # es) st =
     timeout_walk now es
       (let cs = heap st ! ref in
        if cs_verdict cs \<noteq> Pending then st
        else if cs_session cs \<noteq> None then st
        else if \<not> jm_has (connectedDevices st) dev then st
        else if now - handshakeStartedAt cs > HANDSHAKE_TIMEOUT_MS
        then notifyHandshakeChange (set_error HandshakeFailed (set_verdict ref Rejected st))
        else st)"

definition checkHandshakeTimeouts :: "int \<Rightarrow> transport \<Rightarrow> transport" where
  "checkHandshakeTimeouts now st = timeout_walk now (cryptoStates st) st"

record pending_handshake =
  ph_peerIdHex :: string
  ph_sas :: string
  ph_pubkey :: string
  ph_keyChanged :: bool

definition pending_of :: "crypto_state \<Rightarrow> pending_handshake option" where
  "pending_of cs =
     (case (cs_sas cs, cs_peerPubkeyB64 cs) of
        (Some sas, Some key) \<Rightarrow>
          if cs_verdict cs = Pending
          then Some \<lparr>ph_peerIdHex = cs_peerIdHex cs, ph_sas = sas, ph_pubkey = key,
                     ph_keyChanged = cs_keyChanged cs\<rparr>
          else None
      | _ \<Rightarrow> None)"

definition getPendingHandshakes :: "transport \<Rightarrow> pending_handshake list" where
  "getPendingHandshakes st = List.map_filter (\<lambda>(dev, ref). pending_of (heap st ! ref)) (cryptoStates st)"

text \<open>The first object of the map whose \<open>peerIdHex\<close> matches.\<close>

definition cs_for_peer :: "string \<Rightarrow> transport \<Rightarrow> nat option" where
  "cs_for_peer hex st = find (\<lambda>ref. cs_peerIdHex (heap st ! ref) = hex) (map snd (cryptoStates st))"

definition acceptPeer :: "string \<Rightarrow> transport \<Rightarrow> transport" where
  "acceptPeer hex st =
     (case cs_for_peer hex st of
        None \<Rightarrow> st
      | Some ref \<Rightarrow>
          if snd (transitionVerdict Accepted (heap st ! ref))
          then notifyHandshakeChange (set_verdict ref Accepted st) else st)"

definition rejectPeer :: "string \<Rightarrow> transport \<Rightarrow> transport" where
  "rejectPeer hex st =
     (case cs_for_peer hex st of
        None \<Rightarrow> st
      | Some ref \<Rightarrow>
          if snd (transitionVerdict Rejected (heap st ! ref))
          then notifyHandshakeChange (set_error UnknownPeerKey (set_verdict ref Rejected st)) else st)"

text \<open>The address of a peer: from the registry, else a connected entry, else the first entry.\<close>

definition device_of :: "string \<Rightarrow> transport \<Rightarrow> string option" where
  "device_of hex st =
     (let entries = filter (\<lambda>(dev, ref). cs_peerIdHex (heap st ! ref) = hex) (cryptoStates st);
          fallback = (case find (\<lambda>(dev, ref). jm_has (connectedDevices st) dev) entries of
                        Some (dev, ref) \<Rightarrow> Some dev
                      | None \<Rightarrow> (case entries of [] \<Rightarrow> None | (dev, ref) # _ \<Rightarrow> Some dev)) in
      case find (\<lambda>p. idHex p = hex) (reg_list (registry st)) of
        Some p \<Rightarrow> if mac p \<noteq> [] then Some (mac p) else fallback
      | None \<Rightarrow> fallback)"

datatype send_error = UnknownPeer | NotAccepted | FrameTooLong frame_error

definition sendFrame :: "ratchet_prims \<Rightarrow> string \<Rightarrow> bytes \<Rightarrow> transport \<Rightarrow> transport \<times> (send_error + unit)" where
  "sendFrame R hex frame st =
     (case device_of hex st of
        None \<Rightarrow> (st, Inl UnknownPeer)
      | Some dev \<Rightarrow>
          (case jm_get (cryptoStates st) dev of
             None \<Rightarrow> (st, Inl NotAccepted)
           | Some ref \<Rightarrow>
               (case cs_session (heap st ! ref) of
                  None \<Rightarrow> (st, Inl NotAccepted)
                | Some s \<Rightarrow>
                    if cs_verdict (heap st ! ref) \<noteq> Accepted then (st, Inl NotAccepted)
                    else
                      let (s', w) = encrypt R s frame [];
                          st1 = modify_cs ref (cs_session_update (\<lambda>_. Some s')) st in
                      (case chunkFrame w (mtu_of st1 dev) SessionData of
                         Inl e \<Rightarrow> (st1, Inl (FrameTooLong e))
                       | Inr chunks \<Rightarrow> (spawn (SendData dev chunks) st1, Inr ())))))"

definition onFrame :: "transport \<Rightarrow> transport" where
  "onFrame st = st\<lparr>frameHandlers := Suc (frameHandlers st)\<rparr>"

text \<open>The function that \<open>onFrame\<close> returns.\<close>

definition offFrame :: "transport \<Rightarrow> transport" where
  "offFrame st = st\<lparr>frameHandlers := frameHandlers st - 1\<rparr>"

section \<open>Start and stop\<close>

definition lower_char :: "char \<Rightarrow> char" where
  "lower_char c = (let n = of_char c :: nat in if 65 \<le> n \<and> n \<le> 90 then char_of (n + 32) else c)"

definition js_includes :: "string \<Rightarrow> string \<Rightarrow> bool" where
  "js_includes needle hay = list_ex (prefix needle) (suffixes hay)"

text \<open>\<open>None\<close>: the thrown value is null or undefined.\<close>

definition classifyMeshError :: "string option \<Rightarrow> mesh_error" where
  "classifyMeshError err =
     (case err of
        None \<Rightarrow> UnknownError
      | Some msg \<Rightarrow>
          let lower = map lower_char msg; has = (\<lambda>s. js_includes s lower) in
          if list_ex has [''not implemented'', ''plugin'', ''undefined''] then PluginAbsent
          else if list_ex has [''permission'', ''missing-bluetooth-permission'', ''denied'']
          then PermissionDenied
          else if list_ex has [''bluetooth'', ''bluetoothnotenabled'', ''ble not enabled'',
                               ''disabled'', ''le advertising not supported''] then BleOff
          else UnknownError)"

text \<open>The four awaits of \<open>startMesh\<close> and the one that throws, if any.\<close>

datatype start_stage = AtAdvertising | AtScan | AtRxListener | AtConnListener

definition start_until :: "bytes \<Rightarrow> start_stage option \<Rightarrow> transport \<Rightarrow> transport" where
  "start_until pid stop_at st =
     (let s1 = st\<lparr>peerId := Some pid\<rparr>;
          s2 = s1\<lparr>radioAdvertising := True\<rparr>;
          s3 = s2\<lparr>radioScanning := True\<rparr>;
          s4 = s3\<lparr>listenerRemovers := Suc (listenerRemovers s3)\<rparr> in
      case stop_at of
        Some AtAdvertising \<Rightarrow> s1
      | Some AtScan \<Rightarrow> s2
      | Some AtRxListener \<Rightarrow> s3
      | Some AtConnListener \<Rightarrow> s4
      | None \<Rightarrow> s4\<lparr>listenerRemovers := Suc (listenerRemovers s4)\<rparr>)"

definition startMesh :: "bytes \<Rightarrow> bool \<Rightarrow> (start_stage \<times> string option) option \<Rightarrow> transport
    \<Rightarrow> transport \<times> bool" where
  "startMesh pid has_document failure st =
     (if advertising st \<or> scanning st then (st, True)
      else (case failure of
          Some (stage, err) \<Rightarrow>
            (set_error (classifyMeshError err) (start_until pid (Some stage) st), False)
        | None \<Rightarrow>
            let s = start_until pid None st in
            (s\<lparr>timersOn := True, macRotation := mt_start (new_mac_timer (Some True)),
               listenerRemovers := listenerRemovers s + (if has_document then 1 else 0),
               advertising := True, scanning := True, m_error := None\<rparr>, True)))"

definition stopMesh :: "transport \<Rightarrow> transport" where
  "stopMesh st = st\<lparr>radioScanning := False, radioAdvertising := False, timersOn := False,
     macRotation := None, connectedDevices := [], listenerRemovers := 0,
     registry := new_registry None, mtuCache := [], reassemblers := [], cryptoStates := [],
     backoff := [], backoffCounts := [], frameHandlers := 0, peerId := None, peers := [],
     advertising := False, scanning := False, m_error := None\<rparr>"

section \<open>The event loop\<close>

text \<open>
  What the outside world may do next. \<open>Resume i ok\<close> lets the \<open>i\<close>-th suspended continuation go
  on, \<open>ok\<close> being how its \<open>await\<close> ended; \<open>answer\<close> and \<open>idn\<close> are the values it may carry.
\<close>

datatype event =
    Sighting string bytes "int option"
  | Chunk string bytes
  | Disconnected string
  | Connection string bool
  | GcTick
  | TimeoutTick
  | Accept string
  | Reject string
  | Send string bytes
  | OnFrame
  | OffFrame
  | Start bytes bool "(start_stage \<times> string option) option"
  | Stop
  | Resume nat bool "int option"

record world =
  w_noise :: noise_prims
  w_ratchet :: ratchet_prims
  w_identity :: "device_identity option"

text \<open>One chunk of a write loop; \<open>ok\<close> tells whether \<open>writeRx\<close> resolved.\<close>

definition resume_task ::
  "world \<Rightarrow> draws \<Rightarrow> draws \<Rightarrow> int \<Rightarrow> bool \<Rightarrow> int option \<Rightarrow> task \<Rightarrow> transport \<Rightarrow> transport" where
  "resume_task W d d' now ok answer t st =
     (case t of
        Connecting dev pid rssi \<Rightarrow>
          if ok then spawn (MtuQuery dev pid rssi) st else connect_failed now dev st
      | MtuQuery dev pid rssi \<Rightarrow> mtu_answered dev pid rssi answer st
      | Subscribing dev pid rssi \<Rightarrow>
          if ok then subscribed now dev pid rssi st else connect_failed now dev st
      | InitIdentity dev pid \<Rightarrow>
          initiateHandshake (w_noise W) d now (if ok then w_identity W else None) dev pid st
      | ResponderIdentity dev r hex ft payload \<Rightarrow>
          responder_resume (w_noise W) (w_ratchet W) d d' now (if ok then w_identity W else None)
            dev r hex ft payload st
      | SendMsg1 dev chunks \<Rightarrow>
          (case chunks of [] \<Rightarrow> st
           | c # cs \<Rightarrow>
               if ok then spawn (SendMsg1 dev cs) (st\<lparr>written := written st @ [(dev, c)]\<rparr>)
               else failHandshake (jm_get (cryptoStates st) dev) st)
      | SendReply ref dev chunks \<Rightarrow>
          (case chunks of [] \<Rightarrow> finish_handshake (w_noise W) (w_ratchet W) now ref st
           | c # cs \<Rightarrow>
               if ok then spawn (SendReply ref dev cs) (st\<lparr>written := written st @ [(dev, c)]\<rparr>)
               else reject_quietly ref st)
      | SendData dev chunks \<Rightarrow>
          (case chunks of [] \<Rightarrow> st
           | c # cs \<Rightarrow>
               if ok then spawn (SendData dev cs) (st\<lparr>written := written st @ [(dev, c)]\<rparr>) else st)
      | Decrypting ref pd \<Rightarrow> decrypt_resume (w_ratchet W) ref pd st)"

definition take_task :: "nat \<Rightarrow> transport \<Rightarrow> transport" where
  "take_task i st = st\<lparr>tasks := take i (tasks st) @ drop (Suc i) (tasks st)\<rparr>"

definition mesh_event :: "world \<Rightarrow> draws \<Rightarrow> draws \<Rightarrow> int \<Rightarrow> event \<Rightarrow> transport \<Rightarrow> transport" where
  "mesh_event W d d' now ev st =
     (case ev of
        Sighting dev pid rssi \<Rightarrow> on_sighting now dev pid rssi st
      | Chunk dev c \<Rightarrow> handleIncomingChunk (w_noise W) (w_ratchet W) d d' now dev c st
      | Disconnected dev \<Rightarrow> on_disconnect now dev st
      | Connection dev up \<Rightarrow> on_connection now dev up st
      | GcTick \<Rightarrow> gc_tick now st
      | TimeoutTick \<Rightarrow> checkHandshakeTimeouts now st
      | Accept hex \<Rightarrow> acceptPeer hex st
      | Reject hex \<Rightarrow> rejectPeer hex st
      | Send hex frame \<Rightarrow> fst (sendFrame (w_ratchet W) hex frame st)
      | OnFrame \<Rightarrow> onFrame st
      | OffFrame \<Rightarrow> offFrame st
      | Start pid doc failure \<Rightarrow> fst (startMesh pid doc failure st)
      | Stop \<Rightarrow> stopMesh st
      | Resume i ok answer \<Rightarrow>
          if i < length (tasks st)
          then resume_task W d d' now ok answer (tasks st ! i) (take_task i st) else st)"

text \<open>A run: every event with its clock and the random draws it may use.\<close>

record stimulus =
  st_now :: int
  st_draw1 :: draws
  st_draw2 :: draws
  st_event :: event

fun run_mesh :: "world \<Rightarrow> stimulus list \<Rightarrow> transport \<Rightarrow> transport" where
  "run_mesh W [] st = st"
| "run_mesh W (x # xs) st =
     run_mesh W xs (mesh_event W (st_draw1 x) (st_draw2 x) (st_now x) (st_event x) st)"

end
