(* ===== verification/Transport_Inv.thy ===== *)
theory Transport_Inv
  imports Transport
begin

text \<open>
  Invariants of the event loop of \<open>Transport\<close>: the contract \<open>mesh_invariant\<close> (what a property
  of the heap must survive to be kept by every event), its two instances (verdicts only move
  forward, and no data without the user's consent), and the properties of the facade.
\<close>

section \<open>Invariants of the event loop\<close>

text \<open>
  Invariants that read the heap, the map into it, the suspended tasks and what was handed
  over. \<open>mesh_invariant\<close> lists the changes the handlers are composed of; whatever these
  changes keep is kept by every event.
\<close>

abbreviation on_state ::
  "(crypto_state list \<Rightarrow> (string, nat) jsmap \<Rightarrow> task list \<Rightarrow> (string \<times> bytes) list \<Rightarrow> bool)
     \<Rightarrow> transport \<Rightarrow> bool" where
  "on_state I st \<equiv> I (heap st) (cryptoStates st) (tasks st) (handed st)"

definition quiet :: "(crypto_state \<Rightarrow> crypto_state) \<Rightarrow> bool" where
  "quiet f \<longleftrightarrow> (\<forall>c. cs_verdict (f c) = cs_verdict c \<and> cs_peerIdHex (f c) = cs_peerIdHex c)"

fun is_decrypting :: "task \<Rightarrow> bool" where
  "is_decrypting (Decrypting ref pd) = True"
| "is_decrypting _ = False"

locale mesh_invariant =
  fixes I :: "crypto_state list \<Rightarrow> (string, nat) jsmap \<Rightarrow> task list \<Rightarrow> (string \<times> bytes) list \<Rightarrow> bool"
    and allowed :: "string \<Rightarrow> bool"
  assumes upd_quiet: "I H C T D \<Longrightarrow> quiet f \<Longrightarrow> I (H[ref := f (H ! ref)]) C T D"
    and upd_reject: "I H C T D \<Longrightarrow> cs_verdict (H ! ref) = Pending \<Longrightarrow>
        I (H[ref := (H ! ref)\<lparr>cs_verdict := Rejected\<rparr>]) C T D"
    and upd_accept: "I H C T D \<Longrightarrow> ref \<in> snd ` set C \<Longrightarrow> cs_verdict (H ! ref) = Pending \<Longrightarrow>
        allowed (cs_peerIdHex (H ! ref)) \<Longrightarrow> I (H[ref := (H ! ref)\<lparr>cs_verdict := Accepted\<rparr>]) C T D"
    and alloc: "I H C T D \<Longrightarrow> cs_verdict cs = Pending \<Longrightarrow>
        I (H @ [cs]) (jm_set dev (length H) C) T D"
    and forget: "I H C T D \<Longrightarrow> I H (jm_delete dev C) T D"
    and forget_all: "I H C T D \<Longrightarrow> I H [] T D"
    and spawn_plain: "I H C T D \<Longrightarrow> \<not> is_decrypting t \<Longrightarrow> I H C (T @ [t]) D"
    and spawn_decrypt: "I H C T D \<Longrightarrow> ref \<in> snd ` set C \<Longrightarrow> cs_verdict (H ! ref) = Accepted \<Longrightarrow>
        I H C (T @ [Decrypting ref pd]) D"
    and take_one: "I H C T D \<Longrightarrow> i < length T \<Longrightarrow> I H C (take i T @ drop (Suc i) T) D"
    and deliver: "I H C T D \<Longrightarrow> i < length T \<Longrightarrow> T ! i = Decrypting ref pd \<Longrightarrow>
        I H C (take i T @ drop (Suc i) T) (D @ replicate n (cs_peerIdHex (H ! ref), pt))"
begin

lemma modify_quiet: "on_state I st \<Longrightarrow> quiet f \<Longrightarrow> on_state I (modify_cs ref f st)"
  by (simp add: modify_cs_def upd_quiet)

lemma set_rejected: "on_state I st \<Longrightarrow> on_state I (set_verdict ref Rejected st)"
  using upd_reject [of "heap st" _ _ _ ref] upd_quiet [of "heap st" _ _ _ "\<lambda>c. c" ref]
  by (simp add: set_verdict_def modify_cs_def transitionVerdict_def quiet_def)

lemma keep_notify: "on_state I st \<Longrightarrow> on_state I (notifyHandshakeChange st)"
  by (simp add: notifyHandshakeChange_def)

lemma keep_error: "on_state I st \<Longrightarrow> on_state I (set_error e st)"
  by (simp add: set_error_def)

lemma keep_spawn: "on_state I st \<Longrightarrow> \<not> is_decrypting t \<Longrightarrow> on_state I (spawn t st)"
  by (simp add: spawn_def spawn_plain)

lemma keep_alloc: "on_state I st \<Longrightarrow> on_state I (alloc_cs dev (new_cs P iden r hex now) st)"
  by (simp add: alloc_cs_def new_cs_def alloc)

lemma keep_fail: "on_state I st \<Longrightarrow> on_state I (failHandshake cs st)"
  by (auto simp: failHandshake_def split: option.splits intro!: keep_error keep_notify set_rejected)

lemma keep_reject_quietly: "on_state I st \<Longrightarrow> on_state I (reject_quietly ref st)"
  by (auto simp: reject_quietly_def intro!: keep_error set_rejected)

lemma keep_disconnect: "on_state I st \<Longrightarrow> on_state I (on_disconnect now dev st)"
  by (simp add: on_disconnect_def clearBackoff_def forget)

lemma keep_connection: "on_state I st \<Longrightarrow> on_state I (on_connection now dev up st)"
  by (simp add: on_connection_def keep_disconnect)

lemma keep_prune: "on_state I st \<Longrightarrow> on_state I (prune_backoff now es st)"
  by (induction now es st rule: prune_backoff.induct) simp_all

lemma keep_gc: "on_state I st \<Longrightarrow> on_state I (gc_tick now st)"
  by (auto simp: gc_tick_def Let_def intro!: keep_prune)

lemma keep_connect_failed: "on_state I st \<Longrightarrow> on_state I (connect_failed now dev st)"
  by (simp add: connect_failed_def nextBackoffMs_def Let_def)

lemma keep_subscribed: "on_state I st \<Longrightarrow> on_state I (subscribed now dev pid rssi st)"
  by (auto simp: subscribed_def Let_def intro!: keep_spawn)

lemma keep_mtu: "on_state I st \<Longrightarrow> on_state I (mtu_answered dev pid rssi answer st)"
  by (auto simp: mtu_answered_def intro!: keep_spawn)

lemma keep_initiate: "on_state I st \<Longrightarrow> on_state I (initiateHandshake P d now idn dev pid st)"
  by (auto simp: initiateHandshake_def Let_def split: option.splits prod.splits sum.splits
      intro!: keep_fail modify_quiet keep_alloc keep_spawn simp: quiet_def)

lemma keep_tofu: "on_state I st \<Longrightarrow> on_state I (tofu_step now ref st)"
  by (auto simp: tofu_step_def Let_def split: option.splits prod.splits
      intro!: keep_error modify_quiet simp: quiet_def)

lemma keep_finish: "on_state I st \<Longrightarrow> on_state I (finish_handshake P R now ref st)"
  by (auto simp: finish_handshake_def Let_def split: option.splits sum.splits
      intro!: keep_reject_quietly keep_fail keep_notify keep_tofu modify_quiet simp: quiet_def)

lemma keep_violation: "on_state I st \<Longrightarrow> on_state I (count_violation ref st)"
  by (auto simp: count_violation_def Let_def intro!: keep_reject_quietly modify_quiet simp: quiet_def)

lemma keep_advance: "on_state I st \<Longrightarrow> on_state I (advanceHandshake P R d d' now ref dev ft payload st)"
  by (auto simp: advanceHandshake_def Let_def split: prod.splits sum.splits noise_error.splits
      intro!: keep_reject_quietly keep_finish keep_violation keep_spawn modify_quiet simp: quiet_def)

lemma keep_session_frame: "on_state I st \<Longrightarrow> on_state I (session_frame R dev payload st)"
proof (cases "jm_get (cryptoStates st) dev")
  case (Some ref)
  assume inv: "on_state I st"
  have ref: "ref \<in> snd ` set (cryptoStates st)" using Some by (force dest: map_of_SomeD)
  let ?m = "\<lambda>s'. modify_cs ref (cs_session_update (\<lambda>_. Some s')) st"
  have m: "on_state I (?m s')" for s' using inv by (auto intro!: modify_quiet simp: quiet_def)
  have v: "cs_verdict (heap (?m s') ! ref) = cs_verdict (heap st ! ref)" for s'
    by (cases "ref < length (heap st)") (simp_all add: modify_cs_def list_update_beyond)
  have "on_state I (spawn (Decrypting ref pd) (?m s'))" if "cs_verdict (heap st ! ref) = Accepted" for s' pd
    using m [of s'] v [of s'] ref that by (auto simp: spawn_def modify_cs_def intro!: spawn_decrypt)
  then show ?thesis using m inv Some
    by (auto simp: session_frame_def decrypt_failed_def split: option.splits prod.splits sum.splits
        intro!: keep_error)
qed (simp add: session_frame_def)

lemma keep_timeouts: "on_state I st \<Longrightarrow> on_state I (timeout_walk now es st)"
proof (induction es arbitrary: st)
  case (Cons e es)
  have "on_state I (notifyHandshakeChange (set_error HandshakeFailed (set_verdict r Rejected st)))" for r
    using Cons.prems by (intro keep_notify keep_error set_rejected)
  then show ?case using Cons by (cases e) (simp add: Let_def)
qed simp

lemma keep_send: "on_state I st \<Longrightarrow> on_state I (fst (sendFrame R hex frame st))"
  by (auto simp: sendFrame_def Let_def split: option.splits prod.splits sum.splits
      intro!: keep_spawn modify_quiet simp: quiet_def)


lemma keep_accept:
  assumes inv: "on_state I st" and ok: "allowed hex"
  shows "on_state I (acceptPeer hex st)"
proof (cases "cs_for_peer hex st")
  case (Some ref)
  then have ref: "ref \<in> snd ` set (cryptoStates st)" "cs_peerIdHex (heap st ! ref) = hex"
    by (auto simp: cs_for_peer_def find_Some_iff)
  show ?thesis
    using upd_accept [OF inv ref(1)] ref(2) ok inv
    by (auto simp: acceptPeer_def Some set_verdict_def modify_cs_def transitionVerdict_def
        notifyHandshakeChange_def)
qed (simp add: acceptPeer_def inv)

lemma keep_rejectPeer: "on_state I st \<Longrightarrow> on_state I (rejectPeer hex st)"
  by (auto simp: rejectPeer_def split: option.splits intro!: keep_notify keep_error set_rejected)

lemma keep_responder_begin: "on_state I st \<Longrightarrow> on_state I (responder_begin dev ft payload st)"
  by (auto simp: responder_begin_def split: option.splits intro!: keep_spawn)

lemma keep_responder_resume:
  "on_state I st \<Longrightarrow> on_state I (responder_resume P R d d' now idn dev r hex ft payload st)"
  by (auto simp: responder_resume_def split: option.splits intro!: keep_fail keep_advance keep_alloc)

lemma keep_chunk: "on_state I st \<Longrightarrow> on_state I (handleIncomingChunk P R d d' now dev c st)"
  by (auto simp: handleIncomingChunk_def Let_def split: prod.splits sum.splits option.splits
      intro!: keep_session_frame keep_responder_begin keep_advance)

lemma keep_start: "on_state I st \<Longrightarrow> on_state I (fst (startMesh pid doc failure st))"
  by (auto simp: startMesh_def start_until_def set_error_def Let_def
      split: option.splits start_stage.splits)

lemma keep_stop: "on_state I st \<Longrightarrow> on_state I (stopMesh st)"
  by (simp add: stopMesh_def forget_all)

lemma keep_take: "on_state I st \<Longrightarrow> i < length (tasks st) \<Longrightarrow> on_state I (take_task i st)"
  by (simp add: take_task_def take_one)

lemma keep_decrypt:
  assumes inv: "on_state I st" and i: "i < length (tasks st)" "tasks st ! i = Decrypting ref pd"
  shows "on_state I (decrypt_resume R ref pd (take_task i st))"
proof (cases "cs_session (heap st ! ref)")
  case (Some s)
  obtain s' a where f: "decrypt_finish R s pd = (s', a)" by fastforce
  let ?st = "take_task i st"
  have q: "quiet (cs_session_update (\<lambda>_. Some s'))" by (simp add: quiet_def)
  show ?thesis
  proof (cases a)
    case (Inl e)
    then show ?thesis
      using f Some modify_quiet [OF keep_take [OF inv i(1)] q, of ref]
      by (simp add: decrypt_resume_def decrypt_failed_def take_task_def set_error_def)
  next
    case (Inr pt)
    have "I (heap st) (cryptoStates st) (tasks ?st)
        (handed st @ replicate (frameHandlers st) (cs_peerIdHex (heap st ! ref), pt))"
      using deliver [OF inv i] by (simp add: take_task_def)
    from upd_quiet [OF this q, of ref] show ?thesis
      using f Some Inr by (simp add: decrypt_resume_def take_task_def modify_cs_def)
  qed
qed (simp add: decrypt_resume_def take_task_def take_one [OF inv i(1)])

lemma keep_resume:
  assumes inv: "on_state I st" and i: "i < length (tasks st)"
  shows "on_state I (resume_task W d d' now ok answer (tasks st ! i) (take_task i st))"
proof -
  have t: "on_state I (take_task i st)" by (rule keep_take [OF inv i])
  have w: "on_state I (st'\<lparr>written := x\<rparr>)" if "on_state I st'" for st' x using that by simp
  show ?thesis
  proof (cases "tasks st ! i")
    case (Decrypting ref pd)
    then show ?thesis using keep_decrypt [OF inv i] by (simp add: resume_task_def)
  qed (use t in \<open>auto simp: resume_task_def split: list.splits
      intro!: keep_spawn keep_connect_failed keep_mtu keep_subscribed keep_initiate
        keep_responder_resume keep_fail keep_finish keep_reject_quietly\<close>)
qed

theorem event_preserves:
  assumes "on_state I st" and "\<And>hex. ev = Accept hex \<Longrightarrow> allowed hex"
  shows "on_state I (mesh_event W d d' now ev st)"
  using assms
  by (cases ev)
    (auto simp: mesh_event_def on_sighting_def checkHandshakeTimeouts_def onFrame_def offFrame_def
      intro!: keep_spawn keep_chunk keep_disconnect keep_connection keep_gc keep_timeouts
        keep_accept keep_rejectPeer keep_send keep_start keep_stop keep_resume)

theorem run_preserves:
  "on_state I st \<Longrightarrow> \<forall>hex. Accept hex \<in> st_event ` set xs \<longrightarrow> allowed hex \<Longrightarrow>
     on_state I (run_mesh W xs st)"
proof (induction xs arbitrary: st)
  case (Cons x xs)
  have "on_state I (mesh_event W (st_draw1 x) (st_draw2 x) (st_now x) (st_event x) st)"
    by (rule event_preserves [OF Cons.prems(1)]) (use Cons.prems(2) in auto)
  then show ?case using Cons by simp
qed simp

end


text \<open>Objects are never freed, verdicts only leave \<open>Pending\<close>, ids stay.\<close>

definition heap_le :: "crypto_state list \<Rightarrow> crypto_state list \<Rightarrow> bool" where
  "heap_le H H' \<longleftrightarrow> length H \<le> length H' \<and>
     (\<forall>ref < length H. cs_verdict (H ! ref) \<le> cs_verdict (H' ! ref)
        \<and> cs_peerIdHex (H' ! ref) = cs_peerIdHex (H ! ref))"

lemma Pending_le [simp]: "Pending \<le> v"
  by (simp add: less_eq_verdict_def)

lemma nth_upd: "(xs[i := x]) ! j = (if i = j \<and> i < length xs then x else xs ! j)"
  by (cases "i < length xs") (auto simp: nth_list_update list_update_beyond)

lemma heap_le_update:
  assumes "heap_le H0 H" "cs_verdict (H ! ref) \<le> cs_verdict c" "cs_peerIdHex c = cs_peerIdHex (H ! ref)"
  shows "heap_le H0 (H[ref := c])"
proof -
  have "cs_verdict (H0 ! r) \<le> cs_verdict (H[ref := c] ! r)
      \<and> cs_peerIdHex (H[ref := c] ! r) = cs_peerIdHex (H0 ! r)" if "r < length H0" for r
    using that assms by (cases "r = ref") (auto simp: heap_le_def nth_upd intro: order.trans)
  then show ?thesis using assms(1) by (simp add: heap_le_def)
qed

lemma heap_le_append: "heap_le H0 H \<Longrightarrow> heap_le H0 (H @ cs)"
  by (auto simp: heap_le_def nth_append)

interpretation mono: mesh_invariant "\<lambda>H C T D. heap_le H0 H" "\<lambda>_. True" for H0
  by unfold_locales (auto simp: quiet_def intro!: heap_le_update heap_le_append)

text \<open>
  Consent: with \<open>A\<close> the ids accepted so far, an accepted object, a session decryption under
  way and a frame handed over all belong to an id of \<open>A\<close>.
\<close>

definition consent ::
  "string set \<Rightarrow> crypto_state list \<Rightarrow> (string, nat) jsmap \<Rightarrow> task list \<Rightarrow> (string \<times> bytes) list \<Rightarrow> bool" where
  "consent A H C T D \<longleftrightarrow>
     (\<forall>ref < length H. cs_verdict (H ! ref) = Accepted \<longrightarrow> cs_peerIdHex (H ! ref) \<in> A)
     \<and> (\<forall>ref \<in> snd ` set C. ref < length H)
     \<and> (\<forall>ref pd. Decrypting ref pd \<in> set T \<longrightarrow> ref < length H \<and> cs_verdict (H ! ref) = Accepted)
     \<and> (\<forall>x \<in> set D. fst x \<in> A)"

lemma consent_update:
  assumes "consent A H C T D"
    and "cs_verdict c = cs_verdict (H ! ref) \<or>
      cs_verdict (H ! ref) = Pending \<and> (cs_verdict c = Accepted \<longrightarrow> cs_peerIdHex (H ! ref) \<in> A)"
    and "cs_peerIdHex c = cs_peerIdHex (H ! ref)"
  shows "consent A (H[ref := c]) C T D"
  using assms by (fastforce simp: consent_def nth_upd)

lemma set_take_drop: "set (take i T @ drop (Suc i) T) \<subseteq> set T"
  by (auto dest: in_set_takeD in_set_dropD)

lemma consent_fewer_tasks: "consent A H C T D \<Longrightarrow> set T' \<subseteq> set T \<Longrightarrow> consent A H C T' D"
  unfolding consent_def by (meson subsetD)

lemma consent_alloc:
  assumes c: "consent A H C T D" and v: "cs_verdict cs = Pending"
  shows "consent A (H @ [cs]) (jm_set dev (length H) C) T D"
proof -
  have "\<forall>ref < length (H @ [cs]). cs_verdict ((H @ [cs]) ! ref) = Accepted
      \<longrightarrow> cs_peerIdHex ((H @ [cs]) ! ref) \<in> A"
    using c v by (auto simp: consent_def nth_append)
  moreover have "ref < length (H @ [cs])" if "ref \<in> snd ` set (jm_set dev (length H) C)" for ref
    using that c set_jm_set [of dev "length H" C] by (auto simp: consent_def less_Suc_eq)
  moreover have "ref < length (H @ [cs]) \<and> cs_verdict ((H @ [cs]) ! ref) = Accepted"
    if "Decrypting ref pd \<in> set T" for ref pd
    using that c by (auto simp: consent_def nth_append)
  moreover have "\<forall>x \<in> set D. fst x \<in> A" using c by (simp add: consent_def)
  ultimately show ?thesis unfolding consent_def by blast
qed

interpretation agreed: mesh_invariant "consent A" "\<lambda>hex. hex \<in> A" for A
proof unfold_locales
  fix H C T D f and ref :: nat assume "consent A H C T D" "quiet f"
  then show "consent A (H[ref := f (H ! ref)]) C T D" by (auto simp: quiet_def intro: consent_update)
next
  fix H C T D and ref :: nat assume "consent A H C T D" "cs_verdict (H ! ref) = Pending"
  then show "consent A (H[ref := (H ! ref)\<lparr>cs_verdict := Rejected\<rparr>]) C T D"
    by (auto intro: consent_update)
next
  fix H C T D and ref :: nat
  assume "consent A H C T D" "cs_verdict (H ! ref) = Pending" "cs_peerIdHex (H ! ref) \<in> A"
  then show "consent A (H[ref := (H ! ref)\<lparr>cs_verdict := Accepted\<rparr>]) C T D"
    by (auto intro: consent_update)
next
  fix H C T D and cs :: crypto_state and dev :: string
  assume "consent A H C T D" "cs_verdict cs = Pending"
  then show "consent A (H @ [cs]) (jm_set dev (length H) C) T D" by (rule consent_alloc)
next
  fix H C T D and dev :: string assume c: "consent A H C T D"
  then show "consent A H (jm_delete dev C) T D" by (auto simp: consent_def AList.delete_eq)
next
  fix H C T D and i :: nat assume "consent A H C T D" "i < length T"
  then show "consent A H C (take i T @ drop (Suc i) T) D"
    by (intro consent_fewer_tasks [OF _ set_take_drop])
next
  fix H C T D pd pt and i n ref :: nat
  assume c: "consent A H C T D" "i < length T" "T ! i = Decrypting ref pd"
  then have "Decrypting ref pd \<in> set T" by (metis nth_mem)
  with c(1) have "cs_peerIdHex (H ! ref) \<in> A" by (auto simp: consent_def)
  with c(1) have "consent A H C T (D @ replicate n (cs_peerIdHex (H ! ref), pt))"
    by (auto simp: consent_def)
  then show "consent A H C (take i T @ drop (Suc i) T) (D @ replicate n (cs_peerIdHex (H ! ref), pt))"
    by (rule consent_fewer_tasks [OF _ set_take_drop])
qed (auto simp: consent_def)


lemma run_mono: "heap_le (heap st) (heap (run_mesh W xs st))"
  by (rule mono.run_preserves) (simp_all add: heap_le_def)

lemma run_consent:
  "consent (Accept -` (st_event ` set xs)) (heap (run_mesh W xs (new_transport env)))
     (cryptoStates (run_mesh W xs (new_transport env))) (tasks (run_mesh W xs (new_transport env)))
     (handed (run_mesh W xs (new_transport env)))"
  by (rule agreed.run_preserves) (auto simp: consent_def new_transport_def)

section \<open>Roles, violations, the size of a reply\<close>

lemma hex_val_digit: "n < 16 \<Longrightarrow> hex_val (hex_digit n) = n"
  by (auto simp: hex_val_def hex_digit_def Let_def)

lemma from_to_hex: "from_hex (to_hex bs) = bs"
proof (induction bs)
  case (Cons b bs)
  have "unat b div 16 < 16" using unat_byte_less [of b] by simp
  then have "hex_val (hex_digit (unat b div 16)) = unat b div 16" by (rule hex_val_digit)
  moreover have "hex_val (hex_digit (unat b mod 16)) = unat b mod 16" by (rule hex_val_digit) simp
  moreover have "16 * (unat b div 16) + unat b mod 16 = unat b" by simp
  ultimately show ?case
    using Cons by (simp add: to_hex_def hex_byte_def del: of_nat_add of_nat_mult of_nat_numeral)
qed (simp add: to_hex_def)

lemma roleFor_swap:
  "length a = length b \<Longrightarrow> a \<noteq> b \<Longrightarrow> roleFor b a \<noteq> roleFor a b"
  by (induction a b rule: list_induct2) auto

definition violates :: "noise_error + bytes \<Rightarrow> bool" where
  "violates a = (case a of Inl (NoiseStateError r i) \<Rightarrow> False | Inl e \<Rightarrow> True | Inr m \<Rightarrow> False)"

lemma advance_violation:
  assumes "readMessage P d (cs_handshake (heap st ! ref)) m = (h, a)" "violates a"
  shows "advanceHandshake P R d d' now ref dev ft m st =
    count_violation ref (modify_cs ref (cs_handshake_update (\<lambda>_. h)) st)"
  using assms by (auto simp: advanceHandshake_def violates_def Let_def split: sum.splits noise_error.splits)

lemma ceil_div_1216: "0 < d \<Longrightarrow> ceil_div 1216 d \<le> 16 \<longleftrightarrow> 76 \<le> d"
proof -
  assume d: "0 < d"
  have "ceil_div 1216 d \<le> 16 \<longleftrightarrow> (1216 + d - 1) div d < 17" by (auto simp: ceil_div_def)
  also have "\<dots> \<longleftrightarrow> 1216 + d - 1 < 17 * d" using d by (rule div_less_iff_less_mult)
  finally show ?thesis using d by linarith
qed

lemma chunk_1216:
  assumes "length m = 1216"
  shows "(\<exists>cs. chunkFrame m mtu ft = Inr cs) \<longleftrightarrow> 80 \<le> mtu"
proof (cases "mtu \<le> 4")
  case False
  then have "0 < nat (mtu - 4)" by simp
  from ceil_div_1216 [OF this] show ?thesis
    using assms False by (auto simp: chunkFrame_def frame_consts Let_def ceil_div_def div_eq_0_iff)
qed (simp add: chunkFrame_def assms frame_consts)

text \<open>The reader of the first message draws for ML-KEM, the writer of the second for X25519.\<close>

lemma readMsg1_draws: "d_kem d = d_kem d' \<Longrightarrow> msgIdx c = 0 \<Longrightarrow> readMessage P d c m = readMessage P d' c m"
  by (simp add: readMessage_def readMsg1_def)

lemma writeMsg2_draws: "d_eph d = d_eph d' \<Longrightarrow> msgIdx c = 1 \<Longrightarrow> writeMessage P d c m = writeMessage P d' c m"
proof -
  assume e: "d_eph d = d_eph d'" and i: "msgIdx c = 1"
  have "writeMsg2 P d = writeMsg2 P d'" unfolding writeMsg2_def e ..
  then show ?thesis using i by (simp add: writeMessage_def)
qed

text \<open>The two steps of an honest responder on an honest first message.\<close>

lemma responder_exchange:
  assumes P: "noise_laws P" and idR: "identity_of P xR iden"
    and w: "writeMessage P dI (new_handshake P InitiatorRole idI) [] = (i, Inr m1)"
  obtains r r' m2 where "readMessage P d (new_handshake P ResponderRole iden) m1 = (r, Inr [])"
    "writeMessage P d' r [] = (r', Inr m2)" "length m2 = 1216"
proof -
  let ?d = "\<lparr>d_eph = d_eph d', d_kem = d_kem d\<rparr>"
  obtain i1 r1 m where 1: "writeMessage P dI (new_handshake P InitiatorRole idI) [] = (i1, Inr m)"
    "readMessage P ?d (new_handshake P ResponderRole iden) m = (r1, Inr [])"
    "after_msg1 P dI ?d i1 r1" "hs_id r1 = iden"
    using msg1_exchange [OF P, of "new_handshake P InitiatorRole idI" "new_handshake P ResponderRole iden" "[]" dI ?d]
      new_handshake_ns by (metis new_handshake_fields le0 list.size(3))
  have "identity_of P xR (hs_id r1)" using idR 1(4) by simp
  then obtain r2 m2 where 2: "writeMessage P ?d r1 [] = (r2, Inr m2)" "length m2 = 1216"
    by (rule msg2_exchange [OF P 1(3), of xR "[]"]) auto
  have idx: "msgIdx r1 = 1" using 1(3) by (simp add: after_msg1_def)
  show thesis
  proof (rule that)
    show "readMessage P d (new_handshake P ResponderRole iden) m1 = (r1, Inr [])"
      using 1(1,2) w readMsg1_draws [of d ?d "new_handshake P ResponderRole iden" P m1] by simp
    show "writeMessage P d' r1 [] = (r2, Inr m2)"
      using 2(1) writeMsg2_draws [of d' ?d r1 P "[]"] idx by simp
  qed (rule 2(2))
qed

section \<open>A device that is backing off\<close>

fun attempts :: "string \<Rightarrow> task \<Rightarrow> bool" where
  "attempts dev (Connecting d p r) = (d = dev)"
| "attempts dev (MtuQuery d p r) = (d = dev)"
| "attempts dev (Subscribing d p r) = (d = dev)"
| "attempts dev _ = False"

definition cooling :: "int \<Rightarrow> string \<Rightarrow> transport \<Rightarrow> bool" where
  "cooling t dev st \<longleftrightarrow> jm_wf (backoff st) \<and> jm_get (backoff st) dev = Some t
     \<and> \<not> list_ex (attempts dev) (tasks st)"

lemma cooling_basic [simp]:
  "cooling t dev (modify_cs ref f st) = cooling t dev st"
  "cooling t dev (set_verdict ref v st) = cooling t dev st"
  "cooling t dev (notifyHandshakeChange st) = cooling t dev st"
  "cooling t dev (set_error e st) = cooling t dev st"
  "cooling t dev (alloc_cs d cs st) = cooling t dev st"
  "cooling t dev (reject_quietly ref st) = cooling t dev st"
  "cooling t dev (spawn task st) = (cooling t dev st \<and> \<not> attempts dev task)"
  by (auto simp: cooling_def modify_cs_def set_verdict_def notifyHandshakeChange_def set_error_def
      alloc_cs_def reject_quietly_def spawn_def)

lemma cooling_fail [simp]: "cooling t dev (failHandshake cs st) = cooling t dev st"
  by (auto simp: failHandshake_def split: option.split)

lemma cooling_fields [simp]:
  "cooling t dev (st\<lparr>tofu := x1\<rparr>) = cooling t dev st"
  "cooling t dev (st\<lparr>written := x2\<rparr>) = cooling t dev st"
  "cooling t dev (st\<lparr>handed := x3\<rparr>) = cooling t dev st"
  "cooling t dev (st\<lparr>reassemblers := x4\<rparr>) = cooling t dev st"
  "cooling t dev (st\<lparr>mtuCache := x5\<rparr>) = cooling t dev st"
  "cooling t dev (st\<lparr>connectedDevices := x6\<rparr>) = cooling t dev st"
  "cooling t dev (st\<lparr>frameHandlers := x7\<rparr>) = cooling t dev st"
  "cooling t dev (st\<lparr>registry := x8, peers := x9\<rparr>) = cooling t dev st"
  by (simp_all add: cooling_def)

lemma cooling_disconnect:
  "cooling t dev st \<Longrightarrow> now < t \<Longrightarrow> cooling t dev (on_disconnect now d st)"
  by (auto simp: cooling_def on_disconnect_def clearBackoff_def retry_at_def jm_get_delete)


lemma cooling_connection:
  "cooling t dev st \<Longrightarrow> now < t \<Longrightarrow> cooling t dev (on_connection now d up st)"
  by (simp add: on_connection_def cooling_disconnect)

lemma cooling_prune: "cooling t dev st \<Longrightarrow> now < t \<Longrightarrow>
    \<forall>x \<in> set es. fst x = dev \<longrightarrow> snd x = t \<Longrightarrow> cooling t dev (prune_backoff now es st)"
proof (induction now es st rule: prune_backoff.induct)
  case (2 now d x es st)
  have "cooling t dev (if x \<le> now then st\<lparr>backoff := jm_delete d (backoff st),
      backoffCounts := jm_delete d (backoffCounts st)\<rparr> else st)"
    using "2.prems" by (auto simp: cooling_def jm_get_delete)
  then show ?case using 2 by simp
qed simp

lemma cooling_gc: "cooling t dev st \<Longrightarrow> now < t \<Longrightarrow> cooling t dev (gc_tick now st)"
  unfolding gc_tick_def Let_def
  by (rule cooling_prune) (auto simp: cooling_def jm_wf_def)

lemma cooling_sighting: "cooling t dev st \<Longrightarrow> now < t \<Longrightarrow> cooling t dev (on_sighting now d pid rssi st)"
  by (auto simp: on_sighting_def retry_at_def) (simp_all add: cooling_def)

lemma cooling_finish [simp]: "cooling t dev (finish_handshake P R now ref st) = cooling t dev st"
  by (auto simp: finish_handshake_def tofu_step_def Let_def split: option.split sum.split prod.split)

lemma cooling_advance: "cooling t dev st \<Longrightarrow> cooling t dev (advanceHandshake P R d d' now ref dv ft m st)"
  by (auto simp: advanceHandshake_def count_violation_def Let_def
      split: prod.split sum.split noise_error.split)

lemma cooling_chunk: "cooling t dev st \<Longrightarrow> cooling t dev (handleIncomingChunk P R d d' now dv c st)"
  by (auto simp: handleIncomingChunk_def session_frame_def responder_begin_def decrypt_failed_def Let_def
      split: prod.split sum.split option.split intro!: cooling_advance)

lemma cooling_initiate:
  "cooling t dev st \<Longrightarrow> cooling t dev (initiateHandshake P d now idn dv pid st)"
  by (auto simp: initiateHandshake_def Let_def split: prod.split sum.split option.split)

lemma cooling_timeouts: "cooling t dev st \<Longrightarrow> cooling t dev (timeout_walk now es st)"
  by (induction now es st rule: timeout_walk.induct) (auto simp: Let_def)

lemma cooling_start: "cooling t dev st \<Longrightarrow> cooling t dev (fst (startMesh pid doc failure st))"
  by (auto simp: startMesh_def start_until_def set_error_def cooling_def Let_def
      split: option.split start_stage.split)

lemma cooling_send: "cooling t dev st \<Longrightarrow> cooling t dev (fst (sendFrame R hex frame st))"
  by (auto simp: sendFrame_def Let_def split: option.split prod.split sum.split)

lemma cooling_resume:
  assumes c: "cooling t dev st" and i: "i < length (tasks st)"
  shows "cooling t dev (resume_task W d d' now ok answer (tasks st ! i) (take_task i st))"
proof -
  have na: "\<not> attempts dev (tasks st ! i)" using c i by (auto simp: cooling_def list_ex_iff)
  have t: "cooling t dev (take_task i st)"
    using c by (auto simp: cooling_def take_task_def list_ex_iff dest: in_set_takeD in_set_dropD)
  have cf: "cooling t dev (connect_failed now dv (take_task i st))" if "dv \<noteq> dev" for dv
    using t that by (auto simp: cooling_def connect_failed_def nextBackoffMs_def Let_def jm_get_set)
  have sb: "cooling t dev (subscribed now dv p r (take_task i st))" if "dv \<noteq> dev" for dv p r
    using t that by (auto simp: cooling_def subscribed_def spawn_def Let_def jm_get_delete)
  show ?thesis using na t cf sb cooling_initiate [OF t] cooling_advance
    by (cases "tasks st ! i") (auto simp: resume_task_def mtu_answered_def responder_resume_def
        decrypt_resume_def decrypt_failed_def split: list.split option.split prod.split sum.split)
qed

lemma cooling_event:
  "cooling t dev st \<Longrightarrow> now < t \<Longrightarrow> ev \<noteq> Stop \<Longrightarrow> cooling t dev (mesh_event W d d' now ev st)"
  by (cases ev) (auto simp: mesh_event_def onFrame_def offFrame_def checkHandshakeTimeouts_def acceptPeer_def rejectPeer_def
      cooling_sighting cooling_chunk cooling_disconnect cooling_connection cooling_gc cooling_timeouts
      cooling_send cooling_start cooling_resume split: option.split)

lemma cooling_run:
  "cooling t dev st \<Longrightarrow> \<forall>x \<in> set xs. st_now x < t \<and> st_event x \<noteq> Stop \<Longrightarrow> cooling t dev (run_mesh W xs st)"
  by (induction xs arbitrary: st) (auto simp: cooling_event)

section \<open>Properties\<close>

text \<open>A concrete world, for the witnesses.\<close>

definition sample_env :: tofu_env where
  "sample_env = \<lparr>has_ls = False, ls_content = Absent, ls_refuses = False, tofuMemStore = None\<rparr>"

definition sample_draws :: draws where
  "sample_draws = \<lparr>d_eph = [5], d_kem = [6]\<rparr>"

definition sample_world :: world where
  "sample_world = \<lparr>w_noise = sample_noise, w_ratchet = sample_prims, w_identity = Some (sample_identity 1)\<rparr>"

text \<open>C13: A verdict is final: whatever happens afterwards (late timeouts, failed handshakes, repeated
  decisions, reconnects), an object that was accepted or rejected keeps that verdict, and a
  pending one keeps its peer id.\<close>

theorem verdict_final:
  assumes "ref < length (heap st)"
  shows "cs_verdict (heap st ! ref) \<le> cs_verdict (heap (run_mesh W xs st) ! ref)
    \<and> cs_peerIdHex (heap (run_mesh W xs st) ! ref) = cs_peerIdHex (heap st ! ref)"
  using run_mono assms by (simp add: heap_le_def)

theorem verdict_final_witness:
  "cs_verdict (heap (run_mesh sample_world [\<lparr>st_now = 99999, st_draw1 = sample_draws, st_draw2 = sample_draws, st_event = TimeoutTick\<rparr>,
       \<lparr>st_now = 0, st_draw1 = sample_draws, st_draw2 = sample_draws, st_event = Reject ''p''\<rparr>]
     (alloc_cs ''p'' ((new_cs sample_noise (sample_identity 1) ResponderRole ''p'' 0)\<lparr>cs_verdict := Accepted\<rparr>) (new_transport sample_env))) ! 0)
   = Accepted"
  using verdict_final [of 0 "alloc_cs ''p'' ((new_cs sample_noise (sample_identity 1) ResponderRole ''p'' 0)\<lparr>cs_verdict := Accepted\<rparr>)
      (new_transport sample_env)" sample_world]
  by (simp add: alloc_cs_def new_transport_def less_eq_verdict_def del: run_mesh.simps)

text \<open>C6: No data without consent: from a fresh start, over any interleaving of radio events, resumed
  continuations and API calls, a decrypted frame is handed to the application under a peer id
  only if the user has called acceptPeer with this id.\<close>

theorem data_needs_consent:
  "fst ` set (handed (run_mesh W xs (new_transport env))) \<subseteq> {hex. Accept hex \<in> st_event ` set xs}"
  using run_consent [where xs = xs and W = W and env = env] by (auto simp: consent_def)

text \<open>Note: sendFrame sends only to accepted peers: it succeeds only with an accepted state and an
  established session for the device it resolves, and then queues exactly the chunks of one
  encrypted frame; an unknown or unaccepted peer is refused and nothing changes.\<close>

theorem sendFrame_gate:
  "case sendFrame R hex frame st of
     (st', Inr _) \<Rightarrow> (\<exists>dev ref s chunks. device_of hex st = Some dev
       \<and> jm_get (cryptoStates st) dev = Some ref \<and> cs_verdict (heap st ! ref) = Accepted
       \<and> cs_session (heap st ! ref) = Some s
       \<and> chunkFrame (snd (encrypt R s frame [])) (mtu_of st dev) SessionData = Inr chunks
       \<and> tasks st' = tasks st @ [SendData dev chunks])
   | (st', Inl (FrameTooLong e)) \<Rightarrow> tasks st' = tasks st \<and> written st' = written st
   | (st', Inl _) \<Rightarrow> st' = st"
  by (auto simp: sendFrame_def Let_def spawn_def modify_cs_def mtu_of_def
      split: option.splits prod.splits sum.splits)



text \<open>Note: Peers agree on who starts: for two different ids of the same length exactly one side takes the
  initiator's role, also when a side has rebuilt the other's id from the registry's hexadecimal.\<close>

theorem roles_complementary:
  assumes "length a = length b" and "a \<noteq> b"
  shows "roleFor a b \<noteq> roleFor b (from_hex (to_hex a))"
  using roleFor_swap [OF assms] by (auto simp: from_to_hex)

theorem roles_complementary_witness:
  "roleFor [1, 2] [1, 3] \<noteq> roleFor [1, 3] (from_hex (to_hex [1, 2]))"
  by (rule roles_complementary) simp_all

text \<open>Note: Three strikes: a frame that the handshake object rejects as out of turn leaves the whole state as
  it was; a violation is counted on this device's object only, the first two keep the verdict,
  and the third rejects a pending peer and sets the error but runs no change notification.\<close>

theorem handshake_strikes:
  assumes "ref < length (heap st)"
    and "readMessage P d (cs_handshake (heap st ! ref)) m = (h, a)" and "violates a"
    and "st' = advanceHandshake P R d d' now ref dev ft m st"
  shows "handshakeFailures (heap st' ! ref) = Suc (handshakeFailures (heap st ! ref))
    \<and> cs_verdict (heap st' ! ref) =
        (if handshakeFailures (heap st ! ref) \<ge> 2 \<and> cs_verdict (heap st ! ref) = Pending then Rejected
         else cs_verdict (heap st ! ref))
    \<and> m_error st' = (if handshakeFailures (heap st ! ref) \<ge> 2 then Some HandshakeFailed else m_error st)
    \<and> notified st' = notified st \<and> tasks st' = tasks st \<and> cryptoStates st' = cryptoStates st"
  using assms(1) unfolding assms(4) advance_violation [OF assms(2,3)]
  by (simp add: count_violation_def reject_quietly_def set_verdict_def modify_cs_def set_error_def
      transitionVerdict_def Let_def)

theorem handshake_strikes_witness:
  "cs_verdict (heap (advanceHandshake sample_noise sample_prims sample_draws sample_draws 0 0 ''a'' HandshakeMsg1 []
     (alloc_cs ''a'' (new_cs sample_noise (sample_identity 1) ResponderRole ''a'' 0 \<lparr>handshakeFailures := 2\<rparr>)
       (new_transport sample_env))) ! 0) = Rejected"
proof -
  let ?st = "alloc_cs ''a'' (new_cs sample_noise (sample_identity 1) ResponderRole ''a'' 0
    \<lparr>handshakeFailures := 2\<rparr>) (new_transport sample_env)"
  have l: "0 < length (heap ?st)" and hs: "cs_handshake (heap ?st ! 0)
      = new_handshake sample_noise ResponderRole (sample_identity 1)"
    and v: "cs_verdict (heap ?st ! 0) = Pending" "handshakeFailures (heap ?st ! 0) = 2"
    by (simp_all add: alloc_cs_def new_transport_def new_cs_def)
  have r: "readMessage sample_noise sample_draws (cs_handshake (heap ?st ! 0)) [] =
      (cs_handshake (heap ?st ! 0), Inl Msg1TooShort)"
    unfolding hs by (simp add: readMessage_def readMsg1_def noise_consts)
  have "violates (Inl Msg1TooShort)" by (simp add: violates_def)
  from handshake_strikes [OF l r this refl] v show ?thesis by simp
qed

text \<open>C31: The responder can answer only over a large MTU: on an honest first message from a connected device
  the second message of 1216 bytes is queued when the cached MTU is at least 80; with a smaller
  one, in particular the default 23 of a device that only connected to us (for which no MTU was
  ever negotiated), it does not fit sixteen chunks and the peer is rejected without an answer.\<close>

theorem responder_reply_needs_mtu:
  assumes "noise_laws P" and "identity_of P xR iden"
    and "jm_has (connectedDevices st) dev" and "\<not> jm_has (cryptoStates st) dev"
    and "writeMessage P dI (new_handshake P InitiatorRole idI) [] = (i, Inr m1)"
    and "st' = responder_resume P R d d' now (Some iden) dev ResponderRole hex HandshakeMsg1 m1 st"
  shows "if 80 \<le> mtu_of st dev
    then cs_verdict (heap st' ! length (heap st)) = Pending
      \<and> (\<exists>chunks. tasks st' = tasks st @ [SendReply (length (heap st)) dev chunks])
    else cs_verdict (heap st' ! length (heap st)) = Rejected \<and> tasks st' = tasks st
      \<and> m_error st' = Some HandshakeFailed"
proof -
  obtain r r' m2 where x: "readMessage P d (new_handshake P ResponderRole iden) m1 = (r, Inr [])"
    "writeMessage P d' r [] = (r', Inr m2)" "length m2 = 1216"
    by (rule responder_exchange [OF assms(1,2,5)])
  have st': "st' = advanceHandshake P R d d' now (length (heap st)) dev HandshakeMsg1 m1
      (alloc_cs dev (new_cs P iden ResponderRole hex now) st)"
    using assms(3,4) by (simp add: assms(6) responder_resume_def)
  note fits = chunk_1216 [OF x(3), of "mtu_of st dev" HandshakeMsg2]
  show ?thesis
  proof (cases "80 \<le> mtu_of st dev")
    case True
    then obtain cs where "chunkFrame m2 (mtu_of st dev) HandshakeMsg2 = Inr cs" using fits by blast
    then show ?thesis using True x unfolding st'
      by (auto simp: advanceHandshake_def new_cs_def alloc_cs_def modify_cs_def spawn_def mtu_of_def Let_def)
  next
    case False
    then obtain e where "chunkFrame m2 (mtu_of st dev) HandshakeMsg2 = Inl e"
      using fits by (cases "chunkFrame m2 (mtu_of st dev) HandshakeMsg2") auto
    then show ?thesis using False x unfolding st'
      by (auto simp: advanceHandshake_def new_cs_def alloc_cs_def modify_cs_def mtu_of_def Let_def
          reject_quietly_def set_error_def set_verdict_def transitionVerdict_def)
  qed
qed


theorem responder_reply_needs_mtu_witness:
  "\<exists>m1. cs_verdict (heap (responder_resume sample_noise sample_prims sample_draws sample_draws 0 (Some (sample_identity 2)) ''a''
      ResponderRole ''a'' HandshakeMsg1 m1 (on_connection 0 ''a'' True (new_transport sample_env))) ! 0) = Rejected"
proof -
  let ?st = "on_connection 0 ''a'' True (new_transport sample_env)"
  have st: "jm_has (connectedDevices ?st) ''a''" "\<not> jm_has (cryptoStates ?st) ''a''"
    "mtu_of ?st ''a'' = 23" "heap ?st = []"
    by (simp_all add: on_connection_def new_transport_def mtu_of_def GATT_MTU_DEFAULT_def jm_has_def)
  obtain i m1 where w: "writeMessage sample_noise sample_draws
      (new_handshake sample_noise InitiatorRole (sample_identity 1)) [] = (i, Inr m1)"
    using msg1_exchange [OF sample_noise_laws, of "new_handshake sample_noise InitiatorRole (sample_identity 1)"
        "new_handshake sample_noise ResponderRole (sample_identity 1)" "[]"] new_handshake_ns
    by (metis new_handshake_fields le0 list.size(3))
  from responder_reply_needs_mtu [OF sample_noise_laws sample_identity_of [of 2] st(1,2) w refl,
      where R = sample_prims and d = sample_draws and d' = sample_draws and now = 0 and hex = "''a''"] st(3,4)
  show ?thesis by (intro exI [of _ m1]) simp
qed

definition expired :: "int \<Rightarrow> transport \<Rightarrow> string \<times> nat \<Rightarrow> bool" where
  "expired now st e \<longleftrightarrow> cs_verdict (heap st ! snd e) = Pending \<and> cs_session (heap st ! snd e) = None
     \<and> jm_has (connectedDevices st) (fst e) \<and> now - handshakeStartedAt (heap st ! snd e) > 15000"

lemma timeout_walk_exact:
  assumes "distinct (map snd es)" "\<forall>e \<in> set es. snd e < length (heap st)"
  shows "(\<forall>ref. heap (timeout_walk now es st) ! ref =
      (if \<exists>dev. (dev, ref) \<in> set es \<and> expired now st (dev, ref)
       then (heap st ! ref)\<lparr>cs_verdict := Rejected\<rparr> else heap st ! ref))
    \<and> notified (timeout_walk now es st) = notified st + length (filter (expired now st) es)"
  using assms
proof (induction es arbitrary: st)
  case (Cons e es)
  obtain dev ref where e: "e = (dev, ref)" by fastforce
  let ?hit = "notifyHandshakeChange (set_error HandshakeFailed (set_verdict ref Rejected st))"
  let ?st = "if expired now st e then ?hit else st"
  have step: "timeout_walk now (e # es) st = timeout_walk now es ?st"
    by (auto simp: e Let_def expired_def HANDSHAKE_TIMEOUT_MS_def)
  have heap: "heap ?st ! r = (if expired now st e \<and> r = ref then (heap st ! r)\<lparr>cs_verdict := Rejected\<rparr>
      else heap st ! r)" for r
    using Cons.prems by (auto simp: e notifyHandshakeChange_def set_error_def set_verdict_def
        modify_cs_def transitionVerdict_def expired_def)
  have len: "length (heap ?st) = length (heap st)" and con: "connectedDevices ?st = connectedDevices st"
    and nt: "notified ?st = notified st + (if expired now st e then 1 else 0)"
    by (simp_all add: notifyHandshakeChange_def set_error_def set_verdict_def modify_cs_def)
  have new: "ref \<noteq> snd x" if "x \<in> set es" for x using Cons.prems(1) that by (force simp: e)
  have same: "expired now ?st x = expired now st x" if "x \<in> set es" for x
    using new [OF that] con heap [of "snd x"] unfolding expired_def by auto
  have "filter (expired now ?st) es = filter (expired now st) es"
    by (rule filter_cong) (use same in auto)
  moreover have "(\<exists>dev. (dev, r) \<in> set es \<and> expired now ?st (dev, r))
      = (\<exists>dev. (dev, r) \<in> set es \<and> expired now st (dev, r))" for r
    using same by blast
  moreover have "\<not> (\<exists>dev. (dev, ref) \<in> set es)" using new by force
  moreover have d: "distinct (map snd es)" "\<forall>e \<in> set es. snd e < length (heap ?st)"
    using Cons.prems len by simp_all
  ultimately show ?case using Cons.IH [OF d] heap nt unfolding step by (auto simp: e)
qed simp

text \<open>Note: Timeouts are exact: a tick of checkHandshakeTimeouts rejects precisely the objects that are
  pending, have no session, belong to a device still connected and were started more than
  fifteen seconds ago, notifies once for each, and changes no other object.\<close>

theorem timeouts_exact:
  assumes "distinct (map snd (cryptoStates st))" and "\<forall>e \<in> set (cryptoStates st). snd e < length (heap st)"
  shows "(\<forall>ref. heap (checkHandshakeTimeouts now st) ! ref =
      (if \<exists>dev. (dev, ref) \<in> set (cryptoStates st) \<and> expired now st (dev, ref)
       then (heap st ! ref)\<lparr>cs_verdict := Rejected\<rparr> else heap st ! ref))
    \<and> notified (checkHandshakeTimeouts now st)
        = notified st + length (filter (expired now st) (cryptoStates st))"
  unfolding checkHandshakeTimeouts_def by (rule timeout_walk_exact [OF assms])

theorem timeouts_exact_witness:
  "cs_verdict (heap (checkHandshakeTimeouts 15001 (alloc_cs ''a'' (new_cs sample_noise (sample_identity 1) ResponderRole ''a'' 0)
      (on_connection 0 ''a'' True (new_transport sample_env)))) ! 0) = Rejected"
proof -
  let ?st = "alloc_cs ''a'' (new_cs sample_noise (sample_identity 1) ResponderRole ''a'' 0)
      (on_connection 0 ''a'' True (new_transport sample_env))"
  have m: "cryptoStates ?st = [(''a'', 0)]" "length (heap ?st) = 1"
    and e: "expired 15001 ?st (''a'', 0)"
    by (simp_all add: alloc_cs_def new_cs_def on_connection_def new_transport_def expired_def jm_has_def)
  have "heap (checkHandshakeTimeouts 15001 ?st) ! 0 =
      (if \<exists>dev. (dev, 0) \<in> set (cryptoStates ?st) \<and> expired 15001 ?st (dev, 0)
       then (heap ?st ! 0)\<lparr>cs_verdict := Rejected\<rparr> else heap ?st ! 0)"
    using timeouts_exact [of ?st 15001] m by (simp del: split_paired_Ex)
  then show ?thesis using e m(1) by auto
qed

definition at_time_one :: "event \<Rightarrow> stimulus" where
  "at_time_one e = \<lparr>st_now = 1, st_draw1 = \<lparr>d_eph = [], d_kem = []\<rparr>,
     st_draw2 = \<lparr>d_eph = [], d_kem = []\<rparr>, st_event = e\<rparr>"

text \<open>Note: The connection limit is not kept: the guards look at established connections only, so seven
  devices sighted while none of the connects has finished all get connected, one above the
  limit; for the same reason two sightings of one device start two connects.\<close>

theorem connection_limit_overrun:
  "length (connectedDevices (run_mesh W (map (\<lambda>dev. at_time_one (Sighting dev [] None))
       [''1'', ''2'', ''3'', ''4'', ''5'', ''6'', ''7''] @ replicate 21 (at_time_one (Resume 0 True None)))
     (new_transport env))) = Suc MAX_BLE_CONNECTIONS
   \<and> tasks (run_mesh W (replicate 2 (at_time_one (Sighting ''1'' [] None))) (new_transport env))
     = [Connecting ''1'' [] None, Connecting ''1'' [] None]"
  by (simp add: at_time_one_def mesh_event_def new_transport_def numeral_eq_Suc retry_at_def
      on_sighting_def MAX_BLE_CONNECTIONS_def spawn_def resume_task_def take_task_def
      mtu_answered_def subscribed_def Let_def)

lemma cs_for_peer_ref:
  "cs_for_peer hex st = Some ref \<Longrightarrow> ref \<in> snd ` set (cryptoStates st) \<and> cs_peerIdHex (heap st ! ref) = hex"
  by (auto simp: cs_for_peer_def find_Some_iff)

text \<open>Note: Acceptance does not wait for the comparison of the authentication strings: acceptPeer accepts an
  object whose handshake is not finished, and from then on, whatever happens, the object is
  accepted, so the string its handshake computes later is never offered for comparison.\<close>

theorem accept_before_sas:
  assumes "cs_for_peer hex st = Some ref" and "ref < length (heap st)"
    and "cs_verdict (heap st ! ref) = Pending" and "cs_sas (heap st ! ref) = None"
  shows "cs_verdict (heap (run_mesh W xs (acceptPeer hex st)) ! ref) = Accepted
    \<and> pending_of (heap (run_mesh W xs (acceptPeer hex st)) ! ref) = None"
proof -
  have "cs_verdict (heap (acceptPeer hex st) ! ref) = Accepted" "ref < length (heap (acceptPeer hex st))"
    using assms by (simp_all add: acceptPeer_def transitionVerdict_def set_verdict_def modify_cs_def
        notifyHandshakeChange_def)
  then have "cs_verdict (heap (run_mesh W xs (acceptPeer hex st)) ! ref) = Accepted"
    using run_mono [of "acceptPeer hex st" W xs] by (auto simp: heap_le_def less_eq_verdict_def)
  then show ?thesis by (auto simp: pending_of_def split: option.splits)
qed

theorem accept_before_sas_witness:
  "cs_verdict (heap (run_mesh sample_world [at_time_one TimeoutTick, at_time_one (Reject ''p'')]
     (acceptPeer ''p'' (alloc_cs ''a'' (new_cs sample_noise (sample_identity 1) ResponderRole ''p'' 0) (new_transport sample_env)))) ! 0) = Accepted"
proof -
  have "cs_for_peer ''p'' (alloc_cs ''a'' (new_cs sample_noise (sample_identity 1) ResponderRole ''p'' 0) (new_transport sample_env)) = Some 0"
    by (simp add: cs_for_peer_def alloc_cs_def new_cs_def new_transport_def)
  from accept_before_sas [OF this] show ?thesis
    by (simp add: alloc_cs_def new_cs_def new_transport_def del: run_mesh.simps)
qed

text \<open>C24: Backoff holds: after a failed connect to a device with no other attempt in flight, no connect to
  it is started before the window of 5, 15 or 60 seconds (by the number of failures in a row)
  has passed, whatever else happens: sightings, disconnects, sweeps, traffic; only stopping
  the mesh clears it.\<close>

theorem backoff_holds:
  assumes "jm_wf (backoff st)" and "\<not> list_ex (attempts dev) (tasks st)"
    and "n = (case jm_get (backoffCounts st) dev of None \<Rightarrow> 0 | Some c \<Rightarrow> c)"
    and "\<forall>x \<in> set xs. st_now x < now + (if n = 0 then 5000 else if n = 1 then 15000 else 60000)
      \<and> st_event x \<noteq> Stop"
  shows "\<not> list_ex (attempts dev) (tasks (run_mesh W xs (connect_failed now dev st)))"
proof -
  let ?ms = "if n = 0 then 5000 else if n = 1 then 15000 else 60000 :: int"
  have "BACKOFF_STEPS_MS ! min n (length BACKOFF_STEPS_MS - 1) = ?ms"
    by (cases n rule: nat.exhaust) (auto simp: BACKOFF_STEPS_MS_def min_def nth_Cons split: nat.splits)
  then have "cooling (now + ?ms) dev (connect_failed now dev st)"
    using assms(1-3) by (simp add: cooling_def connect_failed_def nextBackoffMs_def Let_def jm_get_set)
  from cooling_run [OF this assms(4)] show ?thesis by (simp add: cooling_def)
qed

theorem backoff_holds_witness:
  "tasks (run_mesh sample_world [at_time_one (Disconnected ''a''), at_time_one (Sighting ''a'' [] None)]
     (connect_failed 0 ''a'' (new_transport sample_env))) = []"
proof -
  have "\<not> list_ex (attempts ''a'') (tasks (run_mesh sample_world [at_time_one (Disconnected ''a''),
      at_time_one (Sighting ''a'' [] None)] (connect_failed 0 ''a'' (new_transport sample_env))))"
    by (rule backoff_holds [OF _ _ refl]) (simp_all add: new_transport_def at_time_one_def)
  then show ?thesis
    by (simp add: at_time_one_def mesh_event_def on_sighting_def spawn_def new_transport_def
        connect_failed_def nextBackoffMs_def BACKOFF_STEPS_MS_def on_disconnect_def clearBackoff_def
        retry_at_def MAX_BLE_CONNECTIONS_def Let_def)
qed

text \<open>Note: A failed start is not undone: when startMesh throws after the scan has begun, the scan and the
  advertising go on and sightings still start connects, although meshState says that neither
  runs; a second start is let through.\<close>

theorem failed_start_keeps_radio:
  assumes "\<not> advertising st" and "\<not> scanning st" and "stage \<in> {AtRxListener, AtConnListener}"
    and "startMesh pid doc (Some (stage, err)) st = (st', ok)"
  shows "\<not> ok \<and> radioScanning st' \<and> radioAdvertising st' \<and> \<not> scanning st' \<and> \<not> advertising st'
    \<and> peerId st' = Some pid \<and> m_error st' = Some (classifyMeshError err)
    \<and> snd (startMesh pid' doc' None st') \<and> advertising (fst (startMesh pid' doc' None st'))"
  using assms by (auto simp: startMesh_def start_until_def set_error_def Let_def)

theorem failed_start_keeps_radio_witness:
  "radioScanning (fst (startMesh [1] True (Some (AtRxListener, Some ''Plugin'')) (new_transport sample_env)))"
  using failed_start_keeps_radio [of "new_transport sample_env" AtRxListener "[1]" True "Some ''Plugin''"
      "fst (startMesh [1] True (Some (AtRxListener, Some ''Plugin'')) (new_transport sample_env))"
      "snd (startMesh [1] True (Some (AtRxListener, Some ''Plugin'')) (new_transport sample_env))"]
  by (simp add: new_transport_def del: startMesh_def)

text \<open>Note: stopMesh does not cancel a connect in flight: a subscription that resolves afterwards files the
  device as connected and as a peer of a mesh that is stopped, and no handshake follows.\<close>

theorem stop_leaves_connect:
  assumes "i < length (tasks st)" and "tasks st ! i = Subscribing dev pid rssi"
  shows "connectedDevices (mesh_event W d d' now (Resume i True answer) (stopMesh st)) = [(dev, True)]
    \<and> map mac (peers (mesh_event W d d' now (Resume i True answer) (stopMesh st))) = [dev]
    \<and> peerId (mesh_event W d d' now (Resume i True answer) (stopMesh st)) = None"
  using assms by (simp add: mesh_event_def resume_task_def subscribed_def stopMesh_def spawn_def
      take_task_def Let_def upsert_def new_registry_def reg_list_def)

theorem stop_leaves_connect_witness:
  "connectedDevices (mesh_event sample_world sample_draws sample_draws 1 (Resume 0 True None)
     (stopMesh (spawn (Subscribing ''a'' [7] None) (new_transport sample_env)))) = [(''a'', True)]"
  using stop_leaves_connect [of 0 "spawn (Subscribing ''a'' [7] None) (new_transport sample_env)" "''a''" "[7]" None]
  by (simp add: spawn_def new_transport_def)

end
