(* ===== verification/Mesh_Link.thy ===== *)
theory Mesh_Link
  imports Transport_Inv
begin

text \<open>
  Two running transports, one sending to the other: session encryption, chunking, the write loop,
  reassembly, session decryption and the delivery to the handlers, composed as the event loop
  composes them.
\<close>

section \<open>One frame over the link\<close>

definition no_draws :: draws where "no_draws = \<lparr>d_eph = [], d_kem = []\<rparr>"

text \<open>The continuation suspended last goes on, its \<open>await\<close> having succeeded.\<close>

definition resume_last :: "world \<Rightarrow> transport \<Rightarrow> transport" where
  "resume_last W st = mesh_event W no_draws no_draws 0 (Resume (length (tasks st) - 1) True None) st"

definition chunks_left :: "task \<Rightarrow> bytes list" where
  "chunks_left t = (case t of SendData dev cs \<Rightarrow> cs | _ \<Rightarrow> [])"

text \<open>Sending, with the write loop run to its end.\<close>

definition send_fully :: "world \<Rightarrow> string \<Rightarrow> bytes \<Rightarrow> transport \<Rightarrow> transport option" where
  "send_fully W hex frame st = (case sendFrame (w_ratchet W) hex frame st of
      (st', Inl e) \<Rightarrow> None
    | (st', Inr u) \<Rightarrow> Some ((resume_last W ^^ Suc (length (chunks_left (last (tasks st'))))) st'))"

text \<open>
  The order in which the radio delivers \<open>n\<close> chunks: any, with repetitions, the last one of them
  new, so that the frame is complete exactly at the end.
\<close>

definition delivery_order :: "nat \<Rightarrow> nat list \<Rightarrow> bool" where
  "delivery_order n order \<longleftrightarrow> order \<noteq> [] \<and> set order = {..<n} \<and> last order \<notin> set (butlast order)"

definition receive_chunks :: "world \<Rightarrow> string \<Rightarrow> bytes list \<Rightarrow> transport \<Rightarrow> transport" where
  "receive_chunks W dev cs st = fold (\<lambda>c. mesh_event W no_draws no_draws 0 (Chunk dev c)) cs st"

text \<open>\<open>hex\<close>: the receiver for the sender; \<open>dev\<close>: the sender's device for the receiver.\<close>

definition transmit ::
  "world \<Rightarrow> world \<Rightarrow> string \<Rightarrow> string \<Rightarrow> bytes \<times> nat list \<Rightarrow> transport \<times> transport \<Rightarrow> (transport \<times> transport) option" where
  "transmit W V hex dev m sts = (case (m, sts) of ((frame, order), (a, b)) \<Rightarrow>
     (case send_fully W hex frame a of
        None \<Rightarrow> None
      | Some a' \<Rightarrow>
          let cs = map snd (drop (length (written a)) (written a')) in
          if delivery_order (length cs) order
          then Some (a', resume_last V (receive_chunks V dev (map ((!) cs) order) b)) else None))"

fun transmit_all ::
  "world \<Rightarrow> world \<Rightarrow> string \<Rightarrow> string \<Rightarrow> (bytes \<times> nat list) list \<Rightarrow> transport \<times> transport \<Rightarrow> (transport \<times> transport) option" where
  "transmit_all W V hex dev [] sts = Some sts"
| "transmit_all W V hex dev (m # ms) sts = (case transmit W V hex dev m sts of
      None \<Rightarrow> None | Some sts' \<Rightarrow> transmit_all W V hex dev ms sts')"

section \<open>The sender\<close>

lemma resume_last_task:
  "resume_last W (st\<lparr>tasks := ts @ [t]\<rparr>) = resume_task W no_draws no_draws 0 True None t (st\<lparr>tasks := ts\<rparr>)"
  by (simp add: resume_last_def mesh_event_def take_task_def)

lemma write_loop:
  "(resume_last W ^^ Suc (length cs)) (st\<lparr>tasks := ts @ [SendData dev cs]\<rparr>)
     = st\<lparr>tasks := ts, written := written st @ map (Pair dev) cs\<rparr>"
proof (induction cs arbitrary: st)
  case Nil
  show ?case by (simp add: resume_last_task resume_task_def)
next
  case (Cons c cs)
  have "resume_last W (st\<lparr>tasks := ts @ [SendData dev (c # cs)]\<rparr>)
      = (st\<lparr>written := written st @ [(dev, c)]\<rparr>)\<lparr>tasks := ts @ [SendData dev cs]\<rparr>"
    by (simp add: resume_last_task resume_task_def spawn_def)
  then have "(resume_last W ^^ Suc (length (c # cs))) (st\<lparr>tasks := ts @ [SendData dev (c # cs)]\<rparr>)
      = (resume_last W ^^ Suc (length cs)) ((st\<lparr>written := written st @ [(dev, c)]\<rparr>)\<lparr>tasks := ts @ [SendData dev cs]\<rparr>)"
    by (simp only: list.size(4) funpow_Suc_right comp_apply add_0_right add_Suc_right)
  also have "\<dots> = st\<lparr>tasks := ts, written := written st @ map (Pair dev) (c # cs)\<rparr>"
    unfolding Cons.IH by simp
  finally show ?case .
qed

text \<open>The sender is ready: the peer is known, its object has this session and is accepted.\<close>

definition link_out :: "transport \<Rightarrow> string \<Rightarrow> nat \<Rightarrow> ratchet_session \<Rightarrow> bool" where
  "link_out st hex ref s \<longleftrightarrow> (\<exists>dev. device_of hex st = Some dev \<and> jm_get (cryptoStates st) dev = Some ref
     \<and> mtu_of st dev \<le> 259)
     \<and> ref < length (heap st) \<and> cs_session (heap st ! ref) = Some s \<and> cs_verdict (heap st ! ref) = Accepted"

lemma device_of_cong:
  assumes "cryptoStates a = cryptoStates b" "registry a = registry b" "connectedDevices a = connectedDevices b"
    and "\<And>r. cs_peerIdHex (heap a ! r) = cs_peerIdHex (heap b ! r)"
  shows "device_of hex a = device_of hex b"
  using assms by (simp add: device_of_def)

lemma send_link:
  assumes l: "link_out st hex ref s" and s: "send_fully W hex frame st = Some st'"
  shows "\<exists>dev mtu cs. chunkFrame (snd (encrypt (w_ratchet W) s frame [])) mtu SessionData = Inr cs \<and> mtu \<le> 259
    \<and> written st' = written st @ map (Pair dev) cs
    \<and> link_out st' hex ref (fst (encrypt (w_ratchet W) s frame []))"
proof -
  obtain dev where d: "device_of hex st = Some dev" "jm_get (cryptoStates st) dev = Some ref" "mtu_of st dev \<le> 259"
    and r: "ref < length (heap st)" "cs_session (heap st ! ref) = Some s" "cs_verdict (heap st ! ref) = Accepted"
    using l by (auto simp: link_out_def)
  obtain s' w where e: "encrypt (w_ratchet W) s frame [] = (s', w)" by fastforce
  let ?st1 = "modify_cs ref (cs_session_update (\<lambda>_. Some s')) st"
  have m: "mtu_of ?st1 dev = mtu_of st dev" by (simp add: mtu_of_def modify_cs_def)
  obtain cs where c: "chunkFrame w (mtu_of st dev) SessionData = Inr cs"
    using s d r e m
    by (cases "chunkFrame w (mtu_of st dev) SessionData") (simp_all add: send_fully_def sendFrame_def Let_def)
  then have "sendFrame (w_ratchet W) hex frame st = (spawn (SendData dev cs) ?st1, Inr ())"
    using d r e m by (simp add: sendFrame_def Let_def)
  moreover have sp: "spawn (SendData dev cs) ?st1 = ?st1\<lparr>tasks := tasks st @ [SendData dev cs]\<rparr>"
    by (simp add: spawn_def modify_cs_def)
  ultimately have st': "st' = ?st1\<lparr>tasks := tasks st, written := written ?st1 @ map (Pair dev) cs\<rparr>"
    using s write_loop [where W = W and cs = cs and st = ?st1 and ts = "tasks st" and dev = dev] by (simp add: send_fully_def chunks_left_def)
  have "device_of hex st' = device_of hex st"
    by (rule device_of_cong) (simp_all add: st' modify_cs_def nth_list_update r(1))
  then have "link_out st' hex ref s'"
    using d r m by (simp add: link_out_def st' modify_cs_def mtu_of_def)
  then show ?thesis using c d(3) e by (auto simp: st' modify_cs_def)
qed

section \<open>The receiver\<close>

text \<open>The receiver is ready: its object for the device has this session, is accepted, and no frame is half read.\<close>

definition link_in :: "transport \<Rightarrow> string \<Rightarrow> nat \<Rightarrow> ratchet_session \<Rightarrow> bool" where
  "link_in st dev ref r \<longleftrightarrow> jm_get (cryptoStates st) dev = Some ref \<and> ref < length (heap st)
     \<and> cs_session (heap st ! ref) = Some r \<and> cs_verdict (heap st ! ref) = Accepted
     \<and> (jm_get (reassemblers st) dev = None \<or> jm_get (reassemblers st) dev = Some new_reassembler)"

definition half_read :: "transport \<Rightarrow> string \<Rightarrow> reassembler" where
  "half_read st dev = (case jm_get (reassemblers st) dev of None \<Rightarrow> new_reassembler | Some r \<Rightarrow> r)"

lemma receive_partial:
  assumes "push_all (half_read st dev) cs = (r', replicate (length cs) (Inr None))"
  shows "\<exists>rs. receive_chunks W dev cs st = st\<lparr>reassemblers := rs\<rparr> \<and> half_read (st\<lparr>reassemblers := rs\<rparr>) dev = r'"
  using assms
proof (induction cs arbitrary: st)
  case Nil
  then have "receive_chunks W dev [] st = st\<lparr>reassemblers := reassemblers st\<rparr>"
    "half_read (st\<lparr>reassemblers := reassemblers st\<rparr>) dev = r'" by (simp_all add: receive_chunks_def half_read_def)
  then show ?case by blast
next
  case (Cons c cs)
  obtain r1 as where c: "pushWithType (half_read st dev) c = (r1, Inr None)"
    "push_all r1 cs = (r', replicate (length cs) (Inr None))"
    using Cons.prems by (auto split: prod.splits)
  let ?st1 = "st\<lparr>reassemblers := jm_set dev r1 (reassemblers st)\<rparr>"
  have one: "mesh_event W no_draws no_draws 0 (Chunk dev c) st = ?st1"
    using c(1) by (simp add: mesh_event_def handleIncomingChunk_def half_read_def [symmetric])
  have "half_read ?st1 dev = r1" by (simp add: half_read_def jsmap)
  then obtain rs where "receive_chunks W dev cs ?st1 = ?st1\<lparr>reassemblers := rs\<rparr>"
    "half_read (?st1\<lparr>reassemblers := rs\<rparr>) dev = r'"
    using Cons.IH [of ?st1] c(2) by auto
  then show ?case using one by (auto simp: receive_chunks_def)
qed

lemma receive_final:
  assumes "pushWithType (half_read st dev) c = (new_reassembler, Inr (Some \<lparr>rf_type = SessionData, rf_payload = w\<rparr>))"
    and "jm_get (cryptoStates st) dev = Some ref" and "ref < length (heap st)" and "cs_session (heap st ! ref) = Some r"
    and "cs_verdict (heap st ! ref) = Accepted" and "decrypt (w_ratchet W) r w [] = (r', Inr frame)"
  shows "\<exists>st'. resume_last W (receive_chunks W dev [c] st) = st' \<and> link_in st' dev ref r'
    \<and> cs_peerIdHex (heap st' ! ref) = cs_peerIdHex (heap st ! ref) \<and> frameHandlers st' = frameHandlers st
    \<and> handed st' = handed st @ replicate (frameHandlers st) (cs_peerIdHex (heap st ! ref), frame)"
proof -
  obtain r1 pd where b: "decrypt_begin (w_ratchet W) r w [] = (r1, Inr pd)" "decrypt_finish (w_ratchet W) r1 pd = (r', Inr frame)"
    using assms(6) by (auto simp: decrypt_def split: prod.splits sum.splits)
  let ?st1 = "st\<lparr>reassemblers := jm_set dev new_reassembler (reassemblers st)\<rparr>"
  let ?st2 = "modify_cs ref (cs_session_update (\<lambda>_. Some r1)) ?st1"
  have "receive_chunks W dev [c] st = session_frame (w_ratchet W) dev w ?st1"
    using assms(1) by (simp add: receive_chunks_def mesh_event_def handleIncomingChunk_def half_read_def [symmetric])
  also have "\<dots> = ?st2\<lparr>tasks := tasks st @ [Decrypting ref pd]\<rparr>"
    using assms(2,4,5) b(1) by (simp add: session_frame_def spawn_def modify_cs_def)
  finally have "resume_last W (receive_chunks W dev [c] st) = decrypt_resume (w_ratchet W) ref pd (?st2\<lparr>tasks := tasks st\<rparr>)"
    by (simp add: resume_last_task resume_task_def)
  then show ?thesis
    using assms(2-5) b(2)
    by (simp add: decrypt_resume_def modify_cs_def link_in_def jsmap)
qed

lemma order_split:
  assumes "delivery_order n order"
  obtains js i where "order = js @ [i]" "i \<notin> set js" "insert i (set js) = {..<n}"
proof -
  have "order = butlast order @ [last order]" "last order \<notin> set (butlast order)" "set order = {..<n}"
    using assms by (auto simp: delivery_order_def)
  moreover from this have "insert (last order) (set (butlast order)) = {..<n}"
    by (metis append_Nil2 list.simps(15) rotate1.simps(2) set_append set_rotate1)
  ultimately show thesis using that by blast
qed

lemma length_push_all: "length (snd (push_all r cs)) = length cs"
  by (induction cs arbitrary: r) (auto split: prod.splits, metis snd_conv)

text \<open>All chunks of a frame, in any order, and the decryption.\<close>

lemma receive_link:
  assumes l: "link_in st dev ref r" and o: "delivery_order (length cs) order"
    and c: "chunkFrame w mtu SessionData = Inr cs" "mtu \<le> 259" and d: "decrypt (w_ratchet W) r w [] = (r', Inr frame)"
  shows "\<exists>st'. resume_last W (receive_chunks W dev (map ((!) cs) order) st) = st' \<and> link_in st' dev ref r'
    \<and> cs_peerIdHex (heap st' ! ref) = cs_peerIdHex (heap st ! ref) \<and> frameHandlers st' = frameHandlers st
    \<and> handed st' = handed st @ replicate (frameHandlers st) (cs_peerIdHex (heap st ! ref), frame)"
proof -
  obtain js i where ord: "order = js @ [i]" "i \<notin> set js" "insert i (set js) = {..<length cs}" using order_split [OF o] .
  have all: "push_all new_reassembler (map ((!) cs) js @ [cs ! i]) = (new_reassembler,
      replicate (length js) (Inr None) @ [Inr (Some \<lparr>rf_type = SessionData, rf_payload = w\<rparr>)])"
    using chunks_reassemble [OF c _ ord(3,2)] by (simp add: SessionData_def)
  obtain r1 as where p: "push_all new_reassembler (map ((!) cs) js) = (r1, as)" by fastforce
  obtain r2 a where q: "pushWithType r1 (cs ! i) = (r2, a)" by fastforce
  have "length as = length js" using p length_push_all by (metis length_map snd_conv)
  then have as: "as = replicate (length js) (Inr None)"
    and last: "r2 = new_reassembler" "a = Inr (Some \<lparr>rf_type = SessionData, rf_payload = w\<rparr>)"
    using all by (simp_all add: push_all_append p q)
  have "half_read st dev = new_reassembler" using l by (auto simp: link_in_def half_read_def)
  then obtain rs where rs: "receive_chunks W dev (map ((!) cs) js) st = st\<lparr>reassemblers := rs\<rparr>"
    "half_read (st\<lparr>reassemblers := rs\<rparr>) dev = r1"
    using receive_partial [of st dev "map ((!) cs) js" r1 W] p as by auto
  have "receive_chunks W dev (map ((!) cs) order) st = receive_chunks W dev [cs ! i] (st\<lparr>reassemblers := rs\<rparr>)"
    using rs(1) by (simp add: ord(1) receive_chunks_def)
  then show ?thesis
    using receive_final [of "st\<lparr>reassemblers := rs\<rparr>" dev "cs ! i" w ref r W r' frame] rs(2) q last l d
    by (simp add: link_in_def)
qed

section \<open>A conversation\<close>

lemma send_all_snoc: "send_all P s (ms @ [(pt, ad)]) =
    (let (s1, ws) = send_all P s ms; (s2, w) = encrypt P s1 pt ad in (s2, ws @ [w]))"
  by (induction ms arbitrary: s) (auto simp: Let_def split: prod.splits)

lemma receive_all_append: "receive_all P r (xs @ ys) =
    (let (r1, as) = receive_all P r xs; (r2, bs) = receive_all P r1 ys in (r2, as @ bs))"
  by (induction xs arbitrary: r) (auto simp: Let_def receive_all.simps split: prod.splits)

text \<open>The sessions of the two sides after the given frames went over in order.\<close>

definition sent_so_far :: "ratchet_prims \<Rightarrow> ratchet_session \<Rightarrow> bytes list \<Rightarrow> ratchet_session" where
  "sent_so_far P s fs = fst (send_all P s (map (\<lambda>f. (f, [])) fs))"

definition received_so_far :: "ratchet_prims \<Rightarrow> ratchet_session \<Rightarrow> ratchet_session \<Rightarrow> bytes list \<Rightarrow> ratchet_session" where
  "received_so_far P s r fs =
     fst (receive_all P r (zip (snd (send_all P s (map (\<lambda>f. (f, [])) fs))) (replicate (length fs) [])))"

lemma next_frame:
  assumes "gcm_laws P" and "newRatchetSession P k1 k2 d = Inr s" and "newRatchetSession P k2 k1 (other_direction d) = Inr r"
    and "length fs < 2 ^ 64" and "encrypt P (sent_so_far P s fs) f [] = (s', w)"
  shows "s' = sent_so_far P s (fs @ [f])"
    and "decrypt P (received_so_far P s r fs) w [] = (received_so_far P s r (fs @ [f]), Inr f)"
proof -
  obtain s1 ws where a: "send_all P s (map (\<lambda>f. (f, [])) fs) = (s1, ws)" by fastforce
  have e: "encrypt P s1 f [] = (s', w)" using assms(5) by (simp add: sent_so_far_def a)
  have snoc: "send_all P s (map (\<lambda>f. (f, [])) (fs @ [f])) = (s', ws @ [w])"
    using send_all_snoc [of P s "map (\<lambda>f. (f, [])) fs" f "[]"] a e by simp
  have len: "length ws = length fs" using length_send_all [of P s "map (\<lambda>f. (f, [])) fs"] a by simp
  show "s' = sent_so_far P s (fs @ [f])" using snoc by (simp add: sent_so_far_def)
  let ?z = "zip ws (replicate (length fs) [])"
  obtain r1 as where r: "receive_all P r ?z = (r1, as)" by fastforce
  obtain r2 x where x: "decrypt P r1 w [] = (r2, x)" by fastforce
  have zip: "zip (ws @ [w]) (replicate (length (fs @ [f])) []) = ?z @ [(w, [])]"
    using len by (simp add: replicate_append_same [symmetric])
  have rec: "receive_all P r (zip (ws @ [w]) (replicate (length (fs @ [f])) [])) = (r2, as @ [x])"
    unfolding zip receive_all_append using r x by (simp add: receive_all.simps)
  let ?L = "map (\<lambda>f. (f, [] :: bytes)) (fs @ [f])"
  have pads: "map snd ?L = replicate (length (fs @ [f])) []"
    by (simp add: map_replicate_const replicate_append_same o_def)
  have "snd (receive_all P r (zip (snd (send_all P s ?L)) (map snd ?L))) = map (Inr \<circ> fst) ?L"
    by (rule in_order_roundtrip [OF assms(1-3)]) (use assms(4) in simp)
  then have "snd (r2, as @ [x]) = map (Inr \<circ> fst) ?L" unfolding pads snoc snd_conv rec .
  then have "as @ [x] = map Inr fs @ [Inr f]" by (simp add: o_def)
  then have "x = Inr f" by simp
  moreover have "received_so_far P s r fs = r1" using r by (simp add: received_so_far_def a)
  moreover have "received_so_far P s r (fs @ [f]) = r2" unfolding received_so_far_def snoc snd_conv rec by simp
  ultimately show "decrypt P (received_so_far P s r fs) w [] = (received_so_far P s r (fs @ [f]), Inr f)" using x by simp
qed

lemma link_step:
  assumes "gcm_laws (w_ratchet W)" and "w_ratchet V = w_ratchet W" and "newRatchetSession (w_ratchet W) k1 k2 d = Inr s"
    and "newRatchetSession (w_ratchet W) k2 k1 (other_direction d) = Inr r" and "length fs < 2 ^ 64"
    and "link_out a hex ra (sent_so_far (w_ratchet W) s fs)" and "link_in b dev rb (received_so_far (w_ratchet W) s r fs)"
    and "transmit W V hex dev (f, order) (a, b) = Some (a', b')"
  shows "link_out a' hex ra (sent_so_far (w_ratchet W) s (fs @ [f]))
    \<and> link_in b' dev rb (received_so_far (w_ratchet W) s r (fs @ [f]))
    \<and> cs_peerIdHex (heap b' ! rb) = cs_peerIdHex (heap b ! rb) \<and> frameHandlers b' = frameHandlers b
    \<and> handed b' = handed b @ replicate (frameHandlers b) (cs_peerIdHex (heap b ! rb), f)"
proof -
  obtain s' w where e: "encrypt (w_ratchet W) (sent_so_far (w_ratchet W) s fs) f [] = (s', w)" by fastforce
  obtain a1 where a1: "send_fully W hex f a = Some a1" using assms(8) by (auto simp: transmit_def split: option.splits)
  from send_link [OF assms(6) a1] obtain to mtu cs where c: "chunkFrame w mtu SessionData = Inr cs" "mtu \<le> 259"
    "written a1 = written a @ map (Pair to) cs" "link_out a1 hex ra s'" by (auto simp: e)
  then have cs: "map snd (drop (length (written a)) (written a1)) = cs" by (simp add: o_def)
  have t: "delivery_order (length cs) order" "a' = a1" "b' = resume_last V (receive_chunks V dev (map ((!) cs) order) b)"
    using assms(8) a1 cs by (auto simp: transmit_def Let_def split: if_splits)
  have d: "decrypt (w_ratchet V) (received_so_far (w_ratchet W) s r fs) w []
      = (received_so_far (w_ratchet W) s r (fs @ [f]), Inr f)"
    using next_frame(2) [OF assms(1,3-5) e] assms(2) by simp
  from receive_link [OF assms(7) t(1) c(1,2) d] show ?thesis
    using c(4) next_frame(1) [OF assms(1,3-5) e] t(2,3) by auto
qed

section \<open>A concrete link\<close>

text \<open>Two transports after the handshake; the frame of one byte becomes 25 bytes and two chunks.\<close>

definition sample_sender :: transport where
  "sample_sender = (alloc_cs ''dev'' ((new_cs sample_noise (sample_identity 1) InitiatorRole ''q'' 0)
     \<lparr>cs_verdict := Accepted, cs_session := Some (sample_session 1 2 Initiator)\<rparr>) (new_transport sample_env))"

definition sample_receiver :: transport where
  "sample_receiver = (alloc_cs ''dev'' ((new_cs sample_noise (sample_identity 2) ResponderRole ''p'' 0)
     \<lparr>cs_verdict := Accepted, cs_session := Some (sample_session 2 1 Responder)\<rparr>) (new_transport sample_env))
     \<lparr>frameHandlers := 1\<rparr>"

lemma sample_link:
  "device_of ''q'' sample_sender = Some ''dev''" "jm_get (cryptoStates sample_sender) ''dev'' = Some 0"
  "mtu_of sample_sender ''dev'' = 23" "length (heap sample_sender) = 1"
  "cs_session (heap sample_sender ! 0) = Some (sample_session 1 2 Initiator)" "cs_verdict (heap sample_sender ! 0) = Accepted"
  "written sample_sender = []"
  "link_in sample_receiver ''dev'' 0 (sample_session 2 1 Responder)"
  "handed sample_receiver = []" "frameHandlers sample_receiver = 1" "cs_peerIdHex (heap sample_receiver ! 0) = ''p''"
  by (simp_all add: sample_sender_def sample_receiver_def link_in_def device_of_def alloc_cs_def new_cs_def
    new_transport_def jsmap mtu_of_def GATT_MTU_DEFAULT_def new_registry_def reg_list_def Let_def)

lemma sample_sent:
  "\<exists>a b. transmit sample_world sample_world ''q'' ''dev'' ([1], [1, 1, 0]) (sample_sender, sample_receiver) = Some (a, b)"
proof -
  let ?e = "encrypt sample_prims (sample_session 1 2 Initiator) [1] []"
  have len: "length (snd ?e) = 25" 
    by (simp add: encrypt_def Let_def sample_prims_def sample_tag_def)
  obtain cs where c: "chunkFrame (snd ?e) 23 SessionData = Inr cs" "length cs = 2"
    using len by (simp add: chunkFrame_def Let_def frame_consts ceil_div_def)
  have W: "w_ratchet sample_world = sample_prims" by (simp add: sample_world_def)
  let ?st1 = "modify_cs 0 (cs_session_update (\<lambda>_. Some (fst ?e))) sample_sender"
  have m: "mtu_of ?st1 ''dev'' = 23" using sample_link(3) by (simp add: mtu_of_def modify_cs_def)
  have s: "sendFrame sample_prims ''q'' [1] sample_sender = (?st1\<lparr>tasks := tasks ?st1 @ [SendData ''dev'' cs]\<rparr>, Inr ())"
    using sample_link c m by (simp add: sendFrame_def Let_def spawn_def case_prod_beta)
  have f: "send_fully sample_world ''q'' [1] sample_sender = Some (?st1\<lparr>tasks := tasks ?st1, written := written ?st1 @ map (Pair ''dev'') cs\<rparr>)"
    using s write_loop [where W = sample_world and cs = cs and st = ?st1 and ts = "tasks ?st1" and dev = "''dev''"]
    by (simp add: send_fully_def chunks_left_def W)
  have "delivery_order (length cs) [1, 1, 0]" using c(2) by (auto simp: delivery_order_def)
  then show ?thesis using f sample_link(7) by (simp add: transmit_def Let_def modify_cs_def o_def)
qed

section \<open>The conversation theorem\<close>

lemma conversation_run:
  assumes "gcm_laws (w_ratchet W)" and "w_ratchet V = w_ratchet W" and "newRatchetSession (w_ratchet W) k1 k2 d = Inr s"
    and "newRatchetSession (w_ratchet W) k2 k1 (other_direction d) = Inr r"
    and "link_out a hex ra s" and "link_in b dev rb r" and "length ms \<le> 2 ^ 64"
    and "transmit_all W V hex dev ms (a, b) = Some (a', b')"
  shows "handed b' = handed b @ concat (map (\<lambda>(frame, order).
    replicate (frameHandlers b) (cs_peerIdHex (heap b ! rb), frame)) ms)"
proof -
  let ?R = "w_ratchet W"
  have "handed b' = handed b @ concat (map (\<lambda>(frame, order). replicate (frameHandlers b) (cs_peerIdHex (heap b ! rb), frame)) ms)"
    if "link_out a hex ra (sent_so_far ?R s fs)" "link_in b dev rb (received_so_far ?R s r fs)"
      "transmit_all W V hex dev ms (a, b) = Some (a', b')" "length fs + length ms \<le> 2 ^ 64" for fs a b
    using that
  proof (induction ms arbitrary: fs a b)
    case (Cons m ms)
    obtain f order where m: "m = (f, order)" by fastforce
    obtain a1 b1 where t: "transmit W V hex dev (f, order) (a, b) = Some (a1, b1)"
      using Cons.prems(3) by (auto simp: m split: option.splits)
    have "length fs < 2 ^ 64" using Cons.prems(4) by simp
    note step = link_step [OF assms(1-4) this Cons.prems(1,2) t]
    have "handed b' = handed b1 @ concat (map (\<lambda>(frame, order).
        replicate (frameHandlers b1) (cs_peerIdHex (heap b1 ! rb), frame)) ms)"
      by (rule Cons.IH [of a1 "fs @ [f]" b1]) (use step Cons.prems(3,4) t in \<open>simp_all add: m\<close>)
    then show ?case using step by (simp add: m)
  qed simp
  from this [of a "[]" b] show ?thesis
    using assms(5-8) by (simp add: sent_so_far_def received_so_far_def receive_all.simps)
qed

text \<open>C4: A conversation arrives: between two transports whose handshake is done and which have both accepted,
  every frame sent is handed to every handler of the receiver, under the sender's id, once, intact
  and in the order of sending, however the frames are cut into chunks (any negotiated MTU) and
  in whatever order the chunks of each frame arrive, repeated or not before the frame is complete.
  The chunks of one frame all arrive before those of the next, and none of them is repeated after the one that
  completes the frame: such a late repetition opens a new frame in the reassembler.\<close>

theorem conversation_arrives:
  assumes "gcm_laws (w_ratchet W)" and "w_ratchet V = w_ratchet W" and "newRatchetSession (w_ratchet W) k1 k2 d = Inr s"
    and "newRatchetSession (w_ratchet W) k2 k1 (other_direction d) = Inr r"
    and "link_out a hex ra s" and "link_in b dev rb r" and "length ms \<le> 2 ^ 64"
    and "transmit_all W V hex dev ms (a, b) = Some (a', b')"
  shows "handed b' = handed b @ concat (map (\<lambda>(frame, order).
    replicate (frameHandlers b) (cs_peerIdHex (heap b ! rb), frame)) ms)"
  by (rule conversation_run [OF assms])

lemma conversation_arrives_witness:
  "\<exists>a b. transmit_all sample_world sample_world ''q'' ''dev'' [([1], [1, 1, 0])] (sample_sender, sample_receiver) = Some (a, b)
     \<and> handed b = [(''p'', [1])]"
proof -
  have r: "newRatchetSession sample_prims (replicate 32 2) (replicate 32 1) (other_direction Initiator) = Inr (sample_session 2 1 Responder)"
    using sample_session by (simp add: other_direction_def)
  obtain a b where t: "transmit_all sample_world sample_world ''q'' ''dev'' [([1], [1, 1, 0])] (sample_sender, sample_receiver) = Some (a, b)"
    using sample_sent by auto
  have o: "link_out sample_sender ''q'' 0 (sample_session 1 2 Initiator)"
    using sample_link by (simp add: link_out_def)
  have W: "w_ratchet sample_world = sample_prims" by (simp add: sample_world_def)
  show ?thesis
    using conversation_arrives [OF _ refl _ _ o sample_link(8) _ t, unfolded W, OF sample_gcm_laws sample_session r] sample_link t by simp
qed

end
