(* ===== verification/Mesh_Contact.thy ===== *)
theory Mesh_Contact
  imports Mesh_Link
begin

text \<open>
  First contact of two running transports: from two connected devices, of which one is about to
  initiate and the other waits as responder, over the three handshake messages, cut into chunks
  and delivered in any order, to two accepted sessions, on which \<open>Mesh_Link\<close> takes over.
\<close>

section \<open>The scenario\<close>

text \<open>The continuation suspended last goes on, with the random draws it may use.\<close>

definition resume_newest :: "world \<Rightarrow> draws \<Rightarrow> int \<Rightarrow> transport \<Rightarrow> transport" where
  "resume_newest W d now st = mesh_event W d d now (Resume (length (tasks st) - 1) True None) st"

definition chunks_pending :: "task \<Rightarrow> bytes list" where
  "chunks_pending t = (case t of SendMsg1 dev cs \<Rightarrow> cs | SendReply ref dev cs \<Rightarrow> cs | SendData dev cs \<Rightarrow> cs | _ \<Rightarrow> [])"

text \<open>The write loop started last runs to its end.\<close>

definition write_out :: "world \<Rightarrow> draws \<Rightarrow> int \<Rightarrow> transport \<Rightarrow> transport" where
  "write_out W d now st = (resume_newest W d now ^^ Suc (length (chunks_pending (last (tasks st))))) st"

definition receive_all_chunks :: "world \<Rightarrow> draws \<Rightarrow> int \<Rightarrow> string \<Rightarrow> bytes list \<Rightarrow> transport \<Rightarrow> transport" where
  "receive_all_chunks W d now dev cs st = fold (\<lambda>c. mesh_event W d d now (Chunk dev c)) cs st"

text \<open>One message: \<open>x\<close> writes it, its chunks reach \<open>y\<close> from device \<open>dev\<close> in the given order.\<close>

definition hop :: "world \<Rightarrow> draws \<Rightarrow> world \<Rightarrow> draws \<Rightarrow> int \<Rightarrow> string \<Rightarrow> nat list \<Rightarrow> transport \<times> transport
    \<Rightarrow> (transport \<times> transport) option" where
  "hop W d V d' now dev order xy = (case xy of (x, y) \<Rightarrow>
     let x' = write_out W d now x; cs = map snd (drop (length (written x)) (written x')) in
     if delivery_order (length cs) order
     then Some (x', receive_all_chunks V d' now dev (map ((!) cs) order) y) else None)"

text \<open>
  \<open>a\<close> has a suspended \<open>initiateHandshake\<close>; the three messages; both users accept.
  \<open>devR\<close> is the responder's device for \<open>a\<close>, \<open>devI\<close> the initiator's for \<open>b\<close>.
\<close>

definition first_contact ::
  "world \<Rightarrow> draws \<Rightarrow> world \<Rightarrow> draws \<Rightarrow> int \<Rightarrow> string \<Rightarrow> string \<Rightarrow> string \<Rightarrow> string \<Rightarrow> nat list \<Rightarrow> nat list \<Rightarrow> nat list
     \<Rightarrow> transport \<times> transport \<Rightarrow> (transport \<times> transport) option" where
  "first_contact W dI V dR now devR devI hexR hexI o1 o2 o3 ab = (case ab of (a, b) \<Rightarrow>
     (case hop W dI V dR now devI o1 (resume_newest W dI now a, b) of None \<Rightarrow> None | Some (a1, b1) \<Rightarrow>
     (case hop V dR W dI now devR o2 (b1, a1) of None \<Rightarrow> None | Some (b2, a2) \<Rightarrow>
     (case hop W dI V dR now devI o3 (a2, b2) of None \<Rightarrow> None | Some (a3, b3) \<Rightarrow>
        Some (acceptPeer hexR a3, acceptPeer hexI b3)))))"

section \<open>Writing\<close>

lemma resume_newest_task:
  "resume_newest W d now (st\<lparr>tasks := ts @ [t]\<rparr>) = resume_task W d d now True None t (st\<lparr>tasks := ts\<rparr>)"
  by (simp add: resume_newest_def mesh_event_def take_task_def)

lemma write_msg1:
  "(resume_newest W d now ^^ Suc (length cs)) (st\<lparr>tasks := ts @ [SendMsg1 dev cs]\<rparr>)
     = st\<lparr>tasks := ts, written := written st @ map (Pair dev) cs\<rparr>"
proof (induction cs arbitrary: st)
  case (Cons c cs)
  have "resume_newest W d now (st\<lparr>tasks := ts @ [SendMsg1 dev (c # cs)]\<rparr>)
      = (st\<lparr>written := written st @ [(dev, c)]\<rparr>)\<lparr>tasks := ts @ [SendMsg1 dev cs]\<rparr>"
    by (simp add: resume_newest_task resume_task_def spawn_def)
  then show ?case using Cons [of "st\<lparr>written := written st @ [(dev, c)]\<rparr>"]
    by (simp only: list.size(4) funpow_Suc_right comp_apply add_0_right add_Suc_right) simp
qed (simp add: resume_newest_task resume_task_def)

lemma write_reply:
  "(resume_newest W d now ^^ Suc (length cs)) (st\<lparr>tasks := ts @ [SendReply ref dev cs]\<rparr>)
     = finish_handshake (w_noise W) (w_ratchet W) now ref (st\<lparr>tasks := ts, written := written st @ map (Pair dev) cs\<rparr>)"
proof (induction cs arbitrary: st)
  case (Cons c cs)
  have "resume_newest W d now (st\<lparr>tasks := ts @ [SendReply ref dev (c # cs)]\<rparr>)
      = (st\<lparr>written := written st @ [(dev, c)]\<rparr>)\<lparr>tasks := ts @ [SendReply ref dev cs]\<rparr>"
    by (simp add: resume_newest_task resume_task_def spawn_def)
  then show ?case using Cons [of "st\<lparr>written := written st @ [(dev, c)]\<rparr>"]
    by (simp only: list.size(4) funpow_Suc_right comp_apply add_0_right add_Suc_right) simp
qed (simp add: resume_newest_task resume_task_def)

section \<open>Receiving\<close>

text \<open>All chunks of a handshake message, in any order.\<close>

lemma receive_partly:
  assumes "push_all (half_read st dev) cs = (r', replicate (length cs) (Inr None))"
  shows "\<exists>rs. receive_all_chunks W d now dev cs st = st\<lparr>reassemblers := rs\<rparr> \<and> half_read (st\<lparr>reassemblers := rs\<rparr>) dev = r'"
  using assms
proof (induction cs arbitrary: st)
  case Nil
  then have "receive_all_chunks W d now dev [] st = st\<lparr>reassemblers := reassemblers st\<rparr>"
    "half_read (st\<lparr>reassemblers := reassemblers st\<rparr>) dev = r'" by (simp_all add: receive_all_chunks_def half_read_def)
  then show ?case by blast
next
  case (Cons c cs)
  obtain r1 as where c: "pushWithType (half_read st dev) c = (r1, Inr None)"
    "push_all r1 cs = (r', replicate (length cs) (Inr None))"
    using Cons.prems by (auto split: prod.splits)
  let ?st1 = "st\<lparr>reassemblers := jm_set dev r1 (reassemblers st)\<rparr>"
  have one: "mesh_event W d d now (Chunk dev c) st = ?st1"
    using c(1) by (simp add: mesh_event_def handleIncomingChunk_def half_read_def [symmetric])
  have "half_read ?st1 dev = r1" by (simp add: half_read_def jsmap)
  then obtain rs where "receive_all_chunks W d now dev cs ?st1 = ?st1\<lparr>reassemblers := rs\<rparr>"
    "half_read (?st1\<lparr>reassemblers := rs\<rparr>) dev = r'"
    using Cons.IH [of ?st1] c(2) by auto
  then show ?case using one by (auto simp: receive_all_chunks_def)
qed

lemma receive_message:
  assumes o: "delivery_order (length cs) order" and c: "chunkFrame m mtu ft = Inr cs" "mtu \<le> 259" "unat ft < 16"
    and h: "half_read st dev = new_reassembler" and k: "jm_get (cryptoStates st) dev = Some ref" and ft: "ft \<noteq> SessionData"
  shows "\<exists>rs. receive_all_chunks W d now dev (map ((!) cs) order) st
      = advanceHandshake (w_noise W) (w_ratchet W) d d now ref dev ft m (st\<lparr>reassemblers := rs\<rparr>)
    \<and> half_read (st\<lparr>reassemblers := rs\<rparr>) dev = new_reassembler"
proof -
  obtain js i where ord: "order = js @ [i]" "i \<notin> set js" "insert i (set js) = {..<length cs}" using order_split [OF o] .
  have all: "push_all new_reassembler (map ((!) cs) js @ [cs ! i]) = (new_reassembler,
      replicate (length js) (Inr None) @ [Inr (Some \<lparr>rf_type = ft, rf_payload = m\<rparr>)])"
    using chunks_reassemble [OF c ord(3,2)] by simp
  obtain r1 as where p: "push_all new_reassembler (map ((!) cs) js) = (r1, as)" by fastforce
  obtain r2 x where q: "pushWithType r1 (cs ! i) = (r2, x)" by fastforce
  have "length as = length js" using p length_push_all by (metis length_map snd_conv)
  then have as: "as = replicate (length js) (Inr None)"
    and last: "r2 = new_reassembler" "x = Inr (Some \<lparr>rf_type = ft, rf_payload = m\<rparr>)"
    using all by (simp_all add: push_all_append p q)
  obtain rs where rs: "receive_all_chunks W d now dev (map ((!) cs) js) st = st\<lparr>reassemblers := rs\<rparr>"
    "half_read (st\<lparr>reassemblers := rs\<rparr>) dev = r1"
    using receive_partly [of st dev "map ((!) cs) js" r1 W d now] p as h by auto
  have "receive_all_chunks W d now dev (map ((!) cs) order) st
      = mesh_event W d d now (Chunk dev (cs ! i)) (st\<lparr>reassemblers := rs\<rparr>)"
    using rs(1) by (simp add: ord(1) receive_all_chunks_def)
  also have "\<dots> = advanceHandshake (w_noise W) (w_ratchet W) d d now ref dev ft m
      (st\<lparr>reassemblers := jm_set dev new_reassembler rs\<rparr>)"
    using q last rs(2) k ft by (simp add: mesh_event_def handleIncomingChunk_def half_read_def)
  finally show ?thesis by (intro exI conjI) (auto simp: half_read_def jsmap)
qed

section \<open>Two transports facing each other\<close>

text \<open>The peer \<open>hex\<close> is reached through the device \<open>dev\<close>, whose object is \<open>c\<close>, nothing is half read, and the MTU fits.\<close>

definition facing :: "transport \<Rightarrow> string \<Rightarrow> string \<Rightarrow> nat \<Rightarrow> crypto_state \<Rightarrow> bool" where
  "facing st hex dev ref c \<longleftrightarrow> device_of hex st = Some dev \<and> cs_for_peer hex st = Some ref
     \<and> jm_get (cryptoStates st) dev = Some ref \<and> ref < length (heap st) \<and> heap st ! ref = c \<and> cs_peerIdHex c = hex
     \<and> half_read st dev = new_reassembler \<and> 80 \<le> mtu_of st dev \<and> mtu_of st dev \<le> 259"

definition same_peers :: "transport \<Rightarrow> transport \<Rightarrow> bool" where
  "same_peers a b \<longleftrightarrow> registry a = registry b \<and> cryptoStates a = cryptoStates b
     \<and> connectedDevices a = connectedDevices b \<and> mtuCache a = mtuCache b \<and> frameHandlers a = frameHandlers b
     \<and> handed a = handed b \<and> length (heap a) = length (heap b)
     \<and> (\<forall>r. cs_peerIdHex (heap a ! r) = cs_peerIdHex (heap b ! r))"

lemma same_peers_trans: "same_peers a b \<Longrightarrow> same_peers b c \<Longrightarrow> same_peers a c"
  by (simp add: same_peers_def)

lemma facing_cong:
  assumes "facing a hex dev ref c" and "same_peers a b" and "half_read b dev = new_reassembler" and "heap b ! ref = c'"
  shows "facing b hex dev ref c'"
proof -
  have "device_of hex b = device_of hex a"
    by (rule device_of_cong) (use assms(2) in \<open>simp_all add: same_peers_def\<close>)
  moreover have "cs_for_peer hex b = cs_for_peer hex a" "mtu_of b dev = mtu_of a dev"
    using assms(2) by (simp_all add: same_peers_def cs_for_peer_def mtu_of_def)
  ultimately show ?thesis using assms by (auto simp: facing_def same_peers_def)
qed

lemma same_peers_modify:
  "(\<And>c. cs_peerIdHex (f c) = cs_peerIdHex c) \<Longrightarrow> same_peers st (modify_cs ref f st)"
  by (simp add: same_peers_def modify_cs_def nth_upd)

lemma same_peers_fields [simp]:
  "same_peers st (st'\<lparr>tasks := ts\<rparr>) = same_peers st st'" "same_peers st (st'\<lparr>written := ws\<rparr>) = same_peers st st'"
  "same_peers st (st'\<lparr>reassemblers := rs\<rparr>) = same_peers st st'" "same_peers st (spawn t st') = same_peers st st'"
  "same_peers st (notifyHandshakeChange st') = same_peers st st'" "same_peers st (set_error e st') = same_peers st st'"
  "same_peers st (st'\<lparr>tofu := env\<rparr>) = same_peers st st'" "same_peers st st"
  by (simp_all add: same_peers_def spawn_def notifyHandshakeChange_def set_error_def)

lemma half_read_fields [simp]:
  "half_read (st\<lparr>tasks := ts\<rparr>) dev = half_read st dev" "half_read (st\<lparr>written := ws\<rparr>) dev = half_read st dev"
  "half_read (modify_cs ref f st) dev = half_read st dev" "half_read (spawn t st) dev = half_read st dev"
  "half_read (notifyHandshakeChange st) dev = half_read st dev" "half_read (set_error e st) dev = half_read st dev"
  "half_read (st\<lparr>tofu := env\<rparr>) dev = half_read st dev"
  by (simp_all add: half_read_def modify_cs_def spawn_def notifyHandshakeChange_def set_error_def)

lemma facing_fields [simp]:
  "facing (st\<lparr>tasks := ts\<rparr>) hex dev ref c = facing st hex dev ref c"
  "facing (st\<lparr>written := ws\<rparr>) hex dev ref c = facing st hex dev ref c"
  by (simp_all add: facing_def device_of_def cs_for_peer_def mtu_of_def)

lemma facing_modify:
  assumes "facing st hex dev ref c" and "\<And>c. cs_peerIdHex (f c) = cs_peerIdHex c"
  shows "facing (modify_cs ref f st) hex dev ref (f c)"
proof (rule facing_cong [OF assms(1) same_peers_modify [OF assms(2)]])
  show "half_read (modify_cs ref f st) dev = new_reassembler" using assms(1) by (simp add: facing_def)
  show "heap (modify_cs ref f st) ! ref = f c" using assms(1) by (auto simp: facing_def modify_cs_def)
qed

section \<open>The steps of the handshake\<close>

lemma find_snoc: "find P xs = None \<Longrightarrow> find P (xs @ [x]) = (if P x then Some x else None)"
  by (induction xs) (auto split: if_splits)

text \<open>The initiator starts with \<open>initiateHandshake\<close> suspended last, a known peer and no object for it.\<close>

definition about_to_initiate :: "world \<Rightarrow> device_identity \<Rightarrow> string \<Rightarrow> bytes \<Rightarrow> transport \<Rightarrow> bool" where
  "about_to_initiate W iden dev pid a \<longleftrightarrow>
     (\<exists>ts. tasks a = ts @ [InitIdentity dev pid]) \<and> w_identity W = Some iden
     \<and> (\<exists>own. peerId a = Some own \<and> roleFor own pid = InitiatorRole) \<and> jm_has (connectedDevices a) dev
     \<and> jm_get (cryptoStates a) dev = None \<and> cs_for_peer (to_hex pid) a = None
     \<and> (\<forall>r \<in> snd ` set (cryptoStates a). r < length (heap a))
     \<and> (\<exists>p. find (\<lambda>p. idHex p = to_hex pid) (reg_list (registry a)) = Some p \<and> mac p = dev) \<and> dev \<noteq> []
     \<and> half_read a dev = new_reassembler \<and> 80 \<le> mtu_of a dev \<and> mtu_of a dev \<le> 259"

text \<open>\<open>initiateHandshake\<close> files a new object and starts writing the first message.\<close>

lemma initiates:
  assumes a: "about_to_initiate W iden dev pid a"
    and m: "writeMessage (w_noise W) d (new_handshake (w_noise W) InitiatorRole iden) [] = (i, Inr m)"
      "chunkFrame m (mtu_of a dev) HandshakeMsg1 = Inr cs"
  shows "\<exists>ts a1. resume_newest W d now a = a1\<lparr>tasks := ts @ [SendMsg1 dev cs]\<rparr>
    \<and> handed a1 = handed a \<and> frameHandlers a1 = frameHandlers a \<and> mtuCache a1 = mtuCache a
    \<and> facing a1 (to_hex pid) dev (length (heap a)) ((new_cs (w_noise W) iden InitiatorRole (to_hex pid) now)\<lparr>cs_handshake := i\<rparr>)"
proof -
  obtain ts own p where t: "tasks a = ts @ [InitIdentity dev pid]" and w: "w_identity W = Some iden" "peerId a = Some own"
      "roleFor own pid = InitiatorRole" "jm_has (connectedDevices a) dev"
    and f: "jm_get (cryptoStates a) dev = None" "cs_for_peer (to_hex pid) a = None"
      "\<forall>r \<in> snd ` set (cryptoStates a). r < length (heap a)"
    and p: "find (\<lambda>p. idHex p = to_hex pid) (reg_list (registry a)) = Some p" "mac p = dev" "dev \<noteq> []"
    and h: "half_read a dev = new_reassembler" "80 \<le> mtu_of a dev" "mtu_of a dev \<le> 259"
    using a unfolding about_to_initiate_def by blast
  let ?n = "new_cs (w_noise W) iden InitiatorRole (to_hex pid) now" and ?ref = "length (heap a)" and ?hex = "to_hex pid"
  let ?a0 = "alloc_cs dev ?n a" and ?upd = "cs_handshake_update (\<lambda>_. i)"
  have cs: "cryptoStates ?a0 = cryptoStates a @ [(dev, ?ref)]" "heap ?a0 = heap a @ [?n]"
    using f(1) by (simp_all add: alloc_cs_def jm_set_fresh jm_has_def)
  have "find (\<lambda>r. cs_peerIdHex ((heap a @ [?n]) ! r) = ?hex) (map snd (cryptoStates a)) = None"
    using f(2,3) by (auto simp: cs_for_peer_def find_None_iff nth_append)
  then have "cs_for_peer ?hex ?a0 = Some ?ref"
    by (simp only: cs_for_peer_def cs map_append list.map snd_conv find_snoc) (simp add: new_cs_def)
  moreover have "device_of ?hex ?a0 = Some dev" using p by (simp add: device_of_def alloc_cs_def Let_def)
  moreover have "half_read ?a0 dev = new_reassembler" "mtu_of ?a0 dev = mtu_of a dev" "jm_get (cryptoStates ?a0) dev = Some ?ref"
    using h(1) by (simp_all add: half_read_def mtu_of_def alloc_cs_def jsmap)
  moreover have "cs_peerIdHex ?n = ?hex" by (simp add: new_cs_def)
  ultimately have "facing ?a0 ?hex dev ?ref ?n" using h(2,3) by (simp add: facing_def cs(2))
  then have "facing (modify_cs ?ref ?upd ?a0) ?hex dev ?ref (?upd ?n)" by (rule facing_modify) simp
  moreover have "resume_newest W d now a = (modify_cs ?ref ?upd ?a0)\<lparr>tasks := ts @ [SendMsg1 dev cs]\<rparr>"
  proof -
    have "a = a\<lparr>tasks := ts @ [InitIdentity dev pid]\<rparr>" using t by simp
    then have "resume_newest W d now a = initiateHandshake (w_noise W) d now (Some iden) dev pid (a\<lparr>tasks := ts\<rparr>)"
      using resume_newest_task [where W = W and d = d and now = now and st = a and ts = ts and t = "InitIdentity dev pid"] w(1) by (simp add: resume_task_def)
    then show ?thesis using w m
      by (simp add: initiateHandshake_def Let_def alloc_cs_def modify_cs_def mtu_of_def spawn_def new_cs_def)
  qed
  ultimately show ?thesis by (intro exI conjI) (auto simp: modify_cs_def alloc_cs_def)
qed

text \<open>One message over the air: the receiver is left with \<open>advanceHandshake\<close> to do.\<close>

lemma hop_run:
  assumes "write_out W d now x = x'" and "written x' = written x @ map (Pair to) cs" and "chunkFrame m mtu ft = Inr cs"
    and "mtu \<le> 259" and "unat ft < 16" and "ft \<noteq> SessionData" and "delivery_order (length cs) order" and "facing y hex dev ref c"
  shows "\<exists>y1. hop W d V d' now dev order (x, y) = Some (x', advanceHandshake (w_noise V) (w_ratchet V) d' d' now ref dev ft m y1)
    \<and> facing y1 hex dev ref c \<and> same_peers y y1 \<and> written y1 = written y \<and> tasks y1 = tasks y"
proof -
  have y: "half_read y dev = new_reassembler" "jm_get (cryptoStates y) dev = Some ref" "heap y ! ref = c"
    using assms(8) by (simp_all add: facing_def)
  obtain rs where rs: "receive_all_chunks V d' now dev (map ((!) cs) order) y
      = advanceHandshake (w_noise V) (w_ratchet V) d' d' now ref dev ft m (y\<lparr>reassemblers := rs\<rparr>)"
    "half_read (y\<lparr>reassemblers := rs\<rparr>) dev = new_reassembler"
    using receive_message [OF assms(7,3,4,5) y(1,2) assms(6)] by blast
  have "facing (y\<lparr>reassemblers := rs\<rparr>) hex dev ref c"
    by (rule facing_cong [OF assms(8)]) (use rs y in simp_all)
  then show ?thesis using rs(1) assms(1,2,7) by (intro exI [of _ "y\<lparr>reassemblers := rs\<rparr>"]) (simp add: hop_def Let_def o_def)
qed

text \<open>A message that is answered, and the answer written out.\<close>

lemma answers:
  assumes f: "facing y hex dev ref c" and r: "readMessage P d (cs_handshake c) m = (h, Inr q)"
    and t: "ft = HandshakeMsg1 \<and> cs_role c = ResponderRole \<and> ft' = HandshakeMsg2
      \<or> ft = HandshakeMsg2 \<and> cs_role c = InitiatorRole \<and> ft' = HandshakeMsg3"
    and w: "writeMessage P d' h [] = (h', Inr m')" "chunkFrame m' (mtu_of y dev) ft' = Inr cs"
  shows "\<exists>y1. advanceHandshake P R d d' now ref dev ft m y = y1\<lparr>tasks := tasks y @ [SendReply ref dev cs]\<rparr>
    \<and> facing y1 hex dev ref (c\<lparr>cs_handshake := h'\<rparr>) \<and> same_peers y y1 \<and> written y1 = written y"
proof -
  let ?f = "cs_handshake_update (\<lambda>_. h')" and ?y = "modify_cs ref (cs_handshake_update (\<lambda>_. h)) y"
  have c: "heap y ! ref = c" "ref < length (heap y)" using f by (simp_all add: facing_def)
  have m: "modify_cs ref ?f ?y = modify_cs ref ?f y" "mtu_of (modify_cs ref ?f y) dev = mtu_of y dev"
    using c by (simp_all add: modify_cs_def mtu_of_def)
  have "advanceHandshake P R d d' now ref dev ft m y = spawn (SendReply ref dev cs) (modify_cs ref ?f y)"
    using t r w c m by (auto simp: advanceHandshake_def Let_def frame_consts)
  moreover have "same_peers y (modify_cs ref ?f y)" "facing (modify_cs ref ?f y) hex dev ref (?f c)"
    using same_peers_modify facing_modify [OF f] by simp_all
  ultimately show ?thesis by (intro exI [of _ "modify_cs ref ?f y"]) (simp add: spawn_def modify_cs_def)
qed

text \<open>The last message completes the object: the session starts.\<close>

lemma finishes:
  assumes f: "facing st hex dev ref c" and h: "isComplete (cs_handshake c)" "split_keys P (cs_handshake c) = Inr k"
      "newRatchetSession R (sendKey k) (recvKey k) (direction_of (cs_role c)) = Inr s"
      "noise_sas (cs_handshake c) = Some sas" "peerStaticPublicKey (cs_handshake c) = Some pub"
  shows "\<exists>st' c'. finish_handshake P R now ref st = st' \<and> facing st' hex dev ref c' \<and> same_peers st st' \<and> written st' = written st
    \<and> tasks st' = tasks st
    \<and> cs_session c' = Some s \<and> cs_sas c' = Some sas \<and> cs_peerPubkeyB64 c' = Some (uint8ToBase64Url pub) \<and> cs_verdict c' = cs_verdict c"
proof -
  have c: "heap st ! ref = c" "ref < length (heap st)" using f by (simp_all add: facing_def)
  let ?key = "uint8ToBase64Url pub"
  obtain env v where tv: "tofuCheck now (cs_peerIdHex c) ?key (tofu st) = (env, v)" by fastforce
  let ?g = "\<lambda>c. c\<lparr>cs_session := Some s, cs_sas := Some sas, handshakeFailures := 0, cs_peerPubkeyB64 := Some ?key, cs_keyChanged := keyChanged v\<rparr>"
  let ?st = "notifyHandshakeChange ((if trusted v then id else set_error UnknownPeerKey) (modify_cs ref ?g (st\<lparr>tofu := env\<rparr>)))"
  have "finish_handshake P R now ref st = ?st"
    using c h tv by (simp add: finish_handshake_def tofu_step_def Let_def modify_cs_def set_error_def)
  moreover have p: "same_peers st ?st"
    using same_peers_modify [of ?g "st\<lparr>tofu := env\<rparr>" ref] same_peers_trans [of st "st\<lparr>tofu := env\<rparr>"] by simp
  moreover have "facing ?st hex dev ref (?g c)"
  proof (rule facing_cong [OF f p])
    show "half_read ?st dev = new_reassembler" using f by (simp add: facing_def)
    show "heap ?st ! ref = ?g c" using c by (simp add: notifyHandshakeChange_def set_error_def modify_cs_def)
  qed
  ultimately show ?thesis
    by (intro exI [of _ ?st] exI [of _ "?g c"]) (simp add: notifyHandshakeChange_def set_error_def modify_cs_def)
qed

text \<open>The user accepts.\<close>

lemma accepts_peer:
  assumes f: "facing st hex dev ref c" and v: "cs_verdict c = Pending" and s: "cs_session c = Some s"
  shows "\<exists>st'. acceptPeer hex st = st' \<and> facing st' hex dev ref (c\<lparr>cs_verdict := Accepted\<rparr>) \<and> same_peers st st'
    \<and> link_out st' hex ref s \<and> link_in st' dev ref s"
proof -
  let ?f = "cs_verdict_update (\<lambda>_. Accepted)" and ?st = "modify_cs ref (cs_verdict_update (\<lambda>_. Accepted)) st"
  have c: "heap st ! ref = c" "ref < length (heap st)" "cs_for_peer hex st = Some ref" using f by (simp_all add: facing_def)
  have "acceptPeer hex st = notifyHandshakeChange ?st"
    using c v by (simp add: acceptPeer_def transitionVerdict_def set_verdict_def modify_cs_def)
  moreover have "same_peers st (notifyHandshakeChange ?st)" by (simp add: same_peers_modify)
  moreover from f have m: "facing ?st hex dev ref (?f c)" by (rule facing_modify) simp
  have n: "facing (notifyHandshakeChange ?st) hex dev ref (?f c)"
  proof (rule facing_cong [OF m])
    show "half_read (notifyHandshakeChange ?st) dev = new_reassembler" using f by (simp add: facing_def)
    show "heap (notifyHandshakeChange ?st) ! ref = ?f c" using c by (simp add: notifyHandshakeChange_def modify_cs_def)
  qed simp
  moreover have "link_out (notifyHandshakeChange ?st) hex ref s" "link_in (notifyHandshakeChange ?st) dev ref s"
    using n s by (auto simp: facing_def link_out_def link_in_def half_read_def split: option.splits)
  ultimately show ?thesis by blast
qed

section \<open>The three messages\<close>

definition chunk_count :: "nat \<Rightarrow> int \<Rightarrow> nat" where
  "chunk_count n mtu = ceil_div n (nat (mtu - int FRAME_HEADER_LEN))"

lemma chunk_count: "chunkFrame m mtu ft = Inr cs \<Longrightarrow> length cs = chunk_count (length m) mtu"
  by (auto simp: chunkFrame_def chunk_count_def Let_def split: if_splits)

lemma chunk_96:
  assumes "length m = 96" and "80 \<le> mtu"
  shows "\<exists>cs. chunkFrame m mtu ft = Inr cs"
proof -
  have d: "0 < nat (mtu - 4)" "76 \<le> nat (mtu - 4)" using assms(2) by simp_all
  have "ceil_div 96 (nat (mtu - 4)) \<le> ceil_div 1216 (nat (mtu - 4))" by (simp add: ceil_div_def div_le_mono)
  then have "ceil_div 96 (nat (mtu - 4)) \<le> 16" using ceil_div_1216 [OF d(1)] d(2) by linarith
  moreover have "ceil_div 96 (nat (mtu - 4)) \<noteq> 0" using d by (simp add: ceil_div_def div_eq_0_iff)
  ultimately show ?thesis using assms by (simp add: chunkFrame_def frame_consts Let_def)
qed

lemma same_mtu: "same_peers a b \<Longrightarrow> mtu_of b dev = mtu_of a dev"
  by (simp add: same_peers_def mtu_of_def)

lemma write_out_msg1:
  "write_out W d now (st\<lparr>tasks := ts @ [SendMsg1 dev cs]\<rparr>) = st\<lparr>tasks := ts, written := written st @ map (Pair dev) cs\<rparr>"
  using write_msg1 by (simp add: write_out_def chunks_pending_def)

lemma write_out_reply:
  "write_out W d now (st\<lparr>tasks := ts @ [SendReply ref dev cs]\<rparr>)
     = finish_handshake (w_noise W) (w_ratchet W) now ref (st\<lparr>tasks := ts, written := written st @ map (Pair dev) cs\<rparr>)"
  using write_reply by (simp add: write_out_def chunks_pending_def)

text \<open>The responder starts with a fresh object.\<close>

definition awaits_contact :: "world \<Rightarrow> device_identity \<Rightarrow> string \<Rightarrow> string \<Rightarrow> nat \<Rightarrow> transport \<Rightarrow> bool" where
  "awaits_contact V iden dev hex ref b \<longleftrightarrow>
     (\<exists>t0. facing b hex dev ref (new_cs (w_noise V) iden ResponderRole hex t0))"

text \<open>An object in the middle of its handshake.\<close>

definition midway :: "transport \<Rightarrow> string \<Rightarrow> string \<Rightarrow> nat \<Rightarrow> role \<Rightarrow> handshake \<Rightarrow> bool" where
  "midway st hex dev ref ro h \<longleftrightarrow> (\<exists>c. facing st hex dev ref c \<and> cs_handshake c = h \<and> cs_role c = ro \<and> cs_verdict c = Pending)"

lemma midway_fields [simp]:
  "midway (st\<lparr>tasks := ts\<rparr>) hex dev ref ro h = midway st hex dev ref ro h"
  "midway (st\<lparr>written := ws\<rparr>) hex dev ref ro h = midway st hex dev ref ro h"
  by (simp_all add: midway_def)

lemma contact_1:
  assumes P: "noise_laws (w_noise W)" "w_noise V = w_noise W" and a: "about_to_initiate W idI devR pidR a"
    and b: "awaits_contact V idR devI hexI rb b" and idr: "identity_of (w_noise W) xR idR"
    and o1: "delivery_order (chunk_count 1216 (mtu_of a devR)) o1"
  obtains a1 b1 ts cs2 m2 i1 i2 r2 where
    "hop W dI V dR now devI o1 (resume_newest W dI now a, b) = Some (a1, b1\<lparr>tasks := ts @ [SendReply rb devI cs2]\<rparr>)"
    "midway a1 (to_hex pidR) devR (length (heap a)) InitiatorRole i1" "midway b1 hexI devI rb ResponderRole r2"
    "same_peers b b1" "handed a1 = handed a" "frameHandlers a1 = frameHandlers a" "mtu_of a1 devR = mtu_of a devR"
    "readMessage (w_noise W) dI i1 m2 = (i2, Inr [])" "after_msg2 (w_noise W) dI dR i2 r2" "hs_id i2 = idI" "hs_id r2 = idR"
    "chunkFrame m2 (mtu_of b devI) HandshakeMsg2 = Inr cs2" "length m2 = 1216"
proof -
  let ?P = "w_noise W"
  obtain i1 r1 m1 where 1: "writeMessage ?P dI (new_handshake ?P InitiatorRole idI) [] = (i1, Inr m1)"
      "readMessage ?P dR (new_handshake ?P ResponderRole idR) m1 = (r1, Inr [])" "length m1 = 1216"
    and a1: "after_msg1 ?P dI dR i1 r1" "hs_id i1 = idI" "hs_id r1 = idR"
    using msg1_exchange [OF P(1), of "new_handshake ?P InitiatorRole idI" "new_handshake ?P ResponderRole idR" "[]" dI dR]
      new_handshake_ns by (metis new_handshake_fields list.size(3) zero_le add_0_right)
  obtain i2 r2 m2 where 2: "writeMessage ?P dR r1 [] = (r2, Inr m2)" "readMessage ?P dI i1 m2 = (i2, Inr [])" "length m2 = 1216"
    and a2: "after_msg2 ?P dI dR i2 r2" "hs_id i2 = idI" "hs_id r2 = idR"
    using msg2_exchange [OF P(1) a1(1), of xR "[]"] idr a1(2,3) by (metis list.size(3) zero_le add_0_right)
  have mtu: "80 \<le> mtu_of a devR" "mtu_of a devR \<le> 259" using a by (simp_all add: about_to_initiate_def)
  obtain cs1 where cs1: "chunkFrame m1 (mtu_of a devR) HandshakeMsg1 = Inr cs1" using chunk_1216 [OF 1(3)] mtu by blast
  obtain ts a0 where a0: "resume_newest W dI now a = a0\<lparr>tasks := ts @ [SendMsg1 devR cs1]\<rparr>"
    "handed a0 = handed a" "frameHandlers a0 = frameHandlers a" "mtuCache a0 = mtuCache a"
    "facing a0 (to_hex pidR) devR (length (heap a)) ((new_cs ?P idI InitiatorRole (to_hex pidR) now)\<lparr>cs_handshake := i1\<rparr>)"
    using initiates [OF a 1(1) cs1] by blast
  let ?a1 = "a0\<lparr>tasks := ts, written := written a0 @ map (Pair devR) cs1\<rparr>"
  obtain t0 where fb: "facing b hexI devI rb (new_cs ?P idR ResponderRole hexI t0)" using b P(2) by (auto simp: awaits_contact_def)
  have "80 \<le> mtu_of b devI" using fb by (simp add: facing_def)
  then obtain cs2 where cs2: "chunkFrame m2 (mtu_of b devI) HandshakeMsg2 = Inr cs2" using chunk_1216 [OF 2(3)] by blast
  have "delivery_order (length cs1) o1" using o1 chunk_count [OF cs1] 1(3) by simp
  moreover have "write_out W dI now (resume_newest W dI now a) = ?a1" by (simp only: a0(1) write_out_msg1)
  moreover have "written ?a1 = written (resume_newest W dI now a) @ map (Pair devR) cs1" by (simp add: a0(1))
  ultimately obtain b0 where b0: "hop W dI V dR now devI o1 (resume_newest W dI now a, b)
      = Some (?a1, advanceHandshake ?P (w_ratchet V) dR dR now rb devI HandshakeMsg1 m1 b0)"
    "facing b0 hexI devI rb (new_cs ?P idR ResponderRole hexI t0)" "same_peers b b0"
    using hop_run [of W dI now _ ?a1 devR cs1 m1 _ HandshakeMsg1 o1 b hexI devI rb _ V dR] cs1 mtu(2) fb P(2)
    by (fastforce simp: frame_consts)
  have "cs_handshake (new_cs ?P idR ResponderRole hexI t0) = new_handshake ?P ResponderRole idR"
    "cs_role (new_cs ?P idR ResponderRole hexI t0) = ResponderRole" by (simp_all add: new_cs_def)
  from answers [OF b0(2), unfolded this, OF 1(2) _ 2(1), of HandshakeMsg1 HandshakeMsg2 cs2 "w_ratchet V" now]
  obtain b1 where b1: "advanceHandshake ?P (w_ratchet V) dR dR now rb devI HandshakeMsg1 m1 b0
      = b1\<lparr>tasks := tasks b0 @ [SendReply rb devI cs2]\<rparr>"
    "facing b1 hexI devI rb ((new_cs ?P idR ResponderRole hexI t0)\<lparr>cs_handshake := r2\<rparr>)" "same_peers b0 b1"
    using cs2 same_mtu [OF b0(3)] by auto
  show thesis
    by (rule that [of ?a1 "tasks b0" cs2 b1 i1 r2 m2 i2])
      (use b0 b1 a0 cs2 2 a2 same_peers_trans [OF b0(3) b1(3)] in \<open>auto simp: midway_def new_cs_def mtu_of_def\<close>)
qed

text \<open>Once complete, the objects of the two sides stand for the same conversation.\<close>

definition both_complete :: "noise_prims \<Rightarrow> device_identity \<Rightarrow> device_identity \<Rightarrow> handshake \<Rightarrow> handshake \<Rightarrow> bool" where
  "both_complete P idI idR i r \<longleftrightarrow> isComplete i \<and> isComplete r \<and> ns i = ns r
     \<and> (\<exists>ss. mlkemSharedSecret i = Some ss \<and> mlkemSharedSecret r = Some ss)
     \<and> hs_role i = InitiatorRole \<and> hs_role r = ResponderRole
     \<and> rsPublic i = Some (id_ed25519 idR) \<and> rsPublic r = Some (id_ed25519 idI) \<and> length (ns_h (ns r)) = 32"

definition hash_laws :: "noise_prims \<Rightarrow> bool" where
  "hash_laws P \<longleftrightarrow> (\<forall>x. length (sha256 P x) = 32) \<and> (\<forall>ikm salt info n. length (hkdf_salted P ikm salt info n) = n)"

lemma writeMsg3_hash:
  "hash_laws P \<Longrightarrow> hs_role c = InitiatorRole \<Longrightarrow> msgIdx c = 2 \<Longrightarrow> writeMessage P d c x = (c', Inr m)
    \<Longrightarrow> length (ns_h (ns c')) = 32"
  by (auto simp: writeMessage_def writeMsg3_def encryptAndHash_def mixHash_def hash_laws_def Let_def case_prod_beta
      split: option.splits if_splits)

text \<open>The second message out, and the third one ready.\<close>

lemma contact_2:
  assumes P: "noise_laws (w_noise W)" "w_noise V = w_noise W" "hash_laws (w_noise W)" and idi: "identity_of (w_noise W) xI idI"
    and a: "midway a hexR devR ra InitiatorRole i1" and b: "midway b hexI devI rb ResponderRole r2"
    and m: "readMessage (w_noise W) dI i1 m2 = (i2, Inr [])" "after_msg2 (w_noise W) dI dR i2 r2" "hs_id i2 = idI" "hs_id r2 = idR"
      "chunkFrame m2 (mtu_of b devI) HandshakeMsg2 = Inr cs2" "length m2 = 1216"
    and o2: "delivery_order (chunk_count 1216 (mtu_of b devI)) o2"
  obtains b1 ts cs3 a1 i3 r3 m3 where
    "hop V dR W dI now devR o2 (b\<lparr>tasks := ts0 @ [SendReply rb devI cs2]\<rparr>, a) = Some (b1, a1\<lparr>tasks := ts @ [SendReply ra devR cs3]\<rparr>)"
    "midway a1 hexR devR ra InitiatorRole i3" "midway b1 hexI devI rb ResponderRole r2" "same_peers a a1" "same_peers b b1"
    "readMessage (w_noise W) dR r2 m3 = (r3, Inr [])" "both_complete (w_noise W) idI idR i3 r3"
    "chunkFrame m3 (mtu_of a devR) HandshakeMsg3 = Inr cs3" "length m3 = 96"
proof -
  let ?P = "w_noise W"
  obtain i3 r3 m3 where 3: "writeMessage ?P dI i2 [] = (i3, Inr m3)" "readMessage ?P dR r2 m3 = (r3, Inr [])" "length m3 = 96"
    and c: "isComplete i3" "isComplete r3" "ns i3 = ns r3" "mlkemSharedSecret i3 = mlkemSharedSecret r3" "mlkemSharedSecret i3 \<noteq> None"
      "hs_role i3 = InitiatorRole" "hs_role r3 = ResponderRole" "rsPublic i3 = Some (id_ed25519 idR)" "rsPublic r3 = Some (id_ed25519 idI)"
    using msg3_exchange [OF P(1) m(2), of xI "[]" dI dR] idi m(3,4) by (metis list.size(3) zero_le add_0_right)
  have "length (ns_h (ns i3)) = 32"
    using writeMsg3_hash [OF P(3) _ _ 3(1)] m(2) by (simp add: after_msg2_def)
  then have both: "both_complete ?P idI idR i3 r3" using c by (auto simp: both_complete_def)
  obtain ca where fa: "facing a hexR devR ra ca" "cs_handshake ca = i1" "cs_role ca = InitiatorRole" "cs_verdict ca = Pending"
    using a by (auto simp: midway_def)
  obtain cb where fb: "facing b hexI devI rb cb" "cs_handshake cb = r2" using b by (auto simp: midway_def)
  have mtu: "80 \<le> mtu_of a devR" "mtu_of b devI \<le> 259" using fa fb by (simp_all add: facing_def)
  obtain cs3 where cs3: "chunkFrame m3 (mtu_of a devR) HandshakeMsg3 = Inr cs3" using chunk_96 [OF 3(3) mtu(1)] by blast
  let ?b1 = "b\<lparr>tasks := ts0, written := written b @ map (Pair devI) cs2\<rparr>"
  have "\<not> isComplete r2" using m(2) by (simp add: after_msg2_def isComplete_def)
  then have "write_out V dR now (b\<lparr>tasks := ts0 @ [SendReply rb devI cs2]\<rparr>) = ?b1"
    using fb by (simp add: write_out_reply finish_handshake_def facing_def)
  moreover have "delivery_order (length cs2) o2" using o2 chunk_count [OF m(5)] m(6) by simp
  ultimately obtain a0 where a0: "hop V dR W dI now devR o2 (b\<lparr>tasks := ts0 @ [SendReply rb devI cs2]\<rparr>, a)
      = Some (?b1, advanceHandshake ?P (w_ratchet W) dI dI now ra devR HandshakeMsg2 m2 a0)" "facing a0 hexR devR ra ca" "same_peers a a0"
    using hop_run [of V dR now _ ?b1 devI cs2 m2 _ HandshakeMsg2 o2 a hexR devR ra ca W dI] m(5) mtu(2) fa(1)
    by (fastforce simp: frame_consts)
  obtain a1 where a1: "advanceHandshake ?P (w_ratchet W) dI dI now ra devR HandshakeMsg2 m2 a0
      = a1\<lparr>tasks := tasks a0 @ [SendReply ra devR cs3]\<rparr>"
    "facing a1 hexR devR ra (ca\<lparr>cs_handshake := i3\<rparr>)" "same_peers a0 a1"
    using answers [OF a0(2), unfolded fa(2), OF m(1) _ 3(1), of HandshakeMsg2 HandshakeMsg3 cs3 "w_ratchet W" now]
      cs3 same_mtu [OF a0(3)] fa(3) by auto
  show thesis
    by (rule that [of ?b1 "tasks a0" cs3 a1 i3 m3 r3])
      (use a0 a1 cs3 3 both b fa same_peers_trans [OF a0(3) a1(3)] in \<open>auto simp: midway_def\<close>)
qed

text \<open>The keys, the session and the authentication string of a complete object.\<close>

lemma both_sessions:
  assumes "both_complete P idI idR i r" and "hash_laws P"
  obtains k1 k2 s r' sas where "split_keys P i = Inr \<lparr>sendKey = k1, recvKey = k2\<rparr>" "split_keys P r = Inr \<lparr>sendKey = k2, recvKey = k1\<rparr>"
    "newRatchetSession R k1 k2 Initiator = Inr s" "newRatchetSession R k2 k1 Responder = Inr r'"
    "noise_sas i = Some sas" "noise_sas r = Some sas"
    "peerStaticPublicKey i = Some (id_ed25519 idR)" "peerStaticPublicKey r = Some (id_ed25519 idI)"
proof -
  obtain ss where ss: "mlkemSharedSecret i = Some ss" "mlkemSharedSecret r = Some ss" using assms(1) by (auto simp: both_complete_def)
  let ?okm = "hkdf_salted P (ns_ck (ns r) @ ss) (ns_h (ns r)) HKDF_INFO 64"
  have l: "length ?okm = 64" using assms(2) by (simp add: hash_laws_def)
  show thesis
    by (rule that [of "js_slice 0 32 ?okm" "js_slice 32 64 ?okm" "projr (newRatchetSession R (js_slice 0 32 ?okm) (js_slice 32 64 ?okm) Initiator)"
          "projr (newRatchetSession R (js_slice 32 64 ?okm) (js_slice 0 32 ?okm) Responder)" "the (noise_sas r)"])
      (use assms(1) ss l in \<open>simp_all add: both_complete_def split_keys_def isComplete_def noise_consts newRatchetSession_def Let_def
        CHAIN_KEY_BYTES_def length_js_slice noise_sas_def computeSas_def peerStaticPublicKey_def\<close>)
qed

text \<open>An object with a session that waits for the user.\<close>

definition undecided :: "transport \<Rightarrow> string \<Rightarrow> string \<Rightarrow> nat \<Rightarrow> ratchet_session \<Rightarrow> string \<Rightarrow> bytes \<Rightarrow> bool" where
  "undecided st hex dev ref s sas pub \<longleftrightarrow> (\<exists>c. facing st hex dev ref c \<and> cs_session c = Some s \<and> cs_sas c = Some sas
     \<and> cs_peerPubkeyB64 c = Some (uint8ToBase64Url pub) \<and> cs_verdict c = Pending)"

lemma midway_finishes:
  assumes "midway st hex dev ref ro h" and "isComplete h" and "split_keys P h = Inr \<lparr>sendKey = k1, recvKey = k2\<rparr>"
    and "newRatchetSession R k1 k2 (direction_of ro) = Inr s" and "noise_sas h = Some sas" and "peerStaticPublicKey h = Some pub"
  shows "undecided (finish_handshake P R now ref st) hex dev ref s sas pub \<and> same_peers st (finish_handshake P R now ref st)
    \<and> written (finish_handshake P R now ref st) = written st"
proof -
  obtain c where c: "facing st hex dev ref c" "cs_handshake c = h" "cs_role c = ro" "cs_verdict c = Pending"
    using assms(1) by (auto simp: midway_def)
  from finishes [OF c(1), unfolded c(2,3), OF assms(2,3) _ assms(5,6), of R s now] assms(4) c(4)
  show ?thesis by (auto simp: undecided_def)
qed

lemma contact_3:
  assumes P: "w_noise V = w_noise W" "w_ratchet V = w_ratchet W" "hash_laws (w_noise W)"
    and a: "midway a hexR devR ra InitiatorRole i3" and b: "midway b hexI devI rb ResponderRole r2"
    and m: "readMessage (w_noise W) dR r2 m3 = (r3, Inr [])" "both_complete (w_noise W) idI idR i3 r3"
      "chunkFrame m3 (mtu_of a devR) HandshakeMsg3 = Inr cs3" "length m3 = 96"
    and o3: "delivery_order (chunk_count 96 (mtu_of a devR)) o3"
  obtains a1 b1 k1 k2 s r sas where
    "hop W dI V dR now devI o3 (a\<lparr>tasks := ts0 @ [SendReply ra devR cs3]\<rparr>, b) = Some (a1, b1)" "same_peers a a1" "same_peers b b1"
    "newRatchetSession (w_ratchet W) k1 k2 Initiator = Inr s" "newRatchetSession (w_ratchet W) k2 k1 Responder = Inr r"
    "undecided a1 hexR devR ra s sas (id_ed25519 idR)" "undecided b1 hexI devI rb r sas (id_ed25519 idI)"
proof -
  let ?P = "w_noise W" and ?R = "w_ratchet W"
  obtain k1 k2 s r sas where k: "split_keys ?P i3 = Inr \<lparr>sendKey = k1, recvKey = k2\<rparr>" "split_keys ?P r3 = Inr \<lparr>sendKey = k2, recvKey = k1\<rparr>"
      "newRatchetSession ?R k1 k2 Initiator = Inr s" "newRatchetSession ?R k2 k1 Responder = Inr r"
      "noise_sas i3 = Some sas" "noise_sas r3 = Some sas"
      "peerStaticPublicKey i3 = Some (id_ed25519 idR)" "peerStaticPublicKey r3 = Some (id_ed25519 idI)"
    using both_sessions [OF m(2) P(3)] .
  have fin: "isComplete i3" "isComplete r3" using m(2) by (simp_all add: both_complete_def)
  obtain cb where fb: "facing b hexI devI rb cb" "cs_handshake cb = r2" "cs_role cb = ResponderRole" "cs_verdict cb = Pending"
    using b by (auto simp: midway_def)
  have mtu: "mtu_of a devR \<le> 259" using a by (auto simp: midway_def facing_def)
  let ?a0 = "a\<lparr>tasks := ts0, written := written a @ map (Pair devR) cs3\<rparr>" let ?a1 = "finish_handshake ?P ?R now ra ?a0"
  have a1: "undecided ?a1 hexR devR ra s sas (id_ed25519 idR)" "same_peers ?a0 ?a1" "written ?a1 = written ?a0"
    using midway_finishes [of ?a0, OF _ fin(1) k(1) _ k(5,7)] a k(3) by (simp_all add: direction_of_def)
  have "write_out W dI now (a\<lparr>tasks := ts0 @ [SendReply ra devR cs3]\<rparr>) = ?a1" by (simp only: write_out_reply)
  moreover have "delivery_order (length cs3) o3" using o3 chunk_count [OF m(3)] m(4) by simp
  ultimately obtain b0 where b0: "hop W dI V dR now devI o3 (a\<lparr>tasks := ts0 @ [SendReply ra devR cs3]\<rparr>, b)
      = Some (?a1, advanceHandshake ?P ?R dR dR now rb devI HandshakeMsg3 m3 b0)" "facing b0 hexI devI rb cb" "same_peers b b0"
    using hop_run [of W dI now _ ?a1 devR cs3 m3 _ HandshakeMsg3 o3 b hexI devI rb cb V dR] m(3) mtu fb(1) a1(3) P(1,2)
    by (fastforce simp: frame_consts)
  let ?b = "modify_cs rb (cs_handshake_update (\<lambda>_. r3)) b0" let ?b1 = "finish_handshake ?P ?R now rb ?b"
  have "heap b0 ! rb = cb" using b0(2) by (simp add: facing_def)
  then have adv: "advanceHandshake ?P ?R dR dR now rb devI HandshakeMsg3 m3 b0 = ?b1"
    using m(1) fb(2) by (simp add: advanceHandshake_def frame_consts)
  have "midway ?b hexI devI rb ResponderRole r3"
    using facing_modify [OF b0(2), of "cs_handshake_update (\<lambda>_. r3)"] fb(3,4) by (auto simp: midway_def)
  then have b1: "undecided ?b1 hexI devI rb r sas (id_ed25519 idI)" "same_peers ?b ?b1"
    using midway_finishes [OF _ fin(2) k(2) _ k(6,8)] k(4) by (simp_all add: direction_of_def)
  have "same_peers b ?b1"
    by (rule same_peers_trans [OF b0(3) same_peers_trans [OF same_peers_modify b1(2)]]) simp
  moreover have "same_peers a ?a1" using a1(2) by (simp add: same_peers_def)
  ultimately show thesis using that b0(1) a1(1) b1(1) k(3,4) adv by metis
qed

text \<open>After acceptance the link stands in both directions.\<close>

lemma undecided_accepts:
  assumes "undecided st hex dev ref s sas pub"
  shows "same_peers st (acceptPeer hex st) \<and> link_out (acceptPeer hex st) hex ref s \<and> link_in (acceptPeer hex st) dev ref s
    \<and> cs_sas (heap (acceptPeer hex st) ! ref) = Some sas \<and> cs_peerIdHex (heap (acceptPeer hex st) ! ref) = hex
    \<and> cs_peerPubkeyB64 (heap (acceptPeer hex st) ! ref) = Some (uint8ToBase64Url pub)"
proof -
  obtain c where c: "facing st hex dev ref c" "cs_session c = Some s" "cs_sas c = Some sas"
    "cs_peerPubkeyB64 c = Some (uint8ToBase64Url pub)" "cs_verdict c = Pending" using assms by (auto simp: undecided_def)
  from accepts_peer [OF c(1,5,2)] c show ?thesis by (auto simp: facing_def)
qed

section \<open>First contact\<close>

lemma first_contact_run:
  assumes "noise_laws (w_noise W)" and "hash_laws (w_noise W)" and "w_noise V = w_noise W" and "w_ratchet V = w_ratchet W"
    and "identity_of (w_noise W) xI idI" and "identity_of (w_noise W) xR idR"
    and "about_to_initiate W idI devR pidR a" and "awaits_contact V idR devI hexI rb b"
    and "delivery_order (chunk_count 1216 (mtu_of a devR)) o1" and "delivery_order (chunk_count 1216 (mtu_of b devI)) o2"
    and "delivery_order (chunk_count 96 (mtu_of a devR)) o3"
  obtains a' b' a'' b'' k1 k2 s r sas where
    "first_contact W dI V dR now devR devI (to_hex pidR) hexI o1 o2 o3 (a, b) = Some (a', b')"
    "newRatchetSession (w_ratchet W) k1 k2 Initiator = Inr s" "newRatchetSession (w_ratchet W) k2 k1 Responder = Inr r"
    "undecided a'' (to_hex pidR) devR (length (heap a)) s sas (id_ed25519 idR)" "acceptPeer (to_hex pidR) a'' = a'"
    "undecided b'' hexI devI rb r sas (id_ed25519 idI)" "acceptPeer hexI b'' = b'"
    "handed a'' = handed a" "handed b'' = handed b" "frameHandlers a'' = frameHandlers a" "frameHandlers b'' = frameHandlers b"
    "mtu_of a'' devR = mtu_of a devR" "mtu_of b'' devI = mtu_of b devI"
proof -
  let ?hR = "to_hex pidR" and ?ra = "length (heap a)"
  obtain a1 b1 ts cs2 m2 i1 i2 r2 where
    1: "hop W dI V dR now devI o1 (resume_newest W dI now a, b) = Some (a1, b1\<lparr>tasks := ts @ [SendReply rb devI cs2]\<rparr>)"
    "midway a1 ?hR devR ?ra InitiatorRole i1" "midway b1 hexI devI rb ResponderRole r2"
    "same_peers b b1" "handed a1 = handed a" "frameHandlers a1 = frameHandlers a" "mtu_of a1 devR = mtu_of a devR"
    "readMessage (w_noise W) dI i1 m2 = (i2, Inr [])" "after_msg2 (w_noise W) dI dR i2 r2" "hs_id i2 = idI" "hs_id r2 = idR"
    "chunkFrame m2 (mtu_of b devI) HandshakeMsg2 = Inr cs2" "length m2 = 1216"
    using contact_1 [OF assms(1,3,7,8,6,9), of dI dR now] .
  note mb = same_mtu [OF 1(4), of devI]
  obtain b2 ts' cs3 a2 i3 r3 m3 where
    2: "hop V dR W dI now devR o2 (b1\<lparr>tasks := ts @ [SendReply rb devI cs2]\<rparr>, a1) = Some (b2, a2\<lparr>tasks := ts' @ [SendReply ?ra devR cs3]\<rparr>)"
    "midway a2 ?hR devR ?ra InitiatorRole i3" "midway b2 hexI devI rb ResponderRole r2" "same_peers a1 a2" "same_peers b1 b2"
    "readMessage (w_noise W) dR r2 m3 = (r3, Inr [])" "both_complete (w_noise W) idI idR i3 r3"
    "chunkFrame m3 (mtu_of a1 devR) HandshakeMsg3 = Inr cs3" "length m3 = 96"
    using contact_2 [OF assms(1,3,2,5) 1(2,3,8,9,10,11) _ 1(13), of cs2 o2 now ts] 1(12) assms(10) mb by metis
  note ma = same_mtu [OF 2(4), of devR]
  obtain a3 b3 k1 k2 s r sas where
    3: "hop W dI V dR now devI o3 (a2\<lparr>tasks := ts' @ [SendReply ?ra devR cs3]\<rparr>, b2) = Some (a3, b3)" "same_peers a2 a3" "same_peers b2 b3"
    "newRatchetSession (w_ratchet W) k1 k2 Initiator = Inr s" "newRatchetSession (w_ratchet W) k2 k1 Responder = Inr r"
    "undecided a3 ?hR devR ?ra s sas (id_ed25519 idR)" "undecided b3 hexI devI rb r sas (id_ed25519 idI)"
    using contact_3 [OF assms(3,4,2) 2(2,3,6,7) _ 2(9), of cs3 o3 dI now ts'] 2(8) assms(11) ma 1(7) by metis
  have "first_contact W dI V dR now devR devI ?hR hexI o1 o2 o3 (a, b) = Some (acceptPeer ?hR a3, acceptPeer hexI b3)"
    using 1(1) 2(1) 3(1) by (simp add: first_contact_def)
  moreover have "handed a3 = handed a" "frameHandlers a3 = frameHandlers a" "handed b3 = handed b" "frameHandlers b3 = frameHandlers b"
    using 1(4-6) 2(4,5) 3(2,3) by (simp_all add: same_peers_def)
  moreover have "mtu_of a3 devR = mtu_of a devR" "mtu_of b3 devI = mtu_of b devI"
    using same_mtu [OF 3(2)] same_mtu [OF 3(3)] same_mtu [OF 2(5)] ma mb 1(7) by simp_all
  ultimately show thesis using that 3(4-7) by metis
qed

section \<open>Sending that does not fail\<close>

definition sendable :: "int \<Rightarrow> bytes \<times> nat list \<Rightarrow> bool" where
  "sendable mtu m \<longleftrightarrow> chunk_count (length (fst m) + 24) mtu \<le> 16 \<and> delivery_order (chunk_count (length (fst m) + 24) mtu) (snd m)"

lemma transmit_succeeds:
  assumes g: "gcm_laws (w_ratchet W)" and l: "link_out a hex ra s" and d: "device_of hex a = Some to" "mtu_of a to = mtu"
    and mtu: "5 \<le> mtu" "mtu \<le> 259" and m: "sendable mtu m"
  shows "\<exists>a' b' s'. transmit W V hex dev m (a, b) = Some (a', b') \<and> link_out a' hex ra s' \<and> device_of hex a' = Some to \<and> mtu_of a' to = mtu"
proof -
  let ?R = "w_ratchet W"
  obtain f order where f: "m = (f, order)" by fastforce
  obtain s' w where e: "encrypt ?R s f [] = (s', w)" by fastforce
  have w: "length w = length f + 24" using e g by (auto simp: encrypt_def Let_def gcm_laws_def split: prod.splits)
  have n: "nat (mtu - 4) \<le> 255" "0 < nat (mtu - 4)" using mtu by simp_all
  have c16: "ceil_div (length w) (nat (mtu - 4)) \<le> 16" using m by (simp add: sendable_def f chunk_count_def w FRAME_HEADER_LEN_def)
  have "(length w + nat (mtu - 4) - 1) div nat (mtu - 4) < 17" using c16 by (simp add: ceil_div_def)
  then have "length w + nat (mtu - 4) - 1 < 17 * nat (mtu - 4)" using n(2) by (simp add: div_less_iff_less_mult)
  then have "length w \<le> 16 * nat (mtu - 4)" using n(2) by linarith
  then have "length w \<le> 65536" using n by linarith
  moreover have "ceil_div (length w) (nat (mtu - 4)) \<noteq> 0" using w n by (simp add: ceil_div_def div_eq_0_iff)
  ultimately obtain cs where cs: "chunkFrame w mtu SessionData = Inr cs"
    using c16 mtu by (auto simp: chunkFrame_def frame_consts Let_def)
  let ?a1 = "modify_cs ra (cs_session_update (\<lambda>_. Some s')) a"
  let ?a2 = "?a1\<lparr>tasks := tasks a, written := written a @ map (Pair to) cs\<rparr>"
  have r: "jm_get (cryptoStates a) to = Some ra" "cs_session (heap a ! ra) = Some s" "cs_verdict (heap a ! ra) = Accepted" "ra < length (heap a)"
    using l d by (auto simp: link_out_def)
  have mt: "mtu_of ?a1 to = mtu" using d(2) by (simp add: mtu_of_def modify_cs_def)
  have "sendFrame ?R hex f a = (?a1\<lparr>tasks := tasks a @ [SendData to cs]\<rparr>, Inr ())"
    using d r e cs mt by (simp add: sendFrame_def Let_def spawn_def) (simp add: modify_cs_def)
  then have sf: "send_fully W hex f a = Some ?a2"
    using write_loop [where W = W and cs = cs and st = ?a1 and ts = "tasks a" and dev = to]
    by (simp add: send_fully_def chunks_left_def) (simp add: modify_cs_def)
  have "delivery_order (length cs) order" using chunk_count [OF cs] m by (simp add: sendable_def f w)
  then have t: "transmit W V hex dev m (a, b) = Some (?a2, resume_last V (receive_chunks V dev (map ((!) cs) order) b))"
    using sf by (simp add: transmit_def f Let_def o_def)
  have p: "same_peers a ?a2" by (simp add: same_peers_modify)
  have "device_of hex a = device_of hex ?a2" by (rule device_of_cong) (use p in \<open>simp_all only: same_peers_def\<close>)
  moreover note same_mtu [OF p, of to]
  moreover obtain s2 where "link_out ?a2 hex ra s2" using send_link [OF l sf] by blast
  ultimately show ?thesis using t d by metis
qed

lemma transmit_all_succeeds:
  assumes "gcm_laws (w_ratchet W)" and "5 \<le> mtu" "mtu \<le> 259" and "\<forall>m \<in> set ms. sendable mtu m"
    and "link_out a hex ra s" and "device_of hex a = Some to" "mtu_of a to = mtu"
  shows "\<exists>a' b'. transmit_all W V hex dev ms (a, b) = Some (a', b')"
  using assms(4-7)
proof (induction ms arbitrary: a b s)
  case (Cons m ms)
  have "sendable mtu m" using Cons.prems(1) by simp
  from transmit_succeeds [OF assms(1) Cons.prems(2-4) assms(2,3) this, of V dev b]
  obtain a1 b1 s1 where t: "transmit W V hex dev m (a, b) = Some (a1, b1)" and l: "link_out a1 hex ra s1"
    "device_of hex a1 = Some to" "mtu_of a1 to = mtu" by blast
  show ?case using Cons.IH [OF _ l, of b1] Cons.prems(1) t by simp
qed simp

text \<open>One direction of an accepted link: everything sendable is sent and arrives.\<close>

definition handed_all :: "string \<Rightarrow> nat \<Rightarrow> (bytes \<times> nat list) list \<Rightarrow> (string \<times> bytes) list" where
  "handed_all hex n ms = concat (map (\<lambda>(frame, order). replicate n (hex, frame)) ms)"

lemma direction_works:
  assumes "gcm_laws (w_ratchet W)" and "w_ratchet V = w_ratchet W" and "newRatchetSession (w_ratchet W) k1 k2 d = Inr s"
    and "newRatchetSession (w_ratchet W) k2 k1 (other_direction d) = Inr r"
    and "undecided a hex to ra s sas pub" and "undecided b hexb dev rb r sasb pubb"
    and "\<forall>m \<in> set ms. sendable (mtu_of a to) m" and "length ms \<le> 2 ^ 64"
  shows "\<exists>a2 b2. transmit_all W V hex dev ms (acceptPeer hex a, acceptPeer hexb b) = Some (a2, b2)
    \<and> handed b2 = handed b @ handed_all hexb (frameHandlers b) ms"
proof -
  let ?a = "acceptPeer hex a" and ?b = "acceptPeer hexb b"
  have p: "same_peers a ?a" "link_out ?a hex ra s" "same_peers b ?b" "link_in ?b dev rb r" "cs_peerIdHex (heap ?b ! rb) = hexb"
    using undecided_accepts [OF assms(5)] undecided_accepts [OF assms(6)] by blast+
  have "device_of hex a = Some to" "80 \<le> mtu_of a to" "mtu_of a to \<le> 259" using assms(5) by (auto simp: undecided_def facing_def)
  moreover have "device_of hex ?a = device_of hex a" by (rule device_of_cong) (use p(1) in \<open>simp_all add: same_peers_def\<close>)
  ultimately obtain a2 b2 where t: "transmit_all W V hex dev ms (?a, ?b) = Some (a2, b2)"
    using transmit_all_succeeds [OF assms(1) _ _ assms(7) p(2), of to V dev ?b] same_mtu [OF p(1)] by auto
  from conversation_run [OF assms(1-4) p(2,4) assms(8) t] show ?thesis
    using t p(3,5) by (auto simp: same_peers_def handed_all_def)
qed

section \<open>Strangers\<close>

text \<open>C1: Two strangers end up talking: from a connected device on one side with \<open>initiateHandshake\<close>
  suspended, and a fresh responder object on the other, the three handshake messages (cut for any
  MTU from 80 to 259, their chunks arriving in any order) and both users' acceptance give the two
  sides the same authentication string and each other's Ed25519 key, and from then on every frame
  of at most 16 chunks that either side sends is written and handed to every handler of the other
  side, once, intact, in order and under the sender's id.\<close>

theorem strangers_converse:
  assumes "noise_laws (w_noise W)" and "hash_laws (w_noise W)" and "gcm_laws (w_ratchet W)"
    and "w_noise V = w_noise W" and "w_ratchet V = w_ratchet W"
    and "identity_of (w_noise W) xI idI" and "identity_of (w_noise W) xR idR"
    and "about_to_initiate W idI devR pidR a" and "awaits_contact V idR devI hexI rb b"
    and "delivery_order (chunk_count 1216 (mtu_of a devR)) o1" and "delivery_order (chunk_count 1216 (mtu_of b devI)) o2"
    and "delivery_order (chunk_count 96 (mtu_of a devR)) o3"
    and "\<forall>m \<in> set ms. sendable (mtu_of a devR) m" and "\<forall>m \<in> set ms'. sendable (mtu_of b devI) m"
    and "length ms \<le> 2 ^ 64" and "length ms' \<le> 2 ^ 64"
  shows "\<exists>a' b' sas. first_contact W dI V dR now devR devI (to_hex pidR) hexI o1 o2 o3 (a, b) = Some (a', b')
    \<and> cs_sas (heap a' ! length (heap a)) = Some sas \<and> cs_sas (heap b' ! rb) = Some sas
    \<and> cs_peerPubkeyB64 (heap a' ! length (heap a)) = Some (uint8ToBase64Url (id_ed25519 idR))
    \<and> cs_peerPubkeyB64 (heap b' ! rb) = Some (uint8ToBase64Url (id_ed25519 idI))
    \<and> (\<exists>a2 b2. transmit_all W V (to_hex pidR) devI ms (a', b') = Some (a2, b2)
        \<and> handed b2 = handed b @ handed_all hexI (frameHandlers b) ms)
    \<and> (\<exists>b2 a2. transmit_all V W hexI devR ms' (b', a') = Some (b2, a2)
        \<and> handed a2 = handed a @ handed_all (to_hex pidR) (frameHandlers a) ms')"
proof -
  obtain a' b' a'' b'' k1 k2 s r sas where
    run: "first_contact W dI V dR now devR devI (to_hex pidR) hexI o1 o2 o3 (a, b) = Some (a', b')"
    and s: "newRatchetSession (w_ratchet W) k1 k2 Initiator = Inr s" "newRatchetSession (w_ratchet W) k2 k1 Responder = Inr r"
    and u: "undecided a'' (to_hex pidR) devR (length (heap a)) s sas (id_ed25519 idR)" "acceptPeer (to_hex pidR) a'' = a'"
      "undecided b'' hexI devI rb r sas (id_ed25519 idI)" "acceptPeer hexI b'' = b'"
    and h: "handed a'' = handed a" "handed b'' = handed b" "frameHandlers a'' = frameHandlers a" "frameHandlers b'' = frameHandlers b"
      "mtu_of a'' devR = mtu_of a devR" "mtu_of b'' devI = mtu_of b devI"
    using first_contact_run [OF assms(1,2,4-12), of dI dR now] .
  have dirs: "newRatchetSession (w_ratchet W) k2 k1 (other_direction Initiator) = Inr r"
    "newRatchetSession (w_ratchet V) k1 k2 (other_direction Responder) = Inr s" "newRatchetSession (w_ratchet V) k2 k1 Responder = Inr r"
    "gcm_laws (w_ratchet V)" "w_ratchet W = w_ratchet V"
    using s assms(3,5) by (simp_all add: other_direction_def)
  have to_b: "\<exists>a2 b2. transmit_all W V (to_hex pidR) devI ms (a', b') = Some (a2, b2)
      \<and> handed b2 = handed b @ handed_all hexI (frameHandlers b) ms"
    using direction_works [OF assms(3,5) s(1) dirs(1) u(1,3) _ assms(15)] assms(13) u(2,4) h by simp
  have to_a: "\<exists>b2 a2. transmit_all V W hexI devR ms' (b', a') = Some (b2, a2)
      \<and> handed a2 = handed a @ handed_all (to_hex pidR) (frameHandlers a) ms'"
    using direction_works [OF dirs(4,5,3,2) u(3,1) _ assms(16)] assms(14) u(2,4) h by simp
  show ?thesis
    using run to_a to_b undecided_accepts [OF u(1)] undecided_accepts [OF u(3)] u(2,4) by blast
qed

text \<open>Two transports that have just connected to each other, at the largest MTU.\<close>

definition sample_connected :: "byte \<Rightarrow> byte \<Rightarrow> transport" where
  "sample_connected own other = subscribed 0 ''dev'' [other] None
     ((onFrame (new_transport sample_env))\<lparr>peerId := Some [own], mtuCache := [(''dev'', 247)]\<rparr>)"

definition sample_other_world :: world where
  "sample_other_world = sample_world\<lparr>w_identity := Some (sample_identity 2)\<rparr>"

definition sample_waiting :: transport where
  "sample_waiting = resume_newest sample_other_world sample_draws 0 (sample_connected 2 1)"

lemma sample_connected_fields:
  "tasks (sample_connected x y) = [InitIdentity ''dev'' [y]]" "peerId (sample_connected x y) = Some [x]"
  "heap (sample_connected x y) = []" "cryptoStates (sample_connected x y) = []" "handed (sample_connected x y) = []"
  "frameHandlers (sample_connected x y) = 1" "mtu_of (sample_connected x y) dev = (if dev = ''dev'' then 247 else 23)"
  "jm_has (connectedDevices (sample_connected x y)) ''dev''" "half_read (sample_connected x y) dev = new_reassembler"
  "\<exists>q. find (\<lambda>q. idHex q = to_hex [y]) (reg_list (registry (sample_connected x y))) = Some q \<and> mac q = ''dev''"
  by (simp_all add: sample_connected_def subscribed_def new_transport_def onFrame_def spawn_def Let_def mtu_of_def half_read_def
    GATT_MTU_DEFAULT_def jsmap new_registry_def upsert_def reg_list_def jm_has_def)

lemma sample_starts:
  "about_to_initiate sample_world (sample_identity 1) ''dev'' [2] (sample_connected 1 2)"
  "awaits_contact sample_other_world (sample_identity 2) ''dev'' (to_hex [1]) 0 sample_waiting"
  "mtu_of sample_waiting dev = (if dev = ''dev'' then 247 else 23)" "handed sample_waiting = []" "frameHandlers sample_waiting = 1"
proof -
  show "about_to_initiate sample_world (sample_identity 1) ''dev'' [2] (sample_connected 1 2)"
    using sample_connected_fields(10) [where x = 1 and y = 2]
    by (simp add: about_to_initiate_def sample_connected_fields sample_world_def cs_for_peer_def)
  let ?c = "new_cs sample_noise (sample_identity 2) ResponderRole (to_hex [1]) 0"
  have w: "sample_waiting = alloc_cs ''dev'' ?c ((sample_connected 2 1)\<lparr>tasks := []\<rparr>)"
    by (simp add: sample_waiting_def resume_newest_def mesh_event_def take_task_def resume_task_def initiateHandshake_def
      sample_connected_fields sample_other_world_def sample_world_def Let_def)
  have s: "mtu_of sample_waiting d = mtu_of (sample_connected 2 1) d" "half_read sample_waiting d = half_read (sample_connected 2 1) d"
    "registry sample_waiting = registry (sample_connected 2 1)" "cryptoStates sample_waiting = [(''dev'', 0)]" "heap sample_waiting = [?c]" for d
    by (simp_all add: w alloc_cs_def mtu_of_def half_read_def sample_connected_fields)
  show "mtu_of sample_waiting dev = (if dev = ''dev'' then 247 else 23)" by (simp add: s sample_connected_fields)
  show "handed sample_waiting = []" "frameHandlers sample_waiting = 1" by (simp_all add: w alloc_cs_def sample_connected_fields)
  have "device_of (to_hex [1]) sample_waiting = Some ''dev''"
    using sample_connected_fields(10) [where x = 2 and y = 1] by (auto simp: device_of_def s Let_def)
  then show "awaits_contact sample_other_world (sample_identity 2) ''dev'' (to_hex [1]) 0 sample_waiting"
    by (auto simp: awaits_contact_def facing_def s sample_connected_fields cs_for_peer_def new_cs_def sample_other_world_def sample_world_def)
qed

lemma strangers_converse_witness:
  "\<exists>a' b' a2 b2. first_contact sample_world sample_draws sample_other_world sample_draws 0 ''dev'' ''dev'' (to_hex [2]) (to_hex [1])
      [3, 5, 3, 0, 1, 4, 2] [0, 1, 2, 3, 4, 5] [0] (sample_connected 1 2, sample_waiting) = Some (a', b')
    \<and> transmit_all sample_world sample_other_world (to_hex [2]) ''dev'' [([1], [0])] (a', b') = Some (a2, b2)
    \<and> handed b2 = [(to_hex [1], [1])]"
proof -
  have W: "w_noise sample_world = sample_noise" "w_ratchet sample_world = sample_prims" "w_noise sample_other_world = sample_noise"
    "w_ratchet sample_other_world = sample_prims" by (simp_all add: sample_world_def sample_other_world_def)
  have h: "hash_laws sample_noise" by (simp add: hash_laws_def sample_noise_def)
  have m: "mtu_of (sample_connected 1 2) ''dev'' = 247" "mtu_of sample_waiting ''dev'' = 247"
    by (simp_all add: sample_starts sample_connected_fields)
  have c: "chunk_count 1216 247 = 6" "chunk_count 96 247 = 1" "chunk_count 25 247 = 1"
    by (simp_all add: chunk_count_def ceil_div_def FRAME_HEADER_LEN_def)
  have o: "delivery_order 6 [3, 5, 3, 0, 1, 4, 2]" "delivery_order 6 [0, 1, 2, 3, 4, 5]" "delivery_order 1 [0]" by (code_simp)+
  have f: "\<forall>m \<in> set [([1], [0])]. sendable 247 m" "\<forall>m \<in> set []. sendable 247 m" using o c by (simp_all add: sendable_def)
  show ?thesis
    using strangers_converse [of sample_world sample_other_world "[1]" "sample_identity 1" "[2]" "sample_identity 2" "''dev''" "[2]"
        "sample_connected 1 2" "''dev''" "to_hex [1]" 0 sample_waiting "[3, 5, 3, 0, 1, 4, 2]" "[0, 1, 2, 3, 4, 5]" "[0]"
        "[([1], [0])]" "[]" sample_draws sample_draws 0, unfolded W m c, OF sample_noise_laws h sample_gcm_laws refl refl
        sample_identity_of sample_identity_of sample_starts(1,2) o f] sample_starts(4,5)
    by (auto simp: handed_all_def)
qed

end
