(* ===== verification/Token_Client.thy ===== *)
theory Token_Client
  imports Prelude Base64url "HOL-Library.Sublist"
begin

text \<open>
  The channel tokens of \<open>token-client.ts\<close>: the cache, an insertion-ordered map used as an LRU,
  and \<open>getToken\<close>. The server's answer is an argument; of \<open>JSON.parse\<close> the code uses the
  numeric \<open>exp\<close> claim, so the parser is a function from the decoded payload to that number.
  The requests of a run here do not overlap; in \<open>Token_Life\<close> they do.
\<close>

section \<open>Expiry\<close>

fun split_dots :: "string \<Rightarrow> string list" where
  "split_dots [] = [[]]"
| "split_dots (c # s) =
     (if c = CHR ''.'' then [] # split_dots s
      else (case split_dots s of [] \<Rightarrow> [[c]] | p # ps \<Rightarrow> (c # p) # ps))"

definition parseExpMs :: "(bytes \<Rightarrow> int option) \<Rightarrow> string \<Rightarrow> int" where
  "parseExpMs json_exp jwt =
     (case split_dots jwt of
        _ # payload # _ \<Rightarrow>
          if payload = [] then 0
          else (case atob (map of_url_char payload) of
              None \<Rightarrow> 0
            | Some bs \<Rightarrow> (case json_exp bs of None \<Rightarrow> 0 | Some e \<Rightarrow> e * 1000))
      | _ \<Rightarrow> 0)"

section \<open>The cache\<close>

record token_entry =
  te_token :: string
  te_expiresAt :: int

type_synonym token_cache = "(string, token_entry) jsmap"

definition TOKEN_CACHE_MAX_SIZE :: nat where "TOKEN_CACHE_MAX_SIZE = 32"
definition REFRESH_BUFFER_MS :: int where "REFRESH_BUFFER_MS = 300000"

definition NUL :: char where "NUL = char_of (0 :: nat)"

definition cacheKey :: "string \<Rightarrow> string \<Rightarrow> string \<Rightarrow> string" where
  "cacheKey geohash dayUtc identityKey = identityKey @ [NUL] @ geohash @ [NUL] @ dayUtc"

definition evictIfFull :: "token_cache \<Rightarrow> token_cache" where
  "evictIfFull c =
     (if length c \<ge> TOKEN_CACHE_MAX_SIZE
      then (case c of [] \<Rightarrow> c | (oldest, e) # _ \<Rightarrow> jm_delete oldest c) else c)"

datatype fetch_answer = NetworkFailure | HttpError nat | BadBody | Issued string

datatype token_error = FetchThrew | TokenHttp nat | BodyNotJson

text \<open>The part before the request: a hit moves the entry to the most recent position.\<close>

definition token_hit :: "int \<Rightarrow> string \<Rightarrow> token_cache \<Rightarrow> (token_cache \<times> string) option" where
  "token_hit now key c =
     (case jm_get c key of
        Some e \<Rightarrow>
          if now < te_expiresAt e - REFRESH_BUFFER_MS
          then Some (jm_set key e (jm_delete key c), te_token e) else None
      | None \<Rightarrow> None)"

text \<open>The part after it.\<close>

definition token_store :: "(bytes \<Rightarrow> int option) \<Rightarrow> string \<Rightarrow> string \<Rightarrow> token_cache \<Rightarrow> token_cache" where
  "token_store json_exp key token c =
     jm_set key \<lparr>te_token = token, te_expiresAt = parseExpMs json_exp token\<rparr> (evictIfFull c)"

definition getToken ::
  "(bytes \<Rightarrow> int option) \<Rightarrow> int \<Rightarrow> fetch_answer \<Rightarrow> string \<Rightarrow> string \<Rightarrow> string \<Rightarrow> token_cache
     \<Rightarrow> token_cache \<times> (token_error + string)" where
  "getToken json_exp now answer geohash dayUtc identityKey c =
     (let key = cacheKey geohash dayUtc identityKey in
      case token_hit now key c of
        Some (c', t) \<Rightarrow> (c', Inr t)
      | None \<Rightarrow>
          (case answer of
             NetworkFailure \<Rightarrow> (c, Inl FetchThrew)
           | HttpError s \<Rightarrow> (c, Inl (TokenHttp s))
           | BadBody \<Rightarrow> (c, Inl BodyNotJson)
           | Issued t \<Rightarrow> (token_store json_exp key t c, Inr t)))"

definition clearTokens :: "token_cache \<Rightarrow> token_cache" where
  "clearTokens c = []"

definition clearTokensForIdentity :: "string \<Rightarrow> token_cache \<Rightarrow> token_cache" where
  "clearTokensForIdentity identityKey c = filter (\<lambda>(k, e). \<not> prefix (identityKey @ [NUL]) k) c"

section \<open>Keys\<close>

lemma split_at_first: "x \<notin> set as \<Longrightarrow> x \<notin> set bs \<Longrightarrow> as @ x # cs = bs @ x # ds \<Longrightarrow> as = bs \<and> cs = ds"
proof (induction as arbitrary: bs)
  case Nil
  then show ?case by (cases bs) auto
next
  case (Cons a as)
  then show ?case by (cases bs) auto
qed

lemma cacheKey_inj:
  assumes "NUL \<notin> set i" "NUL \<notin> set i'" "NUL \<notin> set g" "NUL \<notin> set g'"
    and "cacheKey g d i = cacheKey g' d' i'"
  shows "g = g' \<and> d = d' \<and> i = i'"
proof -
  have "i = i' \<and> g @ NUL # d = g' @ NUL # d'"
    using assms(5) by (intro split_at_first [OF assms(1,2)]) (simp add: cacheKey_def)
  then show ?thesis using split_at_first [OF assms(3,4)] by blast
qed

lemma prefix_cacheKey:
  assumes "NUL \<notin> set i" "NUL \<notin> set i'"
  shows "prefix (i @ [NUL]) (cacheKey g d i') \<longleftrightarrow> i = i'"
proof
  assume "prefix (i @ [NUL]) (cacheKey g d i')"
  then obtain r where "i' @ NUL # (g @ NUL # d) = i @ NUL # r"
    by (auto simp: prefix_def cacheKey_def)
  from split_at_first [OF assms(2,1) this] show "i = i'" by simp
qed (simp add: cacheKey_def prefix_def)

section \<open>Runs\<close>

datatype token_op =
    Get int fetch_answer string string string
  | ClearAll
  | ClearFor string

definition token_step :: "(bytes \<Rightarrow> int option) \<Rightarrow> token_op \<Rightarrow> token_cache \<Rightarrow> token_cache" where
  "token_step json_exp oper c =
     (case oper of
        Get now answer g d i \<Rightarrow> fst (getToken json_exp now answer g d i c)
      | ClearAll \<Rightarrow> clearTokens c
      | ClearFor i \<Rightarrow> clearTokensForIdentity i c)"

text \<open>What the server issued in a run, under the key of the request it answered.\<close>

definition issued :: "token_op list \<Rightarrow> (string \<times> string) set" where
  "issued ops = {(cacheKey g d i, t) | now g d i t. Get now (Issued t) g d i \<in> set ops}"

definition token_inv :: "(string \<times> string) set \<Rightarrow> token_cache \<Rightarrow> bool" where
  "token_inv S c \<longleftrightarrow> jm_wf c \<and> length c \<le> TOKEN_CACHE_MAX_SIZE \<and>
     (\<forall>(k, e) \<in> set c. (k, te_token e) \<in> S)"

lemma set_jm_delete: "set (jm_delete k m) \<subseteq> set m"
  by (auto simp: AList.delete_eq)

lemma token_hit_inv:
  assumes "token_inv S c" "token_hit now key c = Some (c', t)"
  shows "token_inv S c' \<and> (key, t) \<in> S \<and> set c' = set c"
proof -
  obtain e where e: "jm_get c key = Some e" "t = te_token e" "c' = jm_set key e (jm_delete key c)"
    using assms(2) by (auto simp: token_hit_def split: option.splits if_splits)
  have mem: "(key, e) \<in> set c" using e(1) by (rule map_of_SomeD)
  have wf: "jm_wf c" using assms(1) by (simp add: token_inv_def)
  have fresh: "\<not> jm_has (jm_delete key c) key" by simp
  have c': "c' = jm_delete key c @ [(key, e)]" by (simp add: e(3) jm_set_fresh [OF fresh])
  have del: "set (jm_delete key c) = set c - {(key, e)}"
    using wf mem by (auto simp: AList.delete_eq jm_wf_def eq_key_imp_eq_value)
  have set: "set c' = set c" using mem by (auto simp: c' del)
  have "length c' = length c"
    using mem length_jm_delete [OF wf, of key] e(1) by (cases c) (auto simp: c' jm_has_def)
  then show ?thesis using assms(1) mem e(2) wf set by (auto simp: token_inv_def e(3))
qed

lemma token_store_inv:
  assumes "token_inv S c"
  shows "token_inv (insert (key, t) S) (token_store json_exp key t c)"
proof -
  let ?c = "evictIfFull c"
  have sub: "set ?c \<subseteq> set c" by (auto simp: evictIfFull_def AList.delete_eq split: list.splits if_splits)
  have "?c = c \<or> (\<exists>k. ?c = jm_delete k c)" by (auto simp: evictIfFull_def split: list.split)
  then have wf: "jm_wf ?c" using assms by (auto simp: token_inv_def)
  have len: "length ?c < TOKEN_CACHE_MAX_SIZE"
  proof (cases c)
    case (Cons p l)
    have "length (jm_delete (fst p) l) \<le> length l" by (simp add: AList.delete_eq)
    then show ?thesis using assms Cons
      by (cases p) (auto simp: evictIfFull_def token_inv_def TOKEN_CACHE_MAX_SIZE_def)
  qed (simp add: evictIfFull_def TOKEN_CACHE_MAX_SIZE_def)
  show ?thesis
    using assms sub wf len set_jm_set [of key _ ?c]
    by (fastforce simp: token_inv_def token_store_def length_jm_set)
qed

lemma token_step_inv:
  assumes "token_inv (issued ops) c"
  shows "token_inv (issued (ops @ [oper])) (token_step json_exp oper c)"
proof -
  have mono: "token_inv (issued (ops @ [oper])) c'" if "token_inv (issued ops) c'" for c'
    using that by (fastforce simp: token_inv_def issued_def)
  have filt: "token_inv S (filter P c')" if "token_inv S c'" for S P and c' :: token_cache
    using that by (auto simp: token_inv_def intro: le_trans [OF length_filter_le])
  show ?thesis
  proof (cases oper)
    case (Get now answer g d i)
    let ?k = "cacheKey g d i"
    have ins: "insert (?k, t) (issued ops) = issued (ops @ [oper])" if "answer = Issued t" for t
      using that Get unfolding issued_def by (auto; blast)
    have st: "token_inv (issued (ops @ [oper])) (token_store json_exp ?k t c)" if "answer = Issued t" for t
      using token_store_inv [OF assms, of ?k t json_exp] ins [OF that] by simp
    show ?thesis
      using token_hit_inv [OF assms, of now ?k] st mono assms Get
      by (auto simp: token_step_def getToken_def Let_def split: option.split fetch_answer.split)
  qed (use assms mono filt in \<open>auto simp: token_step_def clearTokens_def clearTokensForIdentity_def
      token_inv_def TOKEN_CACHE_MAX_SIZE_def\<close>)
qed

lemma token_run_inv:
  "token_inv (issued ops) (foldl (\<lambda>c oper. token_step json_exp oper c) [] ops)"
proof (induction ops rule: rev_induct)
  case (snoc oper ops)
  from token_step_inv [OF this] show ?case by simp
qed (simp add: token_inv_def)

section \<open>Properties\<close>

text \<open>Note: No token crosses identities: after any calls, with identity keys and geohashes free of NUL, a
  token that getToken returns for an identity, geohash and day was issued by the server in
  answer to a request for these three (now or earlier), and the cache holds at most 32 tokens.\<close>

theorem tokens_do_not_cross:
  assumes "c = foldl (\<lambda>c oper. token_step json_exp oper c) [] ops"
    and "snd (getToken json_exp now answer g d i c) = Inr t"
    and "NUL \<notin> set g" and "NUL \<notin> set i"
    and "\<forall>n a g' d' i'. Get n a g' d' i' \<in> set ops \<longrightarrow> NUL \<notin> set g' \<and> NUL \<notin> set i'"
  shows "length c \<le> 32 \<and> (answer = Issued t \<or> (\<exists>n. Get n (Issued t) g d i \<in> set ops))"
proof -
  have inv: "token_inv (issued ops) c" unfolding assms(1) by (rule token_run_inv)
  show ?thesis
  proof (cases "token_hit now (cacheKey g d i) c")
    case None
    then show ?thesis using assms(2) inv
      by (auto simp: getToken_def token_inv_def TOKEN_CACHE_MAX_SIZE_def split: fetch_answer.splits)
  next
    case (Some r)
    obtain c' t' where r: "r = (c', t')" by fastforce
    have "t' = t" using assms(2) Some r by (simp add: getToken_def)
    then have "(cacheKey g d i, t) \<in> issued ops" using token_hit_inv [OF inv] Some r by blast
    then obtain n g' d' i' where n: "Get n (Issued t) g' d' i' \<in> set ops"
      "cacheKey g d i = cacheKey g' d' i'" by (auto simp: issued_def)
    then have "g = g' \<and> d = d' \<and> i = i'" using assms(3-5) by (intro cacheKey_inj) blast+
    then show ?thesis using n inv by (auto simp: token_inv_def TOKEN_CACHE_MAX_SIZE_def)
  qed
qed

theorem tokens_do_not_cross_witness:
  "length (foldl (\<lambda>c oper. token_step (\<lambda>_. None) oper c) [] [Get 5 (Issued ''t'') ''g'' ''d'' ''i'']) \<le> 32"
  using tokens_do_not_cross [OF refl, of "\<lambda>_. None" 6 "Issued ''u''" "''g''" "''d''" "''j''"
      "[Get 5 (Issued ''t'') ''g'' ''d'' ''i'']" "''u''"]
  by (simp add: token_step_def getToken_def token_hit_def token_store_def evictIfFull_def
      cacheKey_def NUL_def parseExpMs_def TOKEN_CACHE_MAX_SIZE_def)

text \<open>Note: A refresh evicts a stranger: when the cache is full and the token of a cached key is due for
  refresh, storing the new one first evicts the oldest entry, another key's valid token, and
  the cache ends one entry short.\<close>

theorem refresh_evicts_other:
  assumes "jm_wf c" and "length c = 32" and "c = (oldest, e) # rest" and "key \<noteq> oldest"
    and "key = cacheKey g d i" and "jm_get c key = Some e'" and "te_expiresAt e' - 300000 \<le> now"
    and "getToken json_exp now (Issued t) g d i c = (c', r)"
  shows "jm_get c' oldest = None \<and> length c' = 31 \<and> r = Inr t"
proof -
  have "token_hit now key c = None"
    using assms(6,7) by (simp add: token_hit_def REFRESH_BUFFER_MS_def)
  then have c': "c' = token_store json_exp key t c" "r = Inr t"
    using assms(8) by (simp_all add: getToken_def assms(5) [symmetric] Let_def)
  have ev: "evictIfFull c = jm_delete oldest c"
    using assms(2,3) by (simp add: evictIfFull_def TOKEN_CACHE_MAX_SIZE_def)
  have "jm_has c oldest" "jm_has c key" using assms(3,6) by (auto simp: jm_has_def)
  then show ?thesis using assms(1,2,4) length_jm_delete [OF assms(1), of oldest]
    by (simp add: c' token_store_def ev jm_get_set jm_get_delete length_jm_set)
qed


definition full_cache :: token_cache where
  "full_cache = map (\<lambda>n. (cacheKey ''g'' (replicate n CHR ''x'') ''i'', \<lparr>te_token = ''t'', te_expiresAt = 400000\<rparr>))
     [0..<32]"

theorem refresh_evicts_other_witness:
  "jm_get (fst (getToken (\<lambda>_. None) 200000 (Issued ''u'') ''g'' ''x'' ''i'' full_cache))
     (cacheKey ''g'' [] ''i'') = None"
proof -
  let ?e = "\<lparr>te_token = ''t'', te_expiresAt = 400000\<rparr>"
  have inj: "inj_on (\<lambda>n. cacheKey ''g'' (replicate n CHR ''x'') ''i'') {0..<32}"
    by (rule inj_onI) (auto simp: cacheKey_def)
  have wf: "jm_wf full_cache" "length full_cache = 32"
    using inj by (simp_all add: jm_wf_def full_cache_def distinct_map comp_def del: upt_rec_numeral)
  have c: "full_cache = (cacheKey ''g'' [] ''i'', ?e) # tl full_cache"
    by (simp add: full_cache_def upt_rec)
  have "(cacheKey ''g'' ''x'' ''i'', ?e) \<in> set full_cache"
    by (simp add: full_cache_def upt_rec)
  then have k: "jm_get full_cache (cacheKey ''g'' ''x'' ''i'') = Some ?e"
    using wf(1) by (simp add: jm_wf_def)
  have ne: "cacheKey ''g'' ''x'' ''i'' \<noteq> cacheKey ''g'' [] ''i''" by (simp add: cacheKey_def)
  from refresh_evicts_other [OF wf c ne refl k _ prod.collapse [symmetric], of 200000 "\<lambda>_. None" "''u''"]
  show ?thesis by simp
qed

end
