(* ===== verification/Bridge.thy ===== *)
theory Bridge
  imports Prelude
begin

text \<open>
  The client of the relay endpoint, \<open>online-bridge.ts\<close>. The server's answer is a value:
  \<open>fetch\<close> may reject, and the body may be no JSON, the JSON \<open>null\<close>, or an object with an
  optional \<open>result\<close> text and \<open>seq\<close>. Every call of \<open>onResult\<close> is recorded.
\<close>

datatype bridge_reason =
    BadJwt | BadSignature | BadBundle | BadFreshness | ChannelMismatch | RateLimited
  | Disabled | FanoutError | BridgeNetworkError | UnknownReason
  | Inherited string

datatype bridge_result =
    BridgeOk "int option"
  | BridgeError nat bridge_reason

datatype server_body =
    NotJson
  | JsonNull
  | JsonBody "string option" "int option"

datatype http_answer =
    FetchRejected
  | HttpAnswer nat server_body

text \<open>
  \<open>map[serverResult]\<close> on an object literal: the own keys first, then what the literal inherits
  from \<open>Object.prototype\<close>, whose members are not \<open>undefined\<close> and so survive the \<open>??\<close>.
\<close>

definition own_reasons :: "(string \<times> bridge_reason) list" where
  "own_reasons = [(''bad_jwt'', BadJwt), (''bad_signature'', BadSignature), (''bad_bundle'', BadBundle),
     (''bad_freshness'', BadFreshness), (''channel_mismatch'', ChannelMismatch),
     (''rate_limited'', RateLimited), (''disabled'', Disabled), (''fanout_error'', FanoutError)]"

definition object_prototype :: "string list" where
  "object_prototype = [''constructor'', ''toString'', ''valueOf'', ''toLocaleString'',
     ''hasOwnProperty'', ''isPrototypeOf'', ''propertyIsEnumerable'', ''__proto__'',
     ''__defineGetter__'', ''__defineSetter__'', ''__lookupGetter__'', ''__lookupSetter__'']"

definition mapReason :: "nat \<Rightarrow> string \<Rightarrow> bridge_reason" where
  "mapReason status serverResult =
     (if status = 429 then RateLimited
      else if status = 401 then BadJwt
      else (case map_of own_reasons serverResult of
          Some r \<Rightarrow> r
        | None \<Rightarrow> if serverResult \<in> set object_prototype then Inherited serverResult else UnknownReason))"

definition resp_ok :: "nat \<Rightarrow> bool" where
  "resp_ok status = (200 \<le> status \<and> status \<le> 299)"

text \<open>\<open>emit\<close> calls \<open>onResult\<close> and returns the result; a throwing callback is swallowed.\<close>

definition emit :: "bridge_result \<Rightarrow> bridge_result \<times> bridge_result list" where
  "emit r = (r, [r])"

definition bridgeSend :: "http_answer \<Rightarrow> bridge_result \<times> bridge_result list" where
  "bridgeSend answer =
     (case answer of
        FetchRejected \<Rightarrow> emit (BridgeError 0 BridgeNetworkError)
      | HttpAnswer status body \<Rightarrow>
          (case (case body of NotJson \<Rightarrow> Some (None, None) | JsonNull \<Rightarrow> None
                  | JsonBody res sq \<Rightarrow> Some (res, sq)) of
             None \<Rightarrow> emit (BridgeError 0 BridgeNetworkError)
           | Some (res, sq) \<Rightarrow>
               if resp_ok status \<and> (res = Some ''ok'' \<or> res = None \<or> res = Some [])
               then emit (BridgeOk sq)
               else emit (BridgeError status (mapReason status (case res of None \<Rightarrow> [] | Some s \<Rightarrow> s)))))"

definition bridge_ok :: "http_answer \<Rightarrow> bool" where
  "bridge_ok a = (case fst (bridgeSend a) of BridgeOk sq \<Rightarrow> True | BridgeError s r \<Rightarrow> False)"

section \<open>Properties\<close>

text \<open>Note: bridgeSend reports once and truthfully: onResult is called exactly once, with the returned
  result; the result is a success exactly for a 2xx answer whose body is no JSON or has the
  result ok, an empty one or none; a rejected fetch is a network error with status 0, and every
  other answer keeps its HTTP status and a reason by the table, 429 and 401 first.\<close>

theorem bridge_reports:
  "snd (bridgeSend a) = [fst (bridgeSend a)]
   \<and> (bridge_ok a \<longleftrightarrow> (\<exists>s b. a = HttpAnswer s b \<and> 200 \<le> s \<and> s \<le> 299 \<and>
        (b = NotJson \<or> (\<exists>sq. b \<in> {JsonBody None sq, JsonBody (Some []) sq, JsonBody (Some ''ok'') sq}))))
   \<and> fst (bridgeSend FetchRejected) = BridgeError 0 BridgeNetworkError
   \<and> fst (bridgeSend (HttpAnswer 429 (JsonBody res sq))) = BridgeError 429 RateLimited
   \<and> fst (bridgeSend (HttpAnswer 401 (JsonBody res sq))) = BridgeError 401 BadJwt
   \<and> fst (bridgeSend (HttpAnswer 400 (JsonBody (Some ''bad_freshness'') sq))) = BridgeError 400 BadFreshness"
  by (cases a rule: http_answer.exhaust)
    (auto simp: bridge_ok_def bridgeSend_def emit_def resp_ok_def mapReason_def own_reasons_def
      split: server_body.splits)

text \<open>Note: Two answers are misread: a success whose body is the JSON null is reported as a network error
  with status 0, so the bundle is sent again; and a result that is the name of a member every
  object inherits is reported as that member instead of an unknown reason.\<close>

theorem bridge_misreads:
  "fst (bridgeSend (HttpAnswer 200 JsonNull)) = BridgeError 0 BridgeNetworkError
   \<and> fst (bridgeSend (HttpAnswer 400 (JsonBody (Some ''constructor'') None)))
      = BridgeError 400 (Inherited ''constructor'')"
  by (simp add: bridgeSend_def emit_def resp_ok_def mapReason_def own_reasons_def object_prototype_def)

end
