(* ===== verification/Dedupe.thy ===== *)
theory Dedupe
  imports Prelude
begin

text \<open>
  The in-memory LRU cache of \<open>dedupe.ts\<close>. A \<open>Map\<close> whose values are all \<open>true\<close> is its list of
  keys in insertion order.
\<close>

section \<open>The LRU cache\<close>

record dedupe_cache =
  dc_capacity :: nat
  dc_seen :: "string list"

definition new_dedupe :: "nat option \<Rightarrow> dedupe_cache" where
  "new_dedupe c = \<lparr>dc_capacity = (case c of None \<Rightarrow> 5000 | Some n \<Rightarrow> n), dc_seen = []\<rparr>"

definition dedupe_key :: "string \<Rightarrow> string \<Rightarrow> string" where
  "dedupe_key channelId msgId = channelId @ [char_of (0 :: nat)] @ msgId"

definition dc_hasSeen :: "dedupe_cache \<Rightarrow> string \<Rightarrow> string \<Rightarrow> bool" where
  "dc_hasSeen d channelId msgId = (dedupe_key channelId msgId \<in> set (dc_seen d))"

definition mark_key :: "nat \<Rightarrow> string list \<Rightarrow> string \<Rightarrow> string list" where
  "mark_key capacity seen k =
     (if k \<in> set seen then remove1 k seen
      else if length seen \<ge> capacity then (case seen of [] \<Rightarrow> [] | oldest # rest \<Rightarrow> rest)
      else seen) @ [k]"

definition dc_markSeen :: "dedupe_cache \<Rightarrow> string \<Rightarrow> string \<Rightarrow> dedupe_cache" where
  "dc_markSeen d channelId msgId =
     d\<lparr>dc_seen := mark_key (dc_capacity d) (dc_seen d) (dedupe_key channelId msgId)\<rparr>"

definition dc_clear :: "dedupe_cache \<Rightarrow> dedupe_cache" where
  "dc_clear d = d\<lparr>dc_seen := []\<rparr>"

text \<open>The reference: of the keys marked so far, each at its last occurrence, the last \<open>c\<close>.\<close>

definition last_keys :: "nat \<Rightarrow> 'a list \<Rightarrow> 'a list" where
  "last_keys c ks = (let r = remdups ks in drop (length r - max 1 c) r)"

lemma remdups_snoc: "remdups (xs @ [x]) = removeAll x (remdups xs) @ [x]"
  by (induction xs) auto

lemma removeAll_notin: "x \<notin> set xs \<Longrightarrow> removeAll x xs = xs"
  by (induction xs) auto

lemma mark_last_keys: "mark_key c (last_keys c ks) k = last_keys c (ks @ [k])"
proof -
  define r where "r = remdups ks"
  define n where "n = length r - max 1 c"
  define p where "p = take n r"
  define s where "s = drop n r"
  have r: "r = p @ s" "distinct (p @ s)" by (simp_all add: p_def s_def r_def)
  have s: "last_keys c ks = s" by (simp add: last_keys_def s_def r_def n_def Let_def)
  have p: "length p = n" by (simp add: p_def n_def)
  have ls: "length s = min (length r) (max 1 c)" by (simp add: s_def n_def)
  have new: "last_keys c (ks @ [k]) = (let r' = removeAll k p @ removeAll k s @ [k] in
      drop (length r' - max 1 c) r')"
    by (simp only: last_keys_def remdups_snoc Let_def r_def [symmetric] r(1) removeAll_append append_assoc)
  consider (kept) "k \<in> set s" | (dropped) "k \<in> set p" | (fresh) "k \<notin> set p" "k \<notin> set s" by blast
  then show ?thesis
  proof cases
    case kept
    then have "k \<notin> set p" "distinct s" using r(2) by auto
    then have "removeAll k p = p" "removeAll k s = remove1 k s"
      by (simp_all add: removeAll_notin distinct_remove1_removeAll)
    moreover have "length (remove1 k s) = length s - 1" "0 < length s"
      using kept by (auto simp: length_remove1)
    moreover have "n + length s - max 1 c = n" by (simp add: ls n_def min_def)
    ultimately show ?thesis using kept p unfolding s new by (simp add: mark_key_def Let_def)
  next
    case dropped
    then have "k \<notin> set s" "distinct p" using r(2) by auto
    then have rm: "removeAll k p = remove1 k p" by (simp add: distinct_remove1_removeAll)
    have k: "k \<notin> set s" "length (remove1 k p) = n - 1" "0 < n"
      using dropped p \<open>k \<notin> set s\<close> by (auto simp: length_remove1)
    then have "length s = max 1 c" using ls by (simp add: n_def)
    then obtain y ys where y: "s = y # ys" by (cases s) auto
    have "n - 1 + Suc (length s) - max 1 c = Suc (n - 1)" using k(3) \<open>length s = max 1 c\<close> by simp
    then show ?thesis using k rm y \<open>length s = max 1 c\<close> unfolding s new
      by (simp add: mark_key_def Let_def removeAll_notin)
  next
    case fresh
    show ?thesis
    proof (cases "length r < max 1 c")
      case True
      then have "p = []" "s = r" by (simp_all add: p_def s_def n_def)
      then show ?thesis using fresh True unfolding s new
        by (cases r) (auto simp: mark_key_def Let_def removeAll_notin)
    next
      case False
      then have l: "length s = max 1 c" "length r = n + max 1 c" using ls by (simp_all add: n_def)
      then obtain y ys where y: "s = y # ys" by (cases s) auto
      have "length (p @ s @ [k]) - max 1 c = Suc n" using l p by simp
      then show ?thesis using fresh l y p unfolding s new
        by (simp add: mark_key_def Let_def removeAll_notin)
    qed
  qed
qed

lemma marks_last_keys: "foldl (mark_key c) [] ks = last_keys c ks"
  by (induction ks rule: rev_induct) (simp_all add: mark_last_keys, simp add: last_keys_def)

lemma last_keys_mem: "x \<in> set (last_keys c ks) \<Longrightarrow> x \<in> set ks"
  by (auto simp: last_keys_def Let_def dest: in_set_dropD)

lemma last_keys_bounds: "distinct (last_keys c ks)" "length (last_keys c ks) \<le> max 1 c"
  by (auto simp: last_keys_def Let_def)

lemma last_keys_all: "card (set ks) \<le> max 1 c \<Longrightarrow> set (last_keys c ks) = set ks"
  by (simp add: last_keys_def Let_def length_remdups_card_conv)

section \<open>Properties\<close>

text \<open>Note: The cache is an exact LRU: after marking any sequence of keys it holds, oldest first, the last
  keys of the sequence without repetitions, as many as its capacity (and one if that is zero);
  so a key is remembered exactly until that many other keys have been marked after it.\<close>

theorem dedupe_exact_lru:
  "dc_seen (foldl (\<lambda>d (ch, m). dc_markSeen d ch m) \<lparr>dc_capacity = c, dc_seen = []\<rparr> ks)
     = last_keys c (map (\<lambda>(ch, m). dedupe_key ch m) ks)"
proof -
  have "foldl (\<lambda>d (ch, m). dc_markSeen d ch m) \<lparr>dc_capacity = c, dc_seen = l\<rparr> ks
      = \<lparr>dc_capacity = c, dc_seen = foldl (mark_key c) l (map (\<lambda>(ch, m). dedupe_key ch m) ks)\<rparr>" for l
    by (induction ks arbitrary: l) (auto simp: dc_markSeen_def)
  then show ?thesis by (simp add: marks_last_keys)
qed

end
