(* ===== verification/Bloom.thy ===== *)
theory Bloom
  imports Complex_Main Prelude
begin

text \<open>
  The persistent Bloom filter of \<open>mailbox/dedup-bloom.ts\<close>: its hash on 32-bit words, the bit
  array as bytes, and the IndexedDB row it is loaded from and flushed to. \<open>paramsFor\<close> is on
  reals. The array does not exist before \<open>open\<close>, and a method that reads it then throws.
\<close>

section \<open>The hash\<close>

type_synonym u32 = "32 word"

definition rotl :: "nat \<Rightarrow> u32 \<Rightarrow> u32" where
  "rotl n x = push_bit n x OR drop_bit (32 - n) x"

definition code_at :: "string \<Rightarrow> nat \<Rightarrow> u32" where
  "code_at s i = of_nat (of_char (s ! i)) AND 0xff"

definition mix_k :: "u32 \<Rightarrow> u32" where
  "mix_k k = rotl 15 (k * 0xcc9e2d51) * 0x1b873593"

fun murmur_blocks :: "string \<Rightarrow> u32 \<Rightarrow> u32 \<times> string" where
  "murmur_blocks (a # b # c # d # s) h =
     (let k = code_at [a, b, c, d] 0 OR push_bit 8 (code_at [a, b, c, d] 1)
              OR push_bit 16 (code_at [a, b, c, d] 2) OR push_bit 24 (code_at [a, b, c, d] 3)
      in murmur_blocks s (rotl 13 (h XOR mix_k k) * 5 + 0xe6546b64))"
| "murmur_blocks s h = (h, s)"

definition murmur_tail :: "string \<Rightarrow> u32 \<Rightarrow> u32" where
  "murmur_tail s h =
     (let k0 = (if 0 < length s then code_at s 0 else 0);
          k1 = (if 1 < length s then k0 XOR push_bit 8 (code_at s 1) else k0);
          k2 = (if 2 < length s then k1 XOR push_bit 16 (code_at s 2) else k1)
      in if k2 \<noteq> 0 then h XOR mix_k k2 else h)"

definition murmur_final :: "u32 \<Rightarrow> u32" where
  "murmur_final h =
     (let h1 = (h XOR drop_bit 16 h) * 0x85ebca6b;
          h2 = (h1 XOR drop_bit 13 h1) * 0xc2b2ae35
      in h2 XOR drop_bit 16 h2)"

definition murmur3_32 :: "string \<Rightarrow> u32 \<Rightarrow> u32" where
  "murmur3_32 input seed =
     (let (h, rest) = murmur_blocks input seed in
      murmur_final (murmur_tail rest h XOR of_nat (length input)))"

section \<open>The filter\<close>

definition paramsFor :: "nat \<Rightarrow> real \<Rightarrow> int \<times> int" where
  "paramsFor capacity fpRate =
     (let m = \<lceil>- (real capacity * ln fpRate) / (ln 2)\<^sup>2\<rceil>;
          k = max 1 \<lfloor>real_of_int m / real capacity * ln 2 + 1 / 2\<rfloor>
      in (m, k))"

record bloom_row =
  br_bits :: bytes
  br_m :: nat
  br_k :: nat

record bloom =
  bl_open :: bool
  bl_bits :: "bytes option"
  bl_m :: nat
  bl_k :: nat

definition new_bloom :: "nat \<Rightarrow> nat \<Rightarrow> bloom" where
  "new_bloom m k = \<lparr>bl_open = False, bl_bits = None, bl_m = m, bl_k = k\<rparr>"

text \<open>\<open>open\<close>, given the row the database holds.\<close>

definition bloom_open :: "bloom_row option \<Rightarrow> bloom \<Rightarrow> bloom" where
  "bloom_open row b =
     (if bl_open b then b
      else b\<lparr>bl_open := True, bl_bits := Some (case row of
          Some r \<Rightarrow> if br_m r = bl_m b \<and> br_k r = bl_k b then br_bits r
                    else replicate ((bl_m b + 7) div 8) 0
        | None \<Rightarrow> replicate ((bl_m b + 7) div 8) 0)\<rparr>)"

definition bloom_close :: "bloom \<Rightarrow> bloom" where
  "bloom_close b = b\<lparr>bl_open := False\<rparr>"

text \<open>The row after \<open>flush\<close>; a closed filter flushes nothing.\<close>

definition bloom_flush :: "bloom \<Rightarrow> bloom_row option \<Rightarrow> bloom_row option" where
  "bloom_flush b row =
     (case (bl_open b, bl_bits b) of
        (True, Some bits) \<Rightarrow> Some \<lparr>br_bits = bits, br_m = bl_m b, br_k = bl_k b\<rparr>
      | _ \<Rightarrow> row)"

text \<open>The bit a probe looks at.\<close>

definition probe_bit :: "nat \<Rightarrow> string \<Rightarrow> nat \<Rightarrow> nat" where
  "probe_bit m msgId i =
     (let h1 = murmur3_32 msgId 0; h2 = murmur3_32 msgId 0xdeadbeef;
          h2' = (if h2 = 0 then 1 else h2)
      in unat (h1 + of_nat i * h2') mod m)"

definition bit_set :: "bytes \<Rightarrow> nat \<Rightarrow> bool" where
  "bit_set bits b = (bits ! (b div 8) AND push_bit (b mod 8) 1 \<noteq> 0)"

definition set_bit_at :: "bytes \<Rightarrow> nat \<Rightarrow> bytes" where
  "set_bit_at bits b = bits[b div 8 := bits ! (b div 8) OR push_bit (b mod 8) 1]"

text \<open>\<open>None\<close>: the array is undefined, reading it throws.\<close>

definition bloom_hasSeen :: "bloom \<Rightarrow> string \<Rightarrow> bool option" where
  "bloom_hasSeen b msgId =
     map_option (\<lambda>bits. list_all (\<lambda>i. bit_set bits (probe_bit (bl_m b) msgId i)) [0..<bl_k b]) (bl_bits b)"

definition bloom_markSeen :: "bloom \<Rightarrow> string \<Rightarrow> bloom" where
  "bloom_markSeen b msgId =
     b\<lparr>bl_bits := map_option
        (\<lambda>bits. foldl (\<lambda>bs i. set_bit_at bs (probe_bit (bl_m b) msgId i)) bits [0..<bl_k b]) (bl_bits b)\<rparr>"

section \<open>No false negatives\<close>

definition bloom_ok :: "bloom \<Rightarrow> bool" where
  "bloom_ok b \<longleftrightarrow> 0 < bl_m b \<and> (\<exists>bits. bl_bits b = Some bits \<and> bl_m b \<le> 8 * length bits)"

lemma bit_set_bit: "bit_set bits b \<longleftrightarrow> bit (bits ! (b div 8)) (b mod 8)"
  by (simp add: bit_set_def push_bit_of_1 and_exp_eq_0_iff_not_bit)

lemma set_bit_at_bit:
  assumes "b < 8 * length bits"
  shows "bit_set (set_bit_at bits b) c \<longleftrightarrow> b = c \<or> bit_set bits c"
proof -
  have l: "b div 8 < length bits" using assms by (simp add: div_less_iff_less_mult mult.commute)
  have "b mod 8 < 8" by simp
  have eq: "b = c \<longleftrightarrow> b div 8 = c div 8 \<and> b mod 8 = c mod 8"
    by (metis div_mult_mod_eq)
  show ?thesis
  proof (cases "b div 8 = c div 8")
    case True
    have "c mod 8 < 8" by simp
    then show ?thesis using l True
      by (auto simp: bit_set_bit set_bit_at_def bit_or_iff push_bit_of_1 bit_exp_iff possible_bit_def eq)
  next
    case False
    then show ?thesis by (auto simp: bit_set_bit set_bit_at_def eq)
  qed
qed

lemma length_set_bit_at [simp]: "length (set_bit_at bits b) = length bits"
  by (simp add: set_bit_at_def)

lemma set_bits_fold:
  assumes "\<forall>i \<in> set is. f i < 8 * length bits"
  shows "length (foldl (\<lambda>bs i. set_bit_at bs (f i)) bits is) = length bits"
    and "bit_set (foldl (\<lambda>bs i. set_bit_at bs (f i)) bits is) c \<longleftrightarrow> c \<in> f ` set is \<or> bit_set bits c"
  using assms by (induction "is" arbitrary: bits) (auto simp: set_bit_at_bit)

lemma probe_bit_less: "0 < m \<Longrightarrow> probe_bit m msgId i < m"
  by (simp add: probe_bit_def Let_def)

lemma bloom_bits_mark:
  assumes "bloom_ok b" "bl_bits b = Some bits"
  obtains bits' where "bl_bits (bloom_markSeen b msg) = Some bits'" "length bits' = length bits"
    "\<And>c. bit_set bits' c \<longleftrightarrow> c \<in> probe_bit (bl_m b) msg ` {0..<bl_k b} \<or> bit_set bits c"
proof -
  have "\<forall>i \<in> set [0..<bl_k b]. probe_bit (bl_m b) msg i < 8 * length bits"
  proof
    fix i
    have "probe_bit (bl_m b) msg i < bl_m b"
      using assms(1) by (intro probe_bit_less) (simp add: bloom_ok_def)
    then show "probe_bit (bl_m b) msg i < 8 * length bits" using assms by (auto simp: bloom_ok_def)
  qed
  note fold = set_bits_fold [OF this]
  show thesis
    by (rule that [OF _ fold(1) fold(2) [unfolded set_upt]]) (simp add: bloom_markSeen_def assms(2))
qed

lemma bloom_ok_mark: "bloom_ok b \<Longrightarrow> bloom_ok (bloom_markSeen b msg)"
proof -
  assume ok: "bloom_ok b"
  then obtain bits where bits: "bl_bits b = Some bits" by (auto simp: bloom_ok_def)
  obtain bits' where "bl_bits (bloom_markSeen b msg) = Some bits'" "length bits' = length bits"
    using bloom_bits_mark [OF ok bits] by metis
  then show ?thesis using ok bits by (simp add: bloom_ok_def bloom_markSeen_def)
qed

lemma bloom_seen_iff:
  assumes "bl_bits b = Some bits"
  shows "bloom_hasSeen b msg = Some (probe_bit (bl_m b) msg ` {0..<bl_k b} \<subseteq> {c. bit_set bits c})"
  using assms by (auto simp: bloom_hasSeen_def list_all_iff)

lemma bloom_mark_seen:
  assumes "bloom_ok b"
  shows "bloom_hasSeen (bloom_markSeen b msg) k = Some True \<longleftrightarrow>
    (let P = (\<lambda>x. probe_bit (bl_m b) x ` {0..<bl_k b}) in
     \<exists>bits. bl_bits b = Some bits \<and> P k \<subseteq> P msg \<union> {c. bit_set bits c})"
proof -
  obtain bits where bits: "bl_bits b = Some bits" using assms by (auto simp: bloom_ok_def)
  obtain bits' where b': "bl_bits (bloom_markSeen b msg) = Some bits'"
    "\<And>c. bit_set bits' c \<longleftrightarrow> c \<in> probe_bit (bl_m b) msg ` {0..<bl_k b} \<or> bit_set bits c"
    using bloom_bits_mark [OF assms bits] by metis
  have "bl_m (bloom_markSeen b msg) = bl_m b" "bl_k (bloom_markSeen b msg) = bl_k b"
    by (simp_all add: bloom_markSeen_def)
  then show ?thesis using bits b' by (auto simp: bloom_seen_iff Let_def)
qed

interpretation bloom_once: once_filter bloom_ok "\<lambda>_. True"
  "\<lambda>b k. bloom_hasSeen b k \<noteq> Some True" bloom_markSeen
proof unfold_locales
  fix s k k' assume ok: "bloom_ok s" and ns: "\<not> bloom_hasSeen s k \<noteq> Some True"
  obtain bits where bits: "bl_bits s = Some bits" using ok by (auto simp: bloom_ok_def)
  show "\<not> bloom_hasSeen (bloom_markSeen s k') k \<noteq> Some True"
    using ns bits by (auto simp: bloom_mark_seen [OF ok] bloom_seen_iff)
next
  fix s k assume ok: "bloom_ok s"
  then show "\<not> bloom_hasSeen (bloom_markSeen s k) k \<noteq> Some True"
    by (auto simp: bloom_mark_seen bloom_ok_def)
qed (auto simp: bloom_ok_mark)


section \<open>Parameters\<close>

lemma paramsFor_positive:
  assumes "0 < n" "0 < p" "p < 1"
  shows "0 < fst (paramsFor n p)" "1 \<le> snd (paramsFor n p)"
proof -
  have "real n * ln p < 0" using assms by (simp add: mult_pos_neg)
  then have "0 < - (real n * ln p) / (ln 2)\<^sup>2" by (simp add: divide_neg_pos)
  then show "0 < fst (paramsFor n p)" by (simp add: paramsFor_def Let_def)
qed (simp add: paramsFor_def Let_def)

lemma bloom_open_ok:
  "0 < bl_m b \<Longrightarrow> \<not> bl_open b \<Longrightarrow>
     (\<And>r. row = Some r \<Longrightarrow> br_m r = bl_m b \<Longrightarrow> br_m r \<le> 8 * length (br_bits r)) \<Longrightarrow> bloom_ok (bloom_open row b)"
  by (auto simp: bloom_open_def bloom_ok_def split: option.splits)

section \<open>Properties\<close>

text \<open>Note: No false negative, no second admission: from any opened filter, whatever sequence of ids is
  offered and marked when it looks new, no id is admitted twice, and an id that was seen at
  the start is never admitted.\<close>

theorem bloom_admits_once:
  assumes "0 < m"
  shows "distinct (snd (admit_run (\<lambda>b x. bloom_hasSeen b x \<noteq> Some True) bloom_markSeen
    (bloom_open None (new_bloom m k)) ids))"
  by (rule bloom_once.run_distinct)
    (use assms in \<open>auto intro!: bloom_open_ok simp: new_bloom_def\<close>)

theorem bloom_admits_once_witness:
  "distinct (snd (admit_run (\<lambda>b x. bloom_hasSeen b x \<noteq> Some True) bloom_markSeen
    (bloom_open None (new_bloom 64 3)) [''a'', ''b'', ''a'']))"
  by (rule bloom_admits_once) simp

lemma bloom_empty: "bloom_hasSeen (bloom_open None (new_bloom m k)) x = Some (k = 0)" if "0 < m"
proof -
  have "\<not> bit_set (replicate n 0) b" if "b div 8 < n" for b n
    using that by (simp add: bit_set_def)
  moreover have "probe_bit m x i div 8 < (m + 7) div 8" for i
    using probe_bit_less [OF that, of x i] by linarith
  ultimately show ?thesis
    by (auto simp: bloom_hasSeen_def bloom_open_def new_bloom_def list_all_iff)
qed

text \<open>Note: What is flushed survives, what is not is lost: a filter reopened with the same parameters from a
  flushed row answers hasSeen as the old one did for every id; without a flush, or with other
  parameters, it reopens empty and admits every id again.\<close>

theorem bloom_flush_reload:
  assumes "bl_open b" and "bl_bits b = Some bits" and "0 < bl_k b" and "0 < bl_m b"
    and "0 < m'" and "m' \<noteq> bl_m b"
  shows "bloom_hasSeen (bloom_open (bloom_flush b row) (new_bloom (bl_m b) (bl_k b))) x = bloom_hasSeen b x
    \<and> bloom_hasSeen (bloom_open None (new_bloom (bl_m b) (bl_k b))) x = Some False
    \<and> bloom_hasSeen (bloom_open (bloom_flush b row) (new_bloom m' (bl_k b))) x = Some False"
proof (intro conjI)
  show "bloom_hasSeen (bloom_open (bloom_flush b row) (new_bloom (bl_m b) (bl_k b))) x = bloom_hasSeen b x"
    using assms by (simp add: bloom_open_def bloom_flush_def new_bloom_def bloom_hasSeen_def)
  show "bloom_hasSeen (bloom_open None (new_bloom (bl_m b) (bl_k b))) x = Some False"
    using assms(3,4) by (simp add: bloom_empty)
  have "bloom_open (bloom_flush b row) (new_bloom m' (bl_k b)) = bloom_open None (new_bloom m' (bl_k b))"
    using assms by (auto simp: bloom_open_def bloom_flush_def new_bloom_def)
  then show "bloom_hasSeen (bloom_open (bloom_flush b row) (new_bloom m' (bl_k b))) x = Some False"
    using assms(3,5) by (simp add: bloom_empty)
qed

theorem bloom_flush_reload_witness:
  "bloom_hasSeen (bloom_open (bloom_flush (bloom_markSeen (bloom_open None (new_bloom 64 3)) ''a'') None)
     (new_bloom 64 3)) ''a'' = bloom_hasSeen (bloom_markSeen (bloom_open None (new_bloom 64 3)) ''a'') ''a''"
proof -
  let ?b = "bloom_markSeen (bloom_open None (new_bloom 64 3)) ''a''"
  have f: "bl_open ?b" "bl_m ?b = 64" "bl_k ?b = 3" "\<exists>bits. bl_bits ?b = Some bits"
    by (simp_all add: bloom_markSeen_def bloom_open_def new_bloom_def)
  then obtain bits where "bl_bits ?b = Some bits" by blast
  from bloom_flush_reload [OF f(1) this, of 128] f(2,3) show ?thesis by simp
qed

end
