(* ===== verification/Router.thy ===== *)
theory Router
  imports Transport_Inv Token_Client Bridge Dedupe Bloom Mailbox Outbox
begin

text \<open>
  The router of \<open>router.ts\<close>: which way an outgoing bundle takes, and what happens to an incoming
  frame. It is composed of the models of the parts it calls: the mesh transport, the token
  cache, the bridge, the outbox, the two duplicate filters and the inbox. What the network and
  the radio answer are arguments; \<open>navigator.onLine\<close> is one too.
\<close>

section \<open>Outgoing\<close>

datatype strategy = OnlineOnly | BleOnly | OnlineAndBle | Queued

datatype ble_failure = SendFailed send_error | WriteFailed

record route_result =
  rr_strategy :: strategy
  rr_bridge :: "bridge_result option"
  rr_bleError :: "ble_failure option"

datatype route_error = TokenError token_error | BleError ble_failure | QueueError mb_error

record route_args =
  ra_bundle :: bytes
  ra_msgId :: string
  ra_channelId :: bytes

text \<open>What the surroundings answer to one call.\<close>

record route_answers =
  an_online :: bool
  an_token :: fetch_answer
  an_relay :: http_answer
  an_lost :: "string \<Rightarrow> bool"
  an_now :: int
  an_json :: "bytes \<Rightarrow> int option"

record route_context =
  cx_geohash :: string
  cx_dayUtc :: string
  cx_identityKey :: string

record router =
  rt_mesh :: transport
  rt_tokens :: token_cache
  rt_outbox :: "outbox_entry mailbox"

text \<open>
  \<open>sendToBle\<close> starts \<open>sendFrame\<close> for every peer and rejects if any of them does;
  \<open>an_lost\<close> tells the peers to which writing the chunks failed. The errors are listed in the order of
  the peers, and the first of the list is taken for the one \<open>Promise.all\<close> rejects with; in the code it is
  the first in time, which may be another of the list.
\<close>

definition sendToBle ::
  "ratchet_prims \<Rightarrow> bytes \<Rightarrow> (string \<Rightarrow> bool) \<Rightarrow> peer list \<Rightarrow> transport \<Rightarrow> transport \<times> ble_failure list" where
  "sendToBle R bundle lost ps tr =
     foldl (\<lambda>(tr, errs) p. case sendFrame R (idHex p) bundle tr of
         (tr', Inl e) \<Rightarrow> (tr', errs @ [SendFailed e])
       | (tr', Inr _) \<Rightarrow> (tr', if lost (idHex p) then errs @ [WriteFailed] else errs)) (tr, []) ps"

definition routeOutgoing ::
  "ratchet_prims \<Rightarrow> route_answers \<Rightarrow> route_args \<Rightarrow> route_context \<Rightarrow> router
     \<Rightarrow> router \<times> (route_error + route_result)" where
  "routeOutgoing R a args cx r =
     (let ps = peers (rt_mesh r); hasBle = (ps \<noteq> []);
          tok = getToken (an_json a) (an_now a) (an_token a) (cx_geohash cx) (cx_dayUtc cx)
                  (cx_identityKey cx) (rt_tokens r);
          ble = sendToBle R (ra_bundle args) (an_lost a) ps (rt_mesh r);
          relay = fst (bridgeSend (an_relay a)) in
      if an_online a \<and> \<not> hasBle then
        (case tok of
           (c, Inl e) \<Rightarrow> (r\<lparr>rt_tokens := c\<rparr>, Inl (TokenError e))
         | (c, Inr jwt) \<Rightarrow> (r\<lparr>rt_tokens := c\<rparr>,
             Inr \<lparr>rr_strategy = OnlineOnly, rr_bridge = Some relay, rr_bleError = None\<rparr>))
      else if \<not> an_online a \<and> hasBle then
        (case ble of
           (tr, []) \<Rightarrow> (r\<lparr>rt_mesh := tr\<rparr>,
             Inr \<lparr>rr_strategy = BleOnly, rr_bridge = None, rr_bleError = None\<rparr>)
         | (tr, e # _) \<Rightarrow> (r\<lparr>rt_mesh := tr\<rparr>, Inl (BleError e)))
      else if an_online a \<and> hasBle then
        (case tok of
           (c, Inl e) \<Rightarrow> (r\<lparr>rt_tokens := c\<rparr>, Inl (TokenError e))
         | (c, Inr jwt) \<Rightarrow>
             (case ble of
                (tr, []) \<Rightarrow> (r\<lparr>rt_tokens := c, rt_mesh := tr\<rparr>,
                  Inr \<lparr>rr_strategy = OnlineAndBle, rr_bridge = Some relay, rr_bleError = None\<rparr>)
              | (tr, e # _) \<Rightarrow> (r\<lparr>rt_tokens := c, rt_mesh := tr\<rparr>,
                  Inr \<lparr>rr_strategy = OnlineOnly, rr_bridge = Some relay, rr_bleError = Some e\<rparr>)))
      else
        (case enqueue \<lparr>ea_msgId = ra_msgId args, ea_channelId = ra_channelId args,
                ea_bundle = ra_bundle args, ea_lastAttemptMs = None\<rparr> (rt_outbox r) of
           (ob, Inl e) \<Rightarrow> (r\<lparr>rt_outbox := ob\<rparr>, Inl (QueueError e))
         | (ob, Inr _) \<Rightarrow> (r\<lparr>rt_outbox := ob\<rparr>,
             Inr \<lparr>rr_strategy = Queued, rr_bridge = None, rr_bleError = None\<rparr>)))"

section \<open>Incoming\<close>

record inbound =
  in_bloom :: "bloom option"
  in_dedupe :: dedupe_cache
  in_inbox :: "inbox_entry mailbox option"
  in_delivered :: "bytes list"

definition frame_msgId :: "bytes \<Rightarrow> string" where
  "frame_msgId frame = to_hex (js_slice 34 50 frame)"

definition frame_channel :: "bytes \<Rightarrow> string" where
  "frame_channel frame = to_hex (js_slice 55 59 frame)"

text \<open>
  The frame handler that \<open>onIncoming\<close> registers. \<open>first\<close> and \<open>second\<close> are how the inbox
  transactions end; a rejected \<open>put\<close> is swallowed. A Bloom filter that is not open throws, and
  the transport swallows that.
\<close>

definition on_frame :: "tx_end \<Rightarrow> tx_end \<Rightarrow> int \<Rightarrow> bytes \<Rightarrow> inbound \<Rightarrow> inbound" where
  "on_frame first second now frame s =
     (let m = frame_msgId frame; ch = frame_channel frame;
          passes = (case in_bloom s of None \<Rightarrow> True | Some b \<Rightarrow> bloom_hasSeen b m = Some False) in
      if \<not> passes then s
      else if dc_hasSeen (in_dedupe s) ch m then s
      else s\<lparr>in_bloom := map_option (\<lambda>b. bloom_markSeen b m) (in_bloom s),
             in_dedupe := dc_markSeen (in_dedupe s) ch m,
             in_inbox := map_option (\<lambda>mb. fst (inbox_put first second
                \<lparr>ib_msgId = m, ib_channelId = js_slice 55 59 frame, ib_bundle = frame,
                 receivedAtMs = now, consumed = False\<rparr> mb)) (in_inbox s),
             in_delivered := in_delivered s @ [frame]\<rparr>)"

text \<open>Frames arriving one after the other, with their arrival times and inbox outcomes.\<close>

fun receive_frames :: "(tx_end \<times> tx_end \<times> int \<times> bytes) list \<Rightarrow> inbound \<Rightarrow> inbound" where
  "receive_frames [] s = s"
| "receive_frames ((f1, f2, now, frame) # fs) s = receive_frames fs (on_frame f1 f2 now frame s)"

section \<open>Lemmas\<close>

lemma receive_append: "receive_frames (xs @ ys) s = receive_frames ys (receive_frames xs s)"
  by (induction xs s rule: receive_frames.induct) simp_all

lemma on_frame_skip:
  "(case in_bloom s of None \<Rightarrow> False | Some b \<Rightarrow> bloom_hasSeen b (frame_msgId f) = Some True)
     \<or> dc_hasSeen (in_dedupe s) (frame_channel f) (frame_msgId f) \<Longrightarrow> on_frame f1 f2 now f s = s"
  by (auto simp: on_frame_def Let_def split: option.splits)

text \<open>With an opened filter, what was delivered, now or before (\<open>S\<close>), stays filtered out.\<close>

definition bloom_guard :: "nat \<Rightarrow> nat \<Rightarrow> string set \<Rightarrow> inbound \<Rightarrow> bool" where
  "bloom_guard m k S s \<longleftrightarrow> (\<exists>b. in_bloom s = Some b \<and> bloom_ok b \<and> bl_open b \<and> bl_m b = m \<and> bl_k b = k
     \<and> (\<forall>x \<in> S \<union> frame_msgId ` set (in_delivered s). bloom_hasSeen b x = Some True))
     \<and> distinct (map frame_msgId (in_delivered s)) \<and> S \<inter> frame_msgId ` set (in_delivered s) = {}"

lemma bloom_guard_step:
  assumes "bloom_guard m k S s"
  shows "bloom_guard m k S (on_frame f1 f2 now f s)"
proof -
  obtain b where b: "in_bloom s = Some b" "bloom_ok b" "bl_open b" "bl_m b = m" "bl_k b = k"
    and old: "\<forall>x \<in> S \<union> frame_msgId ` set (in_delivered s). bloom_hasSeen b x = Some True"
    and d: "distinct (map frame_msgId (in_delivered s))" "S \<inter> frame_msgId ` set (in_delivered s) = {}"
    using assms by (auto simp: bloom_guard_def)
  let ?m = "frame_msgId f"
  show ?thesis
  proof (cases "on_frame f1 f2 now f s = s")
    case False
    then have new: "bloom_hasSeen b ?m = Some False" using b(1)
      by (auto simp: on_frame_def Let_def split: if_splits)
    let ?b = "bloom_markSeen b ?m"
    have "bloom_hasSeen ?b ?m = Some True"
      using bloom_once.marked_not_fresh [OF b(2)] by auto
    moreover have "bloom_hasSeen ?b x = Some True" if "x \<in> S \<union> frame_msgId ` set (in_delivered s)" for x
      using bloom_once.stays_marked [OF b(2), of x ?m] old that by auto
    moreover have "?m \<notin> S \<union> frame_msgId ` set (in_delivered s)" using old new by auto
    moreover have "bl_open ?b" "bl_m ?b = m" "bl_k ?b = k" using b(3-5) by (simp_all add: bloom_markSeen_def)
    ultimately show ?thesis using False b(1) d bloom_ok_mark [OF b(2)]
      by (auto simp: on_frame_def Let_def bloom_guard_def split: if_splits)
  qed (simp add: assms)
qed

lemma bloom_guard_run: "bloom_guard m k S s \<Longrightarrow> bloom_guard m k S (receive_frames fs s)"
  by (induction fs s rule: receive_frames.induct) (simp_all add: bloom_guard_step)

text \<open>
  One subscription over page loads: each session opens the filter from the stored row, with an empty
  duplicate cache; the row is written when the filter is flushed, after the frames \<open>fs\<close> and before the
  frames \<open>gs\<close>. The result: what each session delivered up to its flush, and in all.
\<close>

definition session_start :: "nat \<Rightarrow> nat \<Rightarrow> nat option \<Rightarrow> inbox_entry mailbox option \<Rightarrow> bloom_row option \<Rightarrow> inbound" where
  "session_start m k c mb row = \<lparr>in_bloom = Some (bloom_open row (new_bloom m k)), in_dedupe = new_dedupe c,
     in_inbox = mb, in_delivered = []\<rparr>"

fun page_sessions :: "nat \<Rightarrow> nat \<Rightarrow> nat option \<Rightarrow> inbox_entry mailbox option \<Rightarrow> bloom_row option
    \<Rightarrow> ((tx_end \<times> tx_end \<times> int \<times> bytes) list \<times> (tx_end \<times> tx_end \<times> int \<times> bytes) list) list
    \<Rightarrow> (bytes list \<times> bytes list) list" where
  "page_sessions m k c mb row [] = []"
| "page_sessions m k c mb row ((fs, gs) # ss) =
     (let s1 = receive_frames fs (session_start m k c mb row); s2 = receive_frames gs s1;
          row' = (case in_bloom s1 of Some b \<Rightarrow> bloom_flush b row | None \<Rightarrow> row) in
      (in_delivered s1, in_delivered s2) # page_sessions m k c (in_inbox s2) row' ss)"

definition row_filters :: "nat \<Rightarrow> nat \<Rightarrow> string set \<Rightarrow> bloom_row option \<Rightarrow> bool" where
  "row_filters m k S row \<longleftrightarrow> 0 < m
     \<and> (\<forall>r. row = Some r \<longrightarrow> br_m r = m \<longrightarrow> br_k r = k \<longrightarrow> m \<le> 8 * length (br_bits r))
     \<and> (\<forall>x \<in> S. bloom_hasSeen (bloom_open row (new_bloom m k)) x = Some True)"

lemma session_guard: "row_filters m k S row \<Longrightarrow> bloom_guard m k S (session_start m k c mb row)"
  by (auto simp: bloom_guard_def session_start_def row_filters_def new_bloom_def bloom_open_def bloom_ok_def
      split: option.split)

lemma flushed_filters:
  assumes "bloom_guard m k S s" and "in_bloom s = Some b"
  shows "row_filters m k (S \<union> frame_msgId ` set (in_delivered s)) (bloom_flush b row)"
proof -
  have b: "bloom_ok b" "bl_open b" "bl_m b = m" "bl_k b = k"
    "\<forall>x \<in> S \<union> frame_msgId ` set (in_delivered s). bloom_hasSeen b x = Some True"
    using assms by (auto simp: bloom_guard_def)
  then obtain bits where bits: "bl_bits b = Some bits" "0 < m" "m \<le> 8 * length bits" by (auto simp: bloom_ok_def)
  have "bloom_hasSeen (bloom_open (bloom_flush b row) (new_bloom m k)) x = bloom_hasSeen b x" for x
    using b(2-4) bits(1) by (simp add: bloom_hasSeen_def bloom_open_def bloom_flush_def new_bloom_def)
  then show ?thesis using b bits by (simp add: row_filters_def bloom_flush_def)
qed

lemma page_sessions_once:
  assumes "row_filters m k S row" and "ds = page_sessions m k c mb row ss"
  shows "(\<forall>(d, e) \<in> set ds. distinct (map frame_msgId e) \<and> S \<inter> frame_msgId ` set e = {})
    \<and> (\<forall>j < length ds. \<forall>i < j. frame_msgId ` set (fst (ds ! i)) \<inter> frame_msgId ` set (snd (ds ! j)) = {})"
  using assms
proof (induction ss arbitrary: S row mb ds)
  case (Cons x ss)
  obtain fs gs where x: "x = (fs, gs)" by (cases x)
  let ?s1 = "receive_frames fs (session_start m k c mb row)"
  let ?s2 = "receive_frames gs ?s1" and ?ids = "\<lambda>d. frame_msgId ` set d"
  have g1: "bloom_guard m k S ?s1" by (rule bloom_guard_run [OF session_guard [OF Cons.prems(1)]])
  have g2: "bloom_guard m k S ?s2" by (rule bloom_guard_run [OF g1])
  obtain b where b: "in_bloom ?s1 = Some b" using g1 by (auto simp: bloom_guard_def)
  let ?ds = "page_sessions m k c (in_inbox ?s2) (bloom_flush b row) ss"
  have ds: "ds = (in_delivered ?s1, in_delivered ?s2) # ?ds" using Cons.prems(2) b by (simp add: x Let_def)
  note IH = Cons.IH [OF flushed_filters [OF g1 b] refl, of "in_inbox ?s2" row]
  have later: "distinct (map frame_msgId (snd y)) \<and> (S \<union> ?ids (in_delivered ?s1)) \<inter> ?ids (snd y) = {}"
    if "y \<in> set ?ds" for y
    using bspec [OF conjunct1 [OF IH] that] by (simp add: split_beta)
  show ?case
  proof (intro conjI allI impI)
    have "distinct (map frame_msgId (in_delivered ?s2)) \<and> S \<inter> ?ids (in_delivered ?s2) = {}"
      using g2 by (simp add: bloom_guard_def)
    then show "\<forall>(d, e) \<in> set ds. distinct (map frame_msgId e) \<and> S \<inter> ?ids e = {}"
      using later by (simp add: ds split_beta) blast
    fix i j assume ij: "j < length ds" "i < j"
    then obtain j' where j: "j = Suc j'" by (cases j) auto
    show "?ids (fst (ds ! i)) \<inter> ?ids (snd (ds ! j)) = {}"
    proof (cases i)
      case 0
      have "?ds ! j' \<in> set ?ds" using ij j by (simp add: ds)
      then show ?thesis using later 0 j by (simp add: ds) blast
    next
      case (Suc i')
      then show ?thesis using IH ij j by (simp add: ds)
    qed
  qed
qed simp

lemma sendToBle_first_error:
  assumes "sendFrame R (idHex p) bundle tr = (tr', Inl e)"
  shows "\<exists>tr'' errs. sendToBle R bundle lost (p # ps) tr = (tr'', SendFailed e # errs)"
proof -
  let ?f = "\<lambda>(tr, errs) p. case sendFrame R (idHex p) bundle tr of
      (tr', Inl e) \<Rightarrow> (tr', errs @ [SendFailed e])
    | (tr', Inr _) \<Rightarrow> (tr', if lost (idHex p) then errs @ [WriteFailed] else errs)"
  have keep: "\<exists>es'. snd (foldl ?f (t, es) qs) = es @ es'" for t es qs
  proof (induction qs arbitrary: t es)
    case (Cons q qs)
    have "\<exists>t' x. ?f (t, es) q = (t', es @ x)" by (auto split: prod.split sum.split)
    then obtain t' x where "?f (t, es) q = (t', es @ x)" by blast
    then show ?case using Cons [of t' "es @ x"] by auto
  qed simp
  obtain es' where "snd (foldl ?f (tr', [SendFailed e]) ps) = [SendFailed e] @ es'"
    using keep by blast
  then have "snd (sendToBle R bundle lost (p # ps) tr) = SendFailed e # es'"
    using assms by (simp add: sendToBle_def)
  then show ?thesis by (metis prod.collapse)
qed

text \<open>The first frame of every key, as a reference for the path without a Bloom filter.\<close>

fun first_by :: "('a \<Rightarrow> 'k) \<Rightarrow> 'k set \<Rightarrow> 'a list \<Rightarrow> 'a list" where
  "first_by key S [] = []"
| "first_by key S (x # xs) =
     (if key x \<in> S then first_by key S xs else x # first_by key (insert (key x) S) xs)"

definition arrived :: "tx_end \<times> tx_end \<times> int \<times> bytes \<Rightarrow> bytes" where
  "arrived x = snd (snd (snd x))"

definition frame_key :: "bytes \<Rightarrow> string" where
  "frame_key f = dedupe_key (frame_channel f) (frame_msgId f)"

lemma first_by_run:
  assumes "in_bloom s = None" "dc_seen (in_dedupe s) = last_keys c ks" "dc_capacity (in_dedupe s) = c"
    "card (set ks \<union> (frame_key \<circ> arrived) ` set fs) \<le> c"
  shows "in_delivered (receive_frames fs s) =
    in_delivered s @ first_by frame_key (set ks) (map arrived fs)"
  using assms
proof (induction fs arbitrary: s ks)
  case (Cons x fs)
  obtain f1 f2 now f where x: "x = (f1, f2, now, f)" by (cases x)
  let ?s = "on_frame f1 f2 now f s" and ?rest = "(frame_key \<circ> arrived) ` set fs"
  have "card (set ks) \<le> card (set ks \<union> (frame_key \<circ> arrived) ` set (x # fs))"
    by (intro card_mono) auto
  then have "card (set ks) \<le> c" using Cons.prems(4) by (rule order.trans)
  then have seen: "set (dc_seen (in_dedupe s)) = set ks"
    unfolding Cons.prems(2) by (intro last_keys_all) simp
  show ?case
  proof (cases "frame_key f \<in> set ks")
    case True
    then have "?s = s" using seen by (intro on_frame_skip) (simp add: dc_hasSeen_def frame_key_def)
    have "set ks \<union> (frame_key \<circ> arrived) ` set (x # fs) = set ks \<union> ?rest"
      using True by (auto simp: x arrived_def)
    then have "card (set ks \<union> ?rest) \<le> c" using Cons.prems(4) by simp
    from Cons.IH [OF Cons.prems(1-3) this] \<open>?s = s\<close> True show ?thesis by (simp add: x arrived_def)
  next
    case False
    then have s: "in_bloom ?s = None" "in_delivered ?s = in_delivered s @ [f]"
      "dc_capacity (in_dedupe ?s) = c" "dc_seen (in_dedupe ?s) = last_keys c (ks @ [frame_key f])"
      using Cons.prems(1-3) seen
      by (simp_all add: on_frame_def Let_def dc_hasSeen_def frame_key_def dc_markSeen_def mark_last_keys)
    have "set (ks @ [frame_key f]) \<union> ?rest = set ks \<union> (frame_key \<circ> arrived) ` set (x # fs)"
      by (auto simp: x arrived_def)
    then have "card (set (ks @ [frame_key f]) \<union> ?rest) \<le> c" using Cons.prems(4) by (simp only:)
    from Cons.IH [OF s(1,4,3) this] s(2) False show ?thesis by (simp add: x arrived_def)
  qed
qed simp

section \<open>Properties\<close>

text \<open>Note: The routing table: the strategy and the parts a bundle touches are fixed by the connectivity and
  the presence of peers; only with neither is it queued, and then exactly the outbox changes.\<close>

theorem routing_table:
  "case routeOutgoing R a args cx r of
     (r', Inr res) \<Rightarrow>
       (rr_strategy res = Queued) = (\<not> an_online a \<and> peers (rt_mesh r) = [])
       \<and> (rr_strategy res = BleOnly) = (\<not> an_online a \<and> peers (rt_mesh r) \<noteq> [])
       \<and> (rr_strategy res = OnlineAndBle) = (an_online a \<and> peers (rt_mesh r) \<noteq> [] \<and> rr_bleError res = None)
       \<and> (rr_bridge res \<noteq> None) = an_online a
       \<and> (if rr_strategy res = Queued then rt_mesh r' = rt_mesh r \<and> rt_tokens r' = rt_tokens r
          else rt_outbox r' = rt_outbox r)
   | (r', Inl e) \<Rightarrow>
       (an_online a = (\<exists>t. e = TokenError t)) \<and> (if an_online a then rt_mesh r' = rt_mesh r else True)"
  by (auto simp: routeOutgoing_def Let_def split: prod.splits sum.splits list.splits)

text \<open>Note: A failed radio send is not queued: offline with peers, when the frame cannot be sent to one of them
  (say it is sighted but not accepted), routeOutgoing rejects and the outbox is untouched, so
  nothing will retry the bundle.\<close>

theorem offline_failure_not_queued:
  assumes "\<not> an_online a" and "peers (rt_mesh r) = p # ps"
    and "sendFrame R (idHex p) (ra_bundle args) (rt_mesh r) = (tr, Inl e)"
  shows "snd (routeOutgoing R a args cx r) = Inl (BleError (SendFailed e))
    \<and> rt_outbox (fst (routeOutgoing R a args cx r)) = rt_outbox r"
proof -
  obtain tr' errs where "sendToBle R (ra_bundle args) (an_lost a) (p # ps) (rt_mesh r)
      = (tr', SendFailed e # errs)"
    using sendToBle_first_error [OF assms(3)] by blast
  then show ?thesis using assms(1,2) by (simp add: routeOutgoing_def Let_def)
qed

definition sample_answers :: route_answers where
  "sample_answers = \<lparr>an_online = False, an_token = HttpError 503, an_relay = FetchRejected,
     an_lost = (\<lambda>_. False), an_now = 0, an_json = (\<lambda>_. None)\<rparr>"

definition sample_router :: router where
  "sample_router = \<lparr>rt_mesh = (new_transport sample_env)\<lparr>peers := [\<lparr>p_id = [7], idHex = ''07'',
       mac = ''a'', lastSeen = 0, p_rssi = None\<rparr>]\<rparr>, rt_tokens = [], rt_outbox = \<lparr>mb_open = True, maxEntries = 3, mb_store = []\<rparr>\<rparr>"

definition sample_args :: route_args where
  "sample_args = \<lparr>ra_bundle = [1], ra_msgId = ''m'', ra_channelId = [2]\<rparr>"

definition sample_context :: route_context where
  "sample_context = \<lparr>cx_geohash = ''u'', cx_dayUtc = ''d'', cx_identityKey = ''i''\<rparr>"

theorem offline_failure_not_queued_witness:
  "snd (routeOutgoing sample_prims sample_answers sample_args sample_context sample_router)
     = Inl (BleError (SendFailed UnknownPeer))"
proof -
  let ?p = "\<lparr>p_id = [7], idHex = ''07'', mac = ''a'', lastSeen = 0, p_rssi = None\<rparr>"
  have "sendFrame sample_prims (idHex ?p) (ra_bundle sample_args) (rt_mesh sample_router)
      = (rt_mesh sample_router, Inl UnknownPeer)"
    by (simp add: sendFrame_def device_of_def sample_router_def new_transport_def new_registry_def reg_list_def)
  from offline_failure_not_queued [OF _ _ this] show ?thesis
    by (simp add: sample_answers_def sample_router_def)
qed

text \<open>Note: No token, no radio: online with peers, when the token cannot be fetched and none is cached, the
  bundle goes nowhere: no frame is sent to any peer, nothing is queued.\<close>

theorem token_failure_blocks_radio:
  assumes "an_online a" and "rt_tokens r = []" and "\<forall>t. an_token a \<noteq> Issued t"
  shows "\<exists>e. routeOutgoing R a args cx r = (r, Inl (TokenError e))"
proof -
  have "r\<lparr>rt_tokens := []\<rparr> = r" using assms(2) by simp
  then show ?thesis using assms
    by (cases "an_token a") (auto simp: routeOutgoing_def getToken_def token_hit_def Let_def)
qed

theorem token_failure_blocks_radio_witness:
  "\<exists>e. routeOutgoing sample_prims (sample_answers\<lparr>an_online := True\<rparr>) sample_args sample_context sample_router
     = (sample_router, Inl (TokenError e))"
  by (rule token_failure_blocks_radio) (simp_all add: sample_answers_def sample_router_def)

text \<open>C21: At most once over the radio, across reloads as far as the filter was flushed. A subscription of
  onIncoming with a Bloom filter, over any number of page loads: whatever radio frames arrive in
  whatever order, within a session no two delivered frames carry the same message id, and a frame
  delivered before a session's flush is not delivered again, under its id, in any later session,
  where the filter is opened from the flushed row. Frames of the server stream are
  outside: onIncoming hands them to the handler unfiltered; and what a session delivers after its
  last flush may come again after a reload.\<close>

theorem inbound_delivers_once:
  assumes "0 < m" and "ds = page_sessions m k c mb None ss"
  shows "(\<forall>(d, e) \<in> set ds. distinct (map frame_msgId e))
    \<and> (\<forall>j < length ds. \<forall>i < j. frame_msgId ` set (fst (ds ! i)) \<inter> frame_msgId ` set (snd (ds ! j)) = {})"
proof -
  have "row_filters m k {} None" using assms(1) by (simp add: row_filters_def)
  from page_sessions_once [OF this assms(2)] show ?thesis by fastforce
qed

theorem inbound_delivers_once_witness:
  "frame_msgId ` set (fst (page_sessions 64 3 None None None [([(TxOk, TxOk, 1, replicate 60 0)], []),
       ([], [(TxOk, TxOk, 2, replicate 60 0), (TxOk, TxOk, 3, replicate 60 1)])] ! 0))
   \<inter> frame_msgId ` set (snd (page_sessions 64 3 None None None [([(TxOk, TxOk, 1, replicate 60 0)], []),
       ([], [(TxOk, TxOk, 2, replicate 60 0), (TxOk, TxOk, 3, replicate 60 1)])] ! 1)) = {}"
proof -
  let ?ds = "page_sessions 64 3 None None None [([(TxOk, TxOk, 1, replicate 60 0)], []),
       ([], [(TxOk, TxOk, 2, replicate 60 0), (TxOk, TxOk, 3, replicate 60 1)])]"
  have "length ?ds = 2" by (simp add: Let_def)
  then have "1 < length ?ds" "(0 :: nat) < 1" by simp_all
  moreover have "0 < (64 :: nat)" by simp
  ultimately show ?thesis using conjunct2 [OF inbound_delivers_once [OF \<open>0 < (64 :: nat)\<close> refl]] by blast
qed

text \<open>Note: Without the filter, exactly the first frame of each key is delivered: as long as no more distinct
  keys (channel hash and message id) arrive than the cache holds, the delivered frames are, in
  order, the first of every key.\<close>

theorem inbound_first_of_each:
  assumes "card ((frame_key \<circ> arrived) ` set fs) \<le> 5000"
  shows "in_delivered (receive_frames fs \<lparr>in_bloom = None, in_dedupe = new_dedupe None, in_inbox = mb,
      in_delivered = []\<rparr>) = first_by frame_key {} (map arrived fs)"
  using first_by_run [of "\<lparr>in_bloom = None, in_dedupe = new_dedupe None, in_inbox = mb,
      in_delivered = []\<rparr>" 5000 "[]" fs] assms
  by (simp add: new_dedupe_def last_keys_def)

theorem inbound_first_of_each_witness:
  "in_delivered (receive_frames [(TxOk, TxOk, 1, [1]), (TxOk, TxOk, 2, [2])]
     \<lparr>in_bloom = None, in_dedupe = new_dedupe None, in_inbox = None, in_delivered = []\<rparr>) = [[1]]"
proof -
  have "card ((frame_key \<circ> arrived) ` set [(TxOk, TxOk, 1 :: int, [1 :: byte]), (TxOk, TxOk, 2, [2])]) \<le> 5000"
    by (rule order.trans [OF card_image_le]) (simp_all add: card_insert_if)
  moreover have "frame_key [1] = frame_key [2]"
    by (simp add: frame_key_def frame_channel_def frame_msgId_def js_slice_def)
  ultimately show ?thesis
    using inbound_first_of_each [of "[(TxOk, TxOk, 1, [1]), (TxOk, TxOk, 2, [2])]" None]
    by (simp add: arrived_def)
qed

text \<open>Note: A frame is judged by twenty bytes of its header, before anything verifies it: once any frame, a
  forged one included, has been processed, every other frame with the same bytes 34 to 49 and
  55 to 58 is dropped without a trace.\<close>

theorem forged_frame_suppresses:
  assumes "js_slice 34 50 genuine = js_slice 34 50 bogus" and "js_slice 55 59 genuine = js_slice 55 59 bogus"
  shows "on_frame f1 f2 now genuine (on_frame g1 g2 now' bogus s) = on_frame g1 g2 now' bogus s"
proof -
  have eq: "frame_msgId genuine = frame_msgId bogus" "frame_channel genuine = frame_channel bogus"
    using assms by (simp_all add: frame_msgId_def frame_channel_def)
  show ?thesis
  proof (cases "on_frame g1 g2 now' bogus s = s")
    case True
    have "on_frame f1 f2 now genuine s = s"
    proof (rule ccontr)
      assume no: "on_frame f1 f2 now genuine s \<noteq> s"
      then have "in_delivered (on_frame g1 g2 now' bogus s) = in_delivered s @ [bogus]"
        using eq by (auto simp: on_frame_def Let_def split: if_splits)
      with True show False by simp
    qed
    then show ?thesis using True by simp
  next
    case False
    then have "dc_hasSeen (in_dedupe (on_frame g1 g2 now' bogus s)) (frame_channel genuine) (frame_msgId genuine)"
      using eq by (auto simp: on_frame_def Let_def dc_hasSeen_def dc_markSeen_def mark_key_def split: if_splits)
    then show ?thesis by (intro on_frame_skip) simp
  qed
qed

theorem forged_frame_suppresses_witness:
  "in_delivered (on_frame TxOk TxOk 2 (replicate 60 0) (on_frame TxOk TxOk 1 (replicate 60 0 @ [13])
     \<lparr>in_bloom = None, in_dedupe = new_dedupe None, in_inbox = None, in_delivered = []\<rparr>))
   = [replicate 60 0 @ [13]]"
proof -
  have "js_slice 34 50 (replicate 60 (0 :: byte)) = js_slice 34 50 (replicate 60 0 @ [13])"
    "js_slice 55 59 (replicate 60 (0 :: byte)) = js_slice 55 59 (replicate 60 0 @ [13])"
    by (simp_all add: js_slice_def)
  note same = this
  show ?thesis unfolding forged_frame_suppresses [OF same]
    by (simp add: on_frame_def new_dedupe_def dc_hasSeen_def)
qed

end
