(* ===== verification/Wrap.thy ===== *)
theory Wrap
  imports Prelude
begin

text \<open>
  The composers of mesh bundles: \<open>wrap.ts\<close> (a sealed envelope inside a bundle) and
  \<open>bundle-composer.ts\<close> (a channel bundle). The bundle codec of the package wire-codec and the
  hash and signature primitives are parameters; what the code relies on is \<open>codec_laws\<close>.
\<close>

section \<open>The codec\<close>

record bundle_fields =
  bf_sender :: bytes
  bf_msgId :: bytes
  bf_ts :: nat
  bf_ttl :: nat
  bf_channel :: bytes
  bf_body :: bytes
  bf_sig :: bytes

record codec =
  encodeMeshBundle :: "bundle_fields \<Rightarrow> bytes option"
  decodeMeshBundle :: "bytes \<Rightarrow> bundle_fields option"
  meshBundleSignedRange :: "bytes \<Rightarrow> bytes"

definition bundle_ok :: "bundle_fields \<Rightarrow> bool" where
  "bundle_ok f \<longleftrightarrow> length (bf_sender f) = 32 \<and> length (bf_msgId f) = 16 \<and> bf_ts f < 2 ^ 32
     \<and> bf_ttl f < 256 \<and> length (bf_channel f) = 4 \<and> length (bf_body f) \<le> 1500 \<and> length (bf_sig f) = 64"

text \<open>
  Well-formed bundles encode and decode back; the signed range, the bytes before the trailing
  signature, does not depend on the signature.
\<close>

definition codec_laws :: "codec \<Rightarrow> bool" where
  "codec_laws C \<longleftrightarrow>
     (\<forall>f. bundle_ok f \<longrightarrow> (\<exists>b. encodeMeshBundle C f = Some b \<and> decodeMeshBundle C b = Some f))
     \<and> (\<forall>f b sg b'. encodeMeshBundle C f = Some b \<longrightarrow> encodeMeshBundle C (f\<lparr>bf_sig := sg\<rparr>) = Some b' \<longrightarrow>
          meshBundleSignedRange C b' = meshBundleSignedRange C b)"

section \<open>The wrap\<close>

definition MESH_WRAP_MAGIC :: byte where "MESH_WRAP_MAGIC = 0xae"
definition MESH_WRAP_FLAG_SEALED_1TO1 :: byte where "MESH_WRAP_FLAG_SEALED_1TO1 = 0x01"
definition MESH_WRAP_BODY_HEADER_LEN :: nat where "MESH_WRAP_BODY_HEADER_LEN = 2"
definition SIG_LEN :: nat where "SIG_LEN = 64"

datatype wrap_error =
    BadRecipientKey | BadSenderKey | BadMsgId | BadSignatureLength | SignerThrew | CodecThrew
  | BodyTooShort | BadWrapMagic byte | BadPrivateKey

record wrap_args =
  wa_envelope :: bytes
  wa_recipient :: bytes
  wa_sender :: bytes
  wa_msgId :: bytes
  wa_ts :: nat
  wa_sealed :: bool

definition wrap_body :: "bool \<Rightarrow> bytes \<Rightarrow> bytes" where
  "wrap_body sealed envelope =
     [MESH_WRAP_MAGIC, if sealed then MESH_WRAP_FLAG_SEALED_1TO1 else 0x00] @ envelope"

text \<open>\<open>sign\<close> is the signer the caller supplies; \<open>None\<close> means that its promise rejects.\<close>

definition composeMeshWrap ::
  "codec \<Rightarrow> (bytes \<Rightarrow> bytes) \<Rightarrow> (bytes \<Rightarrow> bytes option) \<Rightarrow> wrap_args \<Rightarrow> wrap_error + bytes" where
  "composeMeshWrap C sha sign a =
     (if length (wa_recipient a) \<noteq> 32 then Inl BadRecipientKey
      else if length (wa_sender a) \<noteq> 32 then Inl BadSenderKey
      else if length (wa_msgId a) \<noteq> 16 then Inl BadMsgId
      else
        let f = \<lparr>bf_sender = wa_sender a, bf_msgId = wa_msgId a, bf_ts = wa_ts a, bf_ttl = 3,
                 bf_channel = js_slice 0 4 (sha (wa_recipient a)),
                 bf_body = wrap_body (wa_sealed a) (wa_envelope a), bf_sig = replicate SIG_LEN 0\<rparr> in
        (case encodeMeshBundle C f of None \<Rightarrow> Inl CodecThrew | Some draft \<Rightarrow>
         (case sign (meshBundleSignedRange C draft) of None \<Rightarrow> Inl SignerThrew | Some signature \<Rightarrow>
          if length signature \<noteq> SIG_LEN then Inl BadSignatureLength
          else (case encodeMeshBundle C (f\<lparr>bf_sig := signature\<rparr>) of
              None \<Rightarrow> Inl CodecThrew | Some b \<Rightarrow> Inr b))))"

record peeled =
  pw_envelope :: bytes
  pw_sender :: bytes
  pw_msgId :: bytes
  pw_channel :: bytes
  pw_sealed :: bool

definition peelMeshWrap :: "codec \<Rightarrow> bytes \<Rightarrow> wrap_error + peeled" where
  "peelMeshWrap C b =
     (case decodeMeshBundle C b of
        None \<Rightarrow> Inl CodecThrew
      | Some f \<Rightarrow>
          if length (bf_body f) < MESH_WRAP_BODY_HEADER_LEN then Inl BodyTooShort
          else if bf_body f ! 0 \<noteq> MESH_WRAP_MAGIC then Inl (BadWrapMagic (bf_body f ! 0))
          else Inr \<lparr>pw_envelope = drop MESH_WRAP_BODY_HEADER_LEN (bf_body f), pw_sender = bf_sender f,
                    pw_msgId = bf_msgId f, pw_channel = bf_channel f,
                    pw_sealed = (bf_body f ! 1 AND MESH_WRAP_FLAG_SEALED_1TO1 \<noteq> 0)\<rparr>)"

section \<open>The composer\<close>

definition ROOM_EPOCH_MS :: int where "ROOM_EPOCH_MS = 1767225600000"

text \<open>Sixteen random bytes with the version and the variant of a UUIDv4.\<close>

definition randomUuid16 :: "bytes \<Rightarrow> bytes" where
  "randomUuid16 bs = (bs[6 := bs ! 6 AND 0x0f OR 0x40])[8 := bs ! 8 AND 0x3f OR 0x80]"

text \<open>\<open>Math.floor\<close> of a quotient, then \<open>>>> 0\<close>: the low 32 bits.\<close>

definition tsSecOffset :: "int \<Rightarrow> nat" where
  "tsSecOffset now = unat (word_of_int ((now - ROOM_EPOCH_MS) div 1000) :: 32 word)"

record compose_args =
  ca_channel :: bytes
  ca_body :: bytes
  ca_key :: bytes
  ca_pubkey :: bytes
  ca_msgId :: "bytes option"

record compose_result =
  cr_bundle :: bytes
  cr_msgId :: bytes
  cr_channel :: bytes

definition composeBundle ::
  "codec \<Rightarrow> (bytes \<Rightarrow> bytes \<Rightarrow> bytes) \<Rightarrow> int \<Rightarrow> bytes \<Rightarrow> compose_args \<Rightarrow> wrap_error + compose_result" where
  "composeBundle C ed_sign now rnd a =
     (if length (ca_key a) \<noteq> 32 then Inl BadPrivateKey
      else if length (ca_pubkey a) \<noteq> 32 then Inl BadSenderKey
      else
        let m = (case ca_msgId a of None \<Rightarrow> randomUuid16 rnd | Some m \<Rightarrow> m);
            f = \<lparr>bf_sender = ca_pubkey a, bf_msgId = m, bf_ts = tsSecOffset now, bf_ttl = 3,
                 bf_channel = ca_channel a, bf_body = ca_body a, bf_sig = replicate 64 0\<rparr> in
        (case encodeMeshBundle C f of None \<Rightarrow> Inl CodecThrew | Some draft \<Rightarrow>
         (case encodeMeshBundle C (f\<lparr>bf_sig := ed_sign (meshBundleSignedRange C draft) (ca_key a)\<rparr>) of
            None \<Rightarrow> Inl CodecThrew
          | Some b \<Rightarrow> Inr \<lparr>cr_bundle = b, cr_msgId = m, cr_channel = ca_channel a\<rparr>)))"

section \<open>Signing over a placeholder\<close>

text \<open>
  The pattern both composers share: encode with a zero signature, sign its range, encode again.
  The signature that ends up in the bundle is one of the bundle's own signed range.
\<close>

lemma codec_encodes: "codec_laws C \<Longrightarrow> bundle_ok f \<Longrightarrow> \<exists>b. encodeMeshBundle C f = Some b"
  by (auto simp: codec_laws_def)

lemma sign_over_placeholder:
  assumes C: "codec_laws C" and ok: "bundle_ok (f\<lparr>bf_sig := sg\<rparr>)" and z: "bf_sig f = replicate 64 0"
  obtains u b where "encodeMeshBundle C f = Some u" "encodeMeshBundle C (f\<lparr>bf_sig := sg\<rparr>) = Some b"
    "decodeMeshBundle C b = Some (f\<lparr>bf_sig := sg\<rparr>)" "meshBundleSignedRange C b = meshBundleSignedRange C u"
proof -
  have "bundle_ok f" using ok z by (simp add: bundle_ok_def)
  then obtain u where u: "encodeMeshBundle C f = Some u" using C by (auto simp: codec_laws_def)
  obtain b where b: "encodeMeshBundle C (f\<lparr>bf_sig := sg\<rparr>) = Some b"
    "decodeMeshBundle C b = Some (f\<lparr>bf_sig := sg\<rparr>)"
    using C ok unfolding codec_laws_def by blast
  have "meshBundleSignedRange C b = meshBundleSignedRange C u"
    using C u b(1) unfolding codec_laws_def by blast
  with u b show thesis by (rule that)
qed

lemma length_uuid [simp]: "length (randomUuid16 bs) = length bs"
  by (simp add: randomUuid16_def)

lemma tsSecOffset_less: "tsSecOffset now < 2 ^ 32"
  using unsigned_less [where ?'a = nat and w = "word_of_int ((now - ROOM_EPOCH_MS) div 1000) :: 32 word"]
  by (simp add: tsSecOffset_def)

lemma tsSecOffset_value: "tsSecOffset now = nat ((now - ROOM_EPOCH_MS) div 1000 mod 2 ^ 32)"
  by (simp add: tsSecOffset_def unat_eq_nat_uint uint_word_of_int)

section \<open>Properties\<close>

lemma wrapped_peels:
  assumes "codec_laws C" and "length (wa_recipient a) = 32" and "length (wa_sender a) = 32"
    and "length (wa_msgId a) = 16" and "wa_ts a < 2 ^ 32" and "length (wa_envelope a) \<le> 1498"
    and "4 \<le> length (sha (wa_recipient a))" and "\<forall>x. \<exists>s. sign x = Some s \<and> length s = 64"
  shows "\<exists>b f. composeMeshWrap C sha sign a = Inr b
    \<and> peelMeshWrap C b = Inr \<lparr>pw_envelope = wa_envelope a, pw_sender = wa_sender a, pw_msgId = wa_msgId a,
        pw_channel = take 4 (sha (wa_recipient a)), pw_sealed = wa_sealed a\<rparr>
    \<and> decodeMeshBundle C b = Some f \<and> sign (meshBundleSignedRange C b) = Some (bf_sig f)"
proof -
  let ?f = "\<lparr>bf_sender = wa_sender a, bf_msgId = wa_msgId a, bf_ts = wa_ts a, bf_ttl = 3,
      bf_channel = js_slice 0 4 (sha (wa_recipient a)),
      bf_body = wrap_body (wa_sealed a) (wa_envelope a), bf_sig = replicate SIG_LEN 0\<rparr>"
  obtain u where u: "encodeMeshBundle C ?f = Some u"
    using codec_encodes [OF assms(1), of ?f] assms(2-7)
    by (auto simp: bundle_ok_def wrap_body_def SIG_LEN_def length_js_slice)
  obtain sg where sg: "sign (meshBundleSignedRange C u) = Some sg" "length sg = 64" using assms(8) by blast
  have ok: "bundle_ok (?f\<lparr>bf_sig := sg\<rparr>)" and z: "bf_sig ?f = replicate 64 0"
    using assms(2-7) sg(2) by (simp_all add: bundle_ok_def wrap_body_def length_js_slice SIG_LEN_def)
  obtain b where b: "encodeMeshBundle C (?f\<lparr>bf_sig := sg\<rparr>) = Some b"
    "decodeMeshBundle C b = Some (?f\<lparr>bf_sig := sg\<rparr>)"
    "meshBundleSignedRange C b = meshBundleSignedRange C u"
    using sign_over_placeholder [OF assms(1) ok z] u by (metis option.inject)
  have "composeMeshWrap C sha sign a = Inr b"
    using assms(2-4) u sg b(1) by (simp add: composeMeshWrap_def Let_def SIG_LEN_def)
  moreover have "(1 :: byte) AND 1 = 1" "(0 :: byte) AND 1 = 0" by simp_all
  then have "peelMeshWrap C b = Inr \<lparr>pw_envelope = wa_envelope a, pw_sender = wa_sender a,
      pw_msgId = wa_msgId a, pw_channel = take 4 (sha (wa_recipient a)), pw_sealed = wa_sealed a\<rparr>"
    using b(2) by (simp add: peelMeshWrap_def wrap_body_def MESH_WRAP_BODY_HEADER_LEN_def
        MESH_WRAP_FLAG_SEALED_1TO1_def js_slice_def)
  ultimately show ?thesis using b sg(1) by auto
qed

text \<open>Note: What is wrapped can be peeled and is signed: for keys and ids of the right sizes, an envelope of
  at most 1498 bytes and a signer that answers 64 bytes, composeMeshWrap makes a bundle from
  which peelMeshWrap recovers the envelope, the sender, the message id, the sealed flag and the
  first four bytes of the recipient's hash, and whose signature is the signer's answer on the
  signed range of this very bundle.\<close>

theorem wrap_roundtrip:
  assumes "codec_laws C" and "length (wa_recipient a) = 32" and "length (wa_sender a) = 32"
    and "length (wa_msgId a) = 16" and "wa_ts a < 2 ^ 32" and "length (wa_envelope a) \<le> 1498"
    and "4 \<le> length (sha (wa_recipient a))" and "\<forall>x. \<exists>s. sign x = Some s \<and> length s = 64"
  shows "\<exists>b f. composeMeshWrap C sha sign a = Inr b
    \<and> peelMeshWrap C b = Inr \<lparr>pw_envelope = wa_envelope a, pw_sender = wa_sender a, pw_msgId = wa_msgId a,
        pw_channel = take 4 (sha (wa_recipient a)), pw_sealed = wa_sealed a\<rparr>
    \<and> decodeMeshBundle C b = Some f \<and> sign (meshBundleSignedRange C b) = Some (bf_sig f)"
  by (rule wrapped_peels [where sha = sha, OF assms])

text \<open>Note: A composed bundle is well signed and stamped: with a 4-byte channel and a body of at most 1500
  bytes, composeBundle yields a bundle whose signature is the Ed25519 signature of its signed
  range, whose fields are those given, with the seconds since the epoch (modulo 2 to the 32,
  so a clock before the epoch gives a time far in the future); a generated message id has the
  version and variant bits of a UUIDv4.\<close>

theorem bundle_signed:
  assumes "codec_laws C" and "length (ca_key a) = 32" and "length (ca_pubkey a) = 32"
    and "length (ca_channel a) = 4" and "length (ca_body a) \<le> 1500" and "length rnd = 16"
    and "ca_msgId a = None" and "\<forall>m k. length (ed_sign m k) = 64"
  shows "\<exists>r f. composeBundle C ed_sign now rnd a = Inr r \<and> decodeMeshBundle C (cr_bundle r) = Some f
    \<and> bf_sig f = ed_sign (meshBundleSignedRange C (cr_bundle r)) (ca_key a)
    \<and> bf_sender f = ca_pubkey a \<and> bf_channel f = ca_channel a \<and> bf_body f = ca_body a
    \<and> bf_msgId f = cr_msgId r \<and> int (bf_ts f) = (now - ROOM_EPOCH_MS) div 1000 mod 2 ^ 32
    \<and> drop_bit 4 (cr_msgId r ! 6) = 4 \<and> drop_bit 6 (cr_msgId r ! 8) = 2"
proof -
  let ?f = "\<lparr>bf_sender = ca_pubkey a, bf_msgId = randomUuid16 rnd, bf_ts = tsSecOffset now, bf_ttl = 3,
      bf_channel = ca_channel a, bf_body = ca_body a, bf_sig = replicate 64 0\<rparr>"
  obtain u where u: "encodeMeshBundle C ?f = Some u"
    using codec_encodes [OF assms(1), of ?f] assms(2-6) tsSecOffset_less [of now]
    by (auto simp: bundle_ok_def)
  let ?sg = "ed_sign (meshBundleSignedRange C u) (ca_key a)"
  have ok: "bundle_ok (?f\<lparr>bf_sig := ?sg\<rparr>)" and z: "bf_sig ?f = replicate 64 0"
    using assms(2-6,8) tsSecOffset_less [of now] by (simp_all add: bundle_ok_def)
  obtain b where b: "encodeMeshBundle C (?f\<lparr>bf_sig := ?sg\<rparr>) = Some b"
    "decodeMeshBundle C b = Some (?f\<lparr>bf_sig := ?sg\<rparr>)"
    "meshBundleSignedRange C b = meshBundleSignedRange C u"
    using sign_over_placeholder [OF assms(1) ok z] u by (metis option.inject)
  have "composeBundle C ed_sign now rnd a =
      Inr \<lparr>cr_bundle = b, cr_msgId = randomUuid16 rnd, cr_channel = ca_channel a\<rparr>"
    using assms(2,3,7) u b(1) by (simp add: composeBundle_def Let_def)
  moreover have "drop_bit 4 (x AND 0x0f OR 0x40 :: byte) = 4" "drop_bit 6 (x AND 0x3f OR 0x80 :: byte) = 2" for x
    by (rule bit_word_eqI; auto simp: bit_simps)+
  then have "drop_bit 4 (randomUuid16 rnd ! 6) = 4" "drop_bit 6 (randomUuid16 rnd ! 8) = 2"
    using assms(6) by (simp_all add: randomUuid16_def)
  ultimately show ?thesis using b by (simp add: tsSecOffset_value)
qed


text \<open>A concrete codec, for the witnesses: fields of fixed width, one after the other.\<close>

definition sample_prefix :: "bundle_fields \<Rightarrow> bytes" where
  "sample_prefix f = bf_sender f @ bf_msgId f @ map (\<lambda>i. of_nat (bf_ts f div 256 ^ i)) [3, 2, 1, 0]
     @ [of_nat (bf_ttl f)] @ bf_channel f @ bf_body f"

definition sample_codec :: codec where
  "sample_codec =
     \<lparr>encodeMeshBundle = (\<lambda>f. if bundle_ok f then Some (sample_prefix f @ bf_sig f) else None),
      decodeMeshBundle = (\<lambda>b. let n = length b - 121 in
        Some \<lparr>bf_sender = take 32 b, bf_msgId = take 16 (drop 32 b),
          bf_ts = foldl (\<lambda>v x. 256 * v + unat x) 0 (take 4 (drop 48 b)), bf_ttl = unat (b ! 52),
          bf_channel = take 4 (drop 53 b), bf_body = take n (drop 57 b), bf_sig = drop (57 + n) b\<rparr>),
      meshBundleSignedRange = (\<lambda>b. take (length b - 64) b)\<rparr>"

lemma ts_bytes:
  assumes "t < 2 ^ 32"
  shows "foldl (\<lambda>v x. 256 * v + unat x) 0 (map (\<lambda>i. of_nat (t div 256 ^ i)) [3, 2, 1, 0 :: nat] :: bytes) = t"
proof -
  define a b c where "a = t div 256" and "b = a div 256" and "c = b div 256"
  have "t div 65536 = b" "t div 16777216 = c" by (simp_all add: a_def b_def c_def div_mult2_eq [symmetric])
  moreover have "c < 256" using assms by (simp add: c_def b_def a_def div_mult2_eq [symmetric] less_mult_imp_div_less)
  moreover have "256 * (t div 256) + t mod 256 = t" "256 * (a div 256) + a mod 256 = a"
    "256 * (b div 256) + b mod 256 = b" by simp_all
  ultimately show ?thesis
    by (simp add: unat_of_nat a_def [symmetric] b_def [symmetric] c_def [symmetric])
qed

lemma drop_five: "drop (5 + n) (x # xs) = drop (4 + n) xs"
  by (simp add: numeral_eq_Suc)

lemma sample_decodes:
  assumes "bundle_ok f"
  shows "decodeMeshBundle sample_codec (sample_prefix f @ bf_sig f) = Some f"
proof -
  have "length (bf_sender f) = 32" "length (bf_msgId f) = 16" "length (bf_channel f) = 4"
    "length (bf_sig f) = 64" and t: "bf_ts f < 2 ^ 32" and "unat (of_nat (bf_ttl f) :: byte) = bf_ttl f"
    using assms by (simp_all add: bundle_ok_def unat_of_nat)
  with ts_bytes [OF t] show ?thesis
    by (cases f) (simp add: sample_codec_def sample_prefix_def Let_def nth_append drop_five del: list.map)
qed

lemma sample_codec_laws: "codec_laws sample_codec"
proof -
  have [simp]: "sample_prefix (f\<lparr>bf_sig := sg\<rparr>) = sample_prefix f" for f sg
    by (simp add: sample_prefix_def)
  show ?thesis
    using sample_decodes
    by (auto simp: codec_laws_def) (auto simp: sample_codec_def bundle_ok_def split: if_splits)
qed

theorem wrap_roundtrip_witness:
  "\<exists>b. composeMeshWrap sample_codec (\<lambda>x. x) (\<lambda>x. Some (replicate 64 7))
      \<lparr>wa_envelope = [1, 2, 3], wa_recipient = replicate 32 4, wa_sender = replicate 32 5,
       wa_msgId = replicate 16 6, wa_ts = 99, wa_sealed = True\<rparr> = Inr b"
  using wrap_roundtrip [OF sample_codec_laws, of "\<lparr>wa_envelope = [1, 2, 3], wa_recipient = replicate 32 4,
      wa_sender = replicate 32 5, wa_msgId = replicate 16 6, wa_ts = 99, wa_sealed = True\<rparr>" "\<lambda>x. x"
      "\<lambda>x. Some (replicate 64 7)"] by auto

theorem bundle_signed_witness:
  "\<exists>r. composeBundle sample_codec (\<lambda>m k. replicate 64 7) 0 (replicate 16 1)
      \<lparr>ca_channel = [1, 2, 3, 4], ca_body = [9], ca_key = replicate 32 1, ca_pubkey = replicate 32 2,
       ca_msgId = None\<rparr> = Inr r \<and> drop_bit 4 (cr_msgId r ! 6) = 4"
  using bundle_signed [OF sample_codec_laws, of "\<lparr>ca_channel = [1, 2, 3, 4], ca_body = [9],
      ca_key = replicate 32 1, ca_pubkey = replicate 32 2, ca_msgId = None\<rparr>" "replicate 16 1"
      "\<lambda>m k. replicate 64 7" 0] by auto

end
