(* ===== verification/Mesh_Message.thy ===== *)
theory Mesh_Message
  imports Mesh_Contact Router Wrap
begin

text \<open>
  One message through all layers, offline: an envelope is wrapped and signed (\<open>wrap.ts\<close>), routed to
  the radio (\<open>router.ts\<close>), encrypted, cut into chunks and written (\<open>transport.ts\<close>), reassembled and
  decrypted on the other device, passed through the duplicate filters of its router, and peeled.
\<close>

section \<open>The path\<close>

text \<open>The sender routes; its write loop runs to the end; the chunks reach the other device in the given order.\<close>

definition route_over_air ::
  "world \<Rightarrow> world \<Rightarrow> route_answers \<Rightarrow> route_args \<Rightarrow> route_context \<Rightarrow> string \<Rightarrow> nat list \<Rightarrow> router \<times> transport
     \<Rightarrow> (route_result \<times> router \<times> transport) option" where
  "route_over_air W V an args cx dev order rb = (case rb of (r, b) \<Rightarrow>
     (case routeOutgoing (w_ratchet W) an args cx r of
        (r', Inl e) \<Rightarrow> None
      | (r', Inr res) \<Rightarrow>
          let m = (resume_last W ^^ Suc (length (chunks_left (last (tasks (rt_mesh r')))))) (rt_mesh r');
              cs = map snd (drop (length (written (rt_mesh r))) (written m)) in
          if delivery_order (length cs) order
          then Some (res, r'\<lparr>rt_mesh := m\<rparr>, resume_last V (receive_chunks V dev (map ((!) cs) order) b)) else None))"

text \<open>What the transport has newly handed to the router's handler goes through it.\<close>

definition router_hears :: "(tx_end \<times> tx_end \<times> int) \<Rightarrow> transport \<Rightarrow> transport \<Rightarrow> inbound \<Rightarrow> inbound" where
  "router_hears io b b' s = (case io of (f1, f2, now) \<Rightarrow>
     receive_frames (map (\<lambda>x. (f1, f2, now, snd x)) (drop (length (handed b)) (handed b'))) s)"

text \<open>Neither filter has seen the frame.\<close>

definition unseen :: "bytes \<Rightarrow> inbound \<Rightarrow> bool" where
  "unseen frame s \<longleftrightarrow> (case in_bloom s of None \<Rightarrow> True | Some b \<Rightarrow> bloom_hasSeen b (frame_msgId frame) = Some False)
     \<and> \<not> dc_hasSeen (in_dedupe s) (frame_channel frame) (frame_msgId frame)"

lemma unseen_delivered: "unseen f s \<Longrightarrow> in_delivered (on_frame f1 f2 now f s) = in_delivered s @ [f]"
  by (simp add: unseen_def on_frame_def Let_def split: option.splits)

lemma heard_once:
  assumes "unseen f s"
  shows "on_frame g1 g2 now' f (on_frame f1 f2 now f s) = on_frame f1 f2 now f s"
proof (rule on_frame_skip)
  have "dc_hasSeen (dc_markSeen d ch m) ch m" for d ch m by (simp add: dc_hasSeen_def dc_markSeen_def mark_key_def)
  moreover have "in_dedupe (on_frame f1 f2 now f s) = dc_markSeen (in_dedupe s) (frame_channel f) (frame_msgId f)"
    using assms by (simp add: unseen_def on_frame_def Let_def split: option.splits)
  ultimately show "(case in_bloom (on_frame f1 f2 now f s) of None \<Rightarrow> False | Some b \<Rightarrow> bloom_hasSeen b (frame_msgId f) = Some True)
     \<or> dc_hasSeen (in_dedupe (on_frame f1 f2 now f s)) (frame_channel f) (frame_msgId f)" by simp
qed

text \<open>With one peer in reach and nobody online the router does what \<open>transmit\<close> does.\<close>

lemma route_transmits:
  assumes "\<not> an_online an" and "peers (rt_mesh r) = [p]" and "\<not> an_lost an (idHex p)"
    and "transmit W V (idHex p) dev (ra_bundle args, order) (rt_mesh r, b) = Some (m, b')"
  shows "\<exists>res. route_over_air W V an args cx dev order (r, b) = Some (res, r\<lparr>rt_mesh := m\<rparr>, b') \<and> rr_strategy res = BleOnly"
proof -
  obtain st u where s: "sendFrame (w_ratchet W) (idHex p) (ra_bundle args) (rt_mesh r) = (st, Inr u)"
    using assms(4) by (auto simp: transmit_def send_fully_def split: option.splits prod.splits sum.splits)
  have "sendToBle (w_ratchet W) (ra_bundle args) (an_lost an) (peers (rt_mesh r)) (rt_mesh r) = (st, [])"
    using s assms(2,3) by (simp add: sendToBle_def)
  then have "routeOutgoing (w_ratchet W) an args cx r
      = (r\<lparr>rt_mesh := st\<rparr>, Inr \<lparr>rr_strategy = BleOnly, rr_bridge = None, rr_bleError = None\<rparr>)"
    using assms(1,2) by (simp add: routeOutgoing_def Let_def)
  then show ?thesis using assms(4) s
    by (auto simp: route_over_air_def transmit_def send_fully_def Let_def split: if_splits)
qed

section \<open>The message theorem\<close>

text \<open>C5: A message crosses the mesh: what composeMeshWrap makes of an envelope, routed offline to a single
  accepted peer, is sent by radio only, and when its chunks have arrived, in any order, the other
  side's router delivers exactly this bundle if its filters have not seen it, and nothing the second
  time; from the delivered bundle peelMeshWrap gives back the envelope, the sender's key, the
  message id and the sealed flag.\<close>

theorem message_crosses_mesh:
  assumes "codec_laws C" and "length (wa_recipient w) = 32" and "length (wa_sender w) = 32"
    and "length (wa_msgId w) = 16" and "wa_ts w < 2 ^ 32" and "length (wa_envelope w) \<le> 1498"
    and "4 \<le> length (sha (wa_recipient w))" and "\<forall>x. \<exists>s. sign x = Some s \<and> length s = 64"
    and "composeMeshWrap C sha sign w = Inr (ra_bundle args)"
    and "\<not> an_online an" and "peers (rt_mesh r) = [p]" and "\<not> an_lost an (idHex p)"
    and "gcm_laws (w_ratchet W)" and "w_ratchet V = w_ratchet W"
    and "newRatchetSession (w_ratchet W) k1 k2 d = Inr s" and "newRatchetSession (w_ratchet W) k2 k1 (other_direction d) = Inr s'"
    and "link_out (rt_mesh r) (idHex p) ra s" and "device_of (idHex p) (rt_mesh r) = Some to"
    and "link_in b dev rb s'" and "frameHandlers b = 1"
    and "5 \<le> mtu_of (rt_mesh r) to" and "mtu_of (rt_mesh r) to \<le> 259" and "sendable (mtu_of (rt_mesh r) to) (ra_bundle args, order)"
    and "unseen (ra_bundle args) inb"
  shows "\<exists>res r' b'. route_over_air W V an args cx dev order (r, b) = Some (res, r', b') \<and> rr_strategy res = BleOnly
    \<and> in_delivered (router_hears io b b' inb) = in_delivered inb @ [ra_bundle args]
    \<and> on_frame g1 g2 later (ra_bundle args) (router_hears io b b' inb) = router_hears io b b' inb
    \<and> peelMeshWrap C (ra_bundle args) = Inr \<lparr>pw_envelope = wa_envelope w, pw_sender = wa_sender w, pw_msgId = wa_msgId w,
        pw_channel = take 4 (sha (wa_recipient w)), pw_sealed = wa_sealed w\<rparr>"
proof -
  let ?f = "ra_bundle args"
  obtain m b' where t: "transmit W V (idHex p) dev (?f, order) (rt_mesh r, b) = Some (m, b')"
    using transmit_succeeds [OF assms(13,17,18) refl assms(21-23), of V dev b] by blast
  have "handed b' = handed b @ [(cs_peerIdHex (heap b ! rb), ?f)]"
    using conversation_run [OF assms(13-17,19), of "[(?f, order)]" m b'] t assms(20) by simp
  moreover obtain f1 f2 now where "io = (f1, f2, now)" by (cases io)
  ultimately have "router_hears io b b' inb = on_frame f1 f2 now ?f inb" by (simp add: router_hears_def)
  then have "in_delivered (router_hears io b b' inb) = in_delivered inb @ [?f]"
    "on_frame g1 g2 later ?f (router_hears io b b' inb) = router_hears io b b' inb"
    using unseen_delivered [OF assms(24)] heard_once [OF assms(24)] by simp_all
  moreover have "peelMeshWrap C ?f = Inr \<lparr>pw_envelope = wa_envelope w, pw_sender = wa_sender w, pw_msgId = wa_msgId w,
        pw_channel = take 4 (sha (wa_recipient w)), pw_sealed = wa_sealed w\<rparr>"
    using wrapped_peels [where sha = sha, OF assms(1-8)] assms(9) by auto
  ultimately show ?thesis using route_transmits [OF assms(10-12) t, of cx] by blast
qed

text \<open>A concrete run, on the link of \<open>Mesh_Link\<close> with its MTU of 23.\<close>

definition sample_wrap :: wrap_args where
  "sample_wrap = \<lparr>wa_envelope = [1, 2, 3], wa_recipient = replicate 32 4, wa_sender = replicate 32 5,
     wa_msgId = replicate 16 6, wa_ts = 99, wa_sealed = True\<rparr>"

definition sample_message :: route_args where
  "sample_message = \<lparr>ra_bundle = projr (composeMeshWrap sample_codec (\<lambda>x. x) (\<lambda>x. Some (replicate 64 7)) sample_wrap),
     ra_msgId = ''m'', ra_channelId = [4, 4, 4, 4]\<rparr>"

definition sample_offline :: router where
  "sample_offline = \<lparr>rt_mesh = sample_sender\<lparr>peers := [\<lparr>p_id = [7], idHex = ''q'', mac = ''dev'', lastSeen = 0, p_rssi = None\<rparr>]\<rparr>,
     rt_tokens = [], rt_outbox = \<lparr>mb_open = True, maxEntries = 3, mb_store = []\<rparr>\<rparr>"

definition sample_inbound :: inbound where
  "sample_inbound = \<lparr>in_bloom = None, in_dedupe = new_dedupe None, in_inbox = None, in_delivered = []\<rparr>"

lemma sample_message_bundle:
  "composeMeshWrap sample_codec (\<lambda>x. x) (\<lambda>x. Some (replicate 64 7)) sample_wrap = Inr (ra_bundle sample_message)"
  "length (ra_bundle sample_message) = 126"
  by (simp_all add: sample_message_def sample_wrap_def composeMeshWrap_def Let_def SIG_LEN_def sample_codec_def bundle_ok_def
    sample_prefix_def wrap_body_def js_slice_def)

lemma message_crosses_mesh_witness:
  "\<exists>res r' b'. route_over_air sample_world sample_world sample_answers sample_message sample_context ''dev'' [7, 0, 1, 2, 3, 4, 5, 6]
      (sample_offline, sample_receiver) = Some (res, r', b')
    \<and> in_delivered (router_hears (TxOk, TxOk, 0) sample_receiver b' sample_inbound) = [ra_bundle sample_message]"
proof -
  have r: "newRatchetSession sample_prims (replicate 32 2) (replicate 32 1) (other_direction Initiator) = Inr (sample_session 2 1 Responder)"
    using sample_session by (simp add: other_direction_def)
  have W: "w_ratchet sample_world = sample_prims" by (simp add: sample_world_def)
  let ?p = "\<lparr>p_id = [7], idHex = ''q'', mac = ''dev'', lastSeen = 0, p_rssi = None\<rparr>"
  let ?a = "rt_mesh sample_offline"
  have d: "device_of ''q'' ?a = Some ''dev''" "mtu_of ?a ''dev'' = 23"
    using sample_link(1,3) by (simp_all add: sample_offline_def device_of_def mtu_of_def)
  have l: "link_out ?a ''q'' 0 (sample_session 1 2 Initiator)"
    using sample_link(2,4-6) d by (simp add: link_out_def sample_offline_def)
  have "delivery_order 8 [7, 0, 1, 2, 3, 4, 5, 6]" by code_simp
  then have s: "sendable 23 (ra_bundle sample_message, [7, 0, 1, 2, 3, 4, 5, 6])"
    by (simp add: sendable_def sample_message_bundle chunk_count_def ceil_div_def FRAME_HEADER_LEN_def)
  have u: "unseen (ra_bundle sample_message) sample_inbound"
    by (simp add: unseen_def sample_inbound_def dc_hasSeen_def new_dedupe_def)
  have "\<exists>res r' b'. route_over_air sample_world sample_world sample_answers sample_message sample_context ''dev'' [7, 0, 1, 2, 3, 4, 5, 6]
      (sample_offline, sample_receiver) = Some (res, r', b') \<and> rr_strategy res = BleOnly
    \<and> in_delivered (router_hears (TxOk, TxOk, 0) sample_receiver b' sample_inbound) = in_delivered sample_inbound @ [ra_bundle sample_message]
    \<and> on_frame TxOk TxOk 1 (ra_bundle sample_message) (router_hears (TxOk, TxOk, 0) sample_receiver b' sample_inbound)
        = router_hears (TxOk, TxOk, 0) sample_receiver b' sample_inbound
    \<and> peelMeshWrap sample_codec (ra_bundle sample_message) = Inr \<lparr>pw_envelope = wa_envelope sample_wrap, pw_sender = wa_sender sample_wrap,
        pw_msgId = wa_msgId sample_wrap, pw_channel = take 4 (wa_recipient sample_wrap), pw_sealed = wa_sealed sample_wrap\<rparr>"
    by (rule message_crosses_mesh [where p = ?p and W = sample_world and V = sample_world and sha = "\<lambda>x. x" and sign = "\<lambda>x. Some (replicate 64 7)"
          and C = sample_codec and to = "''dev''" and ra = 0 and rb = 0 and w = sample_wrap, unfolded W,
          OF sample_codec_laws _ _ _ _ _ _ _ sample_message_bundle(1) _ _ _ sample_gcm_laws refl sample_session r _ _ sample_link(8)])
      (use l d s u in \<open>simp_all add: sample_wrap_def sample_answers_def sample_offline_def sample_link\<close>)
  then show ?thesis by (auto simp: sample_inbound_def)
qed

end
