(* ===== verification/Chunk_Loss.thy ===== *)
theory Chunk_Loss
  imports Mesh_Link
begin

text \<open>
  What becomes of a link when a chunk is lost. \<open>writeRx\<close> writes without response, so the sender does
  not learn of it, and the \<open>FrameReassembler\<close> of \<open>frame.ts\<close> has no frame number: the chunks of the next
  frame are taken for the missing ones. The reassembler is followed chunk by chunk, with the reset
  that \<open>handleIncomingChunk\<close> (\<open>transport.ts\<close>) does on an error, against an abstract view of it.
\<close>

section \<open>The line\<close>

text \<open>The reassembler's part of \<open>handleIncomingChunk\<close>: an error starts afresh.\<close>

definition line_chunk :: "reassembler \<Rightarrow> bytes \<Rightarrow> reassembler \<times> reassembled_frame list" where
  "line_chunk r c = (case pushWithType r c of
      (r', Inl e) \<Rightarrow> (new_reassembler, [])
    | (r', Inr None) \<Rightarrow> (r', [])
    | (r', Inr (Some f)) \<Rightarrow> (r', [f]))"

fun line :: "reassembler \<Rightarrow> bytes list \<Rightarrow> reassembler \<times> reassembled_frame list" where
  "line r [] = (r, [])"
| "line r (c # cs) = (let (r1, fs) = line_chunk r c; (r2, gs) = line r1 cs in (r2, fs @ gs))"

lemma line_of_transport:
  "handleIncomingChunk P R d d' now dev c st =
     (let (r', fs) = line_chunk (half_read st dev) c;
          st' = st\<lparr>reassemblers := jm_set dev r' (reassemblers st)\<rparr> in
      case fs of
        [] \<Rightarrow> st'
      | f # _ \<Rightarrow>
          if rf_type f = SessionData then session_frame R dev (rf_payload f) st'
          else (case jm_get (cryptoStates st) dev of
              None \<Rightarrow> responder_begin dev (rf_type f) (rf_payload f) st'
            | Some ref \<Rightarrow> advanceHandshake P R d d' now ref dev (rf_type f) (rf_payload f) st'))"
  by (auto simp: handleIncomingChunk_def line_chunk_def half_read_def [symmetric] Let_def
      split: prod.split sum.split option.split)

lemma session_frame_reassemblers: "reassemblers (session_frame R dev p st) = reassemblers st"
  by (simp add: session_frame_def spawn_def modify_cs_def decrypt_failed_def set_error_def Let_def split: option.split prod.split sum.split)

text \<open>The transport's reassembler for a device follows the line, for as long as what comes out is session data.\<close>

lemma transport_follows_line:
  "\<forall>f \<in> set (snd (line (half_read st dev) cs)). rf_type f = SessionData \<Longrightarrow>
     half_read (receive_chunks W dev cs st) dev = fst (line (half_read st dev) cs)"
proof (induction cs arbitrary: st)
  case (Cons c cs)
  obtain r1 fs where r1: "line_chunk (half_read st dev) c = (r1, fs)" by fastforce
  let ?st1 = "mesh_event W no_draws no_draws 0 (Chunk dev c) st"
  have "\<forall>f \<in> set fs. rf_type f = SessionData" using Cons.prems r1 by (auto split: prod.splits)
  then have "reassemblers ?st1 = jm_set dev r1 (reassemblers st)"
    by (cases fs) (simp_all add: mesh_event_def line_of_transport r1 session_frame_reassemblers)
  then have h: "half_read ?st1 dev = r1" by (simp add: half_read_def jsmap)
  have "\<forall>f \<in> set (snd (line (half_read ?st1 dev) cs)). rf_type f = SessionData"
    using Cons.prems r1 unfolding h by (auto split: prod.splits)
  from Cons.IH [OF this] show ?case using r1 by (simp add: receive_chunks_def h split: prod.split)
qed (simp add: receive_chunks_def)

lemma line_append: "line r (xs @ ys) = (let (r1, fs) = line r xs; (r2, gs) = line r1 ys in (r2, fs @ gs))"
  by (induction xs arbitrary: r) (auto simp: Let_def split: prod.splits)

lemma line_quiet: "push_all r cs = (r', replicate (length cs) (Inr None)) \<Longrightarrow> line r cs = (r', [])"
  by (induction cs arbitrary: r) (auto simp: line_chunk_def Let_def split: prod.splits)

section \<open>Frames put together from two\<close>

definition nchunks :: "nat \<Rightarrow> bytes \<Rightarrow> nat" where
  "nchunks d p = ceil_div (length p) d"

definition chunks_of :: "nat \<Rightarrow> bytes \<Rightarrow> bytes list" where
  "chunks_of d p = map (mk_chunk p d (nchunks d p) SessionData) [0..<nchunks d p]"

definition fits :: "nat \<Rightarrow> bytes \<Rightarrow> bool" where
  "fits d p \<longleftrightarrow> p \<noteq> [] \<and> nchunks d p \<le> 16"

text \<open>The chunks in \<open>S\<close> from one payload, the others from another.\<close>

definition splice :: "nat \<Rightarrow> nat set \<Rightarrow> bytes \<Rightarrow> bytes \<Rightarrow> bytes" where
  "splice d S p q = concat (map (\<lambda>i. chunk_part (if i \<in> S then p else q) d i) [0..<nchunks d p])"

lemma chunkFrame_chunks:
  assumes "chunkFrame p mtu SessionData = Inr cs" and "mtu \<le> 259"
  shows "cs = chunks_of (nat (mtu - 4)) p \<and> fits (nat (mtu - 4)) p \<and> 0 < nat (mtu - 4) \<and> nat (mtu - 4) < 256"
  using assms by (auto simp: chunkFrame_def chunks_of_def nchunks_def fits_def Let_def FRAME_HEADER_LEN_def
      ceil_div_def split: if_splits)

lemma nchunks_pos: "p \<noteq> [] \<Longrightarrow> 0 < d \<Longrightarrow> 0 < nchunks d p"
  by (cases p) (simp_all add: nchunks_def ceil_div_def div_greater_zero_iff)

lemma slice_concat:
  assumes "\<forall>i. Suc i < length xs \<longrightarrow> length (xs ! i) = d" and "\<forall>x \<in> set xs. length x \<le> d" and "i < length xs"
  shows "js_slice (i * d) (min (i * d + d) (length (concat xs))) (concat xs) = xs ! i"
  using assms
proof (induction xs arbitrary: i)
  case (Cons x xs)
  have tl: "\<forall>i. Suc i < length xs \<longrightarrow> length (xs ! i) = d"
  proof (intro allI impI)
    fix j assume "Suc j < length xs"
    then show "length (xs ! j) = d" using Cons.prems(1) [rule_format, of "Suc j"] by simp
  qed
  show ?case
  proof (cases i)
    case 0
    show ?thesis
    proof (cases xs)
      case Nil
      then show ?thesis using 0 Cons.prems(2) by (simp add: js_slice_def)
    next
      case (Cons y ys)
      then have "length x = d" using Cons.prems(1) [rule_format, of 0] by simp
      then show ?thesis using 0 by (simp add: js_slice_def)
    qed
  next
    case (Suc j)
    then have "length x = d" using Cons.prems(1) [rule_format, of 0] Cons.prems(3) by (cases xs) simp_all
    moreover have "js_slice (j * d) (min (j * d + d) (length (concat xs))) (concat xs) = xs ! j"
      using Cons.IH [OF tl, of j] Cons.prems(2,3) Suc by simp
    ultimately show ?thesis using Suc by (simp add: js_slice_def min_def add.commute split: if_splits)
  qed
qed simp

lemma length_part: "0 < d \<Longrightarrow> i < nchunks d p \<Longrightarrow> length (chunk_part p d i) = min d (length p - i * d)"
  using ceil_div_tight [of d i "length p"] by (auto simp: length_js_slice nchunks_def min_def)

lemma length_part_inner:
  assumes "0 < d" and "Suc i < nchunks d p"
  shows "length (chunk_part p d i) = d"
proof -
  have "Suc i * d < length p" using assms ceil_div_tight [of d "Suc i" "length p"] by (simp add: nchunks_def)
  then show ?thesis using length_part [of d i p] assms by simp
qed

lemma splice_parts:
  assumes "0 < d" and "nchunks d p = nchunks d q" and "i < nchunks d p"
  shows "chunk_part (splice d S p q) d i = chunk_part (if i \<in> S then p else q) d i"
proof -
  let ?xs = "map (\<lambda>i. chunk_part (if i \<in> S then p else q) d i) [0..<nchunks d p]"
  have "\<forall>i. Suc i < length ?xs \<longrightarrow> length (?xs ! i) = d"
    using length_part_inner [OF assms(1)] assms(2) by simp
  moreover have "\<forall>x \<in> set ?xs. length x \<le> d" using length_chunk_part by auto
  moreover have "i < length ?xs" using assms(3) by simp
  ultimately have "js_slice (i * d) (min (i * d + d) (length (concat ?xs))) (concat ?xs) = ?xs ! i"
    by (rule slice_concat)
  then show ?thesis using assms(3) by (simp add: splice_def)
qed

lemma length_splice:
  assumes "0 < d" and "nchunks d p = nchunks d q" and "0 < nchunks d p"
  shows "length (splice d S p q) = length (if nchunks d p - 1 \<in> S then p else q)"
proof -
  obtain n where n: "nchunks d p = Suc n" using assms(3) by (cases "nchunks d p") auto
  have inner: "length (chunk_part (if i \<in> S then p else q) d i) = d" if "i < n" for i
    using length_part_inner [OF assms(1), of i] assms(2) n that by simp
  have "map (\<lambda>i. length (chunk_part (if i \<in> S then p else q) d i)) [0..<n] = replicate n d"
    by (rule nth_equalityI) (simp_all add: inner)
  then have "length (concat (map (\<lambda>i. chunk_part (if i \<in> S then p else q) d i) [0..<n])) = n * d"
    by (simp add: length_concat o_def sum_list_replicate)
  then have l: "length (splice d S p q) = n * d + length (chunk_part (if n \<in> S then p else q) d n)"
    by (simp add: splice_def n)
  have "length (chunk_part x d n) = length x - n * d \<and> n * d < length x" if "nchunks d x = Suc n" for x
  proof -
    have "length x \<le> Suc n * d" "n * d < length x"
      using ceil_div_covers [OF assms(1), of "length x"] ceil_div_tight [OF assms(1), of n "length x"] that
      by (simp_all add: nchunks_def)
    then show ?thesis using length_part [OF assms(1), of n x] that by simp
  qed
  then show ?thesis using l n assms(2) by (simp split: if_splits) (metis le_add_diff_inverse less_imp_le)+
qed

section \<open>The abstract view\<close>

text \<open>
  A line is in step, or the chunks \<open>S\<close> of a payload \<open>p\<close> have been taken in without the rest. Hearing
  the chunks of a whole payload then gives a frame put together from both, or nothing.
\<close>

definition hear :: "nat \<Rightarrow> bytes \<Rightarrow> bytes \<times> nat set \<Rightarrow> (bytes \<times> nat set) \<times> bytes list" where
  "hear d q v = (case v of (p, S) \<Rightarrow>
     if S = {} then ((q, {}), [q])
     else if nchunks d p = nchunks d q
     then ((q, {Suc (Max ({..<nchunks d p} - S))..<nchunks d q}), [splice d S p q])
     else ((q, {1..<nchunks d q}), []))"

fun hear_all :: "nat \<Rightarrow> bytes list \<Rightarrow> bytes \<times> nat set \<Rightarrow> (bytes \<times> nat set) \<times> bytes list" where
  "hear_all d [] v = (v, [])"
| "hear_all d (q # qs) v = (let (v1, fs) = hear d q v; (v2, gs) = hear_all d qs v1 in (v2, fs @ gs))"

definition as_frame :: "bytes \<Rightarrow> reassembled_frame" where
  "as_frame p = \<lparr>rf_type = SessionData, rf_payload = p\<rparr>"

definition viewed :: "nat \<Rightarrow> bytes \<times> nat set \<Rightarrow> reassembler \<Rightarrow> bool" where
  "viewed d v r \<longleftrightarrow> (case v of (p, S) \<Rightarrow>
     fits d p \<and> S \<subset> {..<nchunks d p} \<and> ready p d (nchunks d p) SessionData S r)"

lemma session_nibble: "unat SessionData < 16" by (simp add: SessionData_def)

lemma mk_chunk_cong: "chunk_part p d i = chunk_part q d i \<Longrightarrow> mk_chunk p d n ft i = mk_chunk q d n ft i"
  by (simp add: mk_chunk_def)

lemma push_known_any:
  assumes "n \<le> 16" "d < 256" "ready p d n SessionData S r" "i < n" "i \<in> S"
  shows "pushWithType r (mk_chunk q d n SessionData i) = (r, Inr None)"
proof -
  have "S \<noteq> {}" "0 < n" using assms by auto
  then obtain r0 where "accept_header r SessionData n = Inr r0" "holds p d n SessionData S r0" "r0 = r"
    using accept_ready [OF assms(3)] by metis
  then show ?thesis using assms session_nibble by (simp add: push_mk_chunk store_known)
qed

text \<open>Chunks of a payload that agrees with the one being collected wherever that is still open.\<close>

lemma push_all_mixed:
  assumes "n \<le> 16" "d < 256" "ready p d n SessionData S r" "S0 \<subseteq> S"
    and agree: "\<And>i. i < n \<Longrightarrow> i \<notin> S0 \<Longrightarrow> chunk_part q d i = chunk_part p d i"
    and "set js \<subseteq> {..<n}" "k < n" "k \<notin> S" "k \<notin> set js"
  obtains r' where "push_all r (map (mk_chunk q d n SessionData) js) = (r', replicate (length js) (Inr None))"
    "ready p d n SessionData (S \<union> set js) r'"
  using assms(3,4,6-)
proof (induction js arbitrary: S r thesis)
  case Nil
  then show ?case by simp
next
  case (Cons j js)
  have j: "j < n" using Cons.prems by auto
  obtain r1 where r1: "pushWithType r (mk_chunk q d n SessionData j) = (r1, Inr None)"
    "ready p d n SessionData (insert j S) r1"
  proof (cases "j \<in> S")
    case True
    show thesis
      by (rule that [of r]) (use True push_known_any [OF assms(1,2) Cons.prems(2) j True] Cons.prems(2) in \<open>auto simp: insert_absorb\<close>)
  next
    case False
    then have e: "mk_chunk q d n SessionData j = mk_chunk p d n SessionData j"
      using agree [OF j] Cons.prems(3) by (intro mk_chunk_cong) auto
    have "set [j] \<subseteq> {..<n}" "k \<notin> set [j]" using j Cons.prems by auto
    then obtain r1 where "push_all r (map (mk_chunk p d n SessionData) [j]) = (r1, replicate (length [j]) (Inr None))"
      "ready p d n SessionData (S \<union> set [j]) r1"
      using push_all_partial [OF session_nibble assms(1,2) Cons.prems(2), of "[j]" k] Cons.prems by metis
    then show thesis using e by (intro that [of r1]) (auto split: prod.splits)
  qed
  obtain r' where "push_all r1 (map (mk_chunk q d n SessionData) js) = (r', replicate (length js) (Inr None))"
    "ready p d n SessionData (insert j S \<union> set js) r'"
    using Cons.IH [where S = "insert j S" and r = r1] r1(2) Cons.prems by auto
  then show ?case using r1(1) by (intro Cons.prems(1) [of r']) (auto split: prod.splits)
qed

lemma ready_cong:
  assumes "\<And>i. i \<in> S \<Longrightarrow> chunk_part p d i = chunk_part q d i"
  shows "ready p d n ft S r = ready q d n ft S r"
  using assms by (auto simp: ready_def holds_def)

text \<open>A whole payload on a line in step.\<close>

lemma line_in_step:
  assumes "fits d q" "0 < d" "d < 256"
  shows "line new_reassembler (chunks_of d q) = (new_reassembler, [as_frame q])"
proof -
  obtain n where n: "nchunks d q = Suc n" using assms nchunks_pos [of q d] by (cases "nchunks d q") (auto simp: fits_def)
  have r: "ready q d (Suc n) SessionData {} new_reassembler" by (simp add: ready_def)
  have js: "set [0..<n] \<subseteq> {..<Suc n}" "n \<notin> set [0..<n]" by auto
  obtain r1 where r1: "push_all new_reassembler (map (mk_chunk q d (Suc n) SessionData) [0..<n])
      = (r1, replicate (length [0..<n]) (Inr None))" "ready q d (Suc n) SessionData ({} \<union> set [0..<n]) r1"
    using push_all_partial [OF session_nibble _ assms(3) r js(1) _ _ js(2)] assms(1) n by (auto simp: fits_def)
  have "pushWithType r1 (mk_chunk q d (Suc n) SessionData n) = (new_reassembler, Inr (Some \<lparr>rf_type = SessionData, rf_payload = q\<rparr>))"
    by (rule push_final [OF session_nibble _ assms(3) r1(2)])
      (use assms n concat_all_parts [OF assms(2), of q] in \<open>auto simp: fits_def nchunks_def\<close>)
  then show ?thesis using line_quiet [of new_reassembler "map (mk_chunk q d (Suc n) SessionData) [0..<n]" r1] r1(1)
    by (simp add: chunks_of_def n line_append line_chunk_def as_frame_def)
qed

lemma upper_proper:
  assumes "0 < k" "0 < n"
  shows "{k..<n} \<subset> {..<n :: nat}"
proof (rule psubsetI)
  have "0 \<in> {..<n}" "0 \<notin> {k..<n}" using assms by simp_all
  then show "{k..<n} \<noteq> {..<n}" by blast
qed auto

text \<open>A payload of as many chunks as the one that is open: the first missing ones complete it, the rest stays.\<close>

lemma line_same:
  assumes "viewed d (p, S) r" "S \<noteq> {}" "fits d q" "0 < d" "d < 256" "nchunks d p = nchunks d q"
    and "m = Max ({..<nchunks d p} - S)"
  shows "\<exists>r'. line r (chunks_of d q) = (r', [as_frame (splice d S p q)]) \<and> viewed d (q, {Suc m..<nchunks d q}) r'"
proof -
  define n where "n = nchunks d q"
  let ?s = "splice d S p q" and ?c = "mk_chunk q d n SessionData"
  have v: "fits d p" "S \<subset> {..<n}" "ready p d n SessionData S r" using assms(1,6) by (auto simp: viewed_def n_def)
  have n16: "n \<le> 16" "0 < n" using assms(3,4) nchunks_pos by (auto simp: fits_def n_def)
  have part: "chunk_part ?s d i = chunk_part (if i \<in> S then p else q) d i" if "i < n" for i
    using splice_parts [OF assms(4,6), of i S] that assms(6) by (simp add: n_def)
  have ns: "nchunks d ?s = n" using length_splice [OF assms(4,6), of S] n16(2) assms(6) by (simp add: nchunks_def n_def split: if_splits)
  have m: "m \<in> {..<n} - S" unfolding assms(7) assms(6) n_def [symmetric] by (rule Max_in) (use v(2) in auto)
  have top: "i \<le> m" if "i \<in> {..<n} - S" for i
    unfolding assms(7) assms(6) n_def [symmetric] by (rule Max_ge [OF _ that]) simp
  have above: "i \<in> S" if "i < n" "m < i" for i
    using top [of i] that by (cases "i \<in> S") simp_all
  have rs: "ready ?s d n SessionData S r" using v(3) part v(2) by (subst ready_cong [where q = p]) auto
  obtain r1 where r1: "push_all r (map ?c [0..<m]) = (r1, replicate (length [0..<m]) (Inr None))"
    "ready ?s d n SessionData (S \<union> set [0..<m]) r1"
    by (rule push_all_mixed [OF n16(1) assms(5) rs order_refl, where q = q and js = "[0..<m]" and k = m]) (use part m in auto)
  have cov: "concat (map (chunk_part ?s d) [0..<n]) = ?s" using concat_all_parts [OF assms(4), of ?s] ns by (simp add: nchunks_def)
  have "pushWithType r1 (mk_chunk ?s d n SessionData m) = (new_reassembler, Inr (Some \<lparr>rf_type = SessionData, rf_payload = ?s\<rparr>))"
    by (rule push_final [OF session_nibble n16(1) assms(5) r1(2) _ _ _ cov]) (use m above v(2) in auto)
  moreover have "mk_chunk ?s d n SessionData m = ?c m" using part [of m] m by (intro mk_chunk_cong) simp
  ultimately have mid: "pushWithType r1 (?c m) = (new_reassembler, Inr (Some (as_frame ?s)))" by (simp add: as_frame_def)
  have rq: "ready q d n SessionData {} new_reassembler" by (simp add: ready_def)
  obtain r2 where r2: "push_all new_reassembler (map ?c [Suc m..<n]) = (r2, replicate (length [Suc m..<n]) (Inr None))"
    "ready q d n SessionData ({} \<union> set [Suc m..<n]) r2"
    by (rule push_all_partial [OF session_nibble n16(1) assms(5) rq, where js = "[Suc m..<n]" and i = m]) (use m in auto)
  have "[0..<n] = [0..<m] @ m # [Suc m..<n]" using upt_add_eq_append [of 0 m "n - m"] upt_conv_Cons [of m n] m by simp
  then have "chunks_of d q = map ?c [0..<m] @ ?c m # map ?c [Suc m..<n]" by (simp add: chunks_of_def n_def)
  moreover have "line r (map ?c [0..<m]) = (r1, [])" "line new_reassembler (map ?c [Suc m..<n]) = (r2, [])"
    using r1(1) r2(1) by (auto intro: line_quiet)
  ultimately have "line r (chunks_of d q) = (r2, [as_frame ?s])" using mid by (simp add: line_append line_chunk_def)
  moreover have "ready q d n SessionData {Suc m..<n} r2" using r2(2) by (simp only: set_upt Un_empty_left)
  then have "viewed d (q, {Suc m..<n}) r2" using assms(3) upper_proper [of "Suc m" n] n16(2) by (simp add: viewed_def n_def)
  ultimately show ?thesis by (auto simp: n_def)
qed

text \<open>A payload of another number of chunks: its first chunk is the error that resets the line, and is lost.\<close>

lemma line_other:
  assumes "viewed d (p, S) r" "S \<noteq> {}" "fits d q" "0 < d" "d < 256" "nchunks d p \<noteq> nchunks d q"
  shows "\<exists>r'. line r (chunks_of d q) = (r', []) \<and> viewed d (q, {1..<nchunks d q}) r'"
proof -
  define n where "n = nchunks d q"
  let ?c = "mk_chunk q d n SessionData"
  have n16: "n \<le> 16" "0 < n" using assms(3,4) nchunks_pos by (auto simp: fits_def n_def)
  have "holds p d (nchunks d p) SessionData S r" "0 < nchunks d p"
    using assms(1,2) by (auto simp: viewed_def ready_def)
  then have "accept_header r SessionData n = Inl TotalMismatch" using assms(6) by (simp add: accept_header_def holds_def n_def)
  then have e: "line_chunk r (?c 0) = (new_reassembler, [])"
    using n16 assms(5) by (simp add: line_chunk_def push_mk_chunk [OF session_nibble])
  have rq: "ready q d n SessionData {} new_reassembler" by (simp add: ready_def)
  obtain r2 where r2: "push_all new_reassembler (map ?c [1..<n]) = (r2, replicate (length [1..<n]) (Inr None))"
    "ready q d n SessionData ({} \<union> set [1..<n]) r2"
    by (rule push_all_partial [OF session_nibble n16(1) assms(5) rq, where js = "[1..<n]" and i = 0]) (use n16 in auto)
  have "line new_reassembler (map ?c [1..<n]) = (r2, [])" using r2(1) by (auto intro: line_quiet)
  moreover have "chunks_of d q = ?c 0 # map ?c [1..<n]" using n16(2) by (simp add: chunks_of_def n_def upt_conv_Cons)
  ultimately have "line r (chunks_of d q) = (r2, [])" using e by simp
  moreover have "ready q d n SessionData {1..<n} r2" using r2(2) by (simp only: set_upt Un_empty_left)
  then have "viewed d (q, {1..<n}) r2" using assms(3) upper_proper [of 1 n] n16(2) by (simp add: viewed_def n_def)
  ultimately show ?thesis by (auto simp: n_def)
qed

lemma hear_line:
  assumes "viewed d v r" "fits d q" "0 < d" "d < 256"
  shows "\<exists>r'. line r (chunks_of d q) = (r', map as_frame (snd (hear d q v))) \<and> viewed d (fst (hear d q v)) r'"
proof -
  obtain p S where v: "v = (p, S)" by fastforce
  show ?thesis
  proof (cases "S = {}")
    case True
    have "{} \<subset> {..<nchunks d q}" using assms(2,3) nchunks_pos [of q d] by (auto simp: fits_def)
    then have "viewed d (q, {}) new_reassembler" using assms(2) by (simp add: viewed_def ready_def)
    moreover have "r = new_reassembler" using assms(1) True by (simp add: v viewed_def ready_def)
    ultimately show ?thesis using line_in_step [OF assms(2-4)] True by (simp add: v hear_def)
  next
    case False
    note l = assms(1) [unfolded v] False assms(2-4)
    show ?thesis using line_same [OF l _ refl] line_other [OF l] False
      by (cases "nchunks d p = nchunks d q") (simp_all add: v hear_def)
  qed
qed

lemma hear_all_line:
  "viewed d v r \<Longrightarrow> \<forall>q \<in> set qs. fits d q \<Longrightarrow> 0 < d \<Longrightarrow> d < 256 \<Longrightarrow>
     \<exists>r'. line r (concat (map (chunks_of d) qs)) = (r', map as_frame (snd (hear_all d qs v))) \<and> viewed d (fst (hear_all d qs v)) r'"
proof (induction qs arbitrary: v r)
  case (Cons q qs)
  obtain v1 fs where h: "hear d q v = (v1, fs)" by fastforce
  obtain r1 where r1: "line r (chunks_of d q) = (r1, map as_frame fs)" "viewed d v1 r1"
    using hear_line [of d v r q] Cons.prems h by auto
  obtain r2 where "line r1 (concat (map (chunks_of d) qs)) = (r2, map as_frame (snd (hear_all d qs v1)))"
    "viewed d (fst (hear_all d qs v1)) r2"
    using Cons.IH [OF r1(2)] Cons.prems by auto
  then show ?case using r1(1) h by (auto simp: line_append split: prod.split)
qed simp

section \<open>Out of step\<close>

text \<open>The last chunk has been taken in and another one is missing.\<close>

definition off_step :: "nat \<Rightarrow> bytes \<times> nat set \<Rightarrow> bool" where
  "off_step d v \<longleftrightarrow> (case v of (p, S) \<Rightarrow> S \<subset> {..<nchunks d p} \<and> nchunks d p - 1 \<in> S)"

definition no_common_chunk :: "nat \<Rightarrow> bytes list \<Rightarrow> bool" where
  "no_common_chunk d ps \<longleftrightarrow> distinct ps
     \<and> (\<forall>a \<in> set ps. \<forall>b \<in> set ps. a \<noteq> b \<longrightarrow> set (chunks_of d a) \<inter> set (chunks_of d b) = {})"

lemma hear_off:
  assumes "off_step d (p, S)" and "2 \<le> nchunks d q"
  shows "off_step d (fst (hear d q (p, S)))"
    and "fst (fst (hear d q (p, S))) = q"
    and "f \<in> set (snd (hear d q (p, S))) \<Longrightarrow> nchunks d p = nchunks d q \<and> f = splice d S p q"
proof -
  have S: "S \<noteq> {}" "S \<subset> {..<nchunks d p}" "nchunks d p - 1 \<in> S" using assms(1) by (auto simp: off_step_def)
  show "fst (fst (hear d q (p, S))) = q" by (simp add: hear_def)
  show "f \<in> set (snd (hear d q (p, S))) \<Longrightarrow> nchunks d p = nchunks d q \<and> f = splice d S p q"
    using S(1) by (simp add: hear_def split: if_splits)
  have "Max ({..<nchunks d p} - S) \<in> {..<nchunks d p} - S" by (rule Max_in) (use S(2) in auto)
  then have "Max ({..<nchunks d p} - S) < nchunks d p - 1"
    using S(3) by (metis Diff_iff Suc_pred' less_Suc_eq lessThan_iff less_zeroE neq0_conv)
  then show "off_step d (fst (hear d q (p, S)))"
    using S(1) upper_proper [of "Suc (Max ({..<nchunks d p} - S))" "nchunks d q"] upper_proper [of 1 "nchunks d q"] assms(2)
    by (cases "nchunks d p = nchunks d q") (simp_all add: hear_def off_step_def)
qed

text \<open>A frame put together from two is neither of them, nor any other that shares no chunk with them.\<close>

lemma splice_foreign:
  assumes "no_common_chunk d ps" "a \<in> set ps" "b \<in> set ps" "a \<noteq> b" "off_step d (a, S)" "nchunks d a = nchunks d b" "0 < d"
  shows "splice d S a b \<notin> set ps"
proof
  let ?s = "splice d S a b" and ?n = "nchunks d a"
  assume s: "?s \<in> set ps"
  obtain m where m: "m < ?n" "m \<notin> S" and l: "?n - 1 \<in> S" using assms(5) by (auto simp: off_step_def)
  have n: "nchunks d ?s = ?n"
    using length_splice [OF assms(7,6), of S] m(1) l by (simp add: nchunks_def)
  have same: "?s = x" if "x \<in> set ps" "i < ?n" "nchunks d x = ?n" "chunk_part ?s d i = chunk_part x d i" for x i
  proof (rule ccontr)
    assume "?s \<noteq> x"
    then have "set (chunks_of d ?s) \<inter> set (chunks_of d x) = {}" using assms(1) s that(1) by (simp add: no_common_chunk_def)
    moreover have "mk_chunk ?s d ?n SessionData i \<in> set (chunks_of d ?s)" using that(2) n by (simp add: chunks_of_def)
    moreover have "mk_chunk ?s d ?n SessionData i \<in> set (chunks_of d x)"
      using that mk_chunk_cong [OF that(4), of ?n SessionData] by (simp add: chunks_of_def)
    ultimately show False by blast
  qed
  have "?s = a" by (rule same [of a "?n - 1"]) (use splice_parts [OF assms(7,6), of "?n - 1" S] m(1) l assms(2) in auto)
  moreover have "?s = b" by (rule same [of b m]) (use splice_parts [OF assms(7,6), of m S] m assms(3,6) in auto)
  ultimately show False using assms(4) by simp
qed

lemma hear_all_off:
  assumes "off_step d (p, S)" "\<forall>q \<in> set qs. 2 \<le> nchunks d q" "no_common_chunk d ps" "set (p # qs) \<subseteq> set ps" "distinct (p # qs)" "0 < d"
  shows "off_step d (fst (hear_all d qs (p, S))) \<and> set (snd (hear_all d qs (p, S))) \<inter> set ps = {}"
  using assms(1,2,4,5)
proof (induction qs arbitrary: p S)
  case (Cons q qs)
  obtain S' fs where h: "hear d q (p, S) = ((q, S'), fs)"
    using hear_off(2) [OF Cons.prems(1), of q] Cons.prems(2) by (metis list.set_intros(1) prod.collapse)
  have q: "2 \<le> nchunks d q" using Cons.prems(2) by simp
  have "f \<notin> set ps" if "f \<in> set fs" for f
    using hear_off(3) [OF Cons.prems(1) q, of f] h that
      splice_foreign [OF assms(3), of p q S] Cons.prems assms(6) by auto
  moreover have "off_step d (q, S')" using hear_off(1) [OF Cons.prems(1) q] h by simp
  ultimately show ?case using Cons.IH [of q S'] Cons.prems h by (auto simp: Let_def split: prod.split)
qed simp

text \<open>So a line out of step hands over nothing that was sent, as long as every frame has two chunks or more.\<close>

lemma off_line:
  assumes "viewed d (p, S) r" "nchunks d p - 1 \<in> S" "no_common_chunk d ps" "set (p # qs) \<subseteq> set ps" "distinct (p # qs)"
    and "\<forall>q \<in> set qs. fits d q \<and> 2 \<le> nchunks d q" "0 < d" "d < 256"
    and "line r (concat (map (chunks_of d) qs)) = (r', fs)"
  shows "r' \<noteq> new_reassembler \<and> rf_payload ` set fs \<inter> set ps = {} \<and> (\<forall>f \<in> set fs. rf_type f = SessionData)"
proof -
  have "off_step d (p, S)" using assms(1,2) by (auto simp: off_step_def viewed_def)
  then have h: "off_step d (fst (hear_all d qs (p, S)))" "set (snd (hear_all d qs (p, S))) \<inter> set ps = {}"
    using hear_all_off [OF _ _ assms(3-5,7)] assms(6) by blast+
  have l: "fs = map as_frame (snd (hear_all d qs (p, S)))" "viewed d (fst (hear_all d qs (p, S))) r'"
    using hear_all_line [OF assms(1) _ assms(7,8), of qs] assms(6,9) by auto
  have "rf_payload ` set fs = set (snd (hear_all d qs (p, S)))" by (auto simp: l(1) as_frame_def image_comp)
  moreover have "r' \<noteq> new_reassembler"
    using l(2) h(1) by (auto simp: viewed_def off_step_def ready_def holds_def new_reassembler_def split: prod.splits)
  moreover have "\<forall>f \<in> set fs. rf_type f = SessionData" by (auto simp: l(1) as_frame_def)
  ultimately show ?thesis using h(2) by simp
qed

section \<open>Two frames at once\<close>

text \<open>
  \<open>sendFrame\<close> awaits each of its own writes, but nothing keeps two calls apart: their write loops take
  turns. The loop that has waited longer goes on.
\<close>

definition resume_other :: "world \<Rightarrow> transport \<Rightarrow> transport" where
  "resume_other W st = mesh_event W no_draws no_draws 0 (Resume (length (tasks st) - 2) True None) st"

fun alternate :: "'a list \<Rightarrow> 'a list \<Rightarrow> 'a list" where
  "alternate (a # as) (b # bs) = a # b # alternate as bs"
| "alternate [] bs = bs"
| "alternate as [] = as"

lemma resume_other_data:
  "resume_other W (st\<lparr>tasks := ts @ [SendData dev (c # cs), t]\<rparr>)
     = st\<lparr>tasks := ts @ [t, SendData dev cs], written := written st @ [(dev, c)]\<rparr>"
  by (simp add: resume_other_def mesh_event_def take_task_def resume_task_def spawn_def nth_append)

lemma alternate_writes:
  "length as = length bs \<Longrightarrow>
   (resume_other W ^^ (2 * length as)) (st\<lparr>tasks := ts @ [SendData dev as, SendData dev bs]\<rparr>)
     = st\<lparr>tasks := ts @ [SendData dev [], SendData dev []], written := written st @ map (Pair dev) (alternate as bs)\<rparr>"
proof (induction as bs arbitrary: st rule: list_induct2)
  case (Cons a as b bs)
  have "2 * length (a # as) = Suc (Suc (2 * length as))" by simp
  then have "(resume_other W ^^ (2 * length (a # as))) (st\<lparr>tasks := ts @ [SendData dev (a # as), SendData dev (b # bs)]\<rparr>)
      = (resume_other W ^^ (2 * length as)) (resume_other W (resume_other W
          (st\<lparr>tasks := ts @ [SendData dev (a # as), SendData dev (b # bs)]\<rparr>)))"
    by (simp only: funpow_Suc_right comp_apply)
  also have "resume_other W (st\<lparr>tasks := ts @ [SendData dev (a # as), SendData dev (b # bs)]\<rparr>)
      = (st\<lparr>written := written st @ [(dev, a)]\<rparr>)\<lparr>tasks := ts @ [SendData dev (b # bs), SendData dev as]\<rparr>"
    by (simp add: resume_other_data)
  also have "resume_other W \<dots> = (st\<lparr>written := written st @ [(dev, a), (dev, b)]\<rparr>)\<lparr>tasks := ts @ [SendData dev as, SendData dev bs]\<rparr>"
    by (subst resume_other_data) simp
  finally show ?case unfolding Cons.IH by simp
qed simp

lemma sendFrame_spawns:
  assumes "device_of hex st = Some dev" "jm_get (cryptoStates st) dev = Some ref" "cs_session (heap st ! ref) = Some s"
    and "sendFrame P hex f st = (st', Inr u)"
  shows "\<exists>cs. chunkFrame (snd (encrypt P s f [])) (mtu_of st dev) SessionData = Inr cs
    \<and> st' = (modify_cs ref (cs_session_update (\<lambda>_. Some (fst (encrypt P s f [])))) st)\<lparr>tasks := tasks st @ [SendData dev cs]\<rparr>"
  using assms
  by (auto simp: sendFrame_def Let_def case_prod_beta spawn_def mtu_of_def modify_cs_def split: if_splits sum.splits)

lemma alternate_maps: "alternate (map f xs) (map g xs) = concat (map (\<lambda>i. [f i, g i]) xs)"
  by (induction xs) simp_all

text \<open>The first frame arrives, and the last chunk of the second is taken for the first of a new one.\<close>

lemma line_alternate:
  assumes "fits d p" "fits d q" "nchunks d p = n" "nchunks d q = n" "2 \<le> n" "0 < d" "d < 256"
  shows "\<exists>r. line new_reassembler (alternate (chunks_of d p) (chunks_of d q)) = (r, [as_frame p]) \<and> viewed d (q, {n - 1}) r"
proof -
  let ?a = "mk_chunk p d n SessionData" and ?b = "mk_chunk q d n SessionData"
  have n16: "n \<le> 16" using assms by (simp add: fits_def)
  have "\<exists>r. line new_reassembler (concat (map (\<lambda>i. [?a i, ?b i]) [0..<k])) = (r, []) \<and> ready p d n SessionData {..<k} r"
    if "k < n" for k
    using that
  proof (induction k)
    case (Suc k)
    then obtain r where r: "line new_reassembler (concat (map (\<lambda>i. [?a i, ?b i]) [0..<k])) = (r, [])"
      "ready p d n SessionData {..<k} r" by auto
    obtain r1 where r1: "push_all r (map ?a [k]) = (r1, replicate (length [k]) (Inr None))"
      "ready p d n SessionData ({..<k} \<union> set [k]) r1"
      by (rule push_all_partial [OF session_nibble n16 assms(7) r(2), where js = "[k]" and i = "Suc k"]) (use Suc.prems in auto)
    have r1': "ready p d n SessionData {..<Suc k} r1" using r1(2) by (simp add: lessThan_Suc)
    have "pushWithType r1 (?b k) = (r1, Inr None)" by (rule push_known_any [OF n16 assms(7) r1']) (use Suc.prems in auto)
    then show ?case using r(1) r1(1) r1' by (auto simp: line_append line_chunk_def split: prod.splits)
  qed (simp add: ready_def)
  from this [of "n - 1"] obtain r where r: "line new_reassembler (concat (map (\<lambda>i. [?a i, ?b i]) [0..<n - 1])) = (r, [])"
    "ready p d n SessionData {..<n - 1} r" using assms(5) by auto
  have e: "pushWithType r (?a (n - 1)) = (new_reassembler, Inr (Some (as_frame p)))"
    unfolding as_frame_def
    by (rule push_final [OF session_nibble n16 assms(7) r(2)])
      (use assms concat_all_parts [OF assms(6), of p] in \<open>auto simp: nchunks_def\<close>)
  have rq: "ready q d n SessionData {} new_reassembler" by (simp add: ready_def)
  obtain r2 where r2: "push_all new_reassembler (map ?b [n - 1]) = (r2, replicate (length [n - 1]) (Inr None))"
    "ready q d n SessionData ({} \<union> set [n - 1]) r2"
    by (rule push_all_partial [OF session_nibble n16 assms(7) rq, where js = "[n - 1]" and i = 0]) (use assms(5) in auto)
  have n: "[0..<n] = [0..<n - 1] @ [n - 1]" using assms(5) by (cases n) simp_all
  have "alternate (chunks_of d p) (chunks_of d q) = concat (map (\<lambda>i. [?a i, ?b i]) [0..<n])"
    by (simp add: chunks_of_def assms(3,4) alternate_maps)
  then have "alternate (chunks_of d p) (chunks_of d q)
      = concat (map (\<lambda>i. [?a i, ?b i]) [0..<n - 1]) @ [?a (n - 1), ?b (n - 1)]"
    by (subst (asm) n) simp
  then have "line new_reassembler (alternate (chunks_of d p) (chunks_of d q)) = (r2, [as_frame p])"
    using r(1) e r2(1) by (auto simp: line_append line_chunk_def split: prod.splits)
  moreover have "ready q d n SessionData {n - 1} r2" using r2(2) by simp
  moreover have "{n - 1} \<subset> {..<n}" using upper_proper [of "n - 1" n] assms(5) by (cases n) auto
  ultimately show ?thesis using assms by (auto simp: viewed_def)
qed

section \<open>Properties\<close>

text \<open>The chunks of frames sent one after the other.\<close>

lemma sent_chunks:
  assumes "map (\<lambda>q. chunkFrame q mtu SessionData) qs = map Inr css" and "mtu \<le> 259"
  shows "css = map (chunks_of (nat (mtu - 4))) qs \<and> (\<forall>q \<in> set qs. fits (nat (mtu - 4)) q)"
  using assms
proof (induction qs arbitrary: css)
  case (Cons q qs)
  then obtain c cs where c: "css = c # cs" "chunkFrame q mtu SessionData = Inr c"
    "map (\<lambda>q. chunkFrame q mtu SessionData) qs = map Inr cs" by (cases css) auto
  then show ?case using Cons.IH [OF c(3) Cons.prems(2)] chunkFrame_chunks [OF c(2) Cons.prems(2)] by simp
qed simp

text \<open>C30: What a line delivers: from any state in which the chunks \<open>S\<close> of a payload have been taken in, hearing
  all chunks of further frames in order gives exactly what the abstract line says: the frame itself when
  the line is in step, otherwise a frame put together from two successive ones when their numbers of
  chunks agree, and nothing when they do not.\<close>

theorem line_refines_hear:
  assumes "viewed (nat (mtu - 4)) v r" and "4 < mtu" and "mtu \<le> 259"
    and "map (\<lambda>q. chunkFrame q mtu SessionData) qs = map Inr css"
  shows "\<exists>r'. line r (concat css) = (r', map as_frame (snd (hear_all (nat (mtu - 4)) qs v)))
    \<and> viewed (nat (mtu - 4)) (fst (hear_all (nat (mtu - 4)) qs v)) r'"
  using hear_all_line [OF assms(1), of qs] sent_chunks [OF assms(4,3)] assms(2,3) by auto

text \<open>C18: A lost chunk puts a link out of step. Three conditions: of a frame one or more chunks are lost, but not
  its last one; every frame sent afterwards takes two chunks or more; and no two of the frames, the
  first one included, have a chunk in common, byte for byte (two short last chunks may, by
  accident). Then neither this frame nor any of the later ones is handed over, however many
  follow and although all their chunks arrive in order: what comes out, if anything, is none of them;
  and the line, and with it the transport's reassembler for the device, is not back in its initial state
  at the end. Without the conditions the link can recover (line_heals).\<close>

theorem lost_chunk_silences:
  assumes "chunkFrame p mtu SessionData = Inr cs" and "mtu \<le> 259"
    and "set js \<subset> {..<length cs}" and "length cs - 1 \<in> set js"
    and "map (\<lambda>q. chunkFrame q mtu SessionData) qs = map Inr css" and "\<forall>c \<in> set css. 2 \<le> length c"
    and "no_common_chunk (nat (mtu - 4)) (p # qs)"
    and "half_read st dev = new_reassembler" and "line new_reassembler (map ((!) cs) js @ concat css) = (r, fs)"
  shows "r \<noteq> new_reassembler \<and> rf_payload ` set fs \<inter> set (p # qs) = {}
    \<and> half_read (receive_chunks W dev (map ((!) cs) js @ concat css) st) dev = r"
proof -
  let ?d = "nat (mtu - 4)" and ?n = "nchunks (nat (mtu - 4)) p"
  have p: "cs = chunks_of ?d p" "fits ?d p" "0 < ?d" "?d < 256" using chunkFrame_chunks [OF assms(1,2)] by blast+
  have len: "length cs = ?n" by (simp add: p(1) chunks_of_def)
  have q: "css = map (chunks_of ?d) qs" "\<forall>q \<in> set qs. fits ?d q \<and> 2 \<le> nchunks ?d q"
    using sent_chunks [OF assms(5,2)] assms(6) by (auto simp: chunks_of_def)
  obtain k where k: "k < ?n" "k \<notin> set js" using assms(3) len by auto
  have r0: "ready p ?d ?n SessionData {} new_reassembler" by (simp add: ready_def)
  obtain r1 where r1: "push_all new_reassembler (map (mk_chunk p ?d ?n SessionData) js) = (r1, replicate (length js) (Inr None))"
    "ready p ?d ?n SessionData ({} \<union> set js) r1"
    by (rule push_all_partial [OF session_nibble _ p(4) r0, where js = js and i = k])
      (use p(2) k assms(3) len in \<open>auto simp: fits_def\<close>)
  have e: "map ((!) cs) js = map (mk_chunk p ?d ?n SessionData) js"
    using assms(3) len by (auto simp: p(1) chunks_of_def)
  have "line new_reassembler (map ((!) cs) js) = (r1, [])" unfolding e by (rule line_quiet) (simp add: r1(1))
  then have l: "line r1 (concat (map (chunks_of ?d) qs)) = (r, fs)"
    using assms(9) by (simp add: line_append q(1) split: prod.splits)
  have v: "viewed ?d (p, set js) r1" using r1(2) p(2) assms(3) len by (simp add: viewed_def)
  have "r \<noteq> new_reassembler \<and> rf_payload ` set fs \<inter> set (p # qs) = {} \<and> (\<forall>f \<in> set fs. rf_type f = SessionData)"
    by (rule off_line [OF v _ assms(7) _ _ q(2) p(3,4) l]) (use assms(4,7) len in \<open>auto simp: no_common_chunk_def\<close>)
  then show ?thesis using transport_follows_line [of st dev "map ((!) cs) js @ concat css" W] assms(8,9) by simp
qed

text \<open>C19: Two overlapping sends put a link out of step, without any loss. Conditions: sendFrame is called again
  for the same peer before its first call has written a chunk, both encrypted frames take the same number
  n of chunks, at least two, and the two write loops alternate strictly; every frame sent
  afterwards takes two chunks or more; and no two of the frames have a chunk in common, byte for
  byte. Then the receiver, starting afresh, completes the first frame, and nothing it hands over
  after that is one of the frames sent, neither the second one nor any of the later ones, although all
  chunks arrive in the order they were written.\<close>

theorem overlapping_sends_silence:
  assumes "link_out a hex ref s" and "device_of hex a = Some dev" and "mtu = mtu_of a dev"
    and "sendFrame (w_ratchet W) hex f1 a = (a1, Inr u1)" and "sendFrame (w_ratchet W) hex f2 a1 = (a2, Inr u2)"
    and "encrypt (w_ratchet W) s f1 [] = (s1, w1)" and "encrypt (w_ratchet W) s1 f2 [] = (s2, w2)"
    and "nchunks (nat (mtu - 4)) w1 = n" and "nchunks (nat (mtu - 4)) w2 = n" and "2 \<le> n"
    and "map (\<lambda>q. chunkFrame q mtu SessionData) qs = map Inr css" and "\<forall>c \<in> set css. 2 \<le> length c"
    and "no_common_chunk (nat (mtu - 4)) (w1 # w2 # qs)"
  shows "\<exists>cs r fs. written ((resume_other W ^^ (2 * n)) a2) = written a @ map (Pair dev) cs
    \<and> line new_reassembler (cs @ concat css) = (r, as_frame w1 # fs)
    \<and> r \<noteq> new_reassembler \<and> rf_payload ` set fs \<inter> set (w1 # w2 # qs) = {}"
proof -
  let ?d = "nat (mtu - 4)"
  have l: "jm_get (cryptoStates a) dev = Some ref" "mtu \<le> 259" "ref < length (heap a)" "cs_session (heap a ! ref) = Some s"
    using assms(1-3) by (auto simp: link_out_def)
  obtain cs1 where c1: "chunkFrame w1 mtu SessionData = Inr cs1"
    and a1: "a1 = (modify_cs ref (cs_session_update (\<lambda>_. Some s1)) a)\<lparr>tasks := tasks a @ [SendData dev cs1]\<rparr>"
    using sendFrame_spawns [OF assms(2) l(1,4) assms(4)] assms(3,6) by auto
  have "device_of hex a1 = device_of hex a"
    by (rule device_of_cong) (simp_all add: a1 modify_cs_def nth_list_update l(3))
  then have d1: "device_of hex a1 = Some dev" "jm_get (cryptoStates a1) dev = Some ref" "cs_session (heap a1 ! ref) = Some s1"
    "mtu_of a1 dev = mtu" "tasks a1 = tasks a @ [SendData dev cs1]" "written a1 = written a"
    using assms(2,3) l by (simp_all add: a1 modify_cs_def mtu_of_def)
  obtain cs2 where c2: "chunkFrame w2 mtu SessionData = Inr cs2"
    and a2: "a2 = (modify_cs ref (cs_session_update (\<lambda>_. Some s2)) a1)\<lparr>tasks := tasks a @ [SendData dev cs1, SendData dev cs2]\<rparr>"
    using sendFrame_spawns [OF d1(1-3) assms(5)] assms(7) d1(4,5) by auto
  have p: "cs1 = chunks_of ?d w1" "fits ?d w1" "cs2 = chunks_of ?d w2" "fits ?d w2" "0 < ?d" "?d < 256"
    using chunkFrame_chunks [OF c1 l(2)] chunkFrame_chunks [OF c2 l(2)] by blast+
  have len: "length cs1 = n" "length cs2 = n" using p(1,3) assms(8,9) by (simp_all add: chunks_of_def)
  have w: "written ((resume_other W ^^ (2 * n)) a2) = written a @ map (Pair dev) (alternate cs1 cs2)"
    unfolding a2 len(1) [symmetric]
    by (subst alternate_writes) (use len d1(6) in \<open>simp_all add: modify_cs_def\<close>)
  obtain r1 where r1: "line new_reassembler (alternate cs1 cs2) = (r1, [as_frame w1])" "viewed ?d (w2, {n - 1}) r1"
    using line_alternate [OF p(2,4) assms(8-10) p(5,6)] p(1,3) by auto
  have q: "css = map (chunks_of ?d) qs" "\<forall>q \<in> set qs. fits ?d q \<and> 2 \<le> nchunks ?d q"
    using sent_chunks [OF assms(11) l(2)] assms(12) by (auto simp: chunks_of_def)
  obtain r fs where l2: "line r1 (concat (map (chunks_of ?d) qs)) = (r, fs)" by fastforce
  have "r \<noteq> new_reassembler \<and> rf_payload ` set fs \<inter> set (w1 # w2 # qs) = {} \<and> (\<forall>f \<in> set fs. rf_type f = SessionData)"
    by (rule off_line [OF r1(2) _ assms(13) _ _ q(2) p(5,6) l2]) (use assms(9,13) in \<open>auto simp: no_common_chunk_def\<close>)
  moreover have "line new_reassembler (alternate cs1 cs2 @ concat css) = (r, as_frame w1 # fs)"
    using r1(1) l2 by (simp add: line_append q(1))
  ultimately show ?thesis using w by blast
qed

text \<open>Note: What heals a link that is out of step: a frame of a single chunk, which is itself lost, or, when only
  the last chunk of the open frame is missing, a frame of the same number of chunks, which comes out
  put together from both; every frame after that is handed over as it was sent.\<close>

theorem line_heals:
  assumes "viewed (nat (mtu - 4)) (p, S) r" and "S \<noteq> {}" and "mtu \<le> 259"
    and "chunkFrame q mtu SessionData = Inr cs"
    and "length cs = 1 \<and> nchunks (nat (mtu - 4)) p \<noteq> 1 \<or> length cs = nchunks (nat (mtu - 4)) p \<and> S = {..<length cs - 1}"
    and "map (\<lambda>q. chunkFrame q mtu SessionData) qs = map Inr css"
  shows "\<exists>fs. length fs \<le> 1 \<and> line r (cs @ concat css) = (new_reassembler, fs @ map as_frame qs)"
proof -
  let ?d = "nat (mtu - 4)"
  have q: "cs = chunks_of ?d q" "fits ?d q" "0 < ?d" "?d < 256" using chunkFrame_chunks [OF assms(4,3)] by blast+
  have len: "length cs = nchunks ?d q" by (simp add: q(1) chunks_of_def)
  have qs: "css = map (chunks_of ?d) qs" "\<forall>q \<in> set qs. fits ?d q" using sent_chunks [OF assms(6,3)] by auto
  have n0: "0 < nchunks ?d q" using q(2,3) nchunks_pos by (simp add: fits_def)
  have "fst (hear ?d q (p, S)) = (q, {}) \<and> length (snd (hear ?d q (p, S))) \<le> 1"
  proof (cases "nchunks ?d p = nchunks ?d q")
    case True
    then have S: "S = {..<nchunks ?d q - 1}" using assms(5) len by metis
    have "Max ({..<nchunks ?d q} - S) = nchunks ?d q - 1" unfolding S using n0 by (intro Max_eqI) auto
    then show ?thesis using True assms(2) n0 by (simp add: hear_def)
  next
    case False
    then have "nchunks ?d q = 1" using assms(5) len by metis
    then show ?thesis using False assms(2) by (simp add: hear_def)
  qed
  then have h: "fst (hear ?d q (p, S)) = (q, {})" "length (snd (hear ?d q (p, S))) \<le> 1" by blast+
  obtain r1 where r1: "line r cs = (r1, map as_frame (snd (hear ?d q (p, S))))" "viewed ?d (q, {}) r1"
    using hear_line [OF assms(1) q(2-4)] h(1) q(1) by auto
  have step: "snd (hear_all ?d qs (x, {})) = qs \<and> snd (fst (hear_all ?d qs (x, {}))) = {}" for x
    by (induction qs arbitrary: x) (simp_all add: hear_def Let_def case_prod_beta)
  obtain r2 where "line r1 (concat css) = (r2, map as_frame qs)" "viewed ?d (fst (hear_all ?d qs (q, {}))) r2"
    using hear_all_line [OF r1(2) qs(2) q(3,4)] step [of q] qs(1) by auto
  moreover from this(2) have "r2 = new_reassembler"
    using step [of q] by (auto simp: viewed_def ready_def split: prod.splits)
  ultimately show ?thesis using r1(1) h(2)
    by (intro exI [of _ "map as_frame (snd (hear ?d q (p, S)))"]) (simp add: line_append)
qed

section \<open>Witnesses\<close>

lemma sample_later: "map (\<lambda>q. chunkFrame q 6 SessionData) [[1, 2, 3], [4, 5, 6]]
    = map Inr [[[0xc8, 0x30, 2, 2, 1, 2], [0xc8, 0x31, 2, 1, 3]], [[0xc8, 0x30, 2, 2, 4, 5], [0xc8, 0x31, 2, 1, 6]]]"
  by (simp add: chunkFrame_def Let_def frame_consts ceil_div_def mk_chunk_def js_slice_def upt_rec)

lemma sample_cut: "nchunks 2 [a, b, c] = 2" "chunks_of 2 [a, b, c] = [[0xc8, 0x30, 2, 2, a, b], [0xc8, 0x31, 2, 1, c]]"
proof -
  show n: "nchunks 2 [a, b, c] = 2" by (simp add: nchunks_def ceil_div_def)
  show "chunks_of 2 [a, b, c] = [[0xc8, 0x30, 2, 2, a, b], [0xc8, 0x31, 2, 1, c]]"
    unfolding chunks_of_def n by (simp add: mk_chunk_def js_slice_def frame_consts upt_rec)
qed

lemma sample_open: "viewed 2 ([7, 8, 9], {1}) (fst (line new_reassembler [[0xc8, 0x31, 2, 1, 9]]))"
proof -
  have c: "mk_chunk [7, 8, 9] 2 2 SessionData 1 = [0xc8, 0x31, 2, 1, 9]"
    by (simp add: mk_chunk_def js_slice_def frame_consts)
  have r0: "ready [7, 8, 9] 2 2 SessionData {} new_reassembler" by (simp add: ready_def)
  obtain r where r: "push_all new_reassembler (map (mk_chunk [7, 8, 9] 2 2 SessionData) [1]) = (r, replicate (length [1 :: nat]) (Inr None))"
    "ready [7, 8, 9] 2 2 SessionData ({} \<union> set [1]) r"
    by (rule push_all_partial [OF session_nibble _ _ r0, where js = "[1]" and i = 0]) auto
  have "line new_reassembler [[0xc8, 0x31, 2, 1, 9]] = (r, [])" by (rule line_quiet) (use r(1) c in simp)
  moreover have "{1} \<subset> {..<2 :: nat}" by (metis upper_proper [of 1 2] atLeastLessThan_singleton one_add_one plus_1_eq_Suc zero_less_numeral zero_less_one)
  moreover have "ready [7, 8, 9] 2 2 SessionData {1} r" using r(2) by simp
  ultimately show ?thesis by (simp only: viewed_def fits_def sample_cut fst_conv prod.case) simp
qed

lemma sample_distinct: "no_common_chunk 2 [[7, 8, 9], [1, 2, 3], [4, 5, 6]]"
  by (simp only: no_common_chunk_def list.set ball_simps sample_cut) simp

lemma line_refines_hear_witness:
  "\<exists>r'. line (fst (line new_reassembler [[0xc8, 0x31, 2, 1, 9]]))
      [[0xc8, 0x30, 2, 2, 1, 2], [0xc8, 0x31, 2, 1, 3], [0xc8, 0x30, 2, 2, 4, 5], [0xc8, 0x31, 2, 1, 6]]
    = (r', [as_frame [1, 2, 9], as_frame [4, 5, 3]])"
proof -
  have m: "Max ({..<2} - {Suc 0}) = 0" "{Suc 0..<2} = {Suc 0}" by (rule Max_eqI) auto
  have sp: "splice 2 {Suc 0} p q = take 2 q @ drop 2 p" if "nchunks 2 p = 2" "length p = 3" "length q = 3" for p q
    using that by (simp add: splice_def js_slice_def upt_rec numeral_2_eq_2)
  have h: "snd (hear_all 2 [[1, 2, 3], [4, 5, 6]] ([7, 8, 9], {1})) = [[1, 2, 9], [4, 5, 3]]"
    by (simp add: hear_def sample_cut m sp)
  show ?thesis using line_refines_hear [OF _ _ _ sample_later, of "([7, 8, 9], {1})"] sample_open h by auto
qed

lemma lost_chunk_silences_witness:
  "rf_payload ` set (snd (line new_reassembler [[0xc8, 0x31, 2, 1, 9],
      [0xc8, 0x30, 2, 2, 1, 2], [0xc8, 0x31, 2, 1, 3], [0xc8, 0x30, 2, 2, 4, 5], [0xc8, 0x31, 2, 1, 6]]))
    \<inter> {[7, 8, 9], [1, 2, 3], [4, 5, 6]} = {}"
proof -
  have "half_read (new_transport sample_env) ''dev'' = new_reassembler" by (simp add: half_read_def new_transport_def)
  note h = lost_chunk_silences [OF sample_chunks _ _ _ sample_later _ _ this, of "[1]", OF _ _ _ _ _ prod.collapse [symmetric]]
  have "set [1] \<subset> {..<length [[0xc8, 0x30, 2, 2, 7, 8], [0xc8, 0x31, 2, 1, 9 :: byte]]}"
    using upper_proper [of 1 2] by (simp add: numeral_2_eq_2)
  from h [OF _ this] show ?thesis using sample_distinct by (simp del: line.simps)
qed

lemma line_heals_witness:
  "\<exists>fs. length fs \<le> 1 \<and> line (fst (line new_reassembler [[0xc8, 0x31, 2, 1, 9]]))
      ([[0xc8, 0x30, 1, 1, 5]] @ concat [[[0xc8, 0x30, 2, 2, 1, 2], [0xc8, 0x31, 2, 1, 3]], [[0xc8, 0x30, 2, 2, 4, 5], [0xc8, 0x31, 2, 1, 6]]])
    = (new_reassembler, fs @ map as_frame [[1, 2, 3], [4, 5, 6]])"
proof -
  have c: "chunkFrame [5] 6 SessionData = Inr [[0xc8, 0x30, 1, 1, 5]]"
    by (simp add: chunkFrame_def Let_def frame_consts ceil_div_def mk_chunk_def js_slice_def upt_rec)
  have n: "nchunks 2 [7, 8, 9] = 2" by (simp add: nchunks_def ceil_div_def)
  show ?thesis
    by (rule line_heals [OF _ _ _ c _ sample_later, of "[7, 8, 9]" "{1}"]) (use sample_open n in simp_all)
qed

text \<open>Two one-byte frames at once over the link of \<open>Mesh_Link\<close>, whose MTU is 23.\<close>

definition sample_w1 :: bytes where
  "sample_w1 = [0, 0, 0, 0, 0, 0, 0, 0, 1, 29, 29, 31, 31, 33, 33, 35, 35, 37, 37, 39, 39, 41, 41, 43, 43]"

definition sample_w2 :: bytes where
  "sample_w2 = [0, 0, 0, 0, 0, 0, 0, 1, 2, 121, 123, 123, 125, 125, 127, 127, 129, 129, 131, 131, 133, 133, 135, 135, 137]"

lemmas sample_ratchet_defs = encrypt_def sample_session_def newRatchetSession_def CHAIN_KEY_BYTES_def deriveFrameKey_def
  ratchetChain_def INFO_FRAME_RATCHET_def sample_prims_def sample_tag_def u64_be_def INFO_FRAME_KEY_def AEAD_KEY_BYTES_def

lemma sample_encrypted:
  "snd (encrypt sample_prims (sample_session 1 2 Initiator) [1] []) = sample_w1"
  "snd (encrypt sample_prims (fst (encrypt sample_prims (sample_session 1 2 Initiator) [1] [])) [2] []) = sample_w2"
  by (simp_all add: sample_w1_def sample_w2_def sample_ratchet_defs Let_def upt_rec eval_nat_numeral)

lemma sample_wires: "nchunks 19 sample_w1 = 2" "nchunks 19 sample_w2 = 2"
    "chunks_of 19 sample_w1 = [[200, 48, 2, 19, 0, 0, 0, 0, 0, 0, 0, 0, 1, 29, 29, 31, 31, 33, 33, 35, 35, 37, 37], [200, 49, 2, 6, 39, 39, 41, 41, 43, 43]]"
    "chunks_of 19 sample_w2 = [[200, 48, 2, 19, 0, 0, 0, 0, 0, 0, 0, 1, 2, 121, 123, 123, 125, 125, 127, 127, 129, 129, 131], [200, 49, 2, 6, 131, 133, 133, 135, 135, 137]]"
proof -
  show n: "nchunks 19 sample_w1 = 2" "nchunks 19 sample_w2 = 2"
    by (simp_all add: nchunks_def ceil_div_def sample_w1_def sample_w2_def)
  show "chunks_of 19 sample_w1 = [[200, 48, 2, 19, 0, 0, 0, 0, 0, 0, 0, 0, 1, 29, 29, 31, 31, 33, 33, 35, 35, 37, 37], [200, 49, 2, 6, 39, 39, 41, 41, 43, 43]]"
    "chunks_of 19 sample_w2 = [[200, 48, 2, 19, 0, 0, 0, 0, 0, 0, 0, 1, 2, 121, 123, 123, 125, 125, 127, 127, 129, 129, 131], [200, 49, 2, 6, 131, 133, 133, 135, 135, 137]]"
    unfolding chunks_of_def n
    by (simp_all add: mk_chunk_def js_slice_def frame_consts upt_rec sample_w1_def sample_w2_def)
qed

lemma sample_sends:
  "\<exists>a1 a2. sendFrame sample_prims ''q'' [1] sample_sender = (a1, Inr ()) \<and> sendFrame sample_prims ''q'' [2] a1 = (a2, Inr ())"
proof -
  let ?s1 = "fst (encrypt sample_prims (sample_session 1 2 Initiator) [1] [])"
  let ?a1 = "(modify_cs 0 (cs_session_update (\<lambda>_. Some ?s1)) sample_sender)"
  have c: "\<exists>cs. chunkFrame sample_w1 23 SessionData = Inr cs" "\<exists>cs. chunkFrame sample_w2 23 SessionData = Inr cs"
    by (simp_all add: chunkFrame_def Let_def frame_consts ceil_div_def sample_w1_def sample_w2_def)
  then obtain cs1 cs2 where c: "chunkFrame sample_w1 23 SessionData = Inr cs1" "chunkFrame sample_w2 23 SessionData = Inr cs2" by blast
  let ?b1 = "?a1\<lparr>tasks := tasks ?a1 @ [SendData ''dev'' cs1]\<rparr>"
  have m: "mtu_of ?a1 ''dev'' = 23" "mtu_of ?b1 ''dev'' = 23" using sample_link(3) by (simp_all add: mtu_of_def modify_cs_def)
  have 1: "sendFrame sample_prims ''q'' [1] sample_sender = (?b1, Inr ())"
    using sample_link c(1) m(1) sample_encrypted(1) by (simp add: sendFrame_def Let_def spawn_def case_prod_beta)
  have "device_of ''q'' ?b1 = device_of ''q'' sample_sender"
    by (rule device_of_cong) (simp_all add: modify_cs_def nth_list_update sample_link)
  then have "\<exists>a2. sendFrame sample_prims ''q'' [2] ?b1 = (a2, Inr ())"
    using sample_link c(2) m(2) sample_encrypted(2)
    by (simp add: sendFrame_def Let_def spawn_def case_prod_beta modify_cs_def mtu_of_def)
  with 1 show ?thesis by blast
qed

lemma overlapping_sends_silence_witness:
  "\<exists>a1 a2 cs r fs. sendFrame sample_prims ''q'' [1] sample_sender = (a1, Inr ()) \<and> sendFrame sample_prims ''q'' [2] a1 = (a2, Inr ())
    \<and> written ((resume_other sample_world ^^ 4) a2) = written sample_sender @ map (Pair ''dev'') cs
    \<and> line new_reassembler cs = (r, as_frame sample_w1 # fs) \<and> sample_w2 \<notin> rf_payload ` set fs"
proof -
  obtain a1 a2 where a: "sendFrame sample_prims ''q'' [1] sample_sender = (a1, Inr ())" "sendFrame sample_prims ''q'' [2] a1 = (a2, Inr ())"
    using sample_sends by blast
  have W: "w_ratchet sample_world = sample_prims" by (simp add: sample_world_def)
  have l: "link_out sample_sender ''q'' 0 (sample_session 1 2 Initiator)" using sample_link by (simp add: link_out_def)
  have e: "encrypt sample_prims (sample_session 1 2 Initiator) [1] [] = (fst (encrypt sample_prims (sample_session 1 2 Initiator) [1] []), sample_w1)"
    "encrypt sample_prims (fst (encrypt sample_prims (sample_session 1 2 Initiator) [1] [])) [2] []
      = (fst (encrypt sample_prims (fst (encrypt sample_prims (sample_session 1 2 Initiator) [1] [])) [2] []), sample_w2)"
    using sample_encrypted by (simp_all add: prod_eq_iff)
  have d: "no_common_chunk 19 [sample_w1, sample_w2]"
    by (simp only: no_common_chunk_def list.set ball_simps sample_wires) (simp add: sample_w1_def sample_w2_def)
  have "\<exists>cs r fs. written ((resume_other sample_world ^^ (2 * 2)) a2) = written sample_sender @ map (Pair ''dev'') cs
    \<and> line new_reassembler (cs @ concat []) = (r, as_frame sample_w1 # fs)
    \<and> r \<noteq> new_reassembler \<and> rf_payload ` set fs \<inter> set [sample_w1, sample_w2] = {}"
    by (rule overlapping_sends_silence [where mtu = 23 and qs = "[]" and css = "[]" and n = 2 and W = sample_world
          and ?f1.0 = "[1]" and ?f2.0 = "[2]" and dev = "''dev''", unfolded W, OF l _ _ a e])
      (use d sample_link sample_wires in simp_all)
  then show ?thesis using a by auto
qed

end
