(* ===== verification/Connections.thy ===== *)
theory Connections
  imports Prelude Bloom
begin

text \<open>
  The life of the database connections behind \<open>Inbox\<close>, \<open>Spool\<close>, \<open>Outbox\<close> and \<open>BloomDedup\<close>:
  \<open>open\<close> as a call and the answer of \<open>indexedDB.open\<close>, which may come in between other calls,
  the upgrade that creates the store, \<open>close\<close> and \<open>getDb\<close>. For the Bloom filter \<open>open\<close> has a
  second suspension, the reading of its row. \<open>Object_Store\<close>, \<open>Outbox\<close> and \<open>Bloom\<close> model the
  same calls as one step each; here is what the steps in between allow.
\<close>

section \<open>Schemas\<close>

record schema =
  sc_db :: string
  sc_store :: string
  sc_key :: string
  sc_indexes :: "string list"

definition inbox_schema :: schema where
  "inbox_schema = \<lparr>sc_db = ''mesh-router-inbox'', sc_store = ''inbox'', sc_key = ''msgId'',
     sc_indexes = [''consumed'', ''receivedAtMs'']\<rparr>"

definition spool_schema :: schema where
  "spool_schema = \<lparr>sc_db = ''mesh-router-spool'', sc_store = ''spool'', sc_key = ''msgId'', sc_indexes = [''addedAtMs'']\<rparr>"

definition outbox_schema :: schema where
  "outbox_schema = \<lparr>sc_db = ''mesh-router-outbox'', sc_store = ''outbox'', sc_key = ''msgId'',
     sc_indexes = [''status'', ''lastAttemptMs'']\<rparr>"

definition bloom_schema :: schema where
  "bloom_schema = \<lparr>sc_db = ''mesh-router-bloom'', sc_store = ''bloom'', sc_key = ''id'', sc_indexes = []\<rparr>"

text \<open>A database of the origin: its version and its stores, each with its key path and indexes.\<close>

record db_file =
  file_version :: nat
  file_stores :: "(string \<times> string \<times> string list) list"

definition DB_VERSION :: nat where "DB_VERSION = 1"

text \<open>\<open>onupgradeneeded\<close>.\<close>

definition upgrade :: "schema \<Rightarrow> db_file \<Rightarrow> db_file" where
  "upgrade sc f =
     (if map_of (file_stores f) (sc_store sc) \<noteq> None then f
      else f\<lparr>file_stores := file_stores f @ [(sc_store sc, sc_key sc, sc_indexes sc)]\<rparr>)"

text \<open>What \<open>indexedDB.open(name, 1)\<close> does: an absent database has version 0; a newer one is a \<open>VersionError\<close>.\<close>

definition open_file :: "schema \<Rightarrow> (string \<Rightarrow> db_file option) \<Rightarrow> (string \<Rightarrow> db_file option) option" where
  "open_file sc files =
     (let f = (case files (sc_db sc) of None \<Rightarrow> \<lparr>file_version = 0, file_stores = []\<rparr> | Some f \<Rightarrow> f) in
      if file_version f > DB_VERSION then None
      else if file_version f = DB_VERSION then Some files
      else Some (files(sc_db sc \<mapsto> (upgrade sc f)\<lparr>file_version := DB_VERSION\<rparr>)))"

section \<open>Opening and closing\<close>

text \<open>
  \<open>c_db\<close>: the field \<open>db\<close> of the object; \<open>c_live\<close>: the connections that are open in the browser;
  \<open>c_pending\<close>: the open requests not yet answered.
\<close>

record conns =
  c_files :: "string \<Rightarrow> db_file option"
  c_db :: "nat option"
  c_live :: "nat list"
  c_fresh :: nat
  c_pending :: nat

definition new_conns :: "(string \<Rightarrow> db_file option) \<Rightarrow> conns" where
  "new_conns files = \<lparr>c_files = files, c_db = None, c_live = [], c_fresh = 0, c_pending = 0\<rparr>"

text \<open>The call; \<open>True\<close>: its promise is resolved at once.\<close>

definition open_call :: "conns \<Rightarrow> conns \<times> bool" where
  "open_call c = (if c_db c \<noteq> None then (c, True) else (c\<lparr>c_pending := Suc (c_pending c)\<rparr>, False))"

text \<open>The answer to one request, with the promise it settles; \<open>ok\<close>: the browser could open the database.\<close>

definition open_answer :: "schema \<Rightarrow> bool \<Rightarrow> conns \<Rightarrow> conns \<times> bool" where
  "open_answer sc ok c =
     (if c_pending c = 0 then (c, False)
      else
        let c1 = c\<lparr>c_pending := c_pending c - 1\<rparr> in
        case (if ok then open_file sc (c_files c) else None) of
          None \<Rightarrow> (c1, False)
        | Some files \<Rightarrow> (c1\<lparr>c_files := files, c_db := Some (c_fresh c), c_live := c_live c @ [c_fresh c],
              c_fresh := Suc (c_fresh c)\<rparr>, True))"

definition close_call :: "conns \<Rightarrow> conns" where
  "close_call c = (case c_db c of None \<Rightarrow> c | Some i \<Rightarrow> c\<lparr>c_live := removeAll i (c_live c), c_db := None\<rparr>)"

text \<open>\<open>getDb\<close>: \<open>None\<close> is the error that asks for \<open>open\<close> first.\<close>

definition getDb :: "conns \<Rightarrow> nat option" where
  "getDb c = c_db c"

text \<open>The three classes write the same methods.\<close>

definition spool_open_answer :: "bool \<Rightarrow> conns \<Rightarrow> conns \<times> bool" where
  "spool_open_answer = open_answer spool_schema"

definition spool_open_call :: "conns \<Rightarrow> conns \<times> bool" where
  "spool_open_call = open_call"

definition spool_close :: "conns \<Rightarrow> conns" where
  "spool_close = close_call"

definition spool_getDb :: "conns \<Rightarrow> nat option" where
  "spool_getDb = getDb"

definition outbox_open_answer :: "bool \<Rightarrow> conns \<Rightarrow> conns \<times> bool" where
  "outbox_open_answer = open_answer outbox_schema"

definition outbox_open_call :: "conns \<Rightarrow> conns \<times> bool" where
  "outbox_open_call = open_call"

definition outbox_close :: "conns \<Rightarrow> conns" where
  "outbox_close = close_call"

definition outbox_getDb :: "conns \<Rightarrow> nat option" where
  "outbox_getDb = getDb"

text \<open>What may happen to one object: calls, answers, and nothing else changes it.\<close>

datatype conn_event = Call | Answer bool | Close

definition conn_step :: "schema \<Rightarrow> conn_event \<Rightarrow> conns \<Rightarrow> conns" where
  "conn_step sc ev c = (case ev of Call \<Rightarrow> fst (open_call c) | Answer ok \<Rightarrow> fst (open_answer sc ok c) | Close \<Rightarrow> close_call c)"

definition conn_run :: "schema \<Rightarrow> conn_event list \<Rightarrow> conns \<Rightarrow> conns" where
  "conn_run sc evs c = fold (conn_step sc) evs c"

text \<open>Every call waits for the one before.\<close>

fun awaited :: "nat \<Rightarrow> conn_event list \<Rightarrow> bool" where
  "awaited n [] = True"
| "awaited n (Call # evs) = (n = 0 \<and> awaited 1 evs)"
| "awaited n (Answer ok # evs) = awaited 0 evs"
| "awaited n (Close # evs) = awaited n evs"

text \<open>Connections that no field refers to any more.\<close>

definition leaked :: "conns \<Rightarrow> nat list" where
  "leaked c = filter (\<lambda>i. c_db c \<noteq> Some i) (c_live c)"

section \<open>Leaks\<close>

definition conns_inv :: "conns \<Rightarrow> bool" where
  "conns_inv c \<longleftrightarrow> distinct (c_live c) \<and> (\<forall>i \<in> set (c_live c). i < c_fresh c) \<and> (\<forall>i. c_db c = Some i \<longrightarrow> i \<in> set (c_live c))"

lemmas conn_defs = conn_step_def open_call_def open_answer_def close_call_def Let_def

lemma conns_inv_step: "conns_inv c \<Longrightarrow> conns_inv (conn_step sc ev c)"
  by (auto simp: conns_inv_def conn_defs distinct_removeAll split: conn_event.splits option.splits)

lemma leaked_step: "conns_inv c \<Longrightarrow> set (leaked c) \<subseteq> set (leaked (conn_step sc ev c))"
  by (fastforce simp: conns_inv_def conn_defs leaked_def split: conn_event.splits option.splits)

interpretation leaks: kept_by_events "conn_step sc" "\<lambda>_. True" "\<lambda>c. conns_inv c \<and> L \<subseteq> set (leaked c)" for sc L
  using leaked_step by unfold_locales (blast intro: conns_inv_step)

lemma leaked_run: "conns_inv c \<Longrightarrow> set (leaked c) \<subseteq> set (leaked (conn_run sc evs c))"
  using leaks.run_keeps [of c "set (leaked c)" evs sc] by (simp add: conn_run_def)

lemma call_many: "c_db c = None \<Longrightarrow> conn_run sc (replicate n Call) c = c\<lparr>c_pending := c_pending c + n\<rparr>"
  by (induction n arbitrary: c) (simp_all add: conn_run_def conn_step_def open_call_def)

definition openable :: "schema \<Rightarrow> conns \<Rightarrow> bool" where
  "openable sc c \<longleftrightarrow> (\<forall>f. c_files c (sc_db sc) = Some f \<longrightarrow> file_version f \<le> DB_VERSION)"

lemma open_file_openable:
  assumes "openable sc c"
  shows "\<exists>files f. open_file sc (c_files c) = Some files \<and> files (sc_db sc) = Some f \<and> file_version f = DB_VERSION"
  using assms by (auto simp: open_file_def openable_def Let_def DB_VERSION_def split: option.splits)

lemma answer_many:
  "openable sc c \<Longrightarrow> c_pending c = n \<Longrightarrow> 0 < n \<Longrightarrow> \<exists>files. conn_run sc (replicate n (Answer True)) c
     = c\<lparr>c_files := files, c_db := Some (c_fresh c + n - 1), c_live := c_live c @ [c_fresh c..<c_fresh c + n],
         c_fresh := c_fresh c + n, c_pending := 0\<rparr>"
proof (induction n arbitrary: c)
  case (Suc n)
  obtain files f where files: "open_file sc (c_files c) = Some files" "files (sc_db sc) = Some f" "file_version f = DB_VERSION"
    using open_file_openable [OF Suc.prems(1)] by blast
  let ?c1 = "c\<lparr>c_pending := n, c_files := files, c_db := Some (c_fresh c), c_live := c_live c @ [c_fresh c], c_fresh := Suc (c_fresh c)\<rparr>"
  have one: "conn_step sc (Answer True) c = ?c1" using Suc.prems files by (simp add: conn_defs)
  have op: "openable sc ?c1" using files by (simp add: openable_def)
  show ?case
  proof (cases "n = 0")
    case True
    then show ?thesis using one by (intro exI [of _ files]) (simp add: conn_run_def)
  next
    case False
    then obtain fs where "conn_run sc (replicate n (Answer True)) ?c1 = ?c1\<lparr>c_files := fs, c_db := Some (Suc (c_fresh c) + n - 1),
        c_live := c_live ?c1 @ [Suc (c_fresh c)..<Suc (c_fresh c) + n], c_fresh := Suc (c_fresh c) + n, c_pending := 0\<rparr>"
      using Suc.IH [OF op] by auto
    then show ?thesis using one
      by (intro exI [of _ fs]) (simp add: conn_run_def upt_rec)
  qed
qed simp

lemma awaited_live:
  "awaited k evs \<Longrightarrow> c_pending c \<le> k \<Longrightarrow> k \<le> 1 \<Longrightarrow> c_pending c = 0 \<or> c_db c = None
    \<Longrightarrow> c_live c = (case c_db c of None \<Rightarrow> [] | Some i \<Rightarrow> [i])
    \<Longrightarrow> c_live (conn_run sc evs c) = (case c_db (conn_run sc evs c) of None \<Rightarrow> [] | Some i \<Rightarrow> [i])"
proof (induction k evs arbitrary: c rule: awaited.induct)
  case (2 n evs)
  show ?case using 2(1) [of "conn_step sc Call c"] 2(2-) by (auto simp: conn_run_def conn_defs split: option.splits)
next
  case (3 n ok evs)
  show ?case using 3(1) [of "conn_step sc (Answer ok) c"] 3(2-)
    by (cases "if ok then open_file sc (c_files c) else None") (auto simp: conn_run_def conn_defs split: option.splits if_splits)
next
  case (4 n evs)
  show ?case using 4(1) [of "conn_step sc Close c"] 4(2-) by (auto simp: conn_run_def conn_defs split: option.splits)
qed (simp add: conn_run_def)

lemma overlapping_leak:
  assumes op: "openable sc (new_conns files)" and n: "0 < n"
  shows "{..<n - 1} \<subseteq> set (leaked (conn_run sc (replicate n Call @ replicate n (Answer True) @ Close # evs) (new_conns files)))"
proof -
  let ?c1 = "(new_conns files)\<lparr>c_pending := n\<rparr>"
  have c1: "conn_run sc (replicate n Call) (new_conns files) = ?c1" by (simp add: call_many new_conns_def)
  obtain fs where c2: "conn_run sc (replicate n (Answer True)) ?c1 = ?c1\<lparr>c_files := fs, c_db := Some (n - 1), c_live := [0..<n], c_fresh := n, c_pending := 0\<rparr>"
    using answer_many [of sc ?c1 n] op n by (auto simp: new_conns_def openable_def)
  let ?c3 = "conn_run sc (replicate n Call @ replicate n (Answer True) @ [Close]) (new_conns files)"
  have c3: "?c3 = close_call (conn_run sc (replicate n (Answer True)) ?c1)" using c1 by (simp add: conn_run_def conn_step_def)
  have "conns_inv ?c3" "set (leaked ?c3) = {..<n - 1}"
    unfolding c3 c2 by (auto simp: conns_inv_def close_call_def leaked_def n distinct_removeAll)
  from leaked_run [OF this(1), of sc evs] this(2) show ?thesis by (simp add: conn_run_def)
qed

section \<open>The Bloom filter, opened in two steps\<close>

text \<open>The connection first, then the row: \<open>this.db\<close> is set before the bits are.\<close>

definition bloom_connected :: "bloom \<Rightarrow> bloom" where
  "bloom_connected b = b\<lparr>bl_open := True\<rparr>"

definition bloom_row_read :: "bloom_row option \<Rightarrow> bloom \<Rightarrow> bloom" where
  "bloom_row_read row b = b\<lparr>bl_bits := Some (case row of
      Some r \<Rightarrow> if br_m r = bl_m b \<and> br_k r = bl_k b then br_bits r else replicate ((bl_m b + 7) div 8) 0
    | None \<Rightarrow> replicate ((bl_m b + 7) div 8) 0)\<rparr>"

lemma bloom_open_steps: "\<not> bl_open b \<Longrightarrow> bloom_row_read row (bloom_connected b) = bloom_open row b"
  by (cases row) (simp_all add: bloom_open_def bloom_row_read_def bloom_connected_def)

section \<open>Properties of the connections\<close>

text \<open>Note: Only awaited opens are idempotent: if every call of open waits for the answer to the one before, an
  object never has more than one connection and close leaves none; but n calls before the first
  answer open n connections, of which close closes the last, and the other n - 1 stay open
  whatever is called afterwards.\<close>

theorem overlapping_opens_leak:
  "(awaited 0 evs \<longrightarrow> length (c_live (conn_run sc evs (new_conns files))) \<le> 1
      \<and> c_live (close_call (conn_run sc evs (new_conns files))) = [])
   \<and> (openable sc (new_conns files) \<and> 0 < n \<longrightarrow>
      {..<n - 1} \<subseteq> set (leaked (conn_run sc (replicate n Call @ replicate n (Answer True) @ Close # evs) (new_conns files))))"
  using awaited_live [of 0 evs "new_conns files" sc] overlapping_leak [of sc files n evs]
  by (auto simp: new_conns_def close_call_def split: option.splits)

lemma overlapping_opens_leak_witness:
  "length (c_live (conn_run spool_schema [Call, Answer True, Close, Call] (new_conns (\<lambda>_. None)))) \<le> 1
    \<and> 0 \<in> set (leaked (conn_run spool_schema [Call, Call, Answer True, Answer True, Close, Call] (new_conns (\<lambda>_. None))))"
  using overlapping_opens_leak [of "[Call, Answer True, Close, Call]" spool_schema "\<lambda>_. None" 2]
    overlapping_opens_leak [of "[Call]" spool_schema "\<lambda>_. None" 2]
  by (simp add: openable_def new_conns_def numeral_2_eq_2 lessThan_Suc)

text \<open>Note: The store is there after open: an answered open of an absent database, or of one that this code has
  made, leaves a database of version 1 with the store, its key path and its indexes; the four
  databases do not touch each other; a database of version 1 without the store is opened as it
  is, and one of a later version is refused.\<close>

definition has_store :: "schema \<Rightarrow> (string \<Rightarrow> db_file option) \<Rightarrow> bool" where
  "has_store sc files \<longleftrightarrow> (\<exists>f. files (sc_db sc) = Some f \<and> file_version f = DB_VERSION
     \<and> map_of (file_stores f) (sc_store sc) = Some (sc_key sc, sc_indexes sc))"

theorem open_makes_store:
  "((c_files c (sc_db sc) = None \<or> has_store sc (c_files c)) \<and> 0 < c_pending c \<longrightarrow>
     snd (open_answer sc True c) \<and> getDb (fst (open_answer sc True c)) = Some (c_fresh c) \<and> has_store sc (c_files (fst (open_answer sc True c)))
     \<and> (\<forall>sc'. sc_db sc' \<noteq> sc_db sc \<longrightarrow> has_store sc' (c_files (fst (open_answer sc True c))) = has_store sc' (c_files c)))
   \<and> (c_files c (sc_db sc) = Some f \<and> 0 < c_pending c \<longrightarrow>
     (file_version f = DB_VERSION \<longrightarrow> c_files (fst (open_answer sc True c)) = c_files c)
     \<and> (DB_VERSION < file_version f \<longrightarrow> \<not> snd (open_answer sc True c) \<and> getDb (fst (open_answer sc True c)) = getDb c))"
  by (cases "c_files c (sc_db sc)") (auto simp: open_answer_def Let_def open_file_def has_store_def upgrade_def DB_VERSION_def getDb_def)

lemma open_makes_store_witness:
  "has_store inbox_schema (c_files (fst (open_answer inbox_schema True (fst (open_call (new_conns (\<lambda>_. None)))))))"
  using open_makes_store [of "fst (open_call (new_conns (\<lambda>_. None)))" inbox_schema "undefined"]
  by (simp add: open_call_def new_conns_def)

text \<open>Note: A second open of the Bloom filter forgets: when two calls of open overlap, the second reads its row
  after the first is in use, and an id marked in between is new again; while the first has its
  connection but not yet its row, a further open returns at once and every query throws.\<close>

theorem bloom_reopened_forgets:
  assumes "\<not> bl_open b" and "0 < bl_m b" and "0 < bl_k b"
  shows "bloom_hasSeen (bloom_markSeen (bloom_row_read None (bloom_connected b)) x) x = Some True
    \<and> bloom_hasSeen (bloom_row_read None (bloom_connected (bloom_markSeen (bloom_row_read None (bloom_connected b)) x))) x = Some False
    \<and> (bl_bits b = None \<longrightarrow> bloom_open row (bloom_connected b) = bloom_connected b \<and> bloom_hasSeen (bloom_connected b) x = None)"
proof -
  let ?b1 = "bloom_row_read None (bloom_connected b)"
  have b1: "?b1 = bloom_open None b" by (rule bloom_open_steps [OF assms(1)])
  have ok: "bloom_ok ?b1" unfolding b1 by (rule bloom_open_ok [OF assms(2,1)]) simp
  have "bloom_hasSeen (bloom_markSeen ?b1 x) x = Some True" using ok by (auto simp: bloom_mark_seen [OF ok] bloom_ok_def)
  moreover have "bloom_hasSeen (bloom_row_read None (bloom_connected (bloom_markSeen ?b1 x))) x
      = bloom_hasSeen (bloom_open None (new_bloom (bl_m b) (bl_k b))) x"
    by (simp add: bloom_hasSeen_def bloom_row_read_def bloom_connected_def bloom_markSeen_def bloom_open_def new_bloom_def)
  moreover have "bl_bits b = None \<longrightarrow> bloom_open row (bloom_connected b) = bloom_connected b \<and> bloom_hasSeen (bloom_connected b) x = None"
    by (simp add: bloom_open_def bloom_connected_def bloom_hasSeen_def)
  ultimately show ?thesis using bloom_empty [OF assms(2)] assms(3) by simp
qed

lemma bloom_reopened_forgets_witness:
  "bloom_hasSeen (bloom_row_read None (bloom_connected (bloom_markSeen (bloom_row_read None (bloom_connected (new_bloom 64 3))) ''a''))) ''a'' = Some False"
  using bloom_reopened_forgets [of "new_bloom 64 3" "''a''"] by (simp add: new_bloom_def)

end
