(* ===== verification/Identity_Lock.thy ===== *)
theory Identity_Lock
  imports Prelude
begin

text \<open>
  How the calls of \<open>getOrCreateDeviceIdentity\<close> are kept apart: the in-flight promise of each tab
  and, across the tabs of an origin, the Web Lock of \<open>withIdentityLock\<close> where the runtime has
  one. Identities are numbered in the order they are generated; what happens inside one call is
  the subject of \<open>Identity\<close>, here it is cut at the points where other tabs may act. Wiping and
  restoring (\<open>clearDeviceIdentity\<close>, \<open>replaceDeviceIdentity\<close>) take no lock.
\<close>

section \<open>The tabs of an origin\<close>

text \<open>
  A call in flight: it has asked for the lock; it runs; it has read (and opened) what is stored;
  it has generated and wrapped a new identity.
\<close>

datatype phase = Asked | Holding | Read "nat option" | Minted nat

text \<open>\<open>t_got\<close>: the answers to the callers, with whether the identity counts as stored.\<close>

record tab =
  t_cached :: "nat option"
  t_flight :: "phase option"
  t_waiting :: nat
  t_got :: "(nat \<times> bool) list"

record origin =
  tabs :: "nat \<Rightarrow> tab"
  disk :: "nat option"
  lock :: "nat option"
  lock_queue :: "nat list"
  fresh :: nat
  has_locks :: bool

definition new_tab :: tab where
  "new_tab = \<lparr>t_cached = None, t_flight = None, t_waiting = 0, t_got = []\<rparr>"

definition new_origin :: "bool \<Rightarrow> nat option \<Rightarrow> nat \<Rightarrow> origin" where
  "new_origin locks d n = \<lparr>tabs = (\<lambda>_. new_tab), disk = d, lock = None, lock_queue = [], fresh = n, has_locks = locks\<rparr>"

definition upd_tab :: "nat \<Rightarrow> (tab \<Rightarrow> tab) \<Rightarrow> origin \<Rightarrow> origin" where
  "upd_tab t f g = g\<lparr>tabs := (tabs g)(t := f (tabs g t))\<rparr>"

text \<open>The browser hands a free lock to the first in the queue.\<close>

definition grant_next :: "origin \<Rightarrow> origin" where
  "grant_next g = (case (lock g, lock_queue g) of
      (None, t # ts) \<Rightarrow> upd_tab t (t_flight_update (\<lambda>_. Some Holding)) (g\<lparr>lock := Some t, lock_queue := ts\<rparr>)
    | _ \<Rightarrow> g)"

definition withIdentityLock :: "nat \<Rightarrow> origin \<Rightarrow> origin" where
  "withIdentityLock t g =
     (if has_locks g then grant_next (g\<lparr>lock_queue := lock_queue g @ [t]\<rparr>)
      else upd_tab t (t_flight_update (\<lambda>_. Some Holding)) g)"

definition release :: "nat \<Rightarrow> origin \<Rightarrow> origin" where
  "release t g = (if lock g = Some t then grant_next (g\<lparr>lock := None\<rparr>) else g)"

text \<open>\<open>getOrCreateDeviceIdentity\<close>.\<close>

definition ask :: "nat \<Rightarrow> origin \<Rightarrow> origin" where
  "ask t g =
     (let b = tabs g t in
      case t_cached b of
        Some i \<Rightarrow> upd_tab t (t_got_update (\<lambda>xs. xs @ [(i, True)])) g
      | None \<Rightarrow>
          if t_flight b \<noteq> None then upd_tab t (t_waiting_update Suc) g
          else withIdentityLock t (upd_tab t (\<lambda>b. b\<lparr>t_flight := Some Asked, t_waiting := 1\<rparr>) g))"

text \<open>The promise of the flight settles: all its callers get the identity, and \<open>finally\<close> runs.\<close>

definition settle :: "nat \<Rightarrow> (nat \<times> bool) option \<Rightarrow> origin \<Rightarrow> origin" where
  "settle t answer g = release t (upd_tab t (\<lambda>b. b\<lparr>t_flight := None, t_waiting := 0,
     t_got := t_got b @ (case answer of None \<Rightarrow> [] | Some i \<Rightarrow> replicate (t_waiting b) i)\<rparr>) g)"

text \<open>How the storage behaves in a step: as it should, as unavailable or full, or with another error.\<close>

datatype outcome = Fine | Unavailable | Throws

text \<open>The throwaway identity of a session without storage.\<close>

definition ephemeral :: "nat \<Rightarrow> origin \<Rightarrow> origin" where
  "ephemeral t g = settle t (Some (fresh g, False)) (g\<lparr>fresh := Suc (fresh g)\<rparr>)"

definition keep_identity :: "nat \<Rightarrow> nat \<Rightarrow> origin \<Rightarrow> origin" where
  "keep_identity t i g = settle t (Some (i, True)) (upd_tab t (t_cached_update (\<lambda>_. Some i)) g)"

text \<open>
  \<open>getOrCreateDeviceIdentityInner\<close>, one piece at a time: the check under the lock and the load;
  the stored identity opened, or a new one generated; its write. Which errors the load and the
  opening can raise, and the recovery from them, is in \<open>Identity\<close>. A stored identity without its
  seed (a legacy row, which the code replaces by a minted one after opening it) is not a
  transition of its own here: as to who gets which identity it counts as an absent row, \<open>disk = None\<close>; the
  replacement itself is \<open>replace_legacy\<close> in \<open>Identity\<close>, its outcome in \<open>Identity_Restore\<close>.
\<close>

definition begin_inner :: "nat \<Rightarrow> outcome \<Rightarrow> origin \<Rightarrow> origin" where
  "begin_inner t ok g = (case t_cached (tabs g t) of
      Some i \<Rightarrow> settle t (Some (i, True)) g
    | None \<Rightarrow>
        (case ok of Fine \<Rightarrow> upd_tab t (t_flight_update (\<lambda>_. Some (Read (disk g)))) g
         | Unavailable \<Rightarrow> ephemeral t g | Throws \<Rightarrow> settle t None g))"

definition stored_opened :: "nat \<Rightarrow> outcome \<Rightarrow> nat \<Rightarrow> origin \<Rightarrow> origin" where
  "stored_opened t ok i g = (if ok = Fine then keep_identity t i g else settle t None g)"

definition generate_new :: "nat \<Rightarrow> origin \<Rightarrow> origin" where
  "generate_new t g = upd_tab t (t_flight_update (\<lambda>_. Some (Minted (fresh g)))) (g\<lparr>fresh := Suc (fresh g)\<rparr>)"

definition write_new :: "nat \<Rightarrow> outcome \<Rightarrow> nat \<Rightarrow> origin \<Rightarrow> origin" where
  "write_new t ok n g = (case ok of Fine \<Rightarrow> keep_identity t n (g\<lparr>disk := Some n\<rparr>)
    | Unavailable \<Rightarrow> ephemeral t g | Throws \<Rightarrow> settle t None g)"

definition inner_step :: "nat \<Rightarrow> outcome \<Rightarrow> origin \<Rightarrow> origin" where
  "inner_step t ok g = (case t_flight (tabs g t) of
      Some Holding \<Rightarrow> begin_inner t ok g
    | Some (Read (Some i)) \<Rightarrow> stored_opened t ok i g
    | Some (Read None) \<Rightarrow> generate_new t g
    | Some (Minted n) \<Rightarrow> write_new t ok n g
    | _ \<Rightarrow> g)"

lemmas inner_defs = inner_step_def begin_inner_def stored_opened_def generate_new_def write_new_def

text \<open>
  \<open>clearDeviceIdentity\<close> and \<open>replaceDeviceIdentity\<close>: first the tab's own cache, then, after an
  \<open>await\<close>, the rows; the latter drops the cache once more at its end.
\<close>

definition forget_cache :: "nat \<Rightarrow> origin \<Rightarrow> origin" where
  "forget_cache t = upd_tab t (t_cached_update (\<lambda>_. None))"

definition delete_rows :: "origin \<Rightarrow> origin" where
  "delete_rows g = g\<lparr>disk := None\<rparr>"

definition write_rows :: "origin \<Rightarrow> origin" where
  "write_rows g = g\<lparr>disk := Some (fresh g), fresh := Suc (fresh g)\<rparr>"

text \<open>A tab is reloaded: its memory goes, its call dies, and the browser takes its lock back.\<close>

definition reload_tab :: "nat \<Rightarrow> origin \<Rightarrow> origin" where
  "reload_tab t g = release t ((upd_tab t (\<lambda>b. new_tab\<lparr>t_got := t_got b\<rparr>) g)\<lparr>lock_queue := filter (\<lambda>u. u \<noteq> t) (lock_queue g)\<rparr>)"

datatype tab_event = Ask nat | Go nat outcome | Reload nat | ForgetCache nat | DeleteRows | WriteRows

definition tab_step :: "tab_event \<Rightarrow> origin \<Rightarrow> origin" where
  "tab_step ev g = (case ev of Ask t \<Rightarrow> ask t g | Go t ok \<Rightarrow> inner_step t ok g | Reload t \<Rightarrow> reload_tab t g
     | ForgetCache t \<Rightarrow> forget_cache t g | DeleteRows \<Rightarrow> delete_rows g | WriteRows \<Rightarrow> write_rows g)"

definition tab_run :: "tab_event list \<Rightarrow> origin \<Rightarrow> origin" where
  "tab_run evs g = fold tab_step evs g"

definition touches_rows :: "tab_event \<Rightarrow> bool" where
  "touches_rows ev \<longleftrightarrow> ev = DeleteRows \<or> ev = WriteRows"

section \<open>Mutual exclusion\<close>

text \<open>
  With Web Locks: who runs holds the lock, who has asked is in the queue, the lock is not left
  free while somebody waits, and only the holder's view of the disk is in use.
\<close>

definition exclusive :: "origin \<Rightarrow> bool" where
  "exclusive g \<longleftrightarrow> has_locks g
     \<and> (\<forall>t. (t_flight (tabs g t) \<noteq> None \<and> t_flight (tabs g t) \<noteq> Some Asked) = (lock g = Some t))
     \<and> (\<forall>t. (t_flight (tabs g t) = Some Asked) = (t \<in> set (lock_queue g)))
     \<and> distinct (lock_queue g) \<and> (lock g = None \<longrightarrow> lock_queue g = [])
     \<and> (\<forall>t. t_flight (tabs g t) = None \<longrightarrow> t_waiting (tabs g t) = 0)"

definition in_step :: "origin \<Rightarrow> bool" where
  "in_step g \<longleftrightarrow> (\<forall>t i. t_cached (tabs g t) = Some i \<longrightarrow> disk g = Some i)
     \<and> (\<forall>t r. t_flight (tabs g t) = Some (Read r) \<longrightarrow> disk g = r)
     \<and> (\<forall>t n. t_flight (tabs g t) = Some (Minted n) \<longrightarrow> disk g = None)
     \<and> (\<forall>t i. (i, True) \<in> set (t_got (tabs g t)) \<longrightarrow> disk g = Some i)"

text \<open>Everything but the last condition on the lock: what \<open>grant_next\<close> puts right.\<close>

definition grantable :: "origin \<Rightarrow> bool" where
  "grantable g \<longleftrightarrow> has_locks g
     \<and> (\<forall>t. (t_flight (tabs g t) \<noteq> None \<and> t_flight (tabs g t) \<noteq> Some Asked) = (lock g = Some t))
     \<and> (\<forall>t. (t_flight (tabs g t) = Some Asked) = (t \<in> set (lock_queue g)))
     \<and> distinct (lock_queue g) \<and> (\<forall>t. t_flight (tabs g t) = None \<longrightarrow> t_waiting (tabs g t) = 0)"

lemma exclusive_grant: "grantable g \<Longrightarrow> exclusive (grant_next g)"
  by (cases "lock g"; cases "lock_queue g") (auto simp: grantable_def exclusive_def grant_next_def upd_tab_def)

lemma grantable_exclusive: "exclusive g \<Longrightarrow> grantable g"
  by (auto simp: grantable_def exclusive_def)

lemma exclusive_holder:
  "exclusive g \<Longrightarrow> t_flight (tabs g t) = Some p \<Longrightarrow> p \<noteq> Asked \<Longrightarrow> lock g = Some t"
  by (auto simp: exclusive_def)

lemma exclusive_settle:
  assumes "exclusive g" and "lock g = Some t"
  shows "exclusive (settle t a g)"
proof -
  have "grantable ((upd_tab t (\<lambda>b. b\<lparr>t_flight := None, t_waiting := 0,
     t_got := t_got b @ (case a of None \<Rightarrow> [] | Some i \<Rightarrow> replicate (t_waiting b) i)\<rparr>) g)\<lparr>lock := None\<rparr>)"
    using assms by (auto simp: exclusive_def grantable_def upd_tab_def)
  then show ?thesis using exclusive_grant assms(2) by (simp add: settle_def release_def upd_tab_def)
qed

lemma upd_fields [simp]:
  "lock_queue (upd_tab t h g) = lock_queue g" "has_locks (upd_tab t h g) = has_locks g" "lock (upd_tab t h g) = lock g"
  "disk (upd_tab t h g) = disk g" "fresh (upd_tab t h g) = fresh g"
  by (simp_all add: upd_tab_def)

lemma exclusive_keep:
  assumes "exclusive g" and "\<And>b. t_flight (f b) = t_flight b"
    and "t_flight (tabs g t) = None \<Longrightarrow> t_waiting (f (tabs g t)) = t_waiting (tabs g t)"
  shows "exclusive (upd_tab t f g)"
proof -
  have f: "t_flight (tabs (upd_tab t f g) u) = t_flight (tabs g u)" for u using assms(2) by (simp add: upd_tab_def)
  have w: "\<forall>u. t_flight (tabs g u) = None \<longrightarrow> t_waiting (tabs (upd_tab t f g) u) = 0"
    using assms(1,3) by (simp add: upd_tab_def exclusive_def)
  show ?thesis using assms(1) w unfolding exclusive_def f upd_fields by blast
qed

lemma exclusive_ask: "exclusive g \<Longrightarrow> exclusive (ask t g)"
proof (cases "t_cached (tabs g t) = None \<and> t_flight (tabs g t) = None")
  case True
  assume ex: "exclusive g"
  let ?g = "upd_tab t (\<lambda>b. b\<lparr>t_flight := Some Asked, t_waiting := 1\<rparr>) g"
  have "lock g \<noteq> Some t" "t \<notin> set (lock_queue g)" using ex True by (metis exclusive_def option.distinct(1))+
  then have "grantable (?g\<lparr>lock_queue := lock_queue ?g @ [t]\<rparr>)" "has_locks ?g"
    using ex by (auto simp: exclusive_def grantable_def upd_tab_def)
  then show ?thesis using exclusive_grant True by (simp add: ask_def withIdentityLock_def Let_def)
next
  case False
  assume "exclusive g"
  then show ?thesis using False by (auto simp: ask_def Let_def split: option.splits intro!: exclusive_keep)
qed

lemma exclusive_phase:
  "exclusive g \<Longrightarrow> lock g = Some t \<Longrightarrow> p \<noteq> Asked \<Longrightarrow> exclusive (upd_tab t (t_flight_update (\<lambda>_. Some p)) g)"
  by (auto simp: exclusive_def upd_tab_def)

lemma cached_fields [simp]:
  "t_flight (tabs (upd_tab t (t_cached_update f) g) u) = t_flight (tabs g u)"
  "t_waiting (tabs (upd_tab t (t_cached_update f) g) u) = t_waiting (tabs g u)"
  "t_got (tabs (upd_tab t (t_cached_update f) g) u) = t_got (tabs g u)"
  by (simp_all add: upd_tab_def)

lemma exclusive_fields [simp]:
  "exclusive (g\<lparr>disk := d\<rparr>) = exclusive g" "exclusive (g\<lparr>fresh := n\<rparr>) = exclusive g"
  "exclusive (upd_tab t (t_cached_update f) g) = exclusive g"
  by (simp_all add: exclusive_def)

lemma lock_fields [simp]:
  "disk (grant_next g) = disk g" "disk (release t g) = disk g" "disk (settle t a g) = disk g"
  by (auto simp: upd_tab_def grant_next_def release_def settle_def split: option.splits list.splits)

lemma exclusive_inner: "exclusive g \<Longrightarrow> exclusive (inner_step t ok g)"
proof -
  assume ex: "exclusive g"
  have "exclusive (settle t a (g\<lparr>fresh := n\<rparr>))" "exclusive (settle t a g)"
    "exclusive (keep_identity t i g)" "exclusive (keep_identity t i (g\<lparr>disk := d\<rparr>))" if "lock g = Some t" for a n i d
    using ex that by (auto simp: keep_identity_def intro!: exclusive_settle)
  then show ?thesis using ex exclusive_holder [OF ex, of t]
    by (auto simp: inner_defs ephemeral_def intro!: exclusive_phase split: option.splits phase.splits outcome.splits)
qed

lemma exclusive_reload: "exclusive g \<Longrightarrow> exclusive (reload_tab t g)"
proof -
  assume ex: "exclusive g"
  let ?g = "(upd_tab t (\<lambda>b. new_tab\<lparr>t_got := t_got b\<rparr>) g)\<lparr>lock_queue := filter (\<lambda>u. u \<noteq> t) (lock_queue g)\<rparr>"
  show ?thesis
  proof (cases "lock g = Some t")
    case True
    have "grantable (?g\<lparr>lock := None\<rparr>)" using ex True by (auto simp: exclusive_def grantable_def upd_tab_def new_tab_def)
    then show ?thesis using True exclusive_grant by (simp add: reload_tab_def release_def)
  next
    case False
    then have "exclusive ?g" using ex by (auto simp: exclusive_def upd_tab_def new_tab_def)
    then show ?thesis using False by (simp add: reload_tab_def release_def)
  qed
qed

lemma exclusive_step: "exclusive g \<Longrightarrow> exclusive (tab_step ev g)"
  by (cases ev) (simp_all add: tab_step_def exclusive_ask exclusive_inner exclusive_reload forget_cache_def delete_rows_def write_rows_def)

section \<open>One identity\<close>

lemma in_step_upd:
  assumes "in_step g" and "\<And>i. t_cached (f (tabs g t)) = Some i \<Longrightarrow> disk g = Some i"
    and "\<And>r. t_flight (f (tabs g t)) = Some (Read r) \<Longrightarrow> disk g = r" and "\<And>n. t_flight (f (tabs g t)) = Some (Minted n) \<Longrightarrow> disk g = None"
    and "\<And>i. (i, True) \<in> set (t_got (f (tabs g t))) \<Longrightarrow> disk g = Some i"
  shows "in_step (upd_tab t f g)"
  using assms unfolding in_step_def by (auto simp: upd_tab_def)

lemma tabs_upd: "tabs (upd_tab t f g) u = (if u = t then f (tabs g t) else tabs g u)"
  by (simp add: upd_tab_def)

lemma in_stepD:
  assumes "in_step g"
  shows "t_cached (tabs g t) = Some i \<Longrightarrow> disk g = Some i" "t_flight (tabs g t) = Some (Read r) \<Longrightarrow> disk g = r"
    "t_flight (tabs g t) = Some (Minted n) \<Longrightarrow> disk g = None" "(i, True) \<in> set (t_got (tabs g t)) \<Longrightarrow> disk g = Some i"
  using assms by (auto simp: in_step_def)

lemma in_step_fields [simp]:
  "in_step (g\<lparr>lock := l\<rparr>) = in_step g" "in_step (g\<lparr>lock_queue := q\<rparr>) = in_step g" "in_step (g\<lparr>fresh := n\<rparr>) = in_step g"
  by (simp_all add: in_step_def)

lemma in_step_grant: "in_step g \<Longrightarrow> in_step (grant_next g)"
  by (auto simp: grant_next_def split: option.splits list.splits intro!: in_step_upd intro: in_stepD)

lemma in_step_release: "in_step g \<Longrightarrow> in_step (release t g)"
  by (simp add: release_def in_step_grant)

lemma in_step_settle:
  "in_step g \<Longrightarrow> (\<And>i. a = Some (i, True) \<Longrightarrow> disk g = Some i) \<Longrightarrow> in_step (settle t a g)"
  unfolding settle_def by (intro in_step_release in_step_upd) (auto intro: in_stepD split: option.splits)

lemma in_step_ask: "in_step g \<Longrightarrow> in_step (ask t g)"
  by (auto simp: ask_def withIdentityLock_def Let_def tabs_upd split: option.splits intro!: in_step_grant in_step_upd)
     (auto simp: in_step_def)

lemma in_step_keep: "in_step g \<Longrightarrow> disk g = Some i \<Longrightarrow> in_step (keep_identity t i g)"
  unfolding keep_identity_def by (intro in_step_settle in_step_upd) (auto simp: in_step_def)

lemma in_step_first_write:
  assumes "in_step g" and "exclusive g" and "t_flight (tabs g t) = Some (Minted n)"
  shows "in_step (keep_identity t n (g\<lparr>disk := Some n\<rparr>))"
proof -
  have none: "disk g = None" and l: "lock g = Some t" using in_stepD(3) [OF assms(1,3)] exclusive_holder [OF assms(2,3)] by simp_all
  have "t_cached (tabs g u) = None" for u using in_stepD(1) [OF assms(1)] none by (cases "t_cached (tabs g u)") auto
  moreover have "(i, True) \<notin> set (t_got (tabs g u))" for u i using in_stepD(4) [OF assms(1), of i u] none by auto
  moreover have "u = t" if "t_flight (tabs g u) = Some p" "p \<noteq> Asked" for u p
    using exclusive_holder [OF assms(2) that] l by simp
  ultimately have "in_step (upd_tab t (\<lambda>b. b\<lparr>t_cached := Some n, t_flight := None, t_waiting := 0,
      t_got := t_got b @ replicate (t_waiting b) (n, True)\<rparr>) (g\<lparr>disk := Some n\<rparr>))"
    by (fastforce simp: in_step_def upd_tab_def)
  moreover have "keep_identity t n (g\<lparr>disk := Some n\<rparr>) = release t (upd_tab t (\<lambda>b. b\<lparr>t_cached := Some n, t_flight := None, t_waiting := 0,
      t_got := t_got b @ replicate (t_waiting b) (n, True)\<rparr>) (g\<lparr>disk := Some n\<rparr>))"
    by (simp add: keep_identity_def settle_def upd_tab_def)
  ultimately show ?thesis using in_step_release by simp
qed

lemma in_step_inner: "in_step g \<Longrightarrow> exclusive g \<Longrightarrow> in_step (inner_step t ok g)"
proof (cases "t_flight (tabs g t)")
  case (Some p)
  assume inv: "in_step g" "exclusive g"
  note settle = in_step_settle [OF inv(1)] in_step_settle [of "g\<lparr>fresh := m\<rparr>" for m, simplified, OF inv(1)]
  show ?thesis
  proof (cases p)
    case Holding
    then show ?thesis using Some inv
      by (auto simp: inner_defs ephemeral_def split: option.splits outcome.splits intro!: settle in_step_upd intro: in_stepD)
  next
    case (Read r)
    then show ?thesis using Some inv in_stepD(2) [OF inv(1), of t r]
      by (auto simp: inner_defs split: option.splits intro!: settle in_step_keep in_step_upd intro: in_stepD)
  next
    case (Minted n)
    then show ?thesis using Some inv
      by (auto simp: inner_defs ephemeral_def split: outcome.splits intro!: settle in_step_first_write)
  qed (use Some inv in \<open>simp add: inner_defs\<close>)
qed (simp add: inner_defs)

lemma in_step_reload: "in_step g \<Longrightarrow> in_step (reload_tab t g)"
proof -
  assume inv: "in_step g"
  have "in_step (upd_tab t (\<lambda>b. new_tab\<lparr>t_got := t_got b\<rparr>) g)"
    by (rule in_step_upd [OF inv]) (use inv in \<open>auto simp: new_tab_def in_step_def\<close>)
  then show ?thesis by (simp add: reload_tab_def in_step_release)
qed

lemma in_step_forget: "in_step g \<Longrightarrow> in_step (forget_cache t g)"
  unfolding forget_cache_def by (rule in_step_upd) (auto simp: in_step_def)

lemma in_step_step: "in_step g \<Longrightarrow> exclusive g \<Longrightarrow> \<not> touches_rows ev \<Longrightarrow> in_step (tab_step ev g)"
  by (cases ev) (simp_all add: tab_step_def touches_rows_def in_step_ask in_step_inner in_step_reload in_step_forget)

interpretation locked: kept_by_events tab_step "\<lambda>ev. \<not> touches_rows ev" "\<lambda>g. exclusive g \<and> in_step g"
  by unfold_locales (simp add: exclusive_step in_step_step)

lemma new_origin_inv: "exclusive (new_origin True d n)" "in_step (new_origin True d n)"
  by (simp_all add: new_origin_def exclusive_def in_step_def new_tab_def)

section \<open>Properties of the lock\<close>

text \<open>C10: With Web Locks an origin has one identity: whatever the tabs do (ask at any moment, be reloaded in the
  middle of a call, find the storage unavailable or broken at any step), as long as nobody wipes or
  restores, at most one call runs at a time, the lock never lies free while somebody waits, and
  every identity that counts as stored, cached in any tab or ever answered to any caller of any
  tab, is the one on the disk.\<close>

theorem one_identity_per_origin:
  assumes "\<forall>ev \<in> set evs. \<not> touches_rows ev"
  shows "(\<forall>t u. t_flight (tabs (tab_run evs (new_origin True d n)) t) \<notin> {None, Some Asked}
        \<and> t_flight (tabs (tab_run evs (new_origin True d n)) u) \<notin> {None, Some Asked} \<longrightarrow> t = u)
    \<and> (lock (tab_run evs (new_origin True d n)) = None \<longrightarrow> lock_queue (tab_run evs (new_origin True d n)) = [])
    \<and> (\<forall>t i. t_cached (tabs (tab_run evs (new_origin True d n)) t) = Some i
        \<or> (i, True) \<in> set (t_got (tabs (tab_run evs (new_origin True d n)) t)) \<longrightarrow> disk (tab_run evs (new_origin True d n)) = Some i)"
proof -
  let ?g = "tab_run evs (new_origin True d n)"
  have inv: "exclusive ?g" "in_step ?g" 
    using locked.run_keeps [OF conjI [OF new_origin_inv] assms] by (simp_all add: tab_run_def)
  have "t = u" if "t_flight (tabs ?g t) \<notin> {None, Some Asked}" "t_flight (tabs ?g u) \<notin> {None, Some Asked}" for t u
    using exclusive_holder [OF inv(1), of t] exclusive_holder [OF inv(1), of u] that by fastforce
  then show ?thesis using inv in_stepD [OF inv(2)] by (auto simp: exclusive_def)
qed

lemma one_identity_per_origin_witness:
  "(1, True) \<in> set (t_got (tabs (tab_run [Ask 0, Ask 1, Go 0 Fine, Go 0 Fine, Reload 0, Go 1 Fine, Go 1 Fine, Go 1 Fine] (new_origin True None 0)) 1))
    \<and> disk (tab_run [Ask 0, Ask 1, Go 0 Fine, Go 0 Fine, Reload 0, Go 1 Fine, Go 1 Fine, Go 1 Fine] (new_origin True None 0)) = Some 1"
proof -
  let ?g = "tab_run [Ask 0, Ask 1, Go 0 Fine, Go 0 Fine, Reload 0, Go 1 Fine, Go 1 Fine, Go 1 Fine] (new_origin True None 0)"
  have "(1, True) \<in> set (t_got (tabs ?g 1))" by code_simp
  then show ?thesis
    using one_identity_per_origin [of "[Ask 0, Ask 1, Go 0 Fine, Go 0 Fine, Reload 0, Go 1 Fine, Go 1 Fine, Go 1 Fine]" None 0]
    by (auto simp: touches_rows_def)
qed

section \<open>What a tab holds\<close>


lemma queue_fields [simp]:
  "set (lock_queue (grant_next g)) \<subseteq> set (lock_queue g)"
  "t \<notin> set (lock_queue g) \<Longrightarrow> tabs (grant_next g) t = tabs g t"
  by (auto simp: grant_next_def upd_tab_def split: option.splits list.splits)

lemma grant_queue: "t \<notin> set (lock_queue g) \<Longrightarrow> t \<notin> set (lock_queue (grant_next g))"
  using queue_fields(1) by blast

lemma release_tab: "t \<notin> set (lock_queue g) \<Longrightarrow>
    tabs (release u g) t = tabs g t \<and> t \<notin> set (lock_queue (release u g))"
  by (simp add: release_def grant_queue)

lemma settle_tab: "t \<notin> set (lock_queue g) \<Longrightarrow> u \<noteq> t \<Longrightarrow>
    tabs (settle u a g) t = tabs g t \<and> t \<notin> set (lock_queue (settle u a g))"
  by (simp add: settle_def release_tab tabs_upd)

lemma inner_tab: "t \<notin> set (lock_queue g) \<Longrightarrow> u \<noteq> t \<Longrightarrow>
    tabs (inner_step u ok g) t = tabs g t \<and> t \<notin> set (lock_queue (inner_step u ok g))"
  by (simp add: inner_defs keep_identity_def ephemeral_def settle_tab tabs_upd
      split: option.split phase.split outcome.split)

lemma ask_tab: "t \<notin> set (lock_queue g) \<Longrightarrow> u \<noteq> t \<Longrightarrow>
    tabs (ask u g) t = tabs g t \<and> t \<notin> set (lock_queue (ask u g))"
  by (simp add: ask_def withIdentityLock_def Let_def tabs_upd grant_queue split: option.split)

lemma reload_tab_other: "t \<notin> set (lock_queue g) \<Longrightarrow> u \<noteq> t \<Longrightarrow>
    tabs (reload_tab u g) t = tabs g t \<and> t \<notin> set (lock_queue (reload_tab u g))"
  by (simp add: reload_tab_def release_tab tabs_upd)



text \<open>A cached identity.\<close>

definition serves :: "nat \<Rightarrow> nat \<Rightarrow> origin \<Rightarrow> bool" where
  "serves t i g \<longleftrightarrow> t_cached (tabs g t) = Some i \<and> t_flight (tabs g t) = None \<and> t \<notin> set (lock_queue g)"

lemma serves_step:
  assumes "serves t i g" and "ev \<noteq> ForgetCache t" and "ev \<noteq> Reload t"
  shows "serves t i (tab_step ev g)"
proof (cases ev)
  case (Ask u)
  then show ?thesis using assms ask_tab [of t g u]
    by (cases "u = t") (simp_all add: serves_def tab_step_def ask_def Let_def tabs_upd)
next
  case (Go u ok)
  then show ?thesis using assms inner_tab [of t g u ok]
    by (cases "u = t") (simp_all add: serves_def tab_step_def inner_step_def)
next
  case (ForgetCache u)
  then show ?thesis using assms by (simp add: serves_def tab_step_def forget_cache_def tabs_upd)
next
  case (Reload u)
  then show ?thesis using assms reload_tab_other [of t g u] by (simp add: serves_def tab_step_def)
qed (use assms in \<open>simp_all add: serves_def tab_step_def delete_rows_def write_rows_def\<close>)

lemma serves_run:
  "serves t i g \<Longrightarrow> \<forall>ev \<in> set es. ev \<noteq> ForgetCache t \<and> ev \<noteq> Reload t \<Longrightarrow> serves t i (tab_run es g)"
proof (induction es arbitrary: g)
  case (Cons ev es)
  then show ?case using serves_step [OF Cons.prems(1), of ev] by (simp add: tab_run_def)
qed (simp add: tab_run_def)




text \<open>Note: A tab that has cached an identity is deaf to what other tabs do: through any events but its own reload and
  its own wipe, so also a wipe, a restore or a mint of another tab, it answers every caller with the
  cached identity, as stored.\<close>

theorem cached_identity_deaf:
  assumes "serves t i g" and "\<forall>ev \<in> set es. ev \<noteq> ForgetCache t \<and> ev \<noteq> Reload t"
  shows "t_got (tabs (tab_run (es @ [Ask t]) g) t) = t_got (tabs (tab_run es g) t) @ [(i, True)]"
  using serves_run [OF assms] by (simp add: serves_def tab_run_def tab_step_def ask_def Let_def tabs_upd)

theorem cached_identity_deaf_witness:
  "t_got (tabs (tab_run ([ForgetCache 1, DeleteRows, Ask 1, Go 1 Fine, Go 1 Fine, Go 1 Fine] @ [Ask 0])
      (tab_run [Ask 0, Go 0 Fine, Go 0 Fine] (new_origin True (Some 7) 8))) 0) = [(7, True), (7, True)]"
proof -
  let ?g = "tab_run [Ask 0, Go 0 Fine, Go 0 Fine] (new_origin True (Some 7) 8)"
  let ?es = "[ForgetCache 1, DeleteRows, Ask 1, Go 1 Fine, Go 1 Fine, Go 1 Fine]"
  have s: "serves 0 7 ?g" unfolding serves_def by code_simp
  have "\<forall>ev \<in> set ?es. ev \<noteq> ForgetCache 0 \<and> ev \<noteq> Reload 0" by simp
  from cached_identity_deaf [OF s this]
  have "t_got (tabs (tab_run (?es @ [Ask 0]) ?g) 0) = t_got (tabs (tab_run ?es ?g) 0) @ [(7, True)]" .
  moreover have "t_got (tabs (tab_run ?es ?g) 0) = [(7, True)]" by code_simp
  ultimately show ?thesis by simp
qed

text \<open>Note: Without Web Locks two tabs that start together get different identities, both counted as stored: the
  later write stays, and the first tab serves an identity that is nowhere on the disk.\<close>

theorem tabs_split_without_locks:
  assumes "\<not> has_locks g" and "t \<noteq> u" and "lock g = None"
    and "t_flight (tabs g t) = Some (Read None)" and "t_flight (tabs g u) = Some (Read None)"
  shows "let g' = tab_run [Go t Fine, Go u Fine, Go t Fine, Go u Fine] g in
    t_cached (tabs g' t) = Some (fresh g) \<and> t_cached (tabs g' u) = Some (Suc (fresh g)) \<and> disk g' = Some (Suc (fresh g))"
  using assms
  by (simp add: Let_def tab_run_def tab_step_def inner_step_def generate_new_def write_new_def keep_identity_def
      settle_def release_def tabs_upd)

theorem tabs_split_without_locks_witness:
  "let g' = tab_run [Go 0 Fine, Go 1 Fine, Go 0 Fine, Go 1 Fine]
      (tab_run [Ask 0, Ask 1, Go 0 Fine, Go 1 Fine] (new_origin False None 0)) in
    t_cached (tabs g' 0) = Some 0 \<and> t_cached (tabs g' 1) = Some 1 \<and> disk g' = Some 1"
proof -
  let ?g = "tab_run [Ask 0, Ask 1, Go 0 Fine, Go 1 Fine] (new_origin False None 0)"
  have g: "\<not> has_locks ?g" "(0 :: nat) \<noteq> 1" "lock ?g = None" "t_flight (tabs ?g 0) = Some (Read None)"
    "t_flight (tabs ?g 1) = Some (Read None)" by code_simp+
  have "fresh ?g = 0" by code_simp
  then show ?thesis using tabs_split_without_locks [OF g] by (simp add: Let_def)
qed

end
