(* ===== verification/Diagnostics.thy ===== *)
theory Diagnostics
  imports Prelude
begin

text \<open>
  The small modules around the two packages: the injected sinks for metrics
  (\<open>mesh-core/src/metrics.ts\<close>) and analytics (\<open>identity/src/tracker-shim.ts\<close>), the once-a-session
  probe \<open>probeBrowserSupport\<close>, the error kinds of \<open>crypto/errors.ts\<close> and the buffer copy of
  \<open>crypto/buffer.ts\<close>.
\<close>

section \<open>Sinks\<close>

datatype mesh_metric =
    handshake_failed | replay_rejected | sas_mismatch | unknown_peer_key | tofu_evicted | handshake_timeout
  | inbox_put_failed | mailbox_evicted | mailbox_quota_exceeded | ble_send_failed | handshake_frame_dropped
  | ble_connection_limit_reached | backoff_cleared | bloom_params_changed | handshake_failures_reset
  | handshake_init_aborted

type_synonym labels = "(string, string) jsmap option"

text \<open>The module variable names a sink, 0 being the default that does nothing; what each other sink was given.\<close>

record 'e sinks =
  sink :: nat
  given :: "nat \<Rightarrow> 'e list"

definition new_sinks :: "'e sinks" where
  "new_sinks = \<lparr>sink = 0, given = (\<lambda>_. [])\<rparr>"

definition set_sink :: "nat \<Rightarrow> 'e sinks \<Rightarrow> 'e sinks" where
  "set_sink k s = s\<lparr>sink := k\<rparr>"

definition emit_sink :: "'e \<Rightarrow> 'e sinks \<Rightarrow> 'e sinks" where
  "emit_sink e s = (if sink s = 0 then s else s\<lparr>given := (given s)(sink s := given s (sink s) @ [e])\<rparr>)"

definition setMeshMetricSink :: "nat \<Rightarrow> (mesh_metric \<times> labels) sinks \<Rightarrow> (mesh_metric \<times> labels) sinks" where
  "setMeshMetricSink = set_sink"

definition emitMeshMetric :: "mesh_metric \<Rightarrow> labels \<Rightarrow> (mesh_metric \<times> labels) sinks \<Rightarrow> (mesh_metric \<times> labels) sinks" where
  "emitMeshMetric m ls = emit_sink (m, ls)"

type_synonym tracked = "string \<times> string option \<times> (string, string) jsmap option"

definition setIdentityTracker :: "nat \<Rightarrow> tracked sinks \<Rightarrow> tracked sinks" where
  "setIdentityTracker = set_sink"

definition emit :: "string \<Rightarrow> string option \<Rightarrow> (string, string) jsmap option \<Rightarrow> tracked sinks \<Rightarrow> tracked sinks" where
  "emit event roomId payload = emit_sink (event, roomId, payload)"

section \<open>The probe\<close>

text \<open>Session storage: absent, or present, with whether it can be written and whether the sentinel is there.\<close>

datatype session_storage = NoStorage | Storage bool bool

record prober =
  browserSupportProbed :: bool
  session :: session_storage
  reports :: "bool list"

definition probeBrowserSupport :: "bool \<Rightarrow> prober \<Rightarrow> prober" where
  "probeBrowserSupport ed25519 p =
     (if browserSupportProbed p then p
      else
        let p1 = p\<lparr>browserSupportProbed := True\<rparr>; p2 = p1\<lparr>reports := reports p @ [ed25519]\<rparr> in
        (case session p of
           NoStorage \<Rightarrow> p2
         | Storage writable present \<Rightarrow>
             if present then p1 else if writable then p2\<lparr>session := Storage writable True\<rparr> else p2))"

text \<open>A page load within the browser session.\<close>

definition page_load :: "prober \<Rightarrow> prober" where
  "page_load p = p\<lparr>browserSupportProbed := False\<rparr>"

fun probe_run :: "bool option list \<Rightarrow> prober \<Rightarrow> prober" where
  "probe_run [] p = p"
| "probe_run (None # es) p = probe_run es (page_load p)"
| "probe_run (Some ed # es) p = probe_run es (probeBrowserSupport ed p)"

section \<open>Error kinds and buffers\<close>

definition isCryptoError :: "string \<Rightarrow> bool" where
  "isCryptoError k \<longleftrightarrow> k = ''handshake-failed'' \<or> k = ''replay-rejected'' \<or> k = ''sas-mismatch'' \<or> k = ''unknown-peer-key''"

text \<open>A \<open>Uint8Array\<close>: a window onto a buffer. \<open>toBufferSource\<close> copies the window.\<close>

record byte_view =
  bv_buffer :: bytes
  byteOffset :: nat
  byteLength :: nat

definition view_wf :: "byte_view \<Rightarrow> bool" where
  "view_wf v \<longleftrightarrow> byteOffset v + byteLength v \<le> length (bv_buffer v)"

definition view_get :: "byte_view \<Rightarrow> nat \<Rightarrow> byte option" where
  "view_get v i = (if i < byteLength v then Some (bv_buffer v ! (byteOffset v + i)) else None)"

definition toBufferSource :: "byte_view \<Rightarrow> bytes" where
  "toBufferSource v = js_slice (byteOffset v) (byteOffset v + byteLength v) (bv_buffer v)"

section \<open>Properties\<close>

text \<open>Note: A sink gets what is emitted while it is the latest one registered, in order, and nothing else; what is
  emitted before the first registration is lost.\<close>

fun while_sink :: "nat \<Rightarrow> nat \<Rightarrow> (nat + 'e) list \<Rightarrow> 'e list" where
  "while_sink k cur [] = []"
| "while_sink k cur (Inl j # xs) = while_sink k j xs"
| "while_sink k cur (Inr e # xs) = (if k = cur then e # while_sink k cur xs else while_sink k cur xs)"

theorem sinks_exact:
  "0 < k \<Longrightarrow> given (fold (\<lambda>x s. case x of Inl j \<Rightarrow> set_sink j s | Inr e \<Rightarrow> emit_sink e s) xs s) k
    = given s k @ while_sink k (sink s) xs"
proof (induction xs arbitrary: s)
  case (Cons x xs)
  then show ?case by (cases x) (auto simp: set_sink_def emit_sink_def)
qed simp

lemma sinks_exact_witness:
  "given (fold (\<lambda>x s. case x of Inl j \<Rightarrow> set_sink j s | Inr e \<Rightarrow> emit_sink e s) [Inr ''a'', Inl 1, Inr ''b'', Inl 2, Inr ''c''] new_sinks) 1 = [''b'']"
  using sinks_exact [of 1 "[Inr ''a'', Inl 1, Inr ''b'', Inl 2, Inr ''c'']" new_sinks] by (simp add: new_sinks_def)

text \<open>Note: The runtime is reported at most once a browser session, however often the app asks and reloads, where
  session storage can be written, and at most once a page load where it cannot.\<close>

theorem probe_reports_once:
  assumes "reports p = []"
  shows "session p = Storage True present \<Longrightarrow> length (reports (probe_run es p)) \<le> 1"
    and "length (reports (probe_run es p)) \<le> Suc (length (filter (\<lambda>e. e = None) es))"
proof -
  have once: "length (reports (probe_run es p)) \<le> 1"
    if "session p = Storage True present" "length (reports p) \<le> (if present then 1 else 0)" for p present
    using that
  proof (induction es p arbitrary: present rule: probe_run.induct)
    case (3 ed es p)
    show ?case
    proof (cases "browserSupportProbed p")
      case False
      then show ?thesis using 3(1) [of True] 3(2,3) by (cases present) (simp_all add: probeBrowserSupport_def Let_def)
    qed (use 3 in \<open>simp add: probeBrowserSupport_def\<close>)
  qed (auto simp: page_load_def split: if_splits)
  have per_load: "length (reports (probe_run es p))
      \<le> length (reports p) + (if browserSupportProbed p then 0 else 1) + length (filter (\<lambda>e. e = None) es)" for p
  proof (induction es p rule: probe_run.induct)
    case (2 es p)
    then show ?case by (simp add: page_load_def split: if_splits)
  next
    case (3 ed es p)
    have "length (reports (probeBrowserSupport ed p)) + (if browserSupportProbed (probeBrowserSupport ed p) then 0 else 1)
        \<le> length (reports p) + (if browserSupportProbed p then 0 else (1 :: nat))"
      by (auto simp: probeBrowserSupport_def Let_def split: session_storage.splits)
    then show ?case using 3 by simp
  qed simp
  show "session p = Storage True present \<Longrightarrow> length (reports (probe_run es p)) \<le> 1"
    using once [of p present] assms by (cases present) simp_all
  show "length (reports (probe_run es p)) \<le> Suc (length (filter (\<lambda>e. e = None) es))"
    using per_load [of p] assms by (auto split: if_splits)
qed

text \<open>Note: The copy has the bytes of the window: as many, each the one the view shows, whatever lies around it.\<close>

theorem toBufferSource_window:
  assumes "view_wf v"
  shows "length (toBufferSource v) = byteLength v \<and> (\<forall>i < byteLength v. view_get v i = Some (toBufferSource v ! i))"
  using assms by (auto simp: toBufferSource_def view_wf_def view_get_def js_slice_def nth_take)

end
