(* ===== verification/Idb.thy ===== *)
theory Idb
  imports Prelude
begin

text \<open>
  When IndexedDB counts as usable: \<open>idb-availability.ts\<close>, \<open>idb-errors.ts\<close> and the cached check in
  front of every operation of \<open>idb-store.ts\<close>. A probe is the sequence of callbacks the platform
  fires; only the first outcome counts.
\<close>

section \<open>The probe\<close>

datatype idb_reason = NoIndexedDB | OpenFailed | ProbeTimeout | UpgradeNull

datatype probe_outcome = Available | Unavailable idb_reason

datatype probe_event = TimerFires | OpenErrors | OpenSucceeds | UpgradeNeeded

text \<open>How \<open>indexedDB.open\<close> itself behaves.\<close>

datatype idb_global = IdbUndefined | OpenThrows | OpenReturns "probe_event list"

text \<open>The closure \<open>done\<close>: the first call settles the promise, later calls do nothing.\<close>

definition probe_done :: "probe_outcome \<Rightarrow> probe_outcome option \<Rightarrow> probe_outcome option" where
  "probe_done outcome settled = (case settled of Some old \<Rightarrow> Some old | None \<Rightarrow> Some outcome)"

fun probe_event_step :: "probe_event \<Rightarrow> probe_outcome option \<Rightarrow> probe_outcome option" where
  "probe_event_step TimerFires s = probe_done (Unavailable ProbeTimeout) s"
| "probe_event_step OpenErrors s = probe_done (Unavailable OpenFailed) s"
| "probe_event_step OpenSucceeds s = probe_done Available s"
| "probe_event_step UpgradeNeeded s = s"

text \<open>\<open>None\<close>: the promise is still pending.\<close>

definition probeIDBAvailability :: "idb_global \<Rightarrow> probe_outcome option" where
  "probeIDBAvailability g =
     (case g of
        IdbUndefined \<Rightarrow> Some (Unavailable NoIndexedDB)
      | OpenThrows \<Rightarrow> probe_done (Unavailable OpenFailed) None
      | OpenReturns evs \<Rightarrow> fold probe_event_step evs None)"

definition isIDBAvailable :: "idb_global \<Rightarrow> bool option" where
  "isIDBAvailable g = map_option (\<lambda>r. r = Available) (probeIDBAvailability g)"

section \<open>The cached check\<close>

definition CACHE_TTL_MS :: int where "CACHE_TTL_MS = 5 * 60 * 1000"

record availability =
  av_result :: probe_outcome
  av_cachedAt :: int

text \<open>
  \<open>assertIDBAvailable\<close> at time \<open>now\<close>, for the outcome a probe would have: the new cache and the
  reason of the \<open>IDBUnavailableError\<close> it throws, if any. \<open>probes\<close> tells whether it probed.
\<close>

definition cache_fresh :: "int \<Rightarrow> availability option \<Rightarrow> bool" where
  "cache_fresh now cache = (case cache of None \<Rightarrow> False | Some c \<Rightarrow> now - av_cachedAt c < CACHE_TTL_MS)"

definition outcome_error :: "probe_outcome \<Rightarrow> idb_reason option" where
  "outcome_error r = (case r of Available \<Rightarrow> None | Unavailable e \<Rightarrow> Some e)"

definition assertIDBAvailable ::
  "int \<Rightarrow> probe_outcome \<Rightarrow> availability option \<Rightarrow> availability option \<times> idb_reason option" where
  "assertIDBAvailable now probe cache =
     (if cache_fresh now cache then (cache, outcome_error (av_result (the cache)))
      else (Some \<lparr>av_result = probe, av_cachedAt = now\<rparr>, outcome_error probe))"

definition resetIDBAvailabilityCache :: "availability option \<Rightarrow> availability option" where
  "resetIDBAvailabilityCache cache = None"

section \<open>Opening a database\<close>

text \<open>Errors carry the name and the message the source looks at.\<close>

datatype id_error =
    IDBUnavailableError idb_reason
  | SealedKeyUnavailableError "idb_reason option"
  | Thrown string string

fun error_name :: "id_error \<Rightarrow> string" where
  "error_name (IDBUnavailableError r) = ''IDBUnavailableError''"
| "error_name (SealedKeyUnavailableError r) = ''SealedKeyUnavailableError''"
| "error_name (Thrown n m) = n"

definition IdentityDataError :: "string \<Rightarrow> id_error" where
  "IdentityDataError m = Thrown ''IdentityDataError'' m"

text \<open>
  The callbacks of an \<open>open\<close> request after the check passed; the promise takes the first
  settlement. A broken WebView delivers the upgrade without a database.
\<close>

datatype open_event = ReqError string | ReqSuccess | ReqUpgrade | ReqUpgradeNull

fun open_event_step :: "open_event \<Rightarrow> (id_error + unit) option \<Rightarrow> (id_error + unit) option" where
  "open_event_step ev (Some r) = Some r"
| "open_event_step (ReqError name) None = Some (Inl (Thrown name []))"
| "open_event_step ReqSuccess None = Some (Inr ())"
| "open_event_step ReqUpgrade None = None"
| "open_event_step ReqUpgradeNull None = Some (Inl (Thrown ''UnknownError'' ''IDBDatabase result is null''))"

definition openIDB ::
  "int \<Rightarrow> probe_outcome \<Rightarrow> open_event list \<Rightarrow> availability option
     \<Rightarrow> availability option \<times> (id_error + unit) option" where
  "openIDB now probe evs cache =
     (case assertIDBAvailable now probe cache of
        (cache', Some r) \<Rightarrow> (cache', Some (Inl (IDBUnavailableError r)))
      | (cache', None) \<Rightarrow> (cache', fold open_event_step evs None))"

section \<open>Lemmas\<close>

lemma settled_stays: "fold probe_event_step evs (Some r) = Some r"
proof (induction evs)
  case (Cons ev evs)
  then show ?case by (cases ev) (simp_all add: probe_done_def)
qed simp

lemma fold_upgrades: "set evs \<subseteq> {UpgradeNeeded} \<Longrightarrow> fold probe_event_step evs s = s"
  by (induction evs) auto

lemma first_settles:
  "set evs \<subseteq> {UpgradeNeeded} \<Longrightarrow>
     fold probe_event_step (evs @ ev # rest) None = fold probe_event_step rest (probe_event_step ev None)"
  by (simp add: fold_upgrades)

text \<open>Note: The probe settles, once: whatever callbacks fire and in whatever order, it has an outcome as soon
  as the 500 ms timer or any callback of the open request but the upgrade has fired, the first
  of them decides it, and it reports available exactly when that first one is the success.\<close>

theorem probe_settles:
  assumes "set evs \<subseteq> {UpgradeNeeded}" and "ev \<noteq> UpgradeNeeded"
  shows "isIDBAvailable (OpenReturns (evs @ ev # rest)) = Some (ev = OpenSucceeds)"
  using assms settled_stays
  by (cases ev) (simp_all add: isIDBAvailable_def probeIDBAvailability_def fold_upgrades probe_done_def)

theorem probe_settles_witness:
  "isIDBAvailable (OpenReturns ([UpgradeNeeded] @ TimerFires # [OpenSucceeds])) = Some False"
  using probe_settles [of "[UpgradeNeeded]" TimerFires "[OpenSucceeds]"] by simp

text \<open>Note: A verdict on the storage is believed for five minutes: at every check the answer is that of the
  last probe, and that probe is less than five minutes old; so a storage that recovered is used
  again at the latest five minutes after it was found broken.\<close>

theorem availability_fresh:
  assumes "\<forall>c. cache = Some c \<longrightarrow> av_cachedAt c \<le> now" and "assertIDBAvailable now probe cache = (cache', e)"
  shows "\<exists>c. cache' = Some c \<and> e = outcome_error (av_result c)
    \<and> av_cachedAt c \<le> now \<and> now - av_cachedAt c < 300000
    \<and> (av_cachedAt c < now \<longrightarrow> cache' = cache) \<and> (e \<noteq> outcome_error probe \<longrightarrow> cache' = cache)"
  using assms by (auto simp: assertIDBAvailable_def cache_fresh_def CACHE_TTL_MS_def split: option.splits if_splits)

theorem availability_fresh_witness:
  "snd (assertIDBAvailable 400000 Available (Some \<lparr>av_result = Unavailable OpenFailed, av_cachedAt = 50000\<rparr>)) = None
   \<and> snd (assertIDBAvailable 300000 Available (Some \<lparr>av_result = Unavailable OpenFailed, av_cachedAt = 50000\<rparr>))
      = Some OpenFailed"
  using availability_fresh [of "Some \<lparr>av_result = Unavailable OpenFailed, av_cachedAt = 50000\<rparr>" 300000 Available
      "Some \<lparr>av_result = Unavailable OpenFailed, av_cachedAt = 50000\<rparr>" "Some OpenFailed"]
  by (simp add: assertIDBAvailable_def cache_fresh_def CACHE_TTL_MS_def outcome_error_def)

lemma open_settled: "fold open_event_step evs (Some r) = Some r"
  by (induction evs) simp_all

text \<open>Note: A WebView that upgrades without a database is not reported as unavailable storage: opening rejects
  with an UnknownError, whatever comes after, so no caller that looks for IDBUnavailableError
  takes its fallback; opening rejects with that class exactly when the cached check refuses.\<close>

theorem upgrade_null_escapes:
  "snd (openIDB now Available (ReqUpgradeNull # evs) None)
     = Some (Inl (Thrown ''UnknownError'' ''IDBDatabase result is null''))
   \<and> (snd (openIDB now probe evs' cache) = Some (Inl (IDBUnavailableError r))
        \<longleftrightarrow> snd (assertIDBAvailable now probe cache) = Some r)"
proof -
  have "fold open_event_step evs' None \<noteq> Some (Inl (IDBUnavailableError r))"
  proof (induction evs')
    case (Cons ev evs')
    then show ?case by (cases ev) (simp_all add: open_settled)
  qed simp
  then show ?thesis
    by (auto simp: openIDB_def open_settled assertIDBAvailable_def cache_fresh_def outcome_error_def
        split: prod.splits option.splits if_splits)
qed

end
