(* ===== verification/Id_World.thy ===== *)
theory Id_World
  imports Idb Base64url
begin

text \<open>
  The world the identity package works on: the three IndexedDB databases, the module-level
  variables of \<open>device-identity.ts\<close> and \<open>room-host-seed.ts\<close>, the randomness and the fate of the
  storage operations still to come, and the analytics events sent so far. Asynchronous functions
  are state transformers that return a value or the error they reject with. The operations of
  \<open>idb-store.ts\<close> are here, those of WebCrypto and of the curves library are parameters.
\<close>

named_theorems io_defs \<open>the combinators and the storage operations, unfolded\<close>

section \<open>Values and errors\<close>

record crypto_key =
  ck_type :: string
  ck_alg :: string
  ck_extractable :: bool
  ck_bytes :: bytes

text \<open>What the databases hold, by shape.\<close>

datatype js_value =
    ArrayBuf bytes
  | BufView bytes
  | KeyObj crypto_key
  | IdentityRow string bytes
  | SealedRow string string bytes
  | X25519Row bytes bytes "bytes option"
  | OtherValue

section \<open>opaque-private-key.ts\<close>

datatype opaque_key = OpaquePrivateKey bytes

fun opaque_bytes :: "opaque_key \<Rightarrow> bytes" where
  "opaque_bytes (OpaquePrivateKey bs) = bs"

definition opaque_toJSON :: "opaque_key \<Rightarrow> id_error + string" where
  "opaque_toJSON key = Inl (Thrown ''Error'' ''OpaquePrivateKey is not serializable'')"

definition opaque_toString :: "opaque_key \<Rightarrow> string" where
  "opaque_toString key = ''[OpaquePrivateKey REDACTED]''"

definition opaque_inspect :: "opaque_key \<Rightarrow> string" where
  "opaque_inspect key = ''[OpaquePrivateKey REDACTED]''"

text \<open>No rendering of a wrapped secret depends on it.\<close>

lemma opaque_hides:
  "opaque_toString k = opaque_toString k'" "opaque_inspect k = opaque_inspect k'"
  "opaque_toJSON k = opaque_toJSON k'" "opaque_bytes (OpaquePrivateKey bs) = bs"
  by (simp_all add: opaque_toString_def opaque_inspect_def opaque_toJSON_def)

section \<open>The world\<close>

datatype store = IdentityDb | KekDb | RoomDb

text \<open>
  The fate of one storage operation: it is carried out; it resolves but its transaction aborts at
  the commit; or opening, the request or the transaction fails with an error.
\<close>

datatype reply = Granted | AbortsAtCommit | Refused id_error

record identity =
  publicKeyB64 :: string
  publicKey :: "crypto_key option"
  privateKey :: "crypto_key option"
  privateKeySeed :: "opaque_key option"

record x25519_pair =
  xk_public :: bytes
  xk_private :: "crypto_key option"
  xk_seed :: "bytes option"

record host_keypair =
  hk_public :: string
  hk_private :: "crypto_key option"
  hk_seed :: "bytes option"

record world =
  w_db :: "store \<Rightarrow> string \<Rightarrow> js_value option"
  w_identity :: "identity option"
  w_kek :: "crypto_key option"
  w_clone :: "bool option"
  w_x25519 :: "x25519_pair option"
  w_sealed :: "(string \<times> nat \<times> bytes) option"
  w_epoch :: nat
  w_profile :: "bytes option"
  w_roomSeed :: "bytes option"
  w_roomKek :: "crypto_key option"
  w_roomClone :: "bool option"
  w_hostKeys :: "(string, host_keypair) jsmap"
  w_replies :: "reply list"
  w_draws :: "bytes list"
  w_events :: "(string \<times> string) list"

text \<open>A page load: the databases stay, every module-level variable starts over.\<close>

definition reload :: "world \<Rightarrow> world" where
  "reload w = w\<lparr>w_identity := None, w_kek := None, w_clone := None, w_x25519 := None, w_sealed := None,
     w_epoch := 0, w_profile := None, w_roomSeed := None, w_roomKek := None, w_roomClone := None,
     w_hostKeys := []\<rparr>"

text \<open>A device nothing was ever stored on, with a supply of randomness and a storage that works.\<close>

definition fresh_world :: "bytes list \<Rightarrow> world" where
  "fresh_world draws = \<lparr>w_db = (\<lambda>s k. None), w_identity = None, w_kek = None, w_clone = None,
     w_x25519 = None, w_sealed = None, w_epoch = 0, w_profile = None, w_roomSeed = None, w_roomKek = None,
     w_roomClone = None, w_hostKeys = [], w_replies = [], w_draws = draws, w_events = []\<rparr>"

section \<open>Asynchronous code\<close>

type_synonym 'a io = "world \<Rightarrow> world \<times> (id_error + 'a)"

definition ret :: "'a \<Rightarrow> 'a io" where
  "ret x w = (w, Inr x)"

definition raise :: "id_error \<Rightarrow> 'a io" where
  "raise e w = (w, Inl e)"

definition bindio :: "'a io \<Rightarrow> ('a \<Rightarrow> 'b io) \<Rightarrow> 'b io" where
  "bindio m f w = (case m w of (w', Inl e) \<Rightarrow> (w', Inl e) | (w', Inr x) \<Rightarrow> f x w')"

definition andthen :: "'a io \<Rightarrow> 'b io \<Rightarrow> 'b io" where
  "andthen m n = bindio m (\<lambda>_. n)"

definition tryio :: "'a io \<Rightarrow> (id_error \<Rightarrow> 'a io) \<Rightarrow> 'a io" where
  "tryio m h w = (case m w of (w', Inl e) \<Rightarrow> h e w' | (w', Inr x) \<Rightarrow> (w', Inr x))"

text \<open>A \<open>try\<close> around \<open>m\<close> alone whose handler returns or throws; then the rest.\<close>

definition settle :: "'a io \<Rightarrow> (id_error \<Rightarrow> 'b io) \<Rightarrow> ('a \<Rightarrow> 'b io) \<Rightarrow> 'b io" where
  "settle m h f w = (case m w of (w', Inl e) \<Rightarrow> h e w' | (w', Inr x) \<Rightarrow> f x w')"

definition gets :: "(world \<Rightarrow> 'a) \<Rightarrow> 'a io" where
  "gets f w = (w, Inr (f w))"

definition update :: "(world \<Rightarrow> world) \<Rightarrow> unit io" where
  "update f w = (f w, Inr ())"

definition from_option :: "id_error \<Rightarrow> 'a option \<Rightarrow> 'a io" where
  "from_option e x = (case x of None \<Rightarrow> raise e | Some y \<Rightarrow> ret y)"

text \<open>\<open>track\<close>: an analytics event, with the one label the source bounds.\<close>

definition track :: "string \<Rightarrow> string \<Rightarrow> unit io" where
  "track event label = update (\<lambda>w. w\<lparr>w_events := w_events w @ [(event, label)]\<rparr>)"

text \<open>\<open>n\<close> random bytes; a missing or short supply is filled with zeros.\<close>

definition draw :: "nat \<Rightarrow> bytes io" where
  "draw n w =
     (case w_draws w of
        [] \<Rightarrow> (w, Inr (replicate n 0))
      | d # ds \<Rightarrow> (w\<lparr>w_draws := ds\<rparr>, Inr (take n (d @ replicate n 0))))"

lemmas io_basic [io_defs] = ret_def raise_def bindio_def andthen_def tryio_def settle_def gets_def update_def
  track_def from_option_def

section \<open>The store\<close>

definition next_reply :: "reply io" where
  "next_reply w = (case w_replies w of [] \<Rightarrow> (w, Inr Granted) | r # rs \<Rightarrow> (w\<lparr>w_replies := rs\<rparr>, Inr r))"

definition set_db :: "store \<Rightarrow> (string \<Rightarrow> js_value option) \<Rightarrow> world \<Rightarrow> world" where
  "set_db s d w = w\<lparr>w_db := (w_db w)(s := d)\<rparr>"

text \<open>
  \<open>load\<close>: an absent key is \<open>null\<close>. IndexedDB deserialises what it returns, so a runtime that cannot
  clone a \<open>CryptoKey\<close> cannot read one that an earlier runtime stored either: the load rejects.
\<close>

definition readable :: "bool \<Rightarrow> js_value option \<Rightarrow> bool" where
  "readable clones v = (case v of Some (KeyObj key) \<Rightarrow> clones | _ \<Rightarrow> True)"

definition db_load :: "bool \<Rightarrow> store \<Rightarrow> string \<Rightarrow> js_value option io" where
  "db_load clones s k = bindio next_reply (\<lambda>r. case r of
      Refused e \<Rightarrow> raise e
    | _ \<Rightarrow> bindio (gets (\<lambda>w. w_db w s k)) (\<lambda>v.
        if readable clones v then ret v else raise (Thrown ''DataCloneError'' [])))"

lemma readable_simps [simp]:
  "readable True v" "readable c None" "readable c (Some (ArrayBuf b))" "readable c (Some (BufView b))"
  "readable c (Some (IdentityRow p b))" "readable c (Some (SealedRow x y b))"
  "readable c (Some (X25519Row b d r))" "readable c (Some OtherValue)" "readable c (Some (KeyObj key)) = c"
  by (simp_all add: readable_def split: option.split js_value.split)

text \<open>
  \<open>save\<close>, \<open>delete\<close> and \<open>clear\<close> resolve when the request succeeds, before the transaction commits.
\<close>

definition db_write :: "store \<Rightarrow> ((string \<Rightarrow> js_value option) \<Rightarrow> (string \<Rightarrow> js_value option)) \<Rightarrow> unit io" where
  "db_write s f = bindio next_reply (\<lambda>r. case r of
      Refused e \<Rightarrow> raise e
    | AbortsAtCommit \<Rightarrow> ret ()
    | Granted \<Rightarrow> update (\<lambda>w. set_db s (f (w_db w s)) w))"

text \<open>A \<open>CryptoKey\<close> is only stored where the runtime can clone one.\<close>

definition db_save :: "bool \<Rightarrow> store \<Rightarrow> string \<Rightarrow> js_value \<Rightarrow> unit io" where
  "db_save clones s k v =
     (case v of
        KeyObj key \<Rightarrow> if clones then db_write s (\<lambda>d. d(k \<mapsto> v)) else raise (Thrown ''DataCloneError'' [])
      | _ \<Rightarrow> db_write s (\<lambda>d. d(k \<mapsto> v)))"

definition db_delete :: "store \<Rightarrow> string \<Rightarrow> unit io" where
  "db_delete s k = db_write s (\<lambda>d. d(k := None))"

definition db_clear :: "store \<Rightarrow> unit io" where
  "db_clear s = db_write s (\<lambda>d _. None)"

text \<open>\<open>saveMany\<close> resolves when the transaction is complete: all entries land or none.\<close>

definition db_saveMany :: "store \<Rightarrow> (string \<times> js_value) list \<Rightarrow> unit io" where
  "db_saveMany s kvs = bindio next_reply (\<lambda>r. case r of
      Refused e \<Rightarrow> raise e
    | AbortsAtCommit \<Rightarrow> raise (Thrown ''AbortError'' ''transaction aborted'')
    | Granted \<Rightarrow> update (\<lambda>w. set_db s (fold (\<lambda>(k, v) d. d(k \<mapsto> v)) kvs (w_db w s)) w))"

end
