(* ===== verification/Aes_Kw.thy ===== *)
theory Aes_Kw
  imports Id_World
begin

text \<open>
  \<open>aes-kw.ts\<close> and the WebCrypto calls the package makes. The primitives are
  a record of functions: RFC 3394 key wrapping, Ed25519, X25519 and HKDF. What the runtime
  supports is part of the record, since it changes between sessions.
\<close>

section \<open>The runtime\<close>

datatype curve = Ed25519 | X25519

record platform =
  kw_wrap :: "bytes \<Rightarrow> bytes \<Rightarrow> bytes"
  kw_unwrap :: "bytes \<Rightarrow> bytes \<Rightarrow> bytes option"
  ed_public :: "bytes \<Rightarrow> bytes"
  ed_sign :: "bytes \<Rightarrow> bytes \<Rightarrow> bytes"
  ed_verify :: "bytes \<Rightarrow> bytes \<Rightarrow> bytes \<Rightarrow> bool option"
  x_public :: "bytes \<Rightarrow> bytes"
  x_shared :: "bytes \<Rightarrow> bytes \<Rightarrow> bytes"
  hkdf_sha256 :: "bytes \<Rightarrow> bytes \<Rightarrow> bytes \<Rightarrow> nat \<Rightarrow> bytes"
  supports :: "curve \<Rightarrow> bool"
  clones_keys :: bool
  exports_raw_private :: bool

text \<open>
  What the package relies on: unwrapping inverts wrapping for the lengths AES-KW takes, wrapping
  adds eight bytes, public keys have 32.
\<close>

definition platform_laws :: "platform \<Rightarrow> bool" where
  "platform_laws P \<longleftrightarrow>
     (\<forall>k m. 16 \<le> length m \<longrightarrow> 8 dvd length m \<longrightarrow>
        kw_unwrap P k (kw_wrap P k m) = Some m \<and> length (kw_wrap P k m) = length m + 8)
     \<and> (\<forall>s. length (ed_public P s) = 32) \<and> (\<forall>s. length (x_public P s) = 32)"

section \<open>aes-kw.ts\<close>

text \<open>A copy with a buffer of its own; values are not shared in the model.\<close>

definition toArrayBuffer :: "bytes \<Rightarrow> bytes" where
  "toArrayBuffer u8 = u8"

definition wrapSecretBytes :: "platform \<Rightarrow> crypto_key \<Rightarrow> bytes \<Rightarrow> bytes io" where
  "wrapSecretBytes P kek raw =
     (if length raw < 16 \<or> length raw mod 8 \<noteq> 0
      then raise (Thrown ''Error'' ''[aes-kw] cannot wrap'')
      else ret (kw_wrap P (ck_bytes kek) (toArrayBuffer raw)))"

definition unwrapSecretBytes :: "platform \<Rightarrow> crypto_key \<Rightarrow> bytes \<Rightarrow> bytes io" where
  "unwrapSecretBytes P kek wrapped =
     from_option (Thrown ''OperationError'' []) (kw_unwrap P (ck_bytes kek) wrapped)"

definition aes_kw_key :: "bool \<Rightarrow> bytes \<Rightarrow> crypto_key" where
  "aes_kw_key extractable bs =
     \<lparr>ck_type = ''secret'', ck_alg = ''AES-KW'', ck_extractable = extractable, ck_bytes = bs\<rparr>"

definition generateAesKwKey :: "bool \<Rightarrow> crypto_key io" where
  "generateAesKwKey extractable = bindio (draw 32) (\<lambda>bs. ret (aes_kw_key extractable bs))"

definition importAesKwRaw :: "bytes \<Rightarrow> bool \<Rightarrow> crypto_key io" where
  "importAesKwRaw bs extractable =
     (if length bs \<in> {16, 24, 32} then ret (aes_kw_key extractable bs) else raise (Thrown ''DataError'' []))"

definition exportRaw :: "crypto_key \<Rightarrow> bytes io" where
  "exportRaw key = (if ck_extractable key then ret (ck_bytes key) else raise (Thrown ''InvalidAccessError'' []))"

datatype kek_entry = RawKek bytes | KeyKek crypto_key

definition classifyKekEntry :: "js_value \<Rightarrow> kek_entry option" where
  "classifyKekEntry existing =
     (case existing of
        ArrayBuf bs \<Rightarrow> Some (RawKek bs)
      | BufView bs \<Rightarrow> Some (RawKek bs)
      | KeyObj key \<Rightarrow>
          if ck_type key = ''secret'' \<and> ck_alg key = ''AES-KW'' \<and> \<not> ck_extractable key
          then Some (KeyKek key) else None
      | _ \<Rightarrow> None)"

text \<open>The handle of a classified entry, and the value it is stored as.\<close>

definition kek_handle :: "kek_entry \<Rightarrow> crypto_key io" where
  "kek_handle entry = (case entry of RawKek bs \<Rightarrow> importAesKwRaw bs False | KeyKek key \<Rightarrow> ret key)"

section \<open>WebCrypto keys of the two curves\<close>

definition pkcs8_prefix :: "curve \<Rightarrow> bytes" where
  "pkcs8_prefix c = [0x30, 0x2e, 0x02, 0x01, 0x00, 0x30, 0x05, 0x06, 0x03, 0x2b, 0x65,
     (case c of Ed25519 \<Rightarrow> 0x70 | X25519 \<Rightarrow> 0x6e), 0x04, 0x22, 0x04, 0x20]"

definition ED25519_PKCS8_PREFIX :: bytes where
  "ED25519_PKCS8_PREFIX = [0x30, 0x2e, 0x02, 0x01, 0x00, 0x30, 0x05, 0x06, 0x03, 0x2b, 0x65, 0x70,
     0x04, 0x22, 0x04, 0x20]"

definition curve_name :: "curve \<Rightarrow> string" where
  "curve_name c = (case c of Ed25519 \<Rightarrow> ''Ed25519'' | X25519 \<Rightarrow> ''X25519'')"

definition curve_key :: "curve \<Rightarrow> string \<Rightarrow> bool \<Rightarrow> bytes \<Rightarrow> crypto_key" where
  "curve_key c type extractable bs =
     \<lparr>ck_type = type, ck_alg = curve_name c, ck_extractable = extractable, ck_bytes = bs\<rparr>"

definition not_supported :: id_error where
  "not_supported = Thrown ''NotSupportedError'' []"

definition import_pkcs8 :: "platform \<Rightarrow> curve \<Rightarrow> bytes \<Rightarrow> bool \<Rightarrow> crypto_key io" where
  "import_pkcs8 P c bs extractable =
     (if \<not> supports P c then raise not_supported
      else if length bs = 48 \<and> take 16 bs = pkcs8_prefix c
      then ret (curve_key c ''private'' extractable (drop 16 bs))
      else raise (Thrown ''DataError'' []))"

definition import_raw_public :: "platform \<Rightarrow> curve \<Rightarrow> bytes \<Rightarrow> crypto_key io" where
  "import_raw_public P c bs =
     (if \<not> supports P c then raise not_supported
      else if length bs = 32 then ret (curve_key c ''public'' False bs)
      else raise (Thrown ''DataError'' []))"

definition export_pkcs8 :: "curve \<Rightarrow> crypto_key \<Rightarrow> bytes io" where
  "export_pkcs8 c key =
     (if ck_extractable key then ret (pkcs8_prefix c @ ck_bytes key) else raise (Thrown ''InvalidAccessError'' []))"

definition wrap_pkcs8 :: "platform \<Rightarrow> curve \<Rightarrow> crypto_key \<Rightarrow> crypto_key \<Rightarrow> bytes io" where
  "wrap_pkcs8 P c key kek = bindio (export_pkcs8 c key) (\<lambda>bs. ret (kw_wrap P (ck_bytes kek) bs))"

definition unwrap_pkcs8 :: "platform \<Rightarrow> curve \<Rightarrow> bytes \<Rightarrow> crypto_key \<Rightarrow> bool \<Rightarrow> crypto_key io" where
  "unwrap_pkcs8 P c wrapped kek extractable =
     (if \<not> supports P c then raise not_supported
      else bindio (unwrapSecretBytes P kek wrapped) (\<lambda>bs. import_pkcs8 P c bs extractable))"

text \<open>\<open>exportKey('raw', privateKey)\<close>: the specification answers \<open>InvalidAccessError\<close>, some runtimes export.\<close>

definition export_raw_private :: "platform \<Rightarrow> crypto_key \<Rightarrow> bytes io" where
  "export_raw_private P key =
     (if exports_raw_private P then exportRaw key else raise (Thrown ''InvalidAccessError'' []))"

text \<open>The curves library takes 32-byte secrets and throws for others.\<close>

definition noble_public :: "platform \<Rightarrow> bytes \<Rightarrow> bytes io" where
  "noble_public P secret =
     (if length secret = 32 then ret (ed_public P secret) else raise (Thrown ''Error'' ''expected 32 bytes''))"

section \<open>Lemmas\<close>

lemma laws_unwrap: "platform_laws P \<Longrightarrow> 16 \<le> length m \<Longrightarrow> 8 dvd length m \<Longrightarrow>
    kw_unwrap P k (kw_wrap P k m) = Some m"
  by (simp add: platform_laws_def)

lemma laws_length: "platform_laws P \<Longrightarrow> 16 \<le> length m \<Longrightarrow> 8 dvd length m \<Longrightarrow>
    length (kw_wrap P k m) = length m + 8"
  by (simp add: platform_laws_def)

lemma ed_prefix: "ED25519_PKCS8_PREFIX = pkcs8_prefix Ed25519"
  by (simp add: ED25519_PKCS8_PREFIX_def pkcs8_prefix_def)

lemma length_prefix [simp]: "length (pkcs8_prefix c) = 16"
  by (simp add: pkcs8_prefix_def)

text \<open>Note: Key wrapping round-trips: what wrapSecretBytes wraps under a key, unwrapSecretBytes gives back under
  a key with the same bytes, and it wraps exactly the multiples of eight bytes from sixteen on;
  nothing of the world changes.\<close>

theorem wrap_unwrap_roundtrip:
  assumes "platform_laws P" and "ck_bytes kek' = ck_bytes kek"
  shows "(snd (wrapSecretBytes P kek raw w) = Inr c \<longrightarrow> unwrapSecretBytes P kek' c w = (w, Inr raw))
    \<and> ((\<exists>c. wrapSecretBytes P kek raw w = (w, Inr c)) \<longleftrightarrow> 16 \<le> length raw \<and> length raw mod 8 = 0)"
proof -
  have "8 dvd length raw \<longleftrightarrow> length raw mod 8 = 0" by (rule dvd_eq_mod_eq_0)
  then show ?thesis using assms
    by (auto simp: wrapSecretBytes_def unwrapSecretBytes_def io_defs toArrayBuffer_def laws_unwrap)
qed

text \<open>A concrete runtime, for the witnesses: wrapping appends eight bytes of the key.\<close>

definition sample_platform :: platform where
  "sample_platform = \<lparr>kw_wrap = (\<lambda>k m. m @ take 8 (k @ replicate 8 0)),
     kw_unwrap = (\<lambda>k c. if 8 \<le> length c \<and> drop (length c - 8) c = take 8 (k @ replicate 8 0)
        then Some (take (length c - 8) c) else None),
     ed_public = (\<lambda>s. map (\<lambda>b. b + 1) (take 32 (s @ replicate 32 0))),
     ed_sign = (\<lambda>s m. s @ m), ed_verify = (\<lambda>p m sg. Some (sg = map (\<lambda>b. b - 1) p @ m)),
     x_public = (\<lambda>s. map (\<lambda>b. b + 2) (take 32 (s @ replicate 32 0))),
     x_shared = (\<lambda>s p. map2 (+) s p), hkdf_sha256 = (\<lambda>ikm salt info n. take n (ikm @ info @ replicate n 0)),
     supports = (\<lambda>_. True), clones_keys = True, exports_raw_private = True\<rparr>"

lemma sample_platform_laws: "platform_laws sample_platform"
  by (auto simp: platform_laws_def sample_platform_def min_def)

theorem wrap_unwrap_roundtrip_witness:
  "unwrapSecretBytes sample_platform (aes_kw_key False (replicate 32 7)) (replicate 16 1 @ replicate 8 7) (fresh_world [])
     = (fresh_world [], Inr (replicate 16 1))"
  using wrap_unwrap_roundtrip [OF sample_platform_laws, of "aes_kw_key False (replicate 32 7)"
      "aes_kw_key False (replicate 32 7)" "replicate 16 1" "fresh_world []" "replicate 16 1 @ replicate 8 7"]
  by (simp add: wrapSecretBytes_def ret_def toArrayBuffer_def sample_platform_def aes_kw_key_def)

end
