(* ===== verification/Room_Host.thy ===== *)
theory Room_Host
  imports Aes_Kw Sas
begin

text \<open>
  \<open>room-host-seed.ts\<close> and \<open>host-identity.ts\<close>: the root secret of the per-room host keys, wrapped at
  rest in a database of its own, the keys derived from it, and the payloads hosts sign. Each
  function runs here in one piece; \<open>room_kek_lookup\<close> and \<open>room_kek_mint\<close> are the two halves of
  \<open>getWrappingKey\<close> between which another call may run.
\<close>

section \<open>The wrapping key of the room store\<close>

definition ROOM_KEY :: string where "ROOM_KEY = ''room_host_seed_v1''"
definition ROOM_WRAPPING_KEY :: string where "ROOM_WRAPPING_KEY = ''wrapping_key''"

definition roomProbeStructuredClone :: "platform \<Rightarrow> bool io" where
  "roomProbeStructuredClone P = bindio (gets w_roomClone) (\<lambda>c. case c of
      Some b \<Rightarrow> ret b
    | None \<Rightarrow> andthen (generateAesKwKey True)
        (andthen (update (\<lambda>w. w\<lparr>w_roomClone := Some (clones_keys P)\<rparr>)) (ret (clones_keys P))))"

definition set_room_kek :: "crypto_key \<Rightarrow> crypto_key io" where
  "set_room_kek key = andthen (update (\<lambda>w. w\<lparr>w_roomKek := Some key\<rparr>)) (ret key)"

text \<open>\<open>Inl canClone\<close>: there is none yet.\<close>

definition room_kek_lookup :: "platform \<Rightarrow> (bool + crypto_key) io" where
  "room_kek_lookup P = bindio (gets w_roomKek) (\<lambda>c. case c of
      Some key \<Rightarrow> ret (Inr key)
    | None \<Rightarrow> bindio (roomProbeStructuredClone P) (\<lambda>canClone.
        bindio (db_load (clones_keys P) RoomDb ROOM_WRAPPING_KEY) (\<lambda>existing. case existing of
            None \<Rightarrow> ret (Inl canClone)
          | Some v \<Rightarrow> bindio (from_option (Thrown ''Error''
                  ''[room-host-seed] KEK entry is neither an AES-KW CryptoKey nor raw bytes'')
                (classifyKekEntry v)) (\<lambda>entry.
              bindio (kek_handle entry) (\<lambda>key. bindio (set_room_kek key) (\<lambda>k. ret (Inr k)))))))"

definition room_kek_mint :: "platform \<Rightarrow> bool \<Rightarrow> crypto_key io" where
  "room_kek_mint P canClone =
     (if canClone then
        bindio (generateAesKwKey False) (\<lambda>kek.
          andthen (db_save (clones_keys P) RoomDb ROOM_WRAPPING_KEY (KeyObj kek)) (set_room_kek kek))
      else
        bindio (generateAesKwKey True) (\<lambda>extractableKek.
          bindio (exportRaw extractableKek) (\<lambda>raw.
            andthen (db_save (clones_keys P) RoomDb ROOM_WRAPPING_KEY (ArrayBuf raw))
              (bindio (importAesKwRaw raw False) set_room_kek))))"

definition roomGetWrappingKey :: "platform \<Rightarrow> crypto_key io" where
  "roomGetWrappingKey P = bindio (room_kek_lookup P) (\<lambda>r. case r of
      Inr key \<Rightarrow> ret key | Inl canClone \<Rightarrow> room_kek_mint P canClone)"

section \<open>The seed\<close>

definition as_buffer :: "js_value \<Rightarrow> bytes io" where
  "as_buffer v = (case v of ArrayBuf bs \<Rightarrow> ret bs | BufView bs \<Rightarrow> ret bs | _ \<Rightarrow> raise (Thrown ''TypeError'' []))"

definition set_room_seed :: "bytes \<Rightarrow> bytes io" where
  "set_room_seed seed = andthen (update (\<lambda>w. w\<lparr>w_roomSeed := Some seed\<rparr>)) (ret seed)"

definition getOrCreateRoomHostSeed :: "platform \<Rightarrow> bytes io" where
  "getOrCreateRoomHostSeed P = bindio (gets w_roomSeed) (\<lambda>c. case c of
      Some seed \<Rightarrow> ret seed
    | None \<Rightarrow> bindio (roomGetWrappingKey P) (\<lambda>kek.
        bindio (db_load (clones_keys P) RoomDb ROOM_KEY) (\<lambda>existing. case existing of
            Some v \<Rightarrow> bindio (as_buffer v) (\<lambda>wrapped. bindio (unwrapSecretBytes P kek wrapped) set_room_seed)
          | None \<Rightarrow> bindio (draw 32) (\<lambda>seed.
              bindio (wrapSecretBytes P kek seed) (\<lambda>wrapped.
                andthen (db_save (clones_keys P) RoomDb ROOM_KEY (ArrayBuf wrapped)) (set_room_seed seed))))))"

definition exportRoomHostSeed :: "platform \<Rightarrow> bytes option io" where
  "exportRoomHostSeed P = bindio (db_load (clones_keys P) RoomDb ROOM_KEY) (\<lambda>existing. case existing of
      None \<Rightarrow> ret None | Some v \<Rightarrow> bindio (getOrCreateRoomHostSeed P) (\<lambda>s. ret (Some s)))"

definition clearRoomHostSeed :: "unit io" where
  "clearRoomHostSeed =
     andthen (update (\<lambda>w. w\<lparr>w_roomSeed := None, w_roomKek := None\<rparr>)) (db_clear RoomDb)"

section \<open>Host keys\<close>

text \<open>\<open>TextEncoder\<close>, for the characters up to U+00FF that a HOL character can be.\<close>

definition utf8_char :: "char \<Rightarrow> bytes" where
  "utf8_char c = (let n = of_char c :: nat in
     if n < 128 then [of_nat n] else [of_nat (0xC0 + n div 64), of_nat (0x80 + n mod 64)])"

definition utf8 :: "string \<Rightarrow> bytes" where
  "utf8 s = concat (map utf8_char s)"

definition ROOM_HOST_HKDF_SALT :: bytes where
  "ROOM_HOST_HKDF_SALT = utf8 ''oxpulse/room-host/salt/v1______''"

definition generateHostKeypair :: "platform \<Rightarrow> host_keypair io" where
  "generateHostKeypair P =
     (if supports P Ed25519 then
        bindio (draw 32) (\<lambda>secret. ret \<lparr>hk_public = toBase64url (ed_public P secret),
          hk_private = Some (curve_key Ed25519 ''private'' False secret), hk_seed = None\<rparr>)
      else raise not_supported)"

definition signHostAction :: "platform \<Rightarrow> host_keypair \<Rightarrow> string \<Rightarrow> string io" where
  "signHostAction P key payload =
     (case hk_seed key of
        Some seed \<Rightarrow> ret (toBase64url (ed_sign P seed (utf8 payload)))
      | None \<Rightarrow> (case hk_private key of
          Some k \<Rightarrow> if supports P Ed25519 then ret (toBase64url (ed_sign P (ck_bytes k) (utf8 payload)))
                    else raise not_supported
        | None \<Rightarrow> raise (Thrown ''Error'' ''HostKeypair has neither privateKey nor privateKeySeed'')))"

definition getOrCreateRoomHostKey :: "platform \<Rightarrow> string \<Rightarrow> host_keypair io" where
  "getOrCreateRoomHostKey P roomId = bindio (getOrCreateRoomHostSeed P) (\<lambda>seed.
     let privateKeySeed = hkdf_sha256 P seed ROOM_HOST_HKDF_SALT (utf8 (''oxpulse/room-host/v1/'' @ roomId)) 32
     in bindio (noble_public P privateKeySeed) (\<lambda>pub.
          ret \<lparr>hk_public = toBase64url pub, hk_private = None, hk_seed = Some privateKeySeed\<rparr>))"

section \<open>Payloads\<close>

definition buildKickPayload :: "string \<Rightarrow> string \<Rightarrow> nat \<Rightarrow> string" where
  "buildKickPayload roomId target ts = ''kick:'' @ roomId @ '':'' @ target @ '':'' @ dec_text ts"

definition buildLockPayload :: "string \<Rightarrow> nat \<Rightarrow> string" where
  "buildLockPayload roomId ts = ''lock:'' @ roomId @ '':'' @ dec_text ts"

definition buildUnlockPayload :: "string \<Rightarrow> nat \<Rightarrow> string" where
  "buildUnlockPayload roomId ts = ''unlock:'' @ roomId @ '':'' @ dec_text ts"

definition buildPinMintPayload :: "string \<Rightarrow> nat \<Rightarrow> string" where
  "buildPinMintPayload roomId ts = ''pin-mint:'' @ roomId @ '':'' @ dec_text ts"

definition buildShortlinkMintPayload :: "string \<Rightarrow> nat \<Rightarrow> string option \<Rightarrow> string" where
  "buildShortlinkMintPayload roomId ts redirect =
     (case redirect of
        Some r \<Rightarrow> ''shortlink-mint:'' @ roomId @ '':'' @ r @ '':'' @ dec_text ts
      | None \<Rightarrow> ''shortlink-mint:'' @ roomId @ '':'' @ dec_text ts)"

text \<open>The actions a host can sign, and their payloads.\<close>

datatype host_action =
    Kick string string nat
  | Lock string nat
  | Unlock string nat
  | PinMint string nat
  | ShortlinkMint string nat "string option"

fun payload_of :: "host_action \<Rightarrow> string" where
  "payload_of (Kick r t ts) = buildKickPayload r t ts"
| "payload_of (Lock r ts) = buildLockPayload r ts"
| "payload_of (Unlock r ts) = buildUnlockPayload r ts"
| "payload_of (PinMint r ts) = buildPinMintPayload r ts"
| "payload_of (ShortlinkMint r ts re) = buildShortlinkMintPayload r ts re"

fun action_fields :: "host_action \<Rightarrow> string list" where
  "action_fields (Kick r t ts) = [r, t]"
| "action_fields (Lock r ts) = [r]"
| "action_fields (Unlock r ts) = [r]"
| "action_fields (PinMint r ts) = [r]"
| "action_fields (ShortlinkMint r ts re) = r # (case re of None \<Rightarrow> [] | Some x \<Rightarrow> [x])"

definition colon_free :: "host_action \<Rightarrow> bool" where
  "colon_free a = list_all (\<lambda>s. CHR '':'' \<notin> set s) (action_fields a)"

end
