(* ===== verification/Identity.thy ===== *)
theory Identity
  imports Room_Host
begin

text \<open>
  The definitions of \<open>device-identity.ts\<close>: the key-encryption key and the adoption of its old layout,
  minting, persisting and unwrapping the Ed25519 identity, signing, forgetting, exporting and
  replacing it, the Noise X25519 keypair and the profile seed. A function runs here in one piece;
  where another call may come in between, its halves are definitions of their own
  (\<open>kek_lookup\<close> and \<open>kek_mint\<close>, \<open>persist_prepare\<close> and \<open>persist_commit\<close>, \<open>forget_memory\<close> and
  \<open>forget_storage\<close>, the three parts of \<open>replaceDeviceIdentity\<close>). The promise
  \<open>getOrCreateDeviceIdentity\<close> shares between callers, and the lock (\<open>Identity_Lock\<close>), make those calls serial;
  durations and console output are left out.
\<close>

section \<open>Names\<close>

definition WRAPPING_KEY_NAME :: string where "WRAPPING_KEY_NAME = ''wrapping-key''"
definition DEVICE_KEY_NAME :: string where "DEVICE_KEY_NAME = ''device-key''"
definition PROFILE_SEED_NAME :: string where "PROFILE_SEED_NAME = ''profile_seed_v1''"
definition DEVICE_PRIV_RAW_NAME :: string where "DEVICE_PRIV_RAW_NAME = ''oxp/identity/ed25519-priv-raw''"
definition X25519_KEYPAIR_NAME :: string where "X25519_KEYPAIR_NAME = ''x25519-keypair-v1''"
definition SEALED_X25519_NAME :: string where "SEALED_X25519_NAME = ''x25519-sealed-v1''"
definition KEK_KEY_NAME :: string where "KEK_KEY_NAME = ''wrapping-key''"

section \<open>Error classes\<close>

datatype stage = CreateStage | UnwrapStage

definition error_message :: "id_error \<Rightarrow> string" where
  "error_message e = (case e of
      IDBUnavailableError r \<Rightarrow> ''IndexedDB unavailable''
    | SealedKeyUnavailableError r \<Rightarrow> ''sealed X25519 key cannot be persisted''
    | Thrown n m \<Rightarrow> m)"

definition ascii_lower :: "char \<Rightarrow> char" where
  "ascii_lower c = (let n = of_char c :: nat in if 65 \<le> n \<and> n \<le> 90 then char_of (n + 32) else c)"

fun contains :: "string \<Rightarrow> string \<Rightarrow> bool" where
  "contains n [] = (n = [])"
| "contains n (c # s) = (take (length n) (c # s) = n \<or> contains n s)"

definition classifyIdentityError :: "id_error \<Rightarrow> stage \<Rightarrow> string" where
  "classifyIdentityError e stage =
     (let name = error_name e; message = error_message e in
      if name = ''QuotaExceededError'' then ''idb_quota_exceeded''
      else if name = ''IdentityDataError''
      then (if stage = CreateStage then ''wrap_failed'' else ''unwrap_failed'')
      else if name = ''NotSupportedError'' \<or> contains ''ed25519'' (map ascii_lower message)
      then ''ed25519_unsupported''
      else if name = ''InvalidAccessError'' \<and> stage = CreateStage then ''extractable_unsupported''
      else if stage = CreateStage then ''wrap_failed'' else ''unwrap_failed'')"

section \<open>The key-encryption key\<close>

definition probeStructuredClone :: "platform \<Rightarrow> bool io" where
  "probeStructuredClone P = bindio (gets w_clone) (\<lambda>c. case c of
      Some b \<Rightarrow> ret b
    | None \<Rightarrow> andthen (generateAesKwKey True)
        (andthen (update (\<lambda>w. w\<lparr>w_clone := Some (clones_keys P)\<rparr>)) (ret (clones_keys P))))"

definition set_kek :: "crypto_key \<Rightarrow> crypto_key io" where
  "set_kek key = andthen (update (\<lambda>w. w\<lparr>w_kek := Some key\<rparr>)) (ret key)"

text \<open>Copying an adopted key into the dedicated database; failing is survivable.\<close>

definition copy_forward :: "platform \<Rightarrow> bool \<Rightarrow> kek_entry \<Rightarrow> bool io" where
  "copy_forward P canClone entry = tryio
     (case entry of
        RawKek bs \<Rightarrow> andthen (db_save (clones_keys P) KekDb KEK_KEY_NAME (ArrayBuf bs)) (ret True)
      | KeyKek key \<Rightarrow>
          if canClone then andthen (db_save (clones_keys P) KekDb KEK_KEY_NAME (KeyObj key)) (ret True)
          else ret False)
     (\<lambda>_. ret False)"

definition adoptLegacyWrappingKey :: "platform \<Rightarrow> bool \<Rightarrow> crypto_key option io" where
  "adoptLegacyWrappingKey P canClone =
     bindio (tryio (db_load (clones_keys P) IdentityDb WRAPPING_KEY_NAME) (\<lambda>_. ret None)) (\<lambda>legacy. case legacy of
         None \<Rightarrow> ret None
       | Some v \<Rightarrow> (case classifyKekEntry v of
           None \<Rightarrow> andthen (track ''client.identity_kek_legacy_unusable'' []) (ret None)
         | Some entry \<Rightarrow> bindio (kek_handle entry) (\<lambda>key.
             bindio (copy_forward P canClone entry) (\<lambda>copied.
               andthen (track ''client.identity_kek_migrated'' (if copied then ''copied'' else ''not_copied''))
                 (ret (Some key))))))"

text \<open>The part of \<open>getOrCreateWrappingKey\<close> before it generates; \<open>Inl canClone\<close>: there is no key.\<close>

definition kek_lookup :: "platform \<Rightarrow> (bool + crypto_key) io" where
  "kek_lookup P = bindio (gets w_kek) (\<lambda>c. case c of
      Some key \<Rightarrow> ret (Inr key)
    | None \<Rightarrow> bindio (probeStructuredClone P) (\<lambda>canClone.
        bindio (db_load (clones_keys P) KekDb KEK_KEY_NAME) (\<lambda>existing. case existing of
            Some v \<Rightarrow> bindio (from_option (Thrown ''Error''
                  ''[device-identity] KEK entry is neither an AES-KW CryptoKey nor raw bytes'')
                (classifyKekEntry v)) (\<lambda>entry.
              bindio (kek_handle entry) (\<lambda>key. bindio (set_kek key) (\<lambda>k. ret (Inr k))))
          | None \<Rightarrow> bindio (adoptLegacyWrappingKey P canClone) (\<lambda>adopted. case adopted of
              Some key \<Rightarrow> bindio (set_kek key) (\<lambda>k. ret (Inr k))
            | None \<Rightarrow> ret (Inl canClone)))))"

definition kek_mint :: "platform \<Rightarrow> bool \<Rightarrow> crypto_key io" where
  "kek_mint P canClone =
     (if canClone then
        bindio (generateAesKwKey False) (\<lambda>kek.
          andthen (db_save (clones_keys P) KekDb KEK_KEY_NAME (KeyObj kek)) (set_kek kek))
      else
        bindio (generateAesKwKey True) (\<lambda>extractableKek.
          bindio (exportRaw extractableKek) (\<lambda>raw.
            andthen (db_save (clones_keys P) KekDb KEK_KEY_NAME (ArrayBuf raw))
              (bindio (importAesKwRaw raw False) set_kek))))"

definition getOrCreateWrappingKey :: "platform \<Rightarrow> crypto_key io" where
  "getOrCreateWrappingKey P = bindio (kek_lookup P) (\<lambda>r. case r of
      Inr key \<Rightarrow> ret key | Inl canClone \<Rightarrow> kek_mint P canClone)"

section \<open>Minting and persisting\<close>

text \<open>A call that may find the algorithm missing: \<open>None\<close> then, any other error goes on.\<close>

definition try_supported :: "'a io \<Rightarrow> 'a option io" where
  "try_supported m = tryio (bindio m (\<lambda>x. ret (Some x)))
     (\<lambda>e. if error_name e = ''NotSupportedError'' then ret None else raise e)"

definition generateDeviceIdentity :: "platform \<Rightarrow> identity io" where
  "generateDeviceIdentity P = bindio (draw 32) (\<lambda>rawSeed.
     let pub = ed_public P rawSeed in
     bindio (try_supported (import_pkcs8 P Ed25519 (ED25519_PKCS8_PREFIX @ rawSeed) True)) (\<lambda>priv.
       bindio (if priv = None then ret None
               else try_supported (import_raw_public P Ed25519 (toArrayBuffer pub))) (\<lambda>pubKey.
         ret \<lparr>publicKeyB64 = toBase64url pub, publicKey = pubKey, privateKey = priv,
              privateKeySeed = Some (OpaquePrivateKey rawSeed)\<rparr>)))"

text \<open>Wrapping the seed and, where WebCrypto has the algorithm, the private key.\<close>

definition persist_wrap :: "platform \<Rightarrow> identity \<Rightarrow> crypto_key \<Rightarrow> (crypto_key \<times> bytes \<times> bytes option) io" where
  "persist_wrap P i kek =
     bindio (from_option (Thrown ''Error'' ''persistIdentity called with null privateKeySeed'') (privateKeySeed i))
       (\<lambda>seed. bindio (wrapSecretBytes P kek (opaque_bytes seed)) (\<lambda>wrappedRawSeed.
         bindio (case privateKey i of
             None \<Rightarrow> ret None
           | Some k \<Rightarrow> bindio (wrap_pkcs8 P Ed25519 k kek) (\<lambda>b. ret (Some b))) (\<lambda>wrappedPrivateKey.
           ret (kek, wrappedRawSeed, wrappedPrivateKey))))"

definition persist_prepare :: "platform \<Rightarrow> identity \<Rightarrow> (crypto_key \<times> bytes \<times> bytes option) io" where
  "persist_prepare P i = bindio (getOrCreateWrappingKey P) (persist_wrap P i)"

definition identity_pair :: "string \<Rightarrow> bytes \<Rightarrow> bytes \<Rightarrow> (string \<times> js_value) list" where
  "identity_pair pub wrappedSeed wrappedPriv =
     [(DEVICE_PRIV_RAW_NAME, ArrayBuf wrappedSeed), (DEVICE_KEY_NAME, IdentityRow pub wrappedPriv)]"

definition persist_commit :: "platform \<Rightarrow> identity \<Rightarrow> crypto_key \<times> bytes \<times> bytes option \<Rightarrow> identity io" where
  "persist_commit P i prepared = (case prepared of (kek, wrappedRawSeed, wrappedPrivateKey) \<Rightarrow>
     andthen (db_saveMany IdentityDb (identity_pair (publicKeyB64 i) wrappedRawSeed
         (case wrappedPrivateKey of None \<Rightarrow> [] | Some b \<Rightarrow> b)))
       (bindio (case wrappedPrivateKey of
            None \<Rightarrow> ret None
          | Some b \<Rightarrow> bindio (unwrap_pkcs8 P Ed25519 b kek False) (\<lambda>k. ret (Some k))) (\<lambda>handle.
         bindio (case publicKey i of
             Some k \<Rightarrow> ret (Some k)
           | None \<Rightarrow> tryio (bindio (from_option (Thrown ''InvalidCharacterError'' [])
                   (fromBase64url (publicKeyB64 i))) (\<lambda>bs.
                 bindio (import_raw_public P Ed25519 (toArrayBuffer bs)) (\<lambda>k. ret (Some k))))
               (\<lambda>_. ret None)) (\<lambda>pubKey.
           ret \<lparr>publicKeyB64 = publicKeyB64 i, publicKey = pubKey, privateKey = handle,
                privateKeySeed = privateKeySeed i\<rparr>))))"

definition persistIdentity :: "platform \<Rightarrow> identity \<Rightarrow> identity io" where
  "persistIdentity P i = bindio (persist_prepare P i) (persist_commit P i)"

text \<open>The identity and whether it was persisted.\<close>

definition mintIdentityWithStorageFallback :: "platform \<Rightarrow> (identity \<times> bool) io" where
  "mintIdentityWithStorageFallback P = tryio
     (bindio (generateDeviceIdentity P) (\<lambda>i. bindio (persistIdentity P i) (\<lambda>j. ret (j, True))))
     (\<lambda>e. case e of
        IDBUnavailableError r \<Rightarrow> andthen (track ''client.idb_unavailable'' [])
          (bindio (generateDeviceIdentity P) (\<lambda>i. ret (i, False)))
      | _ \<Rightarrow>
          if error_name e = ''QuotaExceededError''
          then andthen (track ''client.identity_quota_exceeded_fallback'' ''idb_quota_exceeded'')
            (bindio (generateDeviceIdentity P) (\<lambda>i. ret (i, False)))
          else andthen (track ''client.identity_create_failed'' (classifyIdentityError e CreateStage)) (raise e))"

section \<open>Unwrapping\<close>

definition as_identity_row :: "js_value \<Rightarrow> (string \<times> bytes) io" where
  "as_identity_row v = (case v of IdentityRow p b \<Rightarrow> ret (p, b) | _ \<Rightarrow> raise (Thrown ''TypeError'' []))"

definition decode64 :: "string \<Rightarrow> bytes io" where
  "decode64 s = from_option (Thrown ''InvalidCharacterError'' []) (fromBase64url s)"

definition unwrapIdentityWith :: "platform \<Rightarrow> js_value \<Rightarrow> crypto_key \<Rightarrow> identity io" where
  "unwrapIdentityWith P stored kek = bindio (as_identity_row stored) (\<lambda>(pub, wrappedPriv).
     bindio (try_supported (bindio (decode64 pub) (\<lambda>bs. import_raw_public P Ed25519 (toArrayBuffer bs)))) (\<lambda>pubKey.
     bindio (if wrappedPriv = [] then ret None
             else try_supported (unwrap_pkcs8 P Ed25519 wrappedPriv kek False)) (\<lambda>priv.
     bindio (db_load (clones_keys P) IdentityDb DEVICE_PRIV_RAW_NAME) (\<lambda>row. case row of
         Some v \<Rightarrow> bindio (as_buffer v) (\<lambda>wrapped.
           bindio (unwrapSecretBytes P kek wrapped) (\<lambda>rawSeed.
           bindio (noble_public P rawSeed) (\<lambda>derivedPub.
           bindio (decode64 pub) (\<lambda>storedPub.
             if derivedPub \<noteq> storedPub
             then raise (IdentityDataError ''stored public key does not match the seed-derived public key'')
             else ret \<lparr>publicKeyB64 = pub, publicKey = pubKey, privateKey = priv,
                    privateKeySeed = Some (OpaquePrivateKey rawSeed)\<rparr>))))
       | None \<Rightarrow> andthen (track ''client.identity_migration_needed'' ''no_raw_seed'')
           (ret \<lparr>publicKeyB64 = pub, publicKey = pubKey, privateKey = priv, privateKeySeed = None\<rparr>)))))"

definition unwrapIdentity :: "platform \<Rightarrow> js_value \<Rightarrow> identity io" where
  "unwrapIdentity P stored = bindio (getOrCreateWrappingKey P) (unwrapIdentityWith P stored)"

text \<open>Storing the recovered key over the broken one.\<close>

definition overwrite_kek :: "platform \<Rightarrow> kek_entry \<Rightarrow> unit io" where
  "overwrite_kek P entry = tryio
     (case entry of
        RawKek bs \<Rightarrow> db_save (clones_keys P) KekDb KEK_KEY_NAME (ArrayBuf bs)
      | KeyKek key \<Rightarrow> bindio (probeStructuredClone P) (\<lambda>b.
          if b then db_save (clones_keys P) KekDb KEK_KEY_NAME (KeyObj key) else ret ()))
     (\<lambda>_. ret ())"

definition recoverWithLegacyKey :: "platform \<Rightarrow> js_value \<Rightarrow> identity option io" where
  "recoverWithLegacyKey P stored = tryio
     (bindio (db_load (clones_keys P) IdentityDb WRAPPING_KEY_NAME) (\<lambda>legacy. case legacy of
         None \<Rightarrow> ret None
       | Some v \<Rightarrow> (case classifyKekEntry v of
           None \<Rightarrow> ret None
         | Some entry \<Rightarrow> bindio (kek_handle entry) (\<lambda>key.
             bindio (unwrapIdentityWith P stored key) (\<lambda>i.
               andthen (set_kek key) (andthen (overwrite_kek P entry) (ret (Some i))))))))
     (\<lambda>_. ret None)"

section \<open>Loading, replacing or creating the identity\<close>

definition set_identity :: "identity \<Rightarrow> identity io" where
  "set_identity i = andthen (update (\<lambda>w. w\<lparr>w_identity := Some i\<rparr>)) (ret i)"

text \<open>What the retired identity leaves in memory and in the databases.\<close>

definition drop_residue :: "unit io" where
  "drop_residue = andthen
     (update (\<lambda>w. w\<lparr>w_x25519 := None, w_sealed := None, w_epoch := w_epoch w + 1, w_profile := None,
        w_hostKeys := []\<rparr>))
     (tryio (andthen (db_delete IdentityDb X25519_KEYPAIR_NAME)
         (andthen (db_delete IdentityDb SEALED_X25519_NAME)
         (andthen (db_delete IdentityDb PROFILE_SEED_NAME) clearRoomHostSeed)))
       (\<lambda>e. track ''client.identity_legacy_residue_wipe_failed'' (classifyIdentityError e UnwrapStage)))"

text \<open>Loading what is stored, by recovery if need be: the identity and whether it was recovered.\<close>

definition load_or_recover :: "platform \<Rightarrow> js_value \<Rightarrow> (identity \<times> bool) io" where
  "load_or_recover P stored = tryio
     (bindio (unwrapIdentity P stored) (\<lambda>i. ret (i, False)))
     (\<lambda>e. bindio (recoverWithLegacyKey P stored) (\<lambda>r. case r of
         Some i \<Rightarrow> ret (i, True)
       | None \<Rightarrow> andthen (track ''client.identity_unwrap_failed'' (classifyIdentityError e UnwrapStage)) (raise e)))"

definition replace_legacy :: "platform \<Rightarrow> bool \<Rightarrow> identity io" where
  "replace_legacy P recovered = bindio (mintIdentityWithStorageFallback P) (\<lambda>(i, persisted).
     if \<not> persisted then ret i
     else andthen drop_residue (andthen (update (\<lambda>w. w\<lparr>w_identity := Some i\<rparr>))
       (andthen (track ''client.identity_legacy_replaced'' (if recovered then ''recovery'' else ''unwrap'')) (ret i))))"

definition load_stored :: "platform \<Rightarrow> js_value \<Rightarrow> identity io" where
  "load_stored P stored = bindio (load_or_recover P stored) (\<lambda>(i, recovered).
     if privateKeySeed i \<noteq> None then
       andthen (update (\<lambda>w. w\<lparr>w_identity := Some i\<rparr>))
         (andthen (track (if recovered then ''client.identity_recovered_from_broken_kek''
                     else ''client.identity_loaded'') []) (ret i))
     else replace_legacy P recovered)"

definition create_first :: "platform \<Rightarrow> identity io" where
  "create_first P = bindio (mintIdentityWithStorageFallback P) (\<lambda>(i, persisted).
     if persisted then andthen (update (\<lambda>w. w\<lparr>w_identity := Some i\<rparr>))
       (andthen (track ''client.identity_created'' []) (ret i))
     else ret i)"

definition getOrCreateDeviceIdentityInner :: "platform \<Rightarrow> identity io" where
  "getOrCreateDeviceIdentityInner P = bindio (gets w_identity) (\<lambda>c. case c of
      Some i \<Rightarrow> ret i
    | None \<Rightarrow> settle (db_load (clones_keys P) IdentityDb DEVICE_KEY_NAME)
        (\<lambda>e. case e of
            IDBUnavailableError r \<Rightarrow> andthen (track ''client.idb_unavailable'' []) (generateDeviceIdentity P)
          | _ \<Rightarrow> andthen (track ''client.identity_unwrap_failed'' ''idb_open_failed'') (raise e))
        (\<lambda>stored. case stored of
            Some v \<Rightarrow> load_stored P v
          | None \<Rightarrow> create_first P))"

definition getOrCreateDeviceIdentity :: "platform \<Rightarrow> identity io" where
  "getOrCreateDeviceIdentity P = bindio (gets w_identity) (\<lambda>c. case c of
      Some i \<Rightarrow> ret i | None \<Rightarrow> getOrCreateDeviceIdentityInner P)"

definition hasDeviceIdentity :: "platform \<Rightarrow> bool io" where
  "hasDeviceIdentity P = bindio (db_load (clones_keys P) IdentityDb DEVICE_KEY_NAME) (\<lambda>stored. ret (stored \<noteq> None))"

section \<open>Signing\<close>

definition signWithDeviceIdentity :: "platform \<Rightarrow> identity \<Rightarrow> string \<Rightarrow> string io" where
  "signWithDeviceIdentity P i message = (case privateKeySeed i of
      None \<Rightarrow> raise (Thrown ''Error'' ''signWithDeviceIdentity: privateKeySeed is null'')
    | Some seed \<Rightarrow> ret (toBase64url (ed_sign P (opaque_bytes seed) (utf8 message))))"

text \<open>\<open>ed_verify\<close> is \<open>None\<close> where the library throws.\<close>

definition verifyDeviceSignature :: "platform \<Rightarrow> bytes \<Rightarrow> string \<Rightarrow> bytes \<Rightarrow> bool" where
  "verifyDeviceSignature P pubkey message sig = (ed_verify P pubkey (utf8 message) sig = Some True)"

section \<open>Forgetting the device\<close>

definition forget_memory :: "unit io" where
  "forget_memory = update (\<lambda>w. w\<lparr>w_identity := None, w_kek := None, w_profile := None, w_x25519 := None,
     w_sealed := None, w_epoch := w_epoch w + 1, w_hostKeys := []\<rparr>)"

definition forget_storage :: "unit io" where
  "forget_storage =
     andthen (db_delete IdentityDb DEVICE_KEY_NAME)
     (andthen (db_delete IdentityDb DEVICE_PRIV_RAW_NAME)
     (andthen (db_delete IdentityDb WRAPPING_KEY_NAME)
     (andthen (db_delete IdentityDb PROFILE_SEED_NAME)
     (andthen (db_delete IdentityDb X25519_KEYPAIR_NAME)
     (andthen (db_delete IdentityDb SEALED_X25519_NAME)
     (andthen clearRoomHostSeed
     (andthen (db_clear KekDb) (track ''client.identity_wiped'' []))))))))"

definition clearDeviceIdentity :: "unit io" where
  "clearDeviceIdentity = andthen forget_memory forget_storage"

section \<open>The Noise static keypair\<close>

definition as_x25519_row :: "js_value \<Rightarrow> (bytes \<times> bytes \<times> bytes option) io" where
  "as_x25519_row v = (case v of X25519Row p b r \<Rightarrow> ret (p, b, r) | _ \<Rightarrow> raise (Thrown ''TypeError'' []))"

definition set_x25519 :: "x25519_pair \<Rightarrow> x25519_pair io" where
  "set_x25519 kp = andthen (update (\<lambda>w. w\<lparr>w_x25519 := Some kp\<rparr>)) (ret kp)"

definition raw_pair :: "platform \<Rightarrow> crypto_key \<Rightarrow> bytes \<Rightarrow> bytes \<Rightarrow> x25519_pair io" where
  "raw_pair P kek pub wrapped = bindio (unwrapSecretBytes P kek wrapped) (\<lambda>raw.
     set_x25519 \<lparr>xk_public = pub, xk_private = None, xk_seed = Some raw\<rparr>)"

text \<open>The stored pair; \<open>None\<close>: it cannot be used any more and a new one is generated.\<close>

definition x25519_load :: "platform \<Rightarrow> crypto_key \<Rightarrow> js_value \<Rightarrow> x25519_pair option io" where
  "x25519_load P kek existing = bindio (as_x25519_row existing) (\<lambda>(pub, wrapped, raw).
     case (wrapped, raw) of
       ([], Some r) \<Rightarrow> bindio (raw_pair P kek pub r) (\<lambda>kp. ret (Some kp))
     | _ \<Rightarrow> tryio
         (bindio (unwrap_pkcs8 P X25519 wrapped kek False) (\<lambda>k.
            bindio (set_x25519 \<lparr>xk_public = pub, xk_private = Some k, xk_seed = None\<rparr>) (\<lambda>kp. ret (Some kp))))
         (\<lambda>e. if error_name e \<noteq> ''NotSupportedError'' then raise e
              else case raw of
                  Some (b # r) \<Rightarrow> bindio (raw_pair P kek pub (b # r)) (\<lambda>kp. ret (Some kp))
                | _ \<Rightarrow> ret None))"

definition x25519_native :: "platform \<Rightarrow> crypto_key \<Rightarrow> x25519_pair io" where
  "x25519_native P kek =
     (if \<not> supports P X25519 then raise not_supported
      else bindio (draw 32) (\<lambda>secret.
        let key = curve_key X25519 ''private'' True secret; pub = x_public P secret in
        bindio (wrap_pkcs8 P X25519 key kek) (\<lambda>wrappedPriv.
        bindio (export_raw_private P key) (\<lambda>rawPrivBytes.
        bindio (wrapSecretBytes P kek rawPrivBytes) (\<lambda>wrappedPrivRaw.
        andthen (db_save (clones_keys P) IdentityDb X25519_KEYPAIR_NAME
            (X25519Row pub wrappedPriv (Some wrappedPrivRaw)))
          (bindio (unwrap_pkcs8 P X25519 wrappedPriv kek False) (\<lambda>handle.
            set_x25519 \<lparr>xk_public = pub, xk_private = Some handle, xk_seed = None\<rparr>)))))))"

definition x25519_noble :: "platform \<Rightarrow> crypto_key \<Rightarrow> x25519_pair io" where
  "x25519_noble P kek = bindio (draw 32) (\<lambda>privBytes.
     bindio (wrapSecretBytes P kek privBytes) (\<lambda>wrappedPrivRaw.
       andthen (db_save (clones_keys P) IdentityDb X25519_KEYPAIR_NAME
           (X25519Row (toArrayBuffer (x_public P privBytes)) [] (Some wrappedPrivRaw)))
         (set_x25519 \<lparr>xk_public = x_public P privBytes, xk_private = None, xk_seed = Some privBytes\<rparr>)))"

definition x25519_create :: "platform \<Rightarrow> crypto_key \<Rightarrow> x25519_pair io" where
  "x25519_create P kek = tryio (x25519_native P kek)
     (\<lambda>e. if error_name e \<noteq> ''NotSupportedError'' then raise e else x25519_noble P kek)"

definition getOrCreateX25519Keypair :: "platform \<Rightarrow> x25519_pair io" where
  "getOrCreateX25519Keypair P = bindio (gets w_x25519) (\<lambda>c. case c of
      Some kp \<Rightarrow> ret kp
    | None \<Rightarrow> bindio (getOrCreateWrappingKey P) (\<lambda>kek.
        bindio (db_load (clones_keys P) IdentityDb X25519_KEYPAIR_NAME) (\<lambda>existing.
          bindio (case existing of None \<Rightarrow> ret None | Some v \<Rightarrow> x25519_load P kek v) (\<lambda>r. case r of
              Some kp \<Rightarrow> ret kp | None \<Rightarrow> x25519_create P kek))))"

definition dhX25519 :: "platform \<Rightarrow> bytes \<Rightarrow> bytes io" where
  "dhX25519 P remotePub = bindio (getOrCreateX25519Keypair P) (\<lambda>kp. case xk_private kp of
      None \<Rightarrow> (case xk_seed kp of
          None \<Rightarrow> raise (Thrown ''Error'' ''dhX25519: no X25519 private key available'')
        | Some s \<Rightarrow> if length remotePub = 32 then ret (x_shared P s remotePub)
                    else raise (Thrown ''Error'' ''expected 32 bytes''))
    | Some k \<Rightarrow> bindio (import_raw_public P X25519 (toArrayBuffer remotePub)) (\<lambda>r.
        ret (x_shared P (ck_bytes k) (ck_bytes r))))"

section \<open>The profile seed\<close>

definition set_profile :: "bytes \<Rightarrow> bytes io" where
  "set_profile seed = andthen (update (\<lambda>w. w\<lparr>w_profile := Some seed\<rparr>)) (ret seed)"

definition getOrCreateProfileSeed :: "platform \<Rightarrow> bytes io" where
  "getOrCreateProfileSeed P = bindio (gets w_profile) (\<lambda>c. case c of
      Some seed \<Rightarrow> ret seed
    | None \<Rightarrow> bindio (db_load (clones_keys P) IdentityDb PROFILE_SEED_NAME) (\<lambda>existing. case existing of
          Some v \<Rightarrow> bindio (as_buffer v) set_profile
        | None \<Rightarrow> bindio (draw 32) (\<lambda>seed.
            andthen (db_save (clones_keys P) IdentityDb PROFILE_SEED_NAME (ArrayBuf seed)) (set_profile seed))))"

definition clearProfileSeed :: "unit io" where
  "clearProfileSeed = andthen (update (\<lambda>w. w\<lparr>w_profile := None\<rparr>)) (db_delete IdentityDb PROFILE_SEED_NAME)"

definition setProfileSeed :: "platform \<Rightarrow> bytes \<Rightarrow> unit io" where
  "setProfileSeed P seed = andthen (update (\<lambda>w. w\<lparr>w_profile := None\<rparr>))
     (andthen (db_save (clones_keys P) IdentityDb PROFILE_SEED_NAME (ArrayBuf (toArrayBuffer seed)))
       (update (\<lambda>w. w\<lparr>w_profile := Some seed\<rparr>)))"

section \<open>Backup and restore\<close>

definition exportRawDeviceSecretImpl :: "platform \<Rightarrow> (bytes \<times> string) io" where
  "exportRawDeviceSecretImpl P = bindio (db_load (clones_keys P) IdentityDb DEVICE_KEY_NAME) (\<lambda>row. case row of
      None \<Rightarrow> raise (IdentityDataError ''No device identity in IDB'')
    | Some v \<Rightarrow> bindio (getOrCreateWrappingKey P) (\<lambda>kek. bindio (as_identity_row v) (\<lambda>(pub, wrappedPriv).
        if wrappedPriv = [] then
          bindio (db_load (clones_keys P) IdentityDb DEVICE_PRIV_RAW_NAME) (\<lambda>raw. case raw of
              None \<Rightarrow> raise (IdentityDataError ''No Ed25519 private key in IDB'')
            | Some r \<Rightarrow> bindio (as_buffer r) (\<lambda>wrapped.
                bindio (unwrapSecretBytes P kek wrapped) (\<lambda>secret. ret (secret, pub))))
        else
          bindio (unwrap_pkcs8 P Ed25519 wrappedPriv kek True) (\<lambda>k.
            bindio (export_pkcs8 Ed25519 k) (\<lambda>pkcs8.
              if length pkcs8 < 48
              then raise (IdentityDataError ''Unexpected PKCS#8 length for Ed25519 key'')
              else ret (drop 16 pkcs8, pub))))))"

definition exportRawDeviceSecret :: "platform \<Rightarrow> (bytes \<times> string) io" where
  "exportRawDeviceSecret P = tryio
     (bindio (exportRawDeviceSecretImpl P) (\<lambda>r. andthen (track ''client.identity_raw_export'' ''ok'') (ret r)))
     (\<lambda>e. andthen (track ''client.identity_raw_export'' (classifyIdentityError e UnwrapStage)) (raise e))"

text \<open>Up to the write of the pair.\<close>

definition replace_pair :: "platform \<Rightarrow> bytes \<Rightarrow> string \<Rightarrow> unit io" where
  "replace_pair P secret pub = andthen (update (\<lambda>w. w\<lparr>w_identity := None, w_kek := None\<rparr>))
     (bindio (getOrCreateWrappingKey P) (\<lambda>kek.
      bindio (wrapSecretBytes P kek secret) (\<lambda>wrappedRawSeed.
      bindio (try_supported (bindio (import_pkcs8 P Ed25519 (ED25519_PKCS8_PREFIX @ secret) True) (\<lambda>k.
          wrap_pkcs8 P Ed25519 k kek))) (\<lambda>wrappedPrivateKey.
        db_saveMany IdentityDb (identity_pair pub wrappedRawSeed
          (case wrappedPrivateKey of None \<Rightarrow> [] | Some b \<Rightarrow> b))))))"

definition foreign_sealed :: "string \<Rightarrow> js_value option \<Rightarrow> bool" where
  "foreign_sealed pub row = (case row of
      None \<Rightarrow> False | Some (SealedRow kind owner wrapped) \<Rightarrow> owner \<noteq> pub | Some v \<Rightarrow> True)"

definition replace_tidy :: "platform \<Rightarrow> string \<Rightarrow> unit io" where
  "replace_tidy P pub = tryio
     (bindio (db_load (clones_keys P) IdentityDb SEALED_X25519_NAME) (\<lambda>row.
        if foreign_sealed pub row then db_delete IdentityDb SEALED_X25519_NAME else ret ()))
     (\<lambda>e. track ''client.identity_legacy_residue_wipe_failed'' (classifyIdentityError e UnwrapStage))"

definition replace_finish :: "unit io" where
  "replace_finish = update (\<lambda>w. w\<lparr>w_sealed := None, w_epoch := w_epoch w + 1, w_identity := None\<rparr>)"

definition replaceDeviceIdentity :: "platform \<Rightarrow> bytes \<Rightarrow> string \<Rightarrow> unit io" where
  "replaceDeviceIdentity P secret pub =
     andthen (replace_pair P secret pub) (andthen (replace_tidy P pub) replace_finish)"

end
