(* ===== verification/Identity_Inv.thy ===== *)
theory Identity_Inv
  imports Identity
begin

text \<open>
  What holds of the device identity over any stored data and any storage failures: a small
  program logic for the asynchronous code, the contract of the identity pair as a locale, and its
  interpretations.
\<close>

section \<open>A program logic\<close>

text \<open>
  \<open>keeps I m Q\<close>: from a world where \<open>I\<close> holds, \<open>m\<close> ends in one where it holds again, whether it
  returns or throws, and what it returns satisfies \<open>Q\<close>.
\<close>

definition keeps :: "(world \<Rightarrow> bool) \<Rightarrow> 'a io \<Rightarrow> ('a \<Rightarrow> bool) \<Rightarrow> bool" where
  "keeps I m Q \<longleftrightarrow> (\<forall>w. I w \<longrightarrow> I (fst (m w)) \<and> (\<forall>x. snd (m w) = Inr x \<longrightarrow> Q x))"

named_theorems keeps_rules \<open>the rules of the program logic\<close>

lemmas [keeps_rules] = TrueI

lemma keeps_weaken: "keeps I m Q \<Longrightarrow> (\<And>x. Q x \<Longrightarrow> R x) \<Longrightarrow> keeps I m R"
  by (simp add: keeps_def)

lemma keeps_ret [keeps_rules]: "Q x \<Longrightarrow> keeps I (ret x) Q"
  by (simp add: keeps_def ret_def)

lemma keeps_raise [keeps_rules]: "keeps I (raise e) Q"
  by (simp add: keeps_def raise_def)

lemma keeps_bind: "keeps I m R \<Longrightarrow> (\<And>x. R x \<Longrightarrow> keeps I (f x) Q) \<Longrightarrow> keeps I (bindio m f) Q"
  by (fastforce simp: keeps_def bindio_def split: prod.splits sum.splits)

lemma keeps_bind_any [keeps_rules]: "keeps I m (\<lambda>_. True) \<Longrightarrow> (\<And>x. keeps I (f x) Q) \<Longrightarrow> keeps I (bindio m f) Q"
  by (rule keeps_bind)

lemma keeps_then [keeps_rules]: "keeps I m (\<lambda>_. True) \<Longrightarrow> keeps I n Q \<Longrightarrow> keeps I (andthen m n) Q"
  by (simp add: andthen_def keeps_bind_any)

lemma keeps_try [keeps_rules]: "keeps I m Q \<Longrightarrow> (\<And>e. keeps I (h e) Q) \<Longrightarrow> keeps I (tryio m h) Q"
  by (fastforce simp: keeps_def tryio_def split: prod.splits sum.splits)

lemma keeps_settle:
  "keeps I m (\<lambda>_. True) \<Longrightarrow> (\<And>e. keeps I (h e) Q) \<Longrightarrow> (\<And>x. keeps I (f x) Q) \<Longrightarrow> keeps I (settle m h f) Q"
  by (fastforce simp: keeps_def settle_def split: prod.splits sum.splits)

lemma keeps_gets: "(\<And>w. I w \<Longrightarrow> Q (f w)) \<Longrightarrow> keeps I (gets f) Q"
  by (simp add: keeps_def gets_def)

lemma keeps_gets_any [keeps_rules]: "keeps I (gets f) (\<lambda>_. True)"
  by (simp add: keeps_gets)

lemma keeps_update: "(\<And>w. I w \<Longrightarrow> I (f w)) \<Longrightarrow> keeps I (update f) (\<lambda>_. True)"
  by (simp add: keeps_def update_def)

lemma keeps_from_option: "(\<And>y. x = Some y \<Longrightarrow> Q y) \<Longrightarrow> keeps I (from_option e x) Q"
  by (cases x) (simp_all add: from_option_def keeps_raise keeps_ret)

lemma keeps_from_option_any [keeps_rules]: "keeps I (from_option e x) (\<lambda>_. True)"
  by (simp add: keeps_from_option)

lemma keeps_if [keeps_rules]: "(b \<Longrightarrow> keeps I m Q) \<Longrightarrow> (\<not> b \<Longrightarrow> keeps I n Q) \<Longrightarrow> keeps I (if b then m else n) Q"
  by simp

lemma keeps_option [keeps_rules]:
  "(x = None \<Longrightarrow> keeps I m Q) \<Longrightarrow> (\<And>y. x = Some y \<Longrightarrow> keeps I (f y) Q) \<Longrightarrow>
     keeps I (case x of None \<Rightarrow> m | Some y \<Rightarrow> f y) Q"
  by (cases x) simp_all

lemma keeps_sum [keeps_rules]:
  "(\<And>y. x = Inl y \<Longrightarrow> keeps I (g y) Q) \<Longrightarrow> (\<And>y. x = Inr y \<Longrightarrow> keeps I (f y) Q) \<Longrightarrow>
     keeps I (case x of Inl y \<Rightarrow> g y | Inr y \<Rightarrow> f y) Q"
  by (cases x) simp_all

lemma keeps_pair [keeps_rules]:
  "(\<And>a b. x = (a, b) \<Longrightarrow> keeps I (f a b) Q) \<Longrightarrow> keeps I (case x of (a, b) \<Rightarrow> f a b) Q"
  by (cases x) simp

lemma keeps_kek_entry [keeps_rules]:
  "(\<And>bs. x = RawKek bs \<Longrightarrow> keeps I (f bs) Q) \<Longrightarrow> (\<And>k. x = KeyKek k \<Longrightarrow> keeps I (g k) Q) \<Longrightarrow>
     keeps I (case x of RawKek bs \<Rightarrow> f bs | KeyKek k \<Rightarrow> g k) Q"
  by (cases x) simp_all

section \<open>The identity pair\<close>

text \<open>What the contract is about: the two rows of the pair and the cached identity.\<close>

type_synonym pair_state = "js_value option \<times> js_value option \<times> identity option"

definition pair_state :: "world \<Rightarrow> pair_state" where
  "pair_state w = (w_db w IdentityDb DEVICE_KEY_NAME, w_db w IdentityDb DEVICE_PRIV_RAW_NAME, w_identity w)"

abbreviation pair_keeps :: "(pair_state \<Rightarrow> bool) \<Rightarrow> 'a io \<Rightarrow> ('a \<Rightarrow> bool) \<Rightarrow> bool" where
  "pair_keeps J \<equiv> keeps (\<lambda>w. J (pair_state w))"

definition identity_matches :: "platform \<Rightarrow> identity \<Rightarrow> bool" where
  "identity_matches P i \<longleftrightarrow> (\<forall>s. privateKeySeed i = Some s \<longrightarrow>
     fromBase64url (publicKeyB64 i) = Some (ed_public P (opaque_bytes s)))"

definition fresh_identity :: "platform \<Rightarrow> identity \<Rightarrow> bool" where
  "fresh_identity P i \<longleftrightarrow> (\<exists>s. length s = 32 \<and> privateKeySeed i = Some (OpaquePrivateKey s)
     \<and> publicKeyB64 i = toBase64url (ed_public P s))"

text \<open>A pair written by one mint: the wrapped seed and the public key of that seed.\<close>

definition new_pair :: "platform \<Rightarrow> js_value option \<Rightarrow> js_value option \<Rightarrow> bool" where
  "new_pair P row raw \<longleftrightarrow> (\<exists>k s wp. length s = 32 \<and> row = Some (IdentityRow (toBase64url (ed_public P s)) wp)
     \<and> raw = Some (ArrayBuf (kw_wrap P k s)))"

lemma fresh_matches: "fresh_identity P i \<Longrightarrow> identity_matches P i"
  by (auto simp: fresh_identity_def identity_matches_def decode_encode)

text \<open>An identity that can sign, under its own key.\<close>

definition sound_identity :: "platform \<Rightarrow> identity \<Rightarrow> bool" where
  "sound_identity P i \<longleftrightarrow> identity_matches P i \<and> privateKeySeed i \<noteq> None"

lemma fresh_sound: "fresh_identity P i \<Longrightarrow> sound_identity P i"
  using fresh_matches by (auto simp: sound_identity_def fresh_identity_def)

lemmas names_simps = WRAPPING_KEY_NAME_def DEVICE_KEY_NAME_def PROFILE_SEED_NAME_def DEVICE_PRIV_RAW_NAME_def
  X25519_KEYPAIR_NAME_def SEALED_X25519_NAME_def KEK_KEY_NAME_def ROOM_KEY_def ROOM_WRAPPING_KEY_def

text \<open>
  Properties of the world that storage, randomness, events and the wrapping keys cannot disturb.
\<close>

locale storage_frame =
  fixes I :: "world \<Rightarrow> bool"
  assumes fields: "I (w\<lparr>w_kek := a\<rparr>) = I w" "I (w\<lparr>w_clone := b\<rparr>) = I w"
      "I (w\<lparr>w_roomSeed := g\<rparr>) = I w" "I (w\<lparr>w_roomKek := a\<rparr>) = I w"
      "I (w\<lparr>w_replies := rs\<rparr>) = I w" "I (w\<lparr>w_draws := ds\<rparr>) = I w"
    and event: "e \<noteq> ''client.identity_raw_export'' \<Longrightarrow> I (w\<lparr>w_events := w_events w @ [(e, l)]\<rparr>) = I w"
    and written: "s \<noteq> IdentityDb \<or> k \<noteq> DEVICE_KEY_NAME \<and> k \<noteq> DEVICE_PRIV_RAW_NAME \<Longrightarrow>
      I (set_db s ((w_db w s)(k := v)) w) = I w"
    and cleared: "s \<noteq> IdentityDb \<Longrightarrow> I (set_db s (\<lambda>_. None) w) = I w"
begin

lemma keeps_field: "(\<And>w. I (f w) = I w) \<Longrightarrow> keeps I (update f) (\<lambda>_. True)"
  by (rule keeps_update) (simp only:)

lemma keeps_reply: "keeps I next_reply (\<lambda>_. True)"
  by (simp add: keeps_def next_reply_def fields split: list.splits)

lemma keeps_draw: "keeps I (draw n) (\<lambda>bs. length bs = n)"
  by (auto simp: keeps_def draw_def min_def fields split: list.splits)

lemma keeps_draw_any [keeps_rules]: "keeps I (draw n) (\<lambda>_. True)"
  by (rule keeps_weaken [OF keeps_draw]) simp

lemma keeps_track [keeps_rules]:
  "e \<noteq> ''client.identity_raw_export'' \<Longrightarrow> keeps I (track e l) (\<lambda>_. True)"
  unfolding track_def by (rule keeps_field) (rule event)

lemma keeps_load [keeps_rules]: "keeps I (db_load c s k) (\<lambda>_. True)"
  unfolding db_load_def
  by (rule keeps_bind [OF keeps_reply])
     (auto split: reply.split intro!: keeps_bind [OF keeps_gets_any] simp: keeps_raise keeps_ret)

lemma keeps_write:
  assumes "\<And>w. I (set_db s (f (w_db w s)) w) = I w"
  shows "keeps I (db_write s f) (\<lambda>_. True)"
  unfolding db_write_def
  by (rule keeps_bind [OF keeps_reply])
     (simp split: reply.split add: keeps_raise keeps_ret keeps_field assms)

lemma keeps_save:
  assumes "s \<noteq> IdentityDb \<or> k \<noteq> DEVICE_KEY_NAME \<and> k \<noteq> DEVICE_PRIV_RAW_NAME"
  shows "keeps I (db_save c s k v) (\<lambda>_. True)"
  unfolding db_save_def using written [OF assms] by (cases v) (simp_all add: keeps_raise keeps_write)

lemma keeps_delete:
  assumes "k \<noteq> DEVICE_KEY_NAME" and "k \<noteq> DEVICE_PRIV_RAW_NAME"
  shows "keeps I (db_delete IdentityDb k) (\<lambda>_. True)"
  unfolding db_delete_def using written assms by (intro keeps_write) blast

lemma keeps_clear: "s \<noteq> IdentityDb \<Longrightarrow> keeps I (db_clear s) (\<lambda>_. True)"
  unfolding db_clear_def using cleared by (intro keeps_write) blast

lemma keeps_generate_kek [keeps_rules]: "keeps I (generateAesKwKey b) (\<lambda>_. True)"
  unfolding generateAesKwKey_def by (intro keeps_rules)

lemma keeps_import_kek [keeps_rules]: "keeps I (importAesKwRaw bs b) (\<lambda>_. True)"
  unfolding importAesKwRaw_def by (intro keeps_rules)

lemma keeps_export [keeps_rules]: "keeps I (exportRaw k) (\<lambda>_. True)"
  unfolding exportRaw_def by (intro keeps_rules)

lemma keeps_handle [keeps_rules]: "keeps I (kek_handle e) (\<lambda>_. True)"
  unfolding kek_handle_def by (intro keeps_rules)

lemma keeps_probe [keeps_rules]: "keeps I (probeStructuredClone P') (\<lambda>_. True)"
  unfolding probeStructuredClone_def by (intro keeps_rules keeps_field) (simp_all add: fields)

lemma keeps_set_kek [keeps_rules]: "keeps I (set_kek k) (\<lambda>_. True)"
  unfolding set_kek_def by (intro keeps_rules keeps_field) (simp_all add: fields)

lemma keeps_copy [keeps_rules]: "keeps I (copy_forward P' b e) (\<lambda>_. True)"
  unfolding copy_forward_def by (intro keeps_rules keeps_save) simp_all

lemma keeps_adopt [keeps_rules]: "keeps I (adoptLegacyWrappingKey P' b) (\<lambda>_. True)"
  unfolding adoptLegacyWrappingKey_def by (intro keeps_rules) simp_all

lemma keeps_kek_lookup [keeps_rules]: "keeps I (kek_lookup P') (\<lambda>_. True)"
  unfolding kek_lookup_def by (intro keeps_rules)

lemma keeps_kek_mint [keeps_rules]: "keeps I (kek_mint P' b) (\<lambda>_. True)"
  unfolding kek_mint_def by (intro keeps_rules keeps_save) simp_all

lemma keeps_kek [keeps_rules]: "keeps I (getOrCreateWrappingKey P') (\<lambda>_. True)"
  unfolding getOrCreateWrappingKey_def by (intro keeps_rules)

lemma keeps_unwrap_secret [keeps_rules]: "keeps I (unwrapSecretBytes P' k c) (\<lambda>_. True)"
  unfolding unwrapSecretBytes_def by (intro keeps_rules)

lemma keeps_wrap_secret: "keeps I (wrapSecretBytes P k m) (\<lambda>c. c = kw_wrap P (ck_bytes k) m)"
  unfolding wrapSecretBytes_def by (intro keeps_rules) (simp_all add: toArrayBuffer_def)

lemma keeps_import_pkcs8 [keeps_rules]: "keeps I (import_pkcs8 P' c bs b) (\<lambda>_. True)"
  unfolding import_pkcs8_def by (intro keeps_rules)

lemma keeps_import_public [keeps_rules]: "keeps I (import_raw_public P' c bs) (\<lambda>_. True)"
  unfolding import_raw_public_def by (intro keeps_rules)

lemma keeps_wrap_pkcs8 [keeps_rules]: "keeps I (wrap_pkcs8 P' c k kek) (\<lambda>_. True)"
  unfolding wrap_pkcs8_def export_pkcs8_def by (intro keeps_rules)

lemma keeps_unwrap_pkcs8 [keeps_rules]: "keeps I (unwrap_pkcs8 P' c b kek e) (\<lambda>_. True)"
  unfolding unwrap_pkcs8_def by (intro keeps_rules)

lemma keeps_supported [keeps_rules]: "keeps I m (\<lambda>_. True) \<Longrightarrow> keeps I (try_supported m) (\<lambda>_. True)"
  unfolding try_supported_def by (intro keeps_rules)

lemma keeps_as_buffer [keeps_rules]: "keeps I (as_buffer v) (\<lambda>_. True)"
  unfolding as_buffer_def by (cases v) (simp_all add: keeps_ret keeps_raise)

lemma keeps_as_row [keeps_rules]: "keeps I (as_identity_row v) (\<lambda>_. True)"
  unfolding as_identity_row_def by (cases v) (simp_all add: keeps_ret keeps_raise)

lemma keeps_decode: "keeps I (decode64 s) (\<lambda>bs. fromBase64url s = Some bs)"
  unfolding decode64_def by (rule keeps_from_option) simp

lemma keeps_decode_any [keeps_rules]: "keeps I (decode64 s) (\<lambda>_. True)"
  by (rule keeps_weaken [OF keeps_decode]) simp

lemma keeps_clear_room [keeps_rules]: "keeps I clearRoomHostSeed (\<lambda>_. True)"
  unfolding clearRoomHostSeed_def by (intro keeps_rules keeps_field keeps_clear) (simp_all add: fields)

lemma keeps_overwrite [keeps_rules]: "keeps I (overwrite_kek P' e) (\<lambda>_. True)"
  unfolding overwrite_kek_def by (intro keeps_rules keeps_save) simp_all

end

text \<open>
  Those that the session's other keys and the epoch cannot disturb either: they depend on the rows of
  the pair, the cached identity and the audit events at most.
\<close>

locale io_frame = storage_frame +
  assumes session_fields: "I (w\<lparr>w_x25519 := c\<rparr>) = I w" "I (w\<lparr>w_sealed := d\<rparr>) = I w" "I (w\<lparr>w_epoch := n\<rparr>) = I w"
      "I (w\<lparr>w_profile := f\<rparr>) = I w" "I (w\<lparr>w_hostKeys := h\<rparr>) = I w"
begin

lemma keeps_residue [keeps_rules]: "keeps I drop_residue (\<lambda>_. True)"
  unfolding drop_residue_def
  by (intro keeps_rules keeps_field keeps_delete) (simp_all add: session_fields names_simps)

end

lemma pair_state_fields [simp]:
  "pair_state (w\<lparr>w_kek := a\<rparr>) = pair_state w" "pair_state (w\<lparr>w_clone := b\<rparr>) = pair_state w"
  "pair_state (w\<lparr>w_x25519 := c\<rparr>) = pair_state w" "pair_state (w\<lparr>w_sealed := d\<rparr>) = pair_state w"
  "pair_state (w\<lparr>w_epoch := n\<rparr>) = pair_state w" "pair_state (w\<lparr>w_profile := f\<rparr>) = pair_state w"
  "pair_state (w\<lparr>w_roomSeed := f\<rparr>) = pair_state w" "pair_state (w\<lparr>w_roomKek := a\<rparr>) = pair_state w"
  "pair_state (w\<lparr>w_roomClone := b\<rparr>) = pair_state w" "pair_state (w\<lparr>w_hostKeys := h\<rparr>) = pair_state w"
  "pair_state (w\<lparr>w_replies := rs\<rparr>) = pair_state w" "pair_state (w\<lparr>w_draws := ds\<rparr>) = pair_state w"
  "pair_state (w\<lparr>w_events := es\<rparr>) = pair_state w"
  by (simp_all add: pair_state_def)

lemma pair_state_other_db: "s \<noteq> IdentityDb \<Longrightarrow> pair_state (set_db s d w) = pair_state w"
  by (simp add: pair_state_def set_db_def)

lemma pair_state_other_write:
  "s \<noteq> IdentityDb \<or> k \<noteq> DEVICE_KEY_NAME \<and> k \<noteq> DEVICE_PRIV_RAW_NAME \<Longrightarrow>
     pair_state (set_db s ((w_db w s)(k := v)) w) = pair_state w"
  by (cases s) (auto simp: pair_state_def set_db_def)

text \<open>
  The contract. \<open>J\<close> is a property of the pair that dropping or setting the cached identity keeps, if
  the identity set matches its seed, and that the write of a freshly minted pair keeps.
\<close>

locale pair_contract =
  fixes P :: platform and J :: "pair_state \<Rightarrow> bool"
  assumes cache_drop: "J (a, b, c) \<Longrightarrow> J (a, b, None)"
    and cache_set: "J (a, b, c) \<Longrightarrow> identity_matches P i \<Longrightarrow> privateKeySeed i \<noteq> None \<Longrightarrow> J (a, b, Some i)"
    and cached_matches: "J (a, b, Some i) \<Longrightarrow> identity_matches P i \<and> privateKeySeed i \<noteq> None"
    and pair_written: "J (a, b, c) \<Longrightarrow> new_pair P a' b' \<Longrightarrow> J (a', b', c)"

sublocale pair_contract \<subseteq> io_frame "\<lambda>w. J (pair_state w)"
  by unfold_locales (auto simp: pair_state_other_db pair_state_other_write)

context pair_contract
begin

lemma keeps_generate: "pair_keeps J (generateDeviceIdentity P) (fresh_identity P)"
proof -
  have "pair_keeps J (generateDeviceIdentity P) (\<lambda>i. fresh_identity P i)"
    unfolding generateDeviceIdentity_def Let_def
    by (rule keeps_bind [OF keeps_draw], intro keeps_rules) (simp_all add: fresh_identity_def)
  then show ?thesis by simp
qed

lemma keeps_persist_wrap:
  assumes "fresh_identity P i"
  shows "pair_keeps J (persist_wrap P i kek)
    (\<lambda>(k, c, wp). \<exists>s. length s = 32 \<and> publicKeyB64 i = toBase64url (ed_public P s) \<and> c = kw_wrap P (ck_bytes k) s)"
proof -
  obtain s where "length s = 32" "privateKeySeed i = Some (OpaquePrivateKey s)"
    "publicKeyB64 i = toBase64url (ed_public P s)"
    using assms by (auto simp: fresh_identity_def)
  then show ?thesis
    unfolding persist_wrap_def
    by (intro keeps_bind [where R = "\<lambda>x. x = OpaquePrivateKey s"] keeps_from_option
          keeps_bind [OF keeps_wrap_secret] keeps_bind_any keeps_option keeps_ret keeps_wrap_pkcs8) auto
qed

lemma keeps_pair_write:
  assumes "new_pair P (Some (IdentityRow pub wp)) (Some (ArrayBuf c))"
  shows "pair_keeps J (db_saveMany IdentityDb (identity_pair pub c wp)) (\<lambda>_. True)"
proof -
  have "J (pair_state w) \<Longrightarrow> J (pair_state (set_db IdentityDb
      (fold (\<lambda>(k, v) d. d(k \<mapsto> v)) (identity_pair pub c wp) (w_db w IdentityDb)) w))" for w
    using pair_written [OF _ assms]
    by (simp add: pair_state_def set_db_def identity_pair_def names_simps)
  then show ?thesis
    unfolding db_saveMany_def
    by (intro keeps_bind [OF keeps_reply]) (simp split: reply.split add: keeps_raise keeps_update)
qed

lemma keeps_noble: "pair_keeps J (noble_public P s) (\<lambda>p. p = ed_public P s)"
  unfolding noble_public_def by (intro keeps_rules) simp_all

lemma keeps_unwrap_with: "pair_keeps J (unwrapIdentityWith P stored kek) (identity_matches P)"
proof -
  have "pair_keeps J (unwrapIdentityWith P stored kek) (\<lambda>i. identity_matches P i)"
    unfolding unwrapIdentityWith_def
    by (intro keeps_bind [OF keeps_noble] keeps_bind [OF keeps_decode] keeps_if keeps_raise keeps_ret
          keeps_bind_any keeps_rules) (simp_all add: identity_matches_def)
  then show ?thesis by simp
qed

lemma keeps_persist_commit:
  assumes "fresh_identity P i"
    and "\<exists>s. length s = 32 \<and> publicKeyB64 i = toBase64url (ed_public P s) \<and> c = kw_wrap P (ck_bytes k) s"
  shows "pair_keeps J (persist_commit P i (k, c, wp)) (\<lambda>j. fresh_identity P j)"
proof -
  have "new_pair P (Some (IdentityRow (publicKeyB64 i) wp')) (Some (ArrayBuf c))" for wp'
    using assms(2) by (auto simp: new_pair_def)
  note w = keeps_pair_write [OF this]
  show ?thesis
    unfolding persist_commit_def prod.case
    by (intro keeps_then w keeps_rules) (use assms(1) in \<open>simp_all add: fresh_identity_def\<close>)
qed

lemma keeps_persist:
  assumes "fresh_identity P i"
  shows "pair_keeps J (persistIdentity P i) (\<lambda>j. fresh_identity P j)"
  unfolding persistIdentity_def persist_prepare_def
  by (intro keeps_bind [OF keeps_bind [OF keeps_kek keeps_persist_wrap [OF assms]]])
     (auto intro: keeps_persist_commit [OF assms])

lemma keeps_mint: "pair_keeps J (mintIdentityWithStorageFallback P) (\<lambda>(i, b). fresh_identity P i)"
proof -
  have g: "pair_keeps J (bindio (generateDeviceIdentity P) (\<lambda>i. ret (i, False))) (\<lambda>(i, b). fresh_identity P i)"
    by (rule keeps_bind [OF keeps_generate]) (simp add: keeps_ret)
  show ?thesis
    unfolding mintIdentityWithStorageFallback_def
    by (intro keeps_try keeps_bind [OF keeps_generate] keeps_bind [OF keeps_persist])
       (auto split: id_error.split intro: keeps_then keeps_track g keeps_raise keeps_ret)
qed

lemma keeps_mint_sound: "pair_keeps J (mintIdentityWithStorageFallback P) (\<lambda>(i, b). sound_identity P i)"
  by (rule keeps_weaken [OF keeps_mint]) (auto intro: fresh_sound)

lemma keeps_set_identity:
  assumes "sound_identity P i"
  shows "pair_keeps J (update (\<lambda>w. w\<lparr>w_identity := Some i\<rparr>)) (\<lambda>_. True)"
  by (rule keeps_update) (use cache_set assms sound_identity_def in \<open>simp add: pair_state_def\<close>)

lemma keeps_recover:
  "pair_keeps J (recoverWithLegacyKey P stored) (\<lambda>r. \<forall>i. r = Some i \<longrightarrow> identity_matches P i)"
  unfolding recoverWithLegacyKey_def
  by (intro keeps_try keeps_bind [OF keeps_unwrap_with] keeps_rules) simp_all

lemma keeps_load_or_recover: "pair_keeps J (load_or_recover P stored) (\<lambda>(i, b). identity_matches P i)"
  unfolding load_or_recover_def unwrapIdentity_def
  by (intro keeps_try keeps_bind [OF keeps_bind [OF keeps_kek keeps_unwrap_with]]
        keeps_bind [OF keeps_recover] keeps_rules) simp_all

lemma keeps_replace_legacy: "pair_keeps J (replace_legacy P b) (sound_identity P)"
  unfolding replace_legacy_def
  by (rule keeps_bind [OF keeps_mint_sound])
     (auto intro!: keeps_then keeps_residue keeps_set_identity keeps_track keeps_ret)

lemma keeps_load_stored: "pair_keeps J (load_stored P v) (sound_identity P)"
  unfolding load_stored_def
  by (rule keeps_bind [OF keeps_load_or_recover])
     (auto intro!: keeps_then keeps_set_identity keeps_track keeps_ret keeps_replace_legacy
        simp: sound_identity_def)

lemma keeps_create_first: "pair_keeps J (create_first P) (sound_identity P)"
  unfolding create_first_def
  by (rule keeps_bind [OF keeps_mint_sound])
     (auto intro!: keeps_then keeps_set_identity keeps_track keeps_ret)

lemma keeps_cached: "pair_keeps J (gets w_identity) (\<lambda>c. \<forall>i. c = Some i \<longrightarrow> sound_identity P i)"
  using cached_matches by (intro keeps_gets) (auto simp: pair_state_def sound_identity_def)

lemma keeps_ephemeral:
  "pair_keeps J (andthen (track ''client.idb_unavailable'' l) (generateDeviceIdentity P)) (sound_identity P)"
  by (intro keeps_then keeps_track keeps_weaken [OF keeps_generate] fresh_sound) simp_all

lemma keeps_inner: "pair_keeps J (getOrCreateDeviceIdentityInner P) (sound_identity P)"
  unfolding getOrCreateDeviceIdentityInner_def
  by (intro keeps_bind [OF keeps_cached] keeps_option keeps_settle keeps_load keeps_load_stored
        keeps_create_first keeps_ret)
     (auto split: id_error.split intro: keeps_ephemeral keeps_then keeps_track keeps_raise)

lemma keeps_identity: "pair_keeps J (getOrCreateDeviceIdentity P) (sound_identity P)"
  unfolding getOrCreateDeviceIdentity_def
  by (intro keeps_bind [OF keeps_cached] keeps_option keeps_inner keeps_ret) simp

end

section \<open>The contract on the code's states\<close>

text \<open>The cached identity is sound, whatever the rows hold.\<close>

definition cache_sound :: "platform \<Rightarrow> pair_state \<Rightarrow> bool" where
  "cache_sound P s = (case s of (row, raw, c) \<Rightarrow> \<forall>i. c = Some i \<longrightarrow> sound_identity P i)"

text \<open>The rows are those of the start, or a pair of one mint.\<close>

definition pair_atomic :: "platform \<Rightarrow> js_value option \<Rightarrow> js_value option \<Rightarrow> pair_state \<Rightarrow> bool" where
  "pair_atomic P row0 raw0 s = (cache_sound P s \<and>
     (case s of (row, raw, c) \<Rightarrow> row = row0 \<and> raw = raw0 \<or> new_pair P row raw))"

interpretation sound: pair_contract P "cache_sound P" for P
  by unfold_locales (auto simp: cache_sound_def sound_identity_def)

interpretation atomic: pair_contract P "pair_atomic P row0 raw0" for P row0 raw0
  by unfold_locales (auto simp: pair_atomic_def cache_sound_def sound_identity_def)

text \<open>C7: No split identity is ever used: whatever the databases hold (rows of two identities, old layouts,
  garbage) and whatever storage operation fails, an identity that getOrCreateDeviceIdentity
  returns has a seed, and its public key is the one of that seed; so is the identity it caches.
  A pair that does not match makes it throw instead.\<close>

theorem identity_never_split:
  assumes "\<And>i. w_identity w = Some i \<Longrightarrow> sound_identity P i"
    and "getOrCreateDeviceIdentity P w = (w', r)"
  shows "(\<forall>i. r = Inr i \<or> w_identity w' = Some i \<longrightarrow>
    (\<exists>s. privateKeySeed i = Some s \<and> fromBase64url (publicKeyB64 i) = Some (ed_public P (opaque_bytes s))))"
proof -
  have "cache_sound P (pair_state w)" using assms(1) by (simp add: cache_sound_def pair_state_def)
  then have "cache_sound P (pair_state w') \<and> (\<forall>i. r = Inr i \<longrightarrow> sound_identity P i)"
    using sound.keeps_identity [of P] assms(2) unfolding keeps_def by (metis fst_conv snd_conv)
  then show ?thesis
    by (auto simp: cache_sound_def pair_state_def sound_identity_def identity_matches_def)
qed

text \<open>C15: The pair changes as a whole: however the storage fails on the way, after getOrCreateDeviceIdentity the
  seed row and the public-key row are either both as they were, or both written by one mint, the
  seed of the one wrapped and the public key of that same seed.\<close>

theorem identity_pair_atomic:
  assumes "\<And>i. w_identity w = Some i \<Longrightarrow> sound_identity P i"
    and "getOrCreateDeviceIdentity P w = (w', r)"
  shows "(w_db w' IdentityDb DEVICE_KEY_NAME = w_db w IdentityDb DEVICE_KEY_NAME
      \<and> w_db w' IdentityDb DEVICE_PRIV_RAW_NAME = w_db w IdentityDb DEVICE_PRIV_RAW_NAME)
    \<or> (\<exists>k s wp. length s = 32
      \<and> w_db w' IdentityDb DEVICE_KEY_NAME = Some (IdentityRow (toBase64url (ed_public P s)) wp)
      \<and> w_db w' IdentityDb DEVICE_PRIV_RAW_NAME = Some (ArrayBuf (kw_wrap P k s)))"
proof -
  let ?J = "pair_atomic P (w_db w IdentityDb DEVICE_KEY_NAME) (w_db w IdentityDb DEVICE_PRIV_RAW_NAME)"
  have "?J (pair_state w)" using assms(1) by (simp add: pair_atomic_def cache_sound_def pair_state_def)
  then have "?J (pair_state w')"
    using atomic.keeps_identity [of P "w_db w IdentityDb DEVICE_KEY_NAME" "w_db w IdentityDb DEVICE_PRIV_RAW_NAME"]
      assms(2) unfolding keeps_def by (metis fst_conv)
  then show ?thesis by (auto simp: pair_atomic_def pair_state_def new_pair_def)
qed

end
