(* ===== verification/Identity_Life.thy ===== *)
theory Identity_Life
  imports Identity_Inv
begin

text \<open>
  The life of an identity when the storage works: what is created is found again after a reload and
  exported unchanged, legacy layouts are adopted or recovered, forgetting removes everything. And
  what goes wrong when unlocked calls overlap.
\<close>

section \<open>Storage that works\<close>

named_theorems quiet_simps \<open>the storage operations when none fails\<close>

lemma quiet_load_any: "w_replies w = [] \<Longrightarrow>
    db_load c s k w = (w, if readable c (w_db w s k) then Inr (w_db w s k) else Inl (Thrown ''DataCloneError'' []))"
  by (simp add: db_load_def next_reply_def io_defs)

lemma quiet_load [quiet_simps]:
  "w_replies w = [] \<Longrightarrow> readable c (w_db w s k) \<Longrightarrow> db_load c s k w = (w, Inr (w_db w s k))"
  by (simp add: db_load_def next_reply_def io_defs)

lemma quiet_write [quiet_simps]: "w_replies w = [] \<Longrightarrow> db_write s f w = (set_db s (f (w_db w s)) w, Inr ())"
  by (simp add: db_write_def next_reply_def io_defs)

lemma quiet_saveMany [quiet_simps]: "w_replies w = [] \<Longrightarrow>
    db_saveMany s kvs w = (set_db s (fold (\<lambda>(k, v) d. d(k \<mapsto> v)) kvs (w_db w s)) w, Inr ())"
  by (simp add: db_saveMany_def next_reply_def io_defs)

lemma quiet_save [quiet_simps]:
  assumes "w_replies w = []"
  shows "db_save c s k (ArrayBuf b) w = (set_db s ((w_db w s)(k \<mapsto> ArrayBuf b)) w, Inr ())"
    "db_save c s k (X25519Row p q r) w = (set_db s ((w_db w s)(k \<mapsto> X25519Row p q r)) w, Inr ())"
    "db_save c s k (SealedRow x y z) w = (set_db s ((w_db w s)(k \<mapsto> SealedRow x y z)) w, Inr ())"
    "db_save True s k (KeyObj key) w = (set_db s ((w_db w s)(k \<mapsto> KeyObj key)) w, Inr ())"
  using assms by (simp_all add: db_save_def quiet_write)

lemma quiet_delete [quiet_simps]: "w_replies w = [] \<Longrightarrow>
    db_delete s k w = (set_db s ((w_db w s)(k := None)) w, Inr ())"
  by (simp add: db_delete_def quiet_write)

lemma quiet_clear [quiet_simps]: "w_replies w = [] \<Longrightarrow> db_clear s w = (set_db s (\<lambda>_. None) w, Inr ())"
  by (simp add: db_clear_def quiet_write)

lemma set_db_fields [simp]:
  "w_db (set_db s d w) = (w_db w)(s := d)" "w_identity (set_db s d w) = w_identity w"
  "w_kek (set_db s d w) = w_kek w" "w_clone (set_db s d w) = w_clone w"
  "w_x25519 (set_db s d w) = w_x25519 w" "w_sealed (set_db s d w) = w_sealed w"
  "w_epoch (set_db s d w) = w_epoch w" "w_profile (set_db s d w) = w_profile w"
  "w_roomSeed (set_db s d w) = w_roomSeed w" "w_roomKek (set_db s d w) = w_roomKek w"
  "w_roomClone (set_db s d w) = w_roomClone w" "w_hostKeys (set_db s d w) = w_hostKeys w"
  "w_replies (set_db s d w) = w_replies w" "w_draws (set_db s d w) = w_draws w"
  "w_events (set_db s d w) = w_events w"
  by (simp_all add: set_db_def)

lemma reload_fields [simp]:
  "w_db (reload w) = w_db w" "w_identity (reload w) = None" "w_kek (reload w) = None"
  "w_clone (reload w) = None" "w_x25519 (reload w) = None" "w_sealed (reload w) = None"
  "w_roomSeed (reload w) = None" "w_roomKek (reload w) = None" "w_replies (reload w) = w_replies w"
  "w_draws (reload w) = w_draws w" "w_profile (reload w) = None"
  by (simp_all add: reload_def)

text \<open>What \<open>draw\<close> gives and what it leaves.\<close>

definition drawn :: "nat \<Rightarrow> world \<Rightarrow> bytes" where
  "drawn n w = (case w_draws w of [] \<Rightarrow> replicate n 0 | d # ds \<Rightarrow> take n (d @ replicate n 0))"

lemma quiet_draw: "draw n w = (w\<lparr>w_draws := tl (w_draws w)\<rparr>, Inr (drawn n w))"
  by (cases "w_draws w") (simp_all add: draw_def drawn_def)

lemma length_drawn [simp]: "length (drawn n w) = n"
  by (auto simp: drawn_def min_def split: list.splits)

section \<open>The key-encryption key\<close>

text \<open>
  A stored value that reads as the given key bytes, on a runtime that can or cannot clone keys: raw
  bytes on any, a key object only on one that can.
\<close>

definition kek_stored :: "bool \<Rightarrow> bytes \<Rightarrow> js_value option \<Rightarrow> bool" where
  "kek_stored clones kb v \<longleftrightarrow> length kb = 32 \<and>
     (v = Some (ArrayBuf kb) \<or> clones \<and> v = Some (KeyObj (aes_kw_key False kb)))"

text \<open>Where the key is: stored readably, perhaps cached, and not both different.\<close>

definition has_kek :: "platform \<Rightarrow> bytes \<Rightarrow> world \<Rightarrow> bool" where
  "has_kek P kb w \<longleftrightarrow> kek_stored (clones_keys P) kb (w_db w KekDb KEK_KEY_NAME)
     \<and> (w_kek w = None \<or> w_kek w = Some (aes_kw_key False kb))"

text \<open>What the lookup and minting of the key may change.\<close>

definition kek_frame :: "world \<Rightarrow> world \<Rightarrow> bool" where
  "kek_frame w w' \<longleftrightarrow> w_replies w' = [] \<and> w_db w' IdentityDb = w_db w IdentityDb
     \<and> w_db w' RoomDb = w_db w RoomDb
     \<and> w_identity w' = w_identity w \<and> w_x25519 w' = w_x25519 w \<and> w_sealed w' = w_sealed w
     \<and> w_epoch w' = w_epoch w \<and> w_profile w' = w_profile w \<and> w_hostKeys w' = w_hostKeys w
     \<and> w_roomSeed w' = w_roomSeed w \<and> w_roomKek w' = w_roomKek w"

lemma quiet_probe:
  assumes "w_replies w = []"
  shows "\<exists>w' b. probeStructuredClone P w = (w', Inr b) \<and> kek_frame w w' \<and> w_db w' = w_db w \<and> w_kek w' = w_kek w
    \<and> w_events w' = w_events w \<and> w_clone w' = Some b \<and> (w_clone w = None \<longrightarrow> b = clones_keys P)"
  using assms
  by (cases "w_clone w")
     (simp_all add: probeStructuredClone_def generateAesKwKey_def io_defs quiet_draw kek_frame_def)

lemma kek_stored_readable: "kek_stored c kb v \<Longrightarrow> readable c v"
  by (auto simp: kek_stored_def)

lemma kek_stored_mono: "kek_stored c kb v \<Longrightarrow> (c \<longrightarrow> c') \<Longrightarrow> kek_stored c' kb v"
  by (auto simp: kek_stored_def)

lemma kek_stored_entry:
  assumes "kek_stored c kb v"
  obtains x e where "v = Some x" "readable c (Some x)" "classifyKekEntry x = Some e"
    "\<And>w. kek_handle e w = (w, Inr (aes_kw_key False kb))"
  using assms
  by (fastforce simp: kek_stored_def classifyKekEntry_def kek_handle_def importAesKwRaw_def aes_kw_key_def ret_def)

lemma kek_found:
  assumes "has_kek P kb w" and "w_replies w = []"
  shows "\<exists>w'. getOrCreateWrappingKey P w = (w', Inr (aes_kw_key False kb)) \<and> kek_frame w w' \<and> w_db w' = w_db w
    \<and> w_kek w' = Some (aes_kw_key False kb) \<and> w_events w' = w_events w"
proof (cases "w_kek w")
  case None
  obtain x e where x: "w_db w KekDb KEK_KEY_NAME = Some x" "readable (clones_keys P) (Some x)"
    "classifyKekEntry x = Some e" "\<And>w. kek_handle e w = (w, Inr (aes_kw_key False kb))"
    using assms(1) kek_stored_entry unfolding has_kek_def by metis
  obtain w1 b where "probeStructuredClone P w = (w1, Inr b)" "kek_frame w w1" "w_db w1 = w_db w"
    "w_events w1 = w_events w"
    using quiet_probe [OF assms(2)] by blast
  then show ?thesis using None x
    by (simp add: getOrCreateWrappingKey_def kek_lookup_def io_defs quiet_simps set_kek_def kek_frame_def)
next
  case (Some k)
  then show ?thesis using assms
    by (simp add: has_kek_def getOrCreateWrappingKey_def kek_lookup_def io_defs kek_frame_def)
qed

lemma kek_first:
  assumes "w_kek w = None" and "w_db w KekDb KEK_KEY_NAME = None" and "w_db w IdentityDb WRAPPING_KEY_NAME = None"
    and "w_replies w = []" and "w_clone w = None \<or> w_clone w = Some (clones_keys P)"
  shows "\<exists>w' kb. getOrCreateWrappingKey P w = (w', Inr (aes_kw_key False kb)) \<and> kek_frame w w'
    \<and> has_kek P kb w' \<and> w_kek w' = Some (aes_kw_key False kb) \<and> w_events w' = w_events w
    \<and> w_db w' KekDb KEK_KEY_NAME = Some (if clones_keys P then KeyObj (aes_kw_key False kb) else ArrayBuf kb)"
proof -
  obtain w1 b where p: "probeStructuredClone P w = (w1, Inr b)" "kek_frame w w1" "w_db w1 = w_db w"
    "w_events w1 = w_events w" "w_kek w1 = w_kek w" "w_clone w1 = Some b"
    using quiet_probe [OF assms(4)] by blast
  have "b = clones_keys P" using assms(5) p quiet_probe [OF assms(4), of P]
    by (auto simp: probeStructuredClone_def io_defs split: option.splits)
  moreover have "w_replies w1 = []" using p(2) by (simp add: kek_frame_def)
  ultimately show ?thesis using p assms(1-3)
    by (cases "clones_keys P")
       (simp_all add: getOrCreateWrappingKey_def kek_lookup_def adoptLegacyWrappingKey_def kek_mint_def io_defs
         quiet_simps set_kek_def kek_frame_def generateAesKwKey_def quiet_draw exportRaw_def importAesKwRaw_def
         has_kek_def kek_stored_def aes_kw_key_def)
qed

section \<open>The stored identity\<close>

text \<open>The runtime of another session: the same cryptography, other capabilities.\<close>

definition other_runtime :: "platform \<Rightarrow> (curve \<Rightarrow> bool) \<Rightarrow> bool \<Rightarrow> bool \<Rightarrow> platform" where
  "other_runtime P f c e = P\<lparr>supports := f, clones_keys := c, exports_raw_private := e\<rparr>"

lemma other_runtime_simps [simp]:
  "kw_wrap (other_runtime P f c e) = kw_wrap P" "kw_unwrap (other_runtime P f c e) = kw_unwrap P"
  "ed_public (other_runtime P f c e) = ed_public P" "x_public (other_runtime P f c e) = x_public P"
  "x_shared (other_runtime P f c e) = x_shared P" "supports (other_runtime P f c e) = f"
  "clones_keys (other_runtime P f c e) = c" "exports_raw_private (other_runtime P f c e) = e"
  "ed_sign (other_runtime P f c e) = ed_sign P" "hkdf_sha256 (other_runtime P f c e) = hkdf_sha256 P"
  by (simp_all add: other_runtime_def)

lemma this_runtime: "other_runtime P (supports P) (clones_keys P) (exports_raw_private P) = P"
  by (simp add: other_runtime_def)

text \<open>The rows of an identity with this seed under this key.\<close>

definition stored_rows :: "platform \<Rightarrow> bytes \<Rightarrow> bytes \<Rightarrow> world \<Rightarrow> bool" where
  "stored_rows P kb s w \<longleftrightarrow> length s = 32
     \<and> w_db w IdentityDb DEVICE_PRIV_RAW_NAME = Some (ArrayBuf (kw_wrap P kb s))
     \<and> (\<exists>wp. w_db w IdentityDb DEVICE_KEY_NAME = Some (IdentityRow (toBase64url (ed_public P s)) wp)
          \<and> (wp = [] \<or> wp = kw_wrap P kb (pkcs8_prefix Ed25519 @ s)))"

definition stored_identity :: "platform \<Rightarrow> bytes \<Rightarrow> bytes \<Rightarrow> world \<Rightarrow> bool" where
  "stored_identity P kb s w \<longleftrightarrow> stored_rows P kb s w \<and> has_kek P kb w"

lemma unwrap_wrapped:
  assumes "platform_laws P" and "length s = 32"
  shows "unwrapSecretBytes (other_runtime P f c e) (aes_kw_key x kb) (kw_wrap P kb s) w = (w, Inr s)"
    and "unwrapSecretBytes (other_runtime P f c e) (aes_kw_key x kb) (kw_wrap P kb (pkcs8_prefix u @ s)) w
      = (w, Inr (pkcs8_prefix u @ s))"
  using assms by (simp_all add: unwrapSecretBytes_def io_defs aes_kw_key_def laws_unwrap)

lemma unwrap_stored_pkcs8:
  assumes "platform_laws P" and "length s = 32"
  shows "unwrap_pkcs8 (other_runtime P f c e) u (kw_wrap P kb (pkcs8_prefix u @ s)) (aes_kw_key x kb) ex w
    = (w, if f u then Inr (curve_key u ''private'' ex s) else Inl not_supported)"
  using assms by (simp add: unwrap_pkcs8_def unwrap_wrapped import_pkcs8_def io_defs)

lemma supported_cases:
  "try_supported m w = (case m w of (w', Inr x) \<Rightarrow> (w', Inr (Some x))
     | (w', Inl e) \<Rightarrow> (w', if error_name e = ''NotSupportedError'' then Inr None else Inl e))"
  by (auto simp: try_supported_def io_defs split: prod.split sum.split)

lemma unwrap_stored:
  assumes "platform_laws P" and "stored_rows P kb s w" and "w_replies w = []"
    and "w_db w IdentityDb DEVICE_KEY_NAME = Some row"
  shows "\<exists>i. unwrapIdentityWith (other_runtime P f c e) row (aes_kw_key False kb) w = (w, Inr i)
    \<and> privateKeySeed i = Some (OpaquePrivateKey s) \<and> publicKeyB64 i = toBase64url (ed_public P s)"
proof -
  obtain wp where row: "row = IdentityRow (toBase64url (ed_public P s)) wp"
    "wp = [] \<or> wp = kw_wrap P kb (pkcs8_prefix Ed25519 @ s)" and l: "length s = 32"
    "w_db w IdentityDb DEVICE_PRIV_RAW_NAME = Some (ArrayBuf (kw_wrap P kb s))"
    using assms(2,4) by (auto simp: stored_rows_def)
  have p: "length (ed_public P s) = 32" using assms(1) by (simp add: platform_laws_def)
  have "\<exists>k. (if wp = [] then ret None
      else try_supported (unwrap_pkcs8 (other_runtime P f c e) Ed25519 wp (aes_kw_key False kb) False)) w = (w, Inr k)"
    using row(2) unwrap_stored_pkcs8 [OF assms(1) l(1)]
    by (auto simp: supported_cases ret_def not_supported_def)
  moreover have "\<exists>k. try_supported (bindio (decode64 (toBase64url (ed_public P s)))
      (\<lambda>bs. import_raw_public (other_runtime P f c e) Ed25519 (toArrayBuffer bs))) w = (w, Inr k)"
    by (simp add: supported_cases decode64_def io_defs decode_encode import_raw_public_def toArrayBuffer_def p
        not_supported_def)
  ultimately show ?thesis
    using assms(3) l row(1) unwrap_wrapped(1) [OF assms(1) l(1)]
    by (auto simp: unwrapIdentityWith_def as_identity_row_def io_basic quiet_simps as_buffer_def noble_public_def
        decode64_def decode_encode)
qed

lemma stored_rows_frame: "kek_frame w w' \<Longrightarrow> stored_rows P kb s w' = stored_rows P kb s w"
  by (simp add: kek_frame_def stored_rows_def)

lemma stored_rows_other [simp]: "stored_rows (other_runtime P f c e) kb s w = stored_rows P kb s w"
  by (simp add: stored_rows_def)

text \<open>A key stored by one runtime is readable on another that clones keys if the first one does.\<close>

lemma has_kek_other: "has_kek P kb w \<Longrightarrow> (clones_keys P \<longrightarrow> c) \<Longrightarrow> has_kek (other_runtime P f c e) kb w"
  by (auto simp: has_kek_def intro: kek_stored_mono)

lemma stored_identity_other:
  "stored_identity P kb s w \<Longrightarrow> (clones_keys P \<longrightarrow> c) \<Longrightarrow> stored_identity (other_runtime P f c e) kb s w"
  by (simp add: stored_identity_def has_kek_other)

lemma load_stored_identity:
  assumes "platform_laws P" and "stored_identity (other_runtime P f c e) kb s w" and "w_replies w = []" and "w_identity w = None"
  shows "\<exists>w' i. getOrCreateDeviceIdentity (other_runtime P f c e) w = (w', Inr i)
    \<and> privateKeySeed i = Some (OpaquePrivateKey s) \<and> publicKeyB64 i = toBase64url (ed_public P s)
    \<and> w_db w' = w_db w \<and> stored_identity (other_runtime P f c e) kb s w' \<and> w_replies w' = [] \<and> w_identity w' = Some i
    \<and> w_x25519 w' = w_x25519 w"
proof -
  let ?P = "other_runtime P f c e"
  obtain row where row: "w_db w IdentityDb DEVICE_KEY_NAME = Some row" and r: "readable c (Some row)"
    using assms(2) by (auto simp: stored_identity_def stored_rows_def)
  obtain w1 where k: "getOrCreateWrappingKey ?P w = (w1, Inr (aes_kw_key False kb))" "kek_frame w w1"
    "w_db w1 = w_db w" "w_kek w1 = Some (aes_kw_key False kb)"
    using kek_found assms(2,3) unfolding stored_identity_def by blast
  have w1: "w_replies w1 = []" using k(2) by (simp add: kek_frame_def)
  have rows: "stored_rows P kb s w1" using assms(2) stored_rows_frame [OF k(2)] by (simp add: stored_identity_def)
  obtain i where i: "unwrapIdentityWith ?P row (aes_kw_key False kb) w1 = (w1, Inr i)"
    "privateKeySeed i = Some (OpaquePrivateKey s)" "publicKeyB64 i = toBase64url (ed_public P s)"
    using unwrap_stored [OF assms(1) rows w1] row k(3) by metis
  have "load_or_recover ?P row w = (w1, Inr (i, False))"
    using k(1) i(1) by (simp add: load_or_recover_def unwrapIdentity_def io_defs)
  then show ?thesis
    using assms row r i k w1 rows
    by (simp add: getOrCreateDeviceIdentity_def getOrCreateDeviceIdentityInner_def load_stored_def io_basic
        quiet_simps stored_identity_def has_kek_def stored_rows_def kek_frame_def)
qed

text \<open>A device on which no key and no identity was stored yet.\<close>

definition first_run :: "world \<Rightarrow> bool" where
  "first_run w \<longleftrightarrow> w_replies w = [] \<and> w_identity w = None \<and> w_kek w = None \<and> w_clone w = None
     \<and> w_db w KekDb KEK_KEY_NAME = None
     \<and> w_db w IdentityDb WRAPPING_KEY_NAME = None \<and> w_db w IdentityDb DEVICE_KEY_NAME = None"

lemma generate_identity:
  assumes "platform_laws P"
  shows "\<exists>i. generateDeviceIdentity P w = (w\<lparr>w_draws := tl (w_draws w)\<rparr>, Inr i)
    \<and> privateKeySeed i = Some (OpaquePrivateKey (drawn 32 w)) \<and> publicKeyB64 i = toBase64url (ed_public P (drawn 32 w))
    \<and> (privateKey i = None \<or> privateKey i = Some (curve_key Ed25519 ''private'' True (drawn 32 w)))"
proof -
  have "length (ed_public P (drawn 32 w)) = 32" using assms by (simp add: platform_laws_def)
  then show ?thesis
    by (cases "supports P Ed25519")
       (simp_all add: generateDeviceIdentity_def io_basic quiet_draw Let_def supported_cases import_pkcs8_def
         import_raw_public_def toArrayBuffer_def ed_prefix not_supported_def)
qed

lemma wrap_identity:
  assumes "platform_laws P" and "length s = 32" and "privateKeySeed i = Some (OpaquePrivateKey s)"
    and "privateKey i = None \<or> privateKey i = Some (curve_key Ed25519 ''private'' True s)"
  shows "\<exists>wp. persist_wrap P i kek w = (w, Inr (kek, kw_wrap P (ck_bytes kek) s, wp))
    \<and> (wp = None \<or> wp = Some (kw_wrap P (ck_bytes kek) (pkcs8_prefix Ed25519 @ s)) \<and> privateKey i \<noteq> None)"
  using assms
  by (auto simp: persist_wrap_def io_basic wrapSecretBytes_def toArrayBuffer_def wrap_pkcs8_def export_pkcs8_def
      curve_key_def)

lemma commit_identity:
  assumes "platform_laws P" and "length s = 32" and "w_replies w = []" and "supports P Ed25519 \<or> wp = None"
    and "publicKeyB64 i = toBase64url (ed_public P s)"
    and "wp = None \<or> wp = Some (kw_wrap P kb (pkcs8_prefix Ed25519 @ s))"
  shows "\<exists>j w'. persist_commit P i (aes_kw_key False kb, kw_wrap P kb s, wp) w = (w', Inr j)
    \<and> publicKeyB64 j = publicKeyB64 i \<and> privateKeySeed j = privateKeySeed i
    \<and> stored_rows P kb s w' \<and> w_db w' KekDb = w_db w KekDb \<and> w_db w' RoomDb = w_db w RoomDb
    \<and> w_kek w' = w_kek w \<and> w_replies w' = [] \<and> w_draws w' = w_draws w
    \<and> (\<forall>k. k \<noteq> DEVICE_KEY_NAME \<and> k \<noteq> DEVICE_PRIV_RAW_NAME \<longrightarrow> w_db w' IdentityDb k = w_db w IdentityDb k)"
proof -
  let ?w = "set_db IdentityDb (fold (\<lambda>(k, v) d. d(k \<mapsto> v)) (identity_pair (publicKeyB64 i) (kw_wrap P kb s)
      (case wp of None \<Rightarrow> [] | Some b \<Rightarrow> b)) (w_db w IdentityDb)) w"
  have rows: "stored_rows P kb s ?w"
    using assms(2,5,6) by (auto simp: stored_rows_def identity_pair_def names_simps)
  have "\<exists>h. (case wp of None \<Rightarrow> ret None
      | Some b \<Rightarrow> bindio (unwrap_pkcs8 P Ed25519 b (aes_kw_key False kb) False) (\<lambda>k. ret (Some k))) ?w = (?w, Inr h)"
    using assms(4,6) unwrap_stored_pkcs8 [OF assms(1,2), of "supports P" "clones_keys P" "exports_raw_private P"]
    by (auto simp: io_basic this_runtime)
  moreover have "\<exists>q. (case publicKey i of Some k \<Rightarrow> ret (Some k)
      | None \<Rightarrow> tryio (bindio (from_option (Thrown ''InvalidCharacterError'' []) (fromBase64url (publicKeyB64 i))) (\<lambda>bs.
          bindio (import_raw_public P Ed25519 (toArrayBuffer bs)) (\<lambda>k. ret (Some k)))) (\<lambda>_. ret None)) ?w = (?w, Inr q)"
    by (auto simp: io_basic assms(5) decode_encode import_raw_public_def split: option.split)
  moreover have "?w = set_db IdentityDb (fold (\<lambda>(k, v) d. d(k \<mapsto> v)) (identity_pair (publicKeyB64 i) (kw_wrap P kb s)
      (case wp of None \<Rightarrow> [] | Some b \<Rightarrow> b)) (w_db w IdentityDb)) w" ..
  ultimately show ?thesis
    using rows assms(3)
    unfolding persist_commit_def prod.case andthen_def bindio_def
    by (auto simp: quiet_simps ret_def identity_pair_def)
qed

lemma mint_with_kek:
  assumes "platform_laws P" and "getOrCreateWrappingKey P (w\<lparr>w_draws := tl (w_draws w)\<rparr>) = (w2, Inr (aes_kw_key False kb))"
    and "kek_frame (w\<lparr>w_draws := tl (w_draws w)\<rparr>) w2" and "has_kek P kb w2"
  shows "\<exists>w' i. mintIdentityWithStorageFallback P w = (w', Inr (i, True)) \<and> stored_identity P kb (drawn 32 w) w'
    \<and> privateKeySeed i = Some (OpaquePrivateKey (drawn 32 w)) \<and> publicKeyB64 i = toBase64url (ed_public P (drawn 32 w))
    \<and> w_replies w' = [] \<and> w_db w' KekDb = w_db w2 KekDb
    \<and> (\<forall>k. k \<noteq> DEVICE_KEY_NAME \<and> k \<noteq> DEVICE_PRIV_RAW_NAME \<longrightarrow> w_db w' IdentityDb k = w_db w IdentityDb k)"
proof -
  let ?s = "drawn 32 w" and ?w1 = "w\<lparr>w_draws := tl (w_draws w)\<rparr>"
  obtain i where i: "generateDeviceIdentity P w = (?w1, Inr i)" "privateKeySeed i = Some (OpaquePrivateKey ?s)"
    "publicKeyB64 i = toBase64url (ed_public P ?s)"
    "privateKey i = None \<or> privateKey i = Some (curve_key Ed25519 ''private'' True ?s)"
    using generate_identity [OF assms(1)] by blast
  have w2: "w_replies w2 = []" using assms(3) by (simp add: kek_frame_def)
  obtain wp where wp: "persist_wrap P i (aes_kw_key False kb) w2 = (w2, Inr (aes_kw_key False kb, kw_wrap P kb ?s, wp))"
    "wp = None \<or> wp = Some (kw_wrap P kb (pkcs8_prefix Ed25519 @ ?s)) \<and> privateKey i \<noteq> None"
    using wrap_identity [OF assms(1) _ i(2,4), of "aes_kw_key False kb" w2] by (auto simp: aes_kw_key_def)
  have "supports P Ed25519 \<or> wp = None"
    using i(1) wp(2) by (auto simp: generateDeviceIdentity_def io_basic quiet_draw Let_def supported_cases
        import_pkcs8_def not_supported_def split: if_splits)
  then obtain j w' where j: "persist_commit P i (aes_kw_key False kb, kw_wrap P kb ?s, wp) w2 = (w', Inr j)"
    "publicKeyB64 j = publicKeyB64 i" "privateKeySeed j = privateKeySeed i" "stored_rows P kb ?s w'"
    "w_db w' KekDb = w_db w2 KekDb" "w_kek w' = w_kek w2" "w_replies w' = []"
    "\<forall>k. k \<noteq> DEVICE_KEY_NAME \<and> k \<noteq> DEVICE_PRIV_RAW_NAME \<longrightarrow> w_db w' IdentityDb k = w_db w2 IdentityDb k"
    using commit_identity [OF assms(1) _ w2 _ i(3)] wp(2) by (metis length_drawn)
  have "stored_identity P kb ?s w'" using j(4-6) assms(4) by (simp add: stored_identity_def has_kek_def)
  moreover have "mintIdentityWithStorageFallback P w = (w', Inr (j, True))"
    using i(1) assms(2) wp(1) j(1)
    by (simp add: mintIdentityWithStorageFallback_def persistIdentity_def persist_prepare_def io_basic)
  moreover have "\<forall>k. k \<noteq> DEVICE_KEY_NAME \<and> k \<noteq> DEVICE_PRIV_RAW_NAME \<longrightarrow> w_db w' IdentityDb k = w_db w IdentityDb k"
    using j(8) assms(3) by (simp add: kek_frame_def)
  moreover have "privateKeySeed j = Some (OpaquePrivateKey ?s)" "publicKeyB64 j = toBase64url (ed_public P ?s)"
    using i j by simp_all
  ultimately show ?thesis using j(5,7) by blast
qed

lemma create_stores:
  assumes "platform_laws P" and "first_run w"
  shows "\<exists>w' i kb. getOrCreateDeviceIdentity P w = (w', Inr i) \<and> stored_identity P kb (drawn 32 w) w'
    \<and> privateKeySeed i = Some (OpaquePrivateKey (drawn 32 w)) \<and> publicKeyB64 i = toBase64url (ed_public P (drawn 32 w))
    \<and> w_replies w' = [] \<and> w_identity w' = Some i \<and> w_db w' IdentityDb WRAPPING_KEY_NAME = None
    \<and> w_db w' KekDb KEK_KEY_NAME = Some (if clones_keys P then KeyObj (aes_kw_key False kb) else ArrayBuf kb)"
proof -
  obtain w2 kb where k: "getOrCreateWrappingKey P (w\<lparr>w_draws := tl (w_draws w)\<rparr>) = (w2, Inr (aes_kw_key False kb))"
    "kek_frame (w\<lparr>w_draws := tl (w_draws w)\<rparr>) w2" "has_kek P kb w2"
    "w_db w2 KekDb KEK_KEY_NAME = Some (if clones_keys P then KeyObj (aes_kw_key False kb) else ArrayBuf kb)"
    using kek_first [of "w\<lparr>w_draws := tl (w_draws w)\<rparr>" P] assms(2) by (auto simp: first_run_def)
  then obtain w1 i where m: "mintIdentityWithStorageFallback P w = (w1, Inr (i, True))"
    "stored_identity P kb (drawn 32 w) w1" "privateKeySeed i = Some (OpaquePrivateKey (drawn 32 w))"
    "publicKeyB64 i = toBase64url (ed_public P (drawn 32 w))" "w_replies w1 = []" "w_db w1 KekDb = w_db w2 KekDb"
    "w_db w1 IdentityDb WRAPPING_KEY_NAME = w_db w IdentityDb WRAPPING_KEY_NAME"
    using mint_with_kek [OF assms(1) k(1-3)] by (auto simp: names_simps)
  have "getOrCreateDeviceIdentity P w =
      (w1\<lparr>w_identity := Some i, w_events := w_events w1 @ [(''client.identity_created'', [])]\<rparr>, Inr i)"
    using assms(2) m(1)
    by (simp add: first_run_def getOrCreateDeviceIdentity_def getOrCreateDeviceIdentityInner_def create_first_def
        io_basic quiet_simps)
  moreover have "stored_identity P kb (drawn 32 w)
      (w1\<lparr>w_identity := Some i, w_events := w_events w1 @ [(''client.identity_created'', [])]\<rparr>)"
    using m(2) by (simp add: stored_identity_def stored_rows_def has_kek_def)
  moreover have "w_db w1 IdentityDb WRAPPING_KEY_NAME = None" using m(7) assms(2) by (simp add: first_run_def)
  ultimately show ?thesis using m(3-6) k(4) by fastforce
qed

lemma stored_reload: "stored_identity P kb s w \<Longrightarrow> stored_identity P kb s (reload w)"
  by (simp add: stored_identity_def stored_rows_def has_kek_def)

text \<open>A key object the runtime cannot read, and no legacy key: the load rejects and changes no row.\<close>

lemma kek_unreadable:
  assumes "w_kek w = None" and "w_replies w = []" and "\<not> readable (clones_keys P) (w_db w KekDb KEK_KEY_NAME)"
  shows "\<exists>w'. getOrCreateWrappingKey P w = (w', Inl (Thrown ''DataCloneError'' [])) \<and> kek_frame w w' \<and> w_db w' = w_db w
    \<and> w_kek w' = None"
proof -
  obtain w1 b where "probeStructuredClone P w = (w1, Inr b)" "kek_frame w w1" "w_db w1 = w_db w" "w_kek w1 = w_kek w"
    using quiet_probe [OF assms(2)] by blast
  then show ?thesis using assms
    by (simp add: getOrCreateWrappingKey_def kek_lookup_def io_basic quiet_load_any kek_frame_def)
qed

lemma load_unreadable_kek:
  assumes "stored_rows P kb s w" and "w_replies w = []" and "w_identity w = None" and "w_kek w = None"
    and "\<not> readable c (w_db w KekDb KEK_KEY_NAME)" and "w_db w IdentityDb WRAPPING_KEY_NAME = None"
  shows "\<exists>w'. getOrCreateDeviceIdentity (other_runtime P f c e) w = (w', Inl (Thrown ''DataCloneError'' []))
    \<and> w_db w' = w_db w \<and> w_identity w' = None"
proof -
  let ?P = "other_runtime P f c e"
  obtain row where row: "w_db w IdentityDb DEVICE_KEY_NAME = Some row" "readable c (Some row)"
    using assms(1) by (auto simp: stored_rows_def)
  obtain w1 where k: "getOrCreateWrappingKey ?P w = (w1, Inl (Thrown ''DataCloneError'' []))" "kek_frame w w1"
    "w_db w1 = w_db w"
    using kek_unreadable [of w ?P] assms(2,4,5) by auto
  have "w_replies w1 = []" "w_identity w1 = None" using k(2) assms(3) by (simp_all add: kek_frame_def)
  then show ?thesis
    using assms(2,3,6) row k(1,3)
    by (simp add: getOrCreateDeviceIdentity_def getOrCreateDeviceIdentityInner_def load_stored_def load_or_recover_def
        unwrapIdentity_def recoverWithLegacyKey_def io_basic quiet_simps)
qed

text \<open>C9: An identity survives a page load, exactly where its key can be read. One created on a new device
  with a storage that works is, after a page load on a runtime with or without WebCrypto's curves,
  found again with the same public key and the same seed, provided the runtime can still clone keys
  if the one that created it could. If it no longer can (a WebView downgrade), the stored key
  is unreadable: the load rejects with the error of the read, no row is changed and no new identity
  is minted over the old one.\<close>

theorem identity_survives_reload:
  assumes "platform_laws P" and "first_run w" and "getOrCreateDeviceIdentity P w = (w', Inr i)"
  shows "privateKeySeed i \<noteq> None \<and>
    (if clones_keys P \<and> \<not> c
     then \<exists>w''. getOrCreateDeviceIdentity (other_runtime P f c e) (reload w') = (w'', Inl (Thrown ''DataCloneError'' []))
       \<and> w_db w'' = w_db w' \<and> w_identity w'' = None
     else \<exists>w'' j. getOrCreateDeviceIdentity (other_runtime P f c e) (reload w') = (w'', Inr j)
       \<and> publicKeyB64 j = publicKeyB64 i \<and> privateKeySeed j = privateKeySeed i)"
proof -
  obtain kb where c: "stored_identity P kb (drawn 32 w) w'" "w_replies w' = []"
    "privateKeySeed i = Some (OpaquePrivateKey (drawn 32 w))" "publicKeyB64 i = toBase64url (ed_public P (drawn 32 w))"
    "w_db w' IdentityDb WRAPPING_KEY_NAME = None"
    "w_db w' KekDb KEK_KEY_NAME = Some (if clones_keys P then KeyObj (aes_kw_key False kb) else ArrayBuf kb)"
    using create_stores [OF assms(1,2)] assms(3) by fastforce
  have r: "stored_identity P kb (drawn 32 w) (reload w')" by (rule stored_reload [OF c(1)])
  show ?thesis
  proof (cases "clones_keys P \<and> \<not> c")
    case True
    then show ?thesis
      using load_unreadable_kek [of P kb "drawn 32 w" "reload w'" c f e] r c(2,3,5,6) by (simp add: stored_identity_def)
  next
    case False
    then show ?thesis
      using load_stored_identity [OF assms(1) stored_identity_other [OF r, of c f e]] c(2-4) by (simp; metis)
  qed
qed

lemma fresh_first_run: "first_run (fresh_world ds)"
  by (simp add: first_run_def fresh_world_def)

theorem identity_survives_reload_witness:
  "(\<exists>w'' j. getOrCreateDeviceIdentity (other_runtime sample_platform (\<lambda>_. False) True False)
       (reload (fst (getOrCreateDeviceIdentity sample_platform (fresh_world [replicate 32 1, replicate 32 2]))))
     = (w'', Inr j) \<and> privateKeySeed j = Some (OpaquePrivateKey (replicate 32 1)))
   \<and> snd (getOrCreateDeviceIdentity (other_runtime sample_platform (\<lambda>_. True) False True)
       (reload (fst (getOrCreateDeviceIdentity sample_platform (fresh_world [replicate 32 1, replicate 32 2])))))
     = Inl (Thrown ''DataCloneError'' [])"
proof -
  let ?w = "fresh_world [replicate 32 1, replicate 32 2]"
  obtain w' i where c: "getOrCreateDeviceIdentity sample_platform ?w = (w', Inr i)"
    "privateKeySeed i = Some (OpaquePrivateKey (drawn 32 ?w))"
    using create_stores [OF sample_platform_laws fresh_first_run] by metis
  have k: "clones_keys sample_platform" by (simp add: sample_platform_def)
  show ?thesis
    using identity_survives_reload [OF sample_platform_laws fresh_first_run c(1), of True "\<lambda>_. False" False]
      identity_survives_reload [OF sample_platform_laws fresh_first_run c(1), of False "\<lambda>_. True" True] c k
    by (auto simp: fresh_world_def drawn_def)
qed

theorem identity_never_split_witness:
  "\<exists>i s. snd (getOrCreateDeviceIdentity sample_platform (fresh_world [replicate 32 1])) = Inr i
    \<and> privateKeySeed i = Some s \<and> fromBase64url (publicKeyB64 i) = Some (ed_public sample_platform (opaque_bytes s))"
proof -
  obtain w' i where "getOrCreateDeviceIdentity sample_platform (fresh_world [replicate 32 1]) = (w', Inr i)"
    using create_stores [OF sample_platform_laws fresh_first_run] by metis
  then show ?thesis
    using identity_never_split [of "fresh_world [replicate 32 1]" sample_platform] by (simp add: fresh_world_def)
qed

theorem identity_pair_atomic_witness:
  "w_db (fst (getOrCreateDeviceIdentity sample_platform ((fresh_world [])\<lparr>w_replies := [Granted, Granted, Granted,
     Granted, AbortsAtCommit]\<rparr>))) IdentityDb DEVICE_PRIV_RAW_NAME = None
   \<or> (\<exists>k s wp. length s = 32
      \<and> w_db (fst (getOrCreateDeviceIdentity sample_platform ((fresh_world [])\<lparr>w_replies := [Granted, Granted,
          Granted, Granted, AbortsAtCommit]\<rparr>))) IdentityDb DEVICE_PRIV_RAW_NAME = Some (ArrayBuf (kw_wrap sample_platform k s))
      \<and> w_db (fst (getOrCreateDeviceIdentity sample_platform ((fresh_world [])\<lparr>w_replies := [Granted, Granted,
          Granted, Granted, AbortsAtCommit]\<rparr>))) IdentityDb DEVICE_KEY_NAME
          = Some (IdentityRow (toBase64url (ed_public sample_platform s)) wp))"
  using identity_pair_atomic [of "(fresh_world [])\<lparr>w_replies := [Granted, Granted, Granted, Granted, AbortsAtCommit]\<rparr>"
      sample_platform, OF _ prod.collapse [symmetric]]
  by (auto simp: fresh_world_def)

section \<open>Backup\<close>

definition raw_exports :: "world \<Rightarrow> nat" where
  "raw_exports w = length (filter (\<lambda>(event, label). event = ''client.identity_raw_export'') (w_events w))"

interpretation audit: io_frame "\<lambda>w. raw_exports w = n" for n
  by unfold_locales (simp_all add: raw_exports_def)

lemma export_impl_silent: "raw_exports (fst (exportRawDeviceSecretImpl P w)) = raw_exports w"
proof -
  have "keeps (\<lambda>v. raw_exports v = raw_exports w) (exportRawDeviceSecretImpl P) (\<lambda>_. True)"
    unfolding exportRawDeviceSecretImpl_def export_pkcs8_def by (intro keeps_rules)
  then show ?thesis by (simp add: keeps_def)
qed

text \<open>Note: Every export of the raw secret leaves exactly one audit event, whatever is stored, whatever fails, and
  whether it succeeds or throws.\<close>

theorem export_audited: "raw_exports (fst (exportRawDeviceSecret P w)) = Suc (raw_exports w)"
proof -
  obtain w1 r where i: "exportRawDeviceSecretImpl P w = (w1, r)" by fastforce
  then have "raw_exports w1 = raw_exports w" using export_impl_silent [of P w] by simp
  then show ?thesis
    by (cases r) (simp_all add: exportRawDeviceSecret_def io_basic i raw_exports_def)
qed

text \<open>Note: What the backup exports: from a stored identity, the seed it was minted with and its public key,
  unless the identity was stored with a WebCrypto key and this runtime has no Ed25519; then the
  export rejects, although the seed is stored beside it and the identity itself loads.\<close>

theorem export_exact:
  assumes "platform_laws P" and "stored_identity (other_runtime P f c e) kb s w" and "w_replies w = []"
    and "w_db w IdentityDb DEVICE_KEY_NAME = Some (IdentityRow pub wp)"
  shows "snd (exportRawDeviceSecret (other_runtime P f c e) w) =
    (if wp = [] \<or> f Ed25519 then Inr (s, pub) else Inl not_supported)"
proof -
  let ?P = "other_runtime P f c e"
  obtain w1 where k: "getOrCreateWrappingKey ?P w = (w1, Inr (aes_kw_key False kb))" "kek_frame w w1" "w_db w1 = w_db w"
    using kek_found assms(2,3) unfolding stored_identity_def by blast
  have l: "length s = 32" "w_db w IdentityDb DEVICE_PRIV_RAW_NAME = Some (ArrayBuf (kw_wrap P kb s))"
    "wp = [] \<or> wp = kw_wrap P kb (pkcs8_prefix Ed25519 @ s)"
    using assms(2,4) by (auto simp: stored_identity_def stored_rows_def)
  have "length (kw_wrap P kb (pkcs8_prefix Ed25519 @ s)) = 56" using assms(1) l(1) by (simp add: laws_length)
  then have wp: "wp \<noteq> [] \<longleftrightarrow> wp = kw_wrap P kb (pkcs8_prefix Ed25519 @ s)" using l(3) by auto
  have "w_replies w1 = []" using k(2) by (simp add: kek_frame_def)
  then show ?thesis
    using k assms(3,4) l(1,2) wp unwrap_wrapped(1) [OF assms(1) l(1)] unwrap_stored_pkcs8 [OF assms(1) l(1)]
    by (cases "wp = []") (auto simp: exportRawDeviceSecret_def exportRawDeviceSecretImpl_def io_basic quiet_simps
        as_identity_row_def as_buffer_def export_pkcs8_def curve_key_def)
qed

text \<open>A device with a stored identity, for the witnesses.\<close>

definition sample_device :: world where
  "sample_device = (fresh_world [])\<lparr>w_db := (\<lambda>s. case s of
      IdentityDb \<Rightarrow> [DEVICE_PRIV_RAW_NAME \<mapsto> ArrayBuf (kw_wrap sample_platform (replicate 32 9) (replicate 32 1)),
        DEVICE_KEY_NAME \<mapsto> IdentityRow (toBase64url (ed_public sample_platform (replicate 32 1)))
          (kw_wrap sample_platform (replicate 32 9) (pkcs8_prefix Ed25519 @ replicate 32 1))]
    | KekDb \<Rightarrow> [KEK_KEY_NAME \<mapsto> KeyObj (aes_kw_key False (replicate 32 9))]
    | RoomDb \<Rightarrow> (\<lambda>_. None))\<rparr>"

lemma sample_device_stored:
  "stored_identity sample_platform (replicate 32 9) (replicate 32 1) sample_device" "w_replies sample_device = []"
  "w_identity sample_device = None" "w_kek sample_device = None" "w_clone sample_device = None"
  by (auto simp: sample_device_def stored_identity_def stored_rows_def has_kek_def kek_stored_def fresh_world_def
      names_simps sample_platform_def)

lemmas sample_device_other = stored_identity_other [OF sample_device_stored(1), of True, simplified]

theorem export_exact_witness:
  "snd (exportRawDeviceSecret (other_runtime sample_platform (\<lambda>_. False) True True) sample_device) = Inl not_supported
   \<and> snd (exportRawDeviceSecret (other_runtime sample_platform (\<lambda>_. True) True True) sample_device)
      = Inr (replicate 32 1, toBase64url (ed_public sample_platform (replicate 32 1)))"
proof -
  have "kw_wrap sample_platform (replicate 32 9) (pkcs8_prefix Ed25519 @ replicate 32 1) \<noteq> []"
    by (simp add: sample_platform_def pkcs8_prefix_def)
  moreover have row: "w_db sample_device IdentityDb DEVICE_KEY_NAME =
      Some (IdentityRow (toBase64url (ed_public sample_platform (replicate 32 1)))
        (kw_wrap sample_platform (replicate 32 9) (pkcs8_prefix Ed25519 @ replicate 32 1)))"
    by (simp add: sample_device_def names_simps)
  ultimately show ?thesis
    using export_exact [OF sample_platform_laws sample_device_other sample_device_stored(2) row, of "\<lambda>_. False" True]
      export_exact [OF sample_platform_laws sample_device_other sample_device_stored(2) row, of "\<lambda>_. True" True] by simp
qed

end
