(* ===== verification/Identity_Faults.thy ===== *)
theory Identity_Faults
  imports Identity_Life
begin

text \<open>
  Legacy layouts, forgetting, restoring, and what overlapping calls do to an identity: the paths of
  \<open>device-identity.ts\<close> that exist because of past incidents, and those they leave open.
\<close>

section \<open>Keys that do not open the identity\<close>

text \<open>A key that opens nothing wrapped under another.\<close>

definition opens_nothing :: "platform \<Rightarrow> bytes \<Rightarrow> bytes \<Rightarrow> bool" where
  "opens_nothing P k' k \<longleftrightarrow> (\<forall>m. kw_unwrap P k' (kw_wrap P k m) = None)"

lemma unwrap_fails:
  assumes "opens_nothing P k' k"
  shows "unwrapSecretBytes (other_runtime P f c e) (aes_kw_key x k') (kw_wrap P k m) w = (w, Inl (Thrown ''OperationError'' []))"
  using assms by (simp add: opens_nothing_def unwrapSecretBytes_def io_basic aes_kw_key_def)

lemma unwrap_with_wrong_key:
  assumes "platform_laws P" and "stored_rows P k s w" and "opens_nothing P k' k" and "w_replies w = []"
    and "w_db w IdentityDb DEVICE_KEY_NAME = Some row"
  shows "unwrapIdentityWith (other_runtime P f c e) row (aes_kw_key False k') w = (w, Inl (Thrown ''OperationError'' []))"
proof -
  let ?P = "other_runtime P f c e"
  obtain wp where row: "row = IdentityRow (toBase64url (ed_public P s)) wp"
    "wp = [] \<or> wp = kw_wrap P k (pkcs8_prefix Ed25519 @ s)" and l: "length s = 32"
    "w_db w IdentityDb DEVICE_PRIV_RAW_NAME = Some (ArrayBuf (kw_wrap P k s))"
    using assms(2,5) by (auto simp: stored_rows_def)
  have p: "length (ed_public P s) = 32" using assms(1) by (simp add: platform_laws_def)
  have q: "\<exists>q. try_supported (bindio (decode64 (toBase64url (ed_public P s)))
      (\<lambda>bs. import_raw_public ?P Ed25519 (toArrayBuffer bs))) w = (w, Inr q)"
    by (simp add: supported_cases decode64_def io_defs decode_encode import_raw_public_def toArrayBuffer_def p
        not_supported_def)
  have r: "try_supported (unwrap_pkcs8 ?P Ed25519 (kw_wrap P k (pkcs8_prefix Ed25519 @ s)) (aes_kw_key False k') False) w
      = (w, if f Ed25519 then Inl (Thrown ''OperationError'' []) else Inr None)"
    using unwrap_fails [OF assms(3)]
    by (simp add: supported_cases unwrap_pkcs8_def io_basic not_supported_def)
  have u: "unwrapSecretBytes ?P (aes_kw_key False k') (kw_wrap P k s) w = (w, Inl (Thrown ''OperationError'' []))"
    by (rule unwrap_fails [OF assms(3)])
  obtain q where q': "try_supported (bindio (decode64 (toBase64url (ed_public P s)))
      (\<lambda>bs. import_raw_public ?P Ed25519 (toArrayBuffer bs))) w = (w, Inr q)" using q by blast
  show ?thesis
    using row(2) q' r u l(2) assms(4)
    by (cases "f Ed25519")
       (auto simp: unwrapIdentityWith_def as_identity_row_def row(1) io_basic quiet_simps as_buffer_def)
qed

text \<open>A load with a wrong key and nothing to recover from throws.\<close>

lemma load_locked_out:
  assumes "platform_laws P" and "stored_rows P k s w" and "opens_nothing P k' k" and "w_replies w = []"
    and "w_identity w = None" and "w_db w IdentityDb WRAPPING_KEY_NAME = None"
    and "getOrCreateWrappingKey (other_runtime P f c e) w = (w1, Inr (aes_kw_key False k'))" and "kek_frame w w1"
  shows "snd (getOrCreateDeviceIdentity (other_runtime P f c e) w) = Inl (Thrown ''OperationError'' [])"
proof -
  obtain row where row: "w_db w IdentityDb DEVICE_KEY_NAME = Some row" "readable c (Some row)"
    using assms(2) by (auto simp: stored_rows_def)
  have w1: "w_replies w1 = []" "w_db w1 IdentityDb = w_db w IdentityDb" using assms(8) by (simp_all add: kek_frame_def)
  have "stored_rows P k s w1" using assms(2) stored_rows_frame [OF assms(8)] by simp
  then have "unwrapIdentityWith (other_runtime P f c e) row (aes_kw_key False k') w1 = (w1, Inl (Thrown ''OperationError'' []))"
    using unwrap_with_wrong_key [OF assms(1) _ assms(3) w1(1)] row w1(2) by simp
  then show ?thesis
    using assms(4-7) row w1
    by (simp add: getOrCreateDeviceIdentity_def getOrCreateDeviceIdentityInner_def load_stored_def load_or_recover_def
        unwrapIdentity_def recoverWithLegacyKey_def io_basic quiet_simps)
qed

section \<open>Recovery\<close>

lemma recover_legacy:
  assumes "platform_laws P" and "stored_rows P kb s w" and "w_replies w = []"
    and "kek_stored c kb (w_db w IdentityDb WRAPPING_KEY_NAME)" and "w_db w IdentityDb DEVICE_KEY_NAME = Some row"
  shows "\<exists>w' i. recoverWithLegacyKey (other_runtime P f c e) row w = (w', Inr (Some i))
    \<and> privateKeySeed i = Some (OpaquePrivateKey s) \<and> publicKeyB64 i = toBase64url (ed_public P s)
    \<and> w_kek w' = Some (aes_kw_key False kb) \<and> stored_rows P kb s w' \<and> w_replies w' = []"
proof -
  let ?P = "other_runtime P f c e" and ?w = "w\<lparr>w_kek := Some (aes_kw_key False kb)\<rparr>"
  obtain x en where x: "w_db w IdentityDb WRAPPING_KEY_NAME = Some x" "readable c (Some x)"
    "classifyKekEntry x = Some en" "\<And>w. kek_handle en w = (w, Inr (aes_kw_key False kb))"
    using kek_stored_entry [OF assms(4)] by metis
  obtain i where i: "unwrapIdentityWith ?P row (aes_kw_key False kb) w = (w, Inr i)"
    "privateKeySeed i = Some (OpaquePrivateKey s)" "publicKeyB64 i = toBase64url (ed_public P s)"
    using unwrap_stored [OF assms(1-3,5)] by blast
  have sr: "stored_rows P kb s ?w" "w_replies ?w = []" using assms(2,3) by (simp_all add: stored_rows_def)
  obtain wp b where p: "probeStructuredClone ?P ?w = (wp, Inr b)" "kek_frame ?w wp" "w_kek wp = w_kek ?w"
    using quiet_probe [OF sr(2)] by blast
  have wp: "stored_rows P kb s wp" "w_replies wp = []"
    using sr(1) stored_rows_frame [OF p(2)] p(2) by (simp_all add: kek_frame_def)
  have "\<exists>w'. overwrite_kek ?P en ?w = (w', Inr ()) \<and> w_kek w' = Some (aes_kw_key False kb)
      \<and> stored_rows P kb s w' \<and> w_replies w' = []"
  proof (cases en)
    case (RawKek bs)
    then show ?thesis using sr by (simp add: overwrite_kek_def io_basic quiet_simps stored_rows_def)
  next
    case (KeyKek key)
    show ?thesis
    proof (cases "b \<and> c")
      case True
      then show ?thesis using KeyKek p wp
        by (simp add: overwrite_kek_def io_basic quiet_simps stored_rows_def)
    next
      case False
      then show ?thesis using KeyKek p wp
        by (cases b) (simp_all add: overwrite_kek_def io_basic db_save_def)
    qed
  qed
  then show ?thesis
    using x i assms(3) by (auto simp: recoverWithLegacyKey_def io_basic quiet_simps set_kek_def)
qed

text \<open>A stored key that is another one, readable here or not, does not unwrap the identity.\<close>

lemma unwrap_locked:
  assumes "platform_laws P" and "stored_rows P kb s w" and "w_replies w = []"
    and "kek_stored True k' (w_db w KekDb KEK_KEY_NAME)" and "w_kek w = None \<or> w_kek w = Some (aes_kw_key False k')"
    and "opens_nothing P k' kb" and "w_db w IdentityDb DEVICE_KEY_NAME = Some row"
  shows "\<exists>w1 er. unwrapIdentity (other_runtime P f c e) row w = (w1, Inl er) \<and> kek_frame w w1 \<and> w_db w1 = w_db w"
proof (cases "w_kek w = None \<and> \<not> readable c (w_db w KekDb KEK_KEY_NAME)")
  case True
  then show ?thesis
    using kek_unreadable [of w "other_runtime P f c e"] assms(3) by (auto simp: unwrapIdentity_def bindio_def)
next
  case False
  let ?P = "other_runtime P f c e"
  obtain w1 where k: "getOrCreateWrappingKey ?P w = (w1, Inr (aes_kw_key False k'))" "kek_frame w w1" "w_db w1 = w_db w"
  proof (cases "w_kek w")
    case None
    then have "has_kek ?P k' w" using False assms(4) by (auto simp: has_kek_def kek_stored_def)
    then show ?thesis using kek_found [OF _ assms(3)] that by blast
  next
    case (Some key)
    then show ?thesis using assms(3,5) that [of w]
      by (simp add: getOrCreateWrappingKey_def kek_lookup_def io_basic kek_frame_def)
  qed
  have "w_replies w1 = []" "stored_rows P kb s w1"
    using k(2) stored_rows_frame [OF k(2)] assms(2) by (simp_all add: kek_frame_def)
  then have "unwrapIdentityWith ?P row (aes_kw_key False k') w1 = (w1, Inl (Thrown ''OperationError'' []))"
    using unwrap_with_wrong_key [OF assms(1) _ assms(6)] assms(7) k(3) by simp
  then show ?thesis using k by (auto simp: unwrapIdentity_def bindio_def)
qed

text \<open>C32: A device locked out by its key-encryption key recovers. The identity was wrapped under the old
  wrapping key; the key in the dedicated database is another one that does not open it (as after the
  release that minted a fresh one), raw or a key object, and this runtime may even be unable to read it.
  If the old wrapping key is still there and readable on this runtime (raw bytes, or a key
  object where the runtime clones keys), the identity is loaded with its seed and public key, and
  the key in use afterwards is the old one.\<close>

theorem broken_kek_recovers:
  assumes "platform_laws P" and "stored_rows P kb s w" and "w_replies w = []" and "w_identity w = None"
    and "kek_stored True k' (w_db w KekDb KEK_KEY_NAME)" and "w_kek w = None \<or> w_kek w = Some (aes_kw_key False k')"
    and "opens_nothing P k' kb" and "kek_stored c kb (w_db w IdentityDb WRAPPING_KEY_NAME)"
  shows "\<exists>w' i. getOrCreateDeviceIdentity (other_runtime P f c e) w = (w', Inr i)
    \<and> privateKeySeed i = Some (OpaquePrivateKey s) \<and> publicKeyB64 i = toBase64url (ed_public P s)
    \<and> w_kek w' = Some (aes_kw_key False kb) \<and> w_identity w' = Some i"
proof -
  let ?P = "other_runtime P f c e"
  obtain row where row: "w_db w IdentityDb DEVICE_KEY_NAME = Some row" "readable c (Some row)"
    using assms(2) by (auto simp: stored_rows_def)
  obtain w1 er where k: "unwrapIdentity ?P row w = (w1, Inl er)" "kek_frame w w1" "w_db w1 = w_db w"
    using unwrap_locked [OF assms(1-3,5-7) row(1)] by blast
  have w1: "w_replies w1 = []" "stored_rows P kb s w1"
    using k(2) stored_rows_frame [OF k(2)] assms(2) by (simp_all add: kek_frame_def)
  obtain w2 i where "recoverWithLegacyKey ?P row w1 = (w2, Inr (Some i))"
    "privateKeySeed i = Some (OpaquePrivateKey s)" "publicKeyB64 i = toBase64url (ed_public P s)"
    "w_kek w2 = Some (aes_kw_key False kb)"
    using recover_legacy [OF assms(1) w1(2,1)] assms(8) row k(3) by metis
  then show ?thesis
    using assms(3,4) row k(1)
    by (simp add: getOrCreateDeviceIdentity_def getOrCreateDeviceIdentityInner_def load_stored_def load_or_recover_def
        io_basic quiet_simps)
qed

lemma sample_opens_nothing: "a \<noteq> b \<Longrightarrow> opens_nothing sample_platform (replicate 32 a) (replicate 32 b)"
  by (simp add: opens_nothing_def sample_platform_def)

theorem broken_kek_recovers_witness:
  "\<exists>w' i. getOrCreateDeviceIdentity (other_runtime sample_platform (\<lambda>_. True) False True)
       (sample_device\<lparr>w_db := (w_db sample_device)(KekDb := [KEK_KEY_NAME \<mapsto> KeyObj (aes_kw_key False (replicate 32 8))],
          IdentityDb := (w_db sample_device IdentityDb)(WRAPPING_KEY_NAME \<mapsto> ArrayBuf (replicate 32 9)))\<rparr>) = (w', Inr i)
     \<and> privateKeySeed i = Some (OpaquePrivateKey (replicate 32 1))"
proof -
  let ?w = "sample_device\<lparr>w_db := (w_db sample_device)(KekDb := [KEK_KEY_NAME \<mapsto> KeyObj (aes_kw_key False (replicate 32 8))],
      IdentityDb := (w_db sample_device IdentityDb)(WRAPPING_KEY_NAME \<mapsto> ArrayBuf (replicate 32 9)))\<rparr>"
  have "stored_rows sample_platform (replicate 32 9) (replicate 32 1) ?w"
    "kek_stored True (replicate 32 8) (w_db ?w KekDb KEK_KEY_NAME)" "w_kek ?w = None"
    "kek_stored False (replicate 32 9) (w_db ?w IdentityDb WRAPPING_KEY_NAME)"
    using sample_device_stored
    by (auto simp: stored_identity_def stored_rows_def kek_stored_def names_simps)
  moreover have "opens_nothing sample_platform (replicate 32 8) (replicate 32 9)" by (rule sample_opens_nothing) simp
  ultimately show ?thesis
    using broken_kek_recovers [OF sample_platform_laws, of "replicate 32 9" "replicate 32 1" ?w "replicate 32 8"
        False "\<lambda>_. True" True] sample_device_stored
    by auto
qed

text \<open>
  The other way out of an unreadable key is worse. A device that stored its identity before the key had
  a database of its own has a key object under the old name; on a runtime that cannot read it,
  \<open>adoptLegacyWrappingKey\<close> takes the rejected read for an absent key.
\<close>

text \<open>Note: A fresh key is minted over an unreadable one: a device whose wrapping key is a key object under
  the old name, on a runtime that cannot clone keys, gets a new key-encryption key in the dedicated
  database and cannot open its identity with it; the call throws. From then on every
  runtime finds the new key first. The identity's rows and the old key are left in place, so that a
  runtime that can read the old key recovers the identity (broken_kek_recovers).\<close>

theorem unreadable_legacy_key_replaced:
  assumes "platform_laws P" and "stored_rows P kb s w" and "w_replies w = []" and "w_identity w = None"
    and "w_kek w = None" and "w_clone w = None" and "w_db w KekDb KEK_KEY_NAME = None"
    and "w_db w IdentityDb WRAPPING_KEY_NAME = Some (KeyObj (aes_kw_key False kb))"
    and "w_draws w = [d, k']" and "length k' = 32" and "opens_nothing P k' kb"
  shows "\<exists>w'. getOrCreateDeviceIdentity (other_runtime P f False e) w = (w', Inl (Thrown ''OperationError'' []))
    \<and> w_db w' KekDb KEK_KEY_NAME = Some (ArrayBuf k') \<and> w_db w' IdentityDb = w_db w IdentityDb"
proof -
  let ?P = "other_runtime P f False e" and ?r = "w\<lparr>w_draws := [k'], w_clone := Some False\<rparr>"
  obtain row where row: "w_db w IdentityDb DEVICE_KEY_NAME = Some row" "readable False (Some row)"
    using assms(2) by (auto simp: stored_rows_def)
  have l: "kek_lookup ?P w = (?r, Inr (Inl False))"
    using assms(3,5-9)
    by (simp add: kek_lookup_def probeStructuredClone_def generateAesKwKey_def adoptLegacyWrappingKey_def io_basic
        quiet_simps quiet_load_any quiet_draw)
  let ?v = "set_db KekDb ((w_db w KekDb)(KEK_KEY_NAME \<mapsto> ArrayBuf k')) (?r\<lparr>w_draws := []\<rparr>)\<lparr>w_kek := Some (aes_kw_key False k')\<rparr>"
  have m: "getOrCreateWrappingKey ?P w = (?v, Inr (aes_kw_key False k'))"
    using assms(3,10) l
    by (simp add: getOrCreateWrappingKey_def kek_mint_def generateAesKwKey_def io_basic quiet_simps quiet_draw drawn_def
        exportRaw_def importAesKwRaw_def set_kek_def aes_kw_key_def set_db_def)
  have v: "w_replies ?v = []" "w_db ?v IdentityDb = w_db w IdentityDb" "stored_rows P kb s ?v"
    using assms(2,3) by (simp_all add: stored_rows_def)
  have "unwrapIdentityWith ?P row (aes_kw_key False k') ?v = (?v, Inl (Thrown ''OperationError'' []))"
    using unwrap_with_wrong_key [OF assms(1) v(3) assms(11) v(1)] row(1) v(2) by simp
  then show ?thesis
    using assms(3,4,8) row m
    by (simp add: getOrCreateDeviceIdentity_def getOrCreateDeviceIdentityInner_def load_stored_def load_or_recover_def
        unwrapIdentity_def recoverWithLegacyKey_def io_basic quiet_simps quiet_load_any)
qed

theorem unreadable_legacy_key_replaced_witness:
  "\<exists>w'. getOrCreateDeviceIdentity (other_runtime sample_platform (\<lambda>_. True) False True)
       (sample_device\<lparr>w_db := (w_db sample_device)(KekDb := \<lambda>_. None, IdentityDb := (w_db sample_device IdentityDb)
          (WRAPPING_KEY_NAME \<mapsto> KeyObj (aes_kw_key False (replicate 32 9)))), w_draws := [[], replicate 32 4]\<rparr>)
     = (w', Inl (Thrown ''OperationError'' [])) \<and> w_db w' KekDb KEK_KEY_NAME = Some (ArrayBuf (replicate 32 4))"
proof -
  let ?w = "sample_device\<lparr>w_db := (w_db sample_device)(KekDb := \<lambda>_. None, IdentityDb := (w_db sample_device IdentityDb)
      (WRAPPING_KEY_NAME \<mapsto> KeyObj (aes_kw_key False (replicate 32 9)))), w_draws := [[], replicate 32 4]\<rparr>"
  have "stored_rows sample_platform (replicate 32 9) (replicate 32 1) ?w"
    using sample_device_stored by (simp add: stored_identity_def stored_rows_def names_simps)
  moreover have "opens_nothing sample_platform (replicate 32 4) (replicate 32 9)" by (rule sample_opens_nothing) simp
  ultimately show ?thesis
    using unreadable_legacy_key_replaced [OF sample_platform_laws, of "replicate 32 9" "replicate 32 1" ?w "[]"
        "replicate 32 4" "\<lambda>_. True" True] sample_device_stored
    by auto
qed

section \<open>Calls that overlap\<close>

lemma lookup_first:
  assumes "w_kek w = None" and "w_db w KekDb KEK_KEY_NAME = None" and "w_db w IdentityDb WRAPPING_KEY_NAME = None"
    and "w_replies w = []" and "w_clone w = None \<or> w_clone w = Some (clones_keys P)"
  shows "kek_lookup P w = (w\<lparr>w_clone := Some (clones_keys P),
      w_draws := (if w_clone w = None then tl (w_draws w) else w_draws w)\<rparr>, Inr (Inl (clones_keys P)))"
  using assms
  by (auto simp: kek_lookup_def probeStructuredClone_def generateAesKwKey_def adoptLegacyWrappingKey_def io_basic
      quiet_simps quiet_draw)

lemma mint_kek:
  assumes "w_replies w = []"
  shows "\<exists>w'. kek_mint P (clones_keys P) w = (w', Inr (aes_kw_key False (drawn 32 w)))
    \<and> kek_stored (clones_keys P) (drawn 32 w) (w_db w' KekDb KEK_KEY_NAME) \<and> w_draws w' = tl (w_draws w) \<and> kek_frame w w'"
  using assms
  by (cases "clones_keys P")
     (simp_all add: kek_mint_def generateAesKwKey_def io_basic quiet_simps quiet_draw exportRaw_def importAesKwRaw_def
       set_kek_def kek_stored_def aes_kw_key_def kek_frame_def)

text \<open>
  The first start of the app, \<open>getOrCreateDeviceIdentity\<close> minting, overlapped by a second call that
  needs the key (\<open>getOrCreateX25519Keypair\<close> or an export, which take no lock): both look the key up
  before either has stored one, and both mint. The key returned by the mint of the first is the
  one it goes on to wrap with.
\<close>

definition overlapping_start :: "platform \<Rightarrow> identity io" where
  "overlapping_start P = bindio (generateDeviceIdentity P) (\<lambda>i.
     bindio (kek_lookup P) (\<lambda>first. bindio (kek_lookup P) (\<lambda>second.
       bindio (kek_mint P (projl first)) (\<lambda>kek. bindio (kek_mint P (projl second)) (\<lambda>other.
         bindio (persist_wrap P i kek) (persist_commit P i))))))"

text \<open>Note: Two overlapping first starts lock the device out: both calls mint a key-encryption key, the second
  overwrites the first in the database, and the identity is wrapped under the first. The mint
  returns normally, and after the next page load every attempt to get the identity throws.\<close>

theorem overlapping_mints_lock_out:
  assumes "platform_laws P" and "first_run w" and "w_draws w = [s, t, k, k']"
    and "length s = 32" and "length k = 32" and "length k' = 32" and "opens_nothing P k' k"
  shows "\<exists>w' i. overlapping_start P w = (w', Inr i) \<and> privateKeySeed i = Some (OpaquePrivateKey s)
    \<and> snd (getOrCreateDeviceIdentity P (reload w')) = Inl (Thrown ''OperationError'' [])"
proof -
  have d: "drawn 32 w = s" using assms(3,4) by (simp add: drawn_def)
  let ?w1 = "w\<lparr>w_draws := [t, k, k']\<rparr>"
  let ?w2 = "w\<lparr>w_draws := [k, k'], w_clone := Some (clones_keys P)\<rparr>"
  obtain i where i: "generateDeviceIdentity P w = (?w1, Inr i)" "privateKeySeed i = Some (OpaquePrivateKey s)"
    "publicKeyB64 i = toBase64url (ed_public P s)"
    "privateKey i = None \<or> privateKey i = Some (curve_key Ed25519 ''private'' True s)"
    using generate_identity [OF assms(1), of w] assms(3) d by auto
  have l1: "kek_lookup P ?w1 = (?w2, Inr (Inl (clones_keys P)))"
    using assms(2) by (subst lookup_first) (simp_all add: first_run_def)
  have l2: "kek_lookup P ?w2 = (?w2, Inr (Inl (clones_keys P)))"
    using assms(2) by (subst lookup_first) (simp_all add: first_run_def)
  obtain w3 where m1: "kek_mint P (clones_keys P) ?w2 = (w3, Inr (aes_kw_key False k))" "w_draws w3 = [k']"
    "kek_frame ?w2 w3"
    using mint_kek [of ?w2 P] assms(2,5) by (auto simp: first_run_def drawn_def)
  then have "w_replies w3 = []" by (simp add: kek_frame_def)
  then obtain w4 where m2: "kek_mint P (clones_keys P) w3 = (w4, Inr (aes_kw_key False k'))"
    "kek_stored (clones_keys P) k' (w_db w4 KekDb KEK_KEY_NAME)" "kek_frame w3 w4"
    using mint_kek [of w3 P] m1(2) assms(6) by (auto simp: drawn_def)
  have w4: "w_replies w4 = []" "w_db w4 IdentityDb = w_db w IdentityDb"
    using m1(3) m2(3) by (simp_all add: kek_frame_def)
  obtain wp where p: "persist_wrap P i (aes_kw_key False k) w4 = (w4, Inr (aes_kw_key False k, kw_wrap P k s, wp))"
    "wp = None \<or> wp = Some (kw_wrap P k (pkcs8_prefix Ed25519 @ s)) \<and> privateKey i \<noteq> None"
    using wrap_identity [OF assms(1,4) i(2,4), of "aes_kw_key False k" w4] by (auto simp: aes_kw_key_def)
  have "supports P Ed25519 \<or> wp = None"
    using i(1) p(2) by (auto simp: generateDeviceIdentity_def io_basic quiet_draw Let_def supported_cases
        import_pkcs8_def not_supported_def split: if_splits)
  then obtain j w5 where j: "persist_commit P i (aes_kw_key False k, kw_wrap P k s, wp) w4 = (w5, Inr j)"
    "privateKeySeed j = privateKeySeed i" "stored_rows P k s w5" "w_db w5 KekDb = w_db w4 KekDb" "w_replies w5 = []"
    "\<forall>x. x \<noteq> DEVICE_KEY_NAME \<and> x \<noteq> DEVICE_PRIV_RAW_NAME \<longrightarrow> w_db w5 IdentityDb x = w_db w4 IdentityDb x"
    using commit_identity [OF assms(1,4) w4(1) _ i(3)] p(2) by metis
  have run: "overlapping_start P w = (w5, Inr j)"
    using i(1) l1 l2 m1 m2(1) p(1) j(1)
    by (simp add: overlapping_start_def bindio_def)
  have lost: "w_db w5 IdentityDb WRAPPING_KEY_NAME = None"
    using j(6) w4(2) assms(2) by (simp add: first_run_def names_simps)
  have kek: "has_kek P k' (reload w5)" using m2(2) j(4) by (simp add: has_kek_def)
  obtain w6 where "getOrCreateWrappingKey P (reload w5) = (w6, Inr (aes_kw_key False k'))" "kek_frame (reload w5) w6"
    using kek_found [OF kek] j(5) by auto
  then have "snd (getOrCreateDeviceIdentity P (reload w5)) = Inl (Thrown ''OperationError'' [])"
    using load_locked_out [OF assms(1) _ assms(7), of s "reload w5" "supports P" "clones_keys P" "exports_raw_private P" w6]
      j(3,5) lost by (simp add: this_runtime stored_rows_def)
  then show ?thesis using run i(2) j(2) by auto
qed

theorem overlapping_mints_lock_out_witness:
  "\<exists>w' i. overlapping_start sample_platform (fresh_world [replicate 32 1, replicate 32 2, replicate 32 3, replicate 32 4])
       = (w', Inr i) \<and> snd (getOrCreateDeviceIdentity sample_platform (reload w')) = Inl (Thrown ''OperationError'' [])"
proof -
  have "opens_nothing sample_platform (replicate 32 4) (replicate 32 3)" by (rule sample_opens_nothing) simp
  then show ?thesis
    using overlapping_mints_lock_out [OF sample_platform_laws fresh_first_run, of
        "[replicate 32 1, replicate 32 2, replicate 32 3, replicate 32 4]"]
    by (fastforce simp: fresh_world_def)
qed

text \<open>A mint that is overtaken by \<open>clearDeviceIdentity\<close>, which takes no lock, before its write.\<close>

definition mint_overtaken_by_wipe :: "platform \<Rightarrow> identity io" where
  "mint_overtaken_by_wipe P = bindio (generateDeviceIdentity P) (\<lambda>i.
     bindio (persist_prepare P i) (\<lambda>prepared. andthen clearDeviceIdentity (persist_commit P i prepared)))"

lemma quiet_forget:
  assumes "w_replies w = []"
  shows "\<exists>w'. clearDeviceIdentity w = (w', Inr ()) \<and> w_replies w' = [] \<and> w_draws w' = w_draws w
    \<and> w_identity w' = None \<and> w_kek w' = None \<and> w_profile w' = None \<and> w_x25519 w' = None \<and> w_sealed w' = None
    \<and> w_roomSeed w' = None \<and> w_roomKek w' = None \<and> w_hostKeys w' = [] \<and> w_epoch w' = Suc (w_epoch w)
    \<and> w_db w' KekDb = (\<lambda>_. None) \<and> w_db w' RoomDb = (\<lambda>_. None)
    \<and> w_db w' IdentityDb = (w_db w IdentityDb)(DEVICE_KEY_NAME := None, DEVICE_PRIV_RAW_NAME := None,
        WRAPPING_KEY_NAME := None, PROFILE_SEED_NAME := None, X25519_KEYPAIR_NAME := None, SEALED_X25519_NAME := None)"
  using assms
  by (simp add: clearDeviceIdentity_def forget_memory_def forget_storage_def clearRoomHostSeed_def io_basic quiet_simps)

text \<open>Note: A wipe that overtakes the first mint locks the device out: the wipe completes, then the mint writes
  its pair under a key-encryption key that is gone; the caller has its identity, and after the
  next page load every attempt to get it throws, until the device is forgotten again.\<close>

theorem wipe_during_mint_locks_out:
  assumes "platform_laws P" and "first_run w" and "w_draws w = [s, t, k, t', k']"
    and "length s = 32" and "length k = 32" and "length k' = 32" and "opens_nothing P k' k"
  shows "\<exists>w' i. mint_overtaken_by_wipe P w = (w', Inr i) \<and> privateKeySeed i = Some (OpaquePrivateKey s)
    \<and> snd (getOrCreateDeviceIdentity P (reload w')) = Inl (Thrown ''OperationError'' [])"
proof -
  have d: "drawn 32 w = s" using assms(3,4) by (simp add: drawn_def)
  let ?w1 = "w\<lparr>w_draws := [t, k, t', k']\<rparr>" and ?c = "Some (clones_keys P)"
  let ?w2 = "w\<lparr>w_draws := [k, t', k'], w_clone := Some (clones_keys P)\<rparr>"
  obtain i where i: "generateDeviceIdentity P w = (?w1, Inr i)" "privateKeySeed i = Some (OpaquePrivateKey s)"
    "publicKeyB64 i = toBase64url (ed_public P s)"
    "privateKey i = None \<or> privateKey i = Some (curve_key Ed25519 ''private'' True s)"
    using generate_identity [OF assms(1), of w] assms(3) d by auto
  have l: "kek_lookup P ?w1 = (?w2, Inr (Inl (clones_keys P)))"
    using assms(2) by (subst lookup_first) (simp_all add: first_run_def)
  obtain w3 where m: "kek_mint P (clones_keys P) ?w2 = (w3, Inr (aes_kw_key False k))" "w_draws w3 = [t', k']"
    "kek_frame ?w2 w3"
    using mint_kek [of ?w2 P] assms(2,5) by (auto simp: first_run_def drawn_def)
  have w3: "w_replies w3 = []" using m(3) by (simp add: kek_frame_def)
  obtain wp where p: "persist_wrap P i (aes_kw_key False k) w3 = (w3, Inr (aes_kw_key False k, kw_wrap P k s, wp))"
    "wp = None \<or> wp = Some (kw_wrap P k (pkcs8_prefix Ed25519 @ s)) \<and> privateKey i \<noteq> None"
    using wrap_identity [OF assms(1,4) i(2,4), of "aes_kw_key False k" w3] by (auto simp: aes_kw_key_def)
  obtain w4 where c: "clearDeviceIdentity w3 = (w4, Inr ())" "w_replies w4 = []" "w_draws w4 = [t', k']"
    "w_db w4 KekDb = (\<lambda>_. None)" "w_db w4 IdentityDb WRAPPING_KEY_NAME = None"
    using quiet_forget [OF w3] m(2) by (auto simp: names_simps)
  have "supports P Ed25519 \<or> wp = None"
    using i(1) p(2) by (auto simp: generateDeviceIdentity_def io_basic quiet_draw Let_def supported_cases
        import_pkcs8_def not_supported_def split: if_splits)
  then obtain j w5 where j: "persist_commit P i (aes_kw_key False k, kw_wrap P k s, wp) w4 = (w5, Inr j)"
    "privateKeySeed j = privateKeySeed i" "stored_rows P k s w5" "w_db w5 KekDb = w_db w4 KekDb" "w_replies w5 = []"
    "w_draws w5 = w_draws w4"
    "\<forall>x. x \<noteq> DEVICE_KEY_NAME \<and> x \<noteq> DEVICE_PRIV_RAW_NAME \<longrightarrow> w_db w5 IdentityDb x = w_db w4 IdentityDb x"
    using commit_identity [OF assms(1,4) c(2) _ i(3)] p(2) by metis
  have run: "mint_overtaken_by_wipe P w = (w5, Inr j)"
    using i(1) l m(1) p(1) c(1) j(1)
    by (simp add: mint_overtaken_by_wipe_def persist_prepare_def getOrCreateWrappingKey_def bindio_def andthen_def ret_def)
  have lost: "w_db w5 IdentityDb WRAPPING_KEY_NAME = None" using j(7) c(5) by (simp add: names_simps)
  let ?r = "(reload w5)\<lparr>w_draws := [k'], w_clone := Some (clones_keys P)\<rparr>"
  have l': "kek_lookup P (reload w5) = (?r, Inr (Inl (clones_keys P)))"
    using j(4-6) c(3,4) lost by (subst lookup_first) simp_all
  obtain w6 where m': "kek_mint P (clones_keys P) ?r = (w6, Inr (aes_kw_key False k'))" "kek_frame ?r w6"
    using mint_kek [of ?r P] j(5) assms(6) by (auto simp: drawn_def)
  have "getOrCreateWrappingKey P (reload w5) = (w6, Inr (aes_kw_key False k'))" "kek_frame (reload w5) w6"
    using l' m' by (simp_all add: getOrCreateWrappingKey_def bindio_def kek_frame_def)
  then have "snd (getOrCreateDeviceIdentity P (reload w5)) = Inl (Thrown ''OperationError'' [])"
    using load_locked_out [OF assms(1) _ assms(7), of s "reload w5" "supports P" "clones_keys P" "exports_raw_private P" w6]
      j(3,5) lost by (simp add: this_runtime stored_rows_def)
  then show ?thesis using run i(2) j(2) by auto
qed

theorem wipe_during_mint_locks_out_witness:
  "\<exists>w' i. mint_overtaken_by_wipe sample_platform (fresh_world [replicate 32 1, [], replicate 32 3, [], replicate 32 4])
       = (w', Inr i) \<and> snd (getOrCreateDeviceIdentity sample_platform (reload w')) = Inl (Thrown ''OperationError'' [])"
proof -
  have "opens_nothing sample_platform (replicate 32 4) (replicate 32 3)" by (rule sample_opens_nothing) simp
  then show ?thesis
    using wipe_during_mint_locks_out [OF sample_platform_laws fresh_first_run, of
        "[replicate 32 1, [], replicate 32 3, [], replicate 32 4]"]
    by (fastforce simp: fresh_world_def)
qed

end
