(* ===== verification/Identity_Restore.thy ===== *)
theory Identity_Restore
  imports Identity_Faults
begin

text \<open>
  Outages and error classes, replacing seedless identities, restoring a backup, and the Noise
  X25519 keypair of \<open>device-identity.ts\<close>.
\<close>

section \<open>Outages and error classes\<close>

text \<open>Note: A storage outage at the start: when loading the identity is refused as unavailable, the session runs
  on a fresh identity that is neither cached nor stored; any other refusal (a WebView that
  upgrades without a database, a failing transaction) rejects, and the app has no identity.\<close>

theorem storage_outage:
  assumes "platform_laws P" and "w_identity w = None"
  shows "(w_replies w = Refused (IDBUnavailableError r) # rs \<longrightarrow>
      (\<exists>w' i. getOrCreateDeviceIdentity P w = (w', Inr i) \<and> privateKeySeed i = Some (OpaquePrivateKey (drawn 32 w))
        \<and> w_identity w' = None \<and> w_db w' = w_db w \<and> w_replies w' = rs))
    \<and> (w_replies w = Refused (Thrown n m) # rs \<longrightarrow> snd (getOrCreateDeviceIdentity P w) = Inl (Thrown n m))"
proof -
  let ?w = "w\<lparr>w_replies := rs, w_events := w_events w @ [(''client.idb_unavailable'', [])]\<rparr>"
  have "drawn 32 ?w = drawn 32 w" by (simp add: drawn_def)
  then show ?thesis
    using assms(2) generate_identity [OF assms(1), of ?w]
    by (auto simp: getOrCreateDeviceIdentity_def getOrCreateDeviceIdentityInner_def db_load_def next_reply_def io_basic)
qed

theorem storage_outage_witness:
  "snd (getOrCreateDeviceIdentity sample_platform ((fresh_world [])\<lparr>w_replies := [Refused (Thrown ''UnknownError'' [])]\<rparr>))
      = Inl (Thrown ''UnknownError'' [])
   \<and> w_identity (fst (getOrCreateDeviceIdentity sample_platform
        ((fresh_world [])\<lparr>w_replies := [Refused (IDBUnavailableError OpenFailed)]\<rparr>))) = None"
  using storage_outage [OF sample_platform_laws, of "(fresh_world [])\<lparr>w_replies := [Refused (Thrown ''UnknownError'' [])]\<rparr>"]
    storage_outage [OF sample_platform_laws, of "(fresh_world [])\<lparr>w_replies := [Refused (IDBUnavailableError OpenFailed)]\<rparr>"]
  by (fastforce simp: fresh_world_def)

text \<open>Note: The error classes reported are the five the server lists, and missing or corrupt identity data is
  never reported as a missing capability, whatever its message says.\<close>

theorem error_classes_bounded:
  "classifyIdentityError e stage \<in> {''idb_quota_exceeded'', ''wrap_failed'', ''unwrap_failed'',
     ''ed25519_unsupported'', ''extractable_unsupported''}
   \<and> classifyIdentityError (IdentityDataError m) stage \<noteq> ''ed25519_unsupported''
   \<and> (classifyIdentityError e UnwrapStage \<noteq> ''extractable_unsupported'')"
  by (simp add: classifyIdentityError_def Let_def IdentityDataError_def)

text \<open>Note: An unusable legacy key stops the app: when there is no key in the dedicated database and the old
  row holds bytes of a length no AES key has, resolving the key throws, although adopting it is
  meant never to.\<close>

theorem bad_legacy_key_throws:
  assumes "w_replies w = []" and "w_kek w = None" and "w_db w KekDb KEK_KEY_NAME = None"
    and "w_db w IdentityDb WRAPPING_KEY_NAME = Some (ArrayBuf bs)" and "length bs \<notin> {16, 24, 32}"
  shows "snd (getOrCreateWrappingKey P w) = Inl (Thrown ''DataError'' [])"
proof -
  obtain w1 b where "probeStructuredClone P w = (w1, Inr b)" "kek_frame w w1" "w_db w1 = w_db w"
    using quiet_probe [OF assms(1)] by blast
  then show ?thesis using assms
    by (simp add: getOrCreateWrappingKey_def kek_lookup_def adoptLegacyWrappingKey_def io_basic quiet_simps
        classifyKekEntry_def kek_handle_def importAesKwRaw_def kek_frame_def)
qed

theorem bad_legacy_key_throws_witness:
  "snd (getOrCreateWrappingKey sample_platform ((fresh_world [])\<lparr>w_db := (\<lambda>s. case s of
      IdentityDb \<Rightarrow> [WRAPPING_KEY_NAME \<mapsto> ArrayBuf [1, 2, 3]] | _ \<Rightarrow> (\<lambda>_. None))\<rparr>)) = Inl (Thrown ''DataError'' [])"
  by (rule bad_legacy_key_throws [where bs = "[1, 2, 3]"]) (simp_all add: fresh_world_def)

section \<open>Identities without a seed\<close>

lemma unwrap_seedless:
  assumes "platform_laws P" and "w_replies w = []" and "length p = 32"
    and "wp = [] \<or> (\<exists>s. length s = 32 \<and> wp = kw_wrap P kb (pkcs8_prefix Ed25519 @ s))"
    and "w_db w IdentityDb DEVICE_PRIV_RAW_NAME = None"
  shows "\<exists>i. unwrapIdentityWith P (IdentityRow (toBase64url p) wp) (aes_kw_key False kb) w
    = (w\<lparr>w_events := w_events w @ [(''client.identity_migration_needed'', ''no_raw_seed'')]\<rparr>, Inr i)
      \<and> privateKeySeed i = None"
proof -
  have "\<exists>k. (if wp = [] then ret None
      else try_supported (unwrap_pkcs8 P Ed25519 wp (aes_kw_key False kb) False)) w = (w, Inr k)"
    using assms(4) unwrap_stored_pkcs8 [OF assms(1), of _ "supports P" "clones_keys P" "exports_raw_private P"]
    by (auto simp: supported_cases ret_def not_supported_def this_runtime)
  moreover have "\<exists>k. try_supported (bindio (decode64 (toBase64url p))
      (\<lambda>bs. import_raw_public P Ed25519 (toArrayBuffer bs))) w = (w, Inr k)"
    by (simp add: supported_cases decode64_def io_defs decode_encode import_raw_public_def toArrayBuffer_def
        assms(3) not_supported_def)
  ultimately show ?thesis using assms(2,5)
    by (auto simp: unwrapIdentityWith_def as_identity_row_def io_basic quiet_simps)
qed

lemma quiet_residue:
  assumes "w_replies w = []"
  shows "\<exists>w'. drop_residue w = (w', Inr ()) \<and> w_replies w' = [] \<and> w_x25519 w' = None \<and> w_sealed w' = None
    \<and> w_epoch w' = Suc (w_epoch w) \<and> w_profile w' = None \<and> w_hostKeys w' = [] \<and> w_roomSeed w' = None
    \<and> w_db w' RoomDb = (\<lambda>_. None) \<and> w_db w' KekDb = w_db w KekDb \<and> w_kek w' = w_kek w
    \<and> w_db w' IdentityDb = (w_db w IdentityDb)(X25519_KEYPAIR_NAME := None, SEALED_X25519_NAME := None,
        PROFILE_SEED_NAME := None)"
  using assms by (simp add: drop_residue_def clearRoomHostSeed_def io_basic quiet_simps)

text \<open>Note: An identity without a seed is replaced: a stored identity of the old layout, whose seed row is
  missing, is followed by a new one that is stored and cached, wrapped under the key the device
  already had, and everything derived from the old identity (Noise key, sealed key, profile
  seed, room-host seed, host keys) is gone from memory and storage.\<close>

theorem seedless_identity_replaced:
  assumes "platform_laws P" and "has_kek P kb w" and "w_replies w = []" and "w_identity w = None"
    and "w_db w IdentityDb DEVICE_KEY_NAME = Some (IdentityRow (toBase64url p) wp)" and "length p = 32"
    and "wp = [] \<or> (\<exists>s. length s = 32 \<and> wp = kw_wrap P kb (pkcs8_prefix Ed25519 @ s))"
    and "w_db w IdentityDb DEVICE_PRIV_RAW_NAME = None"
  shows "\<exists>w' i s. getOrCreateDeviceIdentity P w = (w', Inr i) \<and> privateKeySeed i = Some (OpaquePrivateKey s)
    \<and> stored_identity P kb s w' \<and> w_identity w' = Some i
    \<and> w_db w' IdentityDb X25519_KEYPAIR_NAME = None \<and> w_db w' IdentityDb SEALED_X25519_NAME = None
    \<and> w_db w' IdentityDb PROFILE_SEED_NAME = None \<and> w_db w' RoomDb = (\<lambda>_. None)
    \<and> w_x25519 w' = None \<and> w_sealed w' = None \<and> w_profile w' = None \<and> w_roomSeed w' = None \<and> w_hostKeys w' = []"
proof -
  obtain w1 where k: "getOrCreateWrappingKey P w = (w1, Inr (aes_kw_key False kb))" "kek_frame w w1" "w_db w1 = w_db w"
    "w_kek w1 = Some (aes_kw_key False kb)"
    using kek_found [OF assms(2,3)] by blast
  have r1: "w_replies w1 = []" using k(2) by (simp add: kek_frame_def)
  define w2 where "w2 = w1\<lparr>w_events := w_events w1 @ [(''client.identity_migration_needed'', ''no_raw_seed'')]\<rparr>"
  obtain i0 where u: "unwrapIdentityWith P (IdentityRow (toBase64url p) wp) (aes_kw_key False kb) w1 = (w2, Inr i0)"
    "privateKeySeed i0 = None"
    using unwrap_seedless [OF assms(1) r1 assms(6,7)] assms(8) k(3) by (auto simp: w2_def)
  have "has_kek P kb (w2\<lparr>w_draws := tl (w_draws w2)\<rparr>)" "w_replies (w2\<lparr>w_draws := tl (w_draws w2)\<rparr>) = []"
    using assms(2) k(3,4) r1 by (simp_all add: has_kek_def w2_def)
  then obtain w3 where k3: "getOrCreateWrappingKey P (w2\<lparr>w_draws := tl (w_draws w2)\<rparr>) = (w3, Inr (aes_kw_key False kb))"
    "kek_frame (w2\<lparr>w_draws := tl (w_draws w2)\<rparr>) w3" "w_db w3 = w_db w2" "w_kek w3 = Some (aes_kw_key False kb)"
    using kek_found [of P kb "w2\<lparr>w_draws := tl (w_draws w2)\<rparr>"] by auto
  have "has_kek P kb w3" using assms(2) k(3) k3(3,4) by (simp add: has_kek_def w2_def)
  then obtain w4 i where m: "mintIdentityWithStorageFallback P w2 = (w4, Inr (i, True))"
    "stored_identity P kb (drawn 32 w2) w4" "privateKeySeed i = Some (OpaquePrivateKey (drawn 32 w2))" "w_replies w4 = []"
    using mint_with_kek [OF assms(1) k3(1,2)] by blast
  obtain w5 where d: "drop_residue w4 = (w5, Inr ())" "w_x25519 w5 = None" "w_sealed w5 = None"
    "w_profile w5 = None" "w_hostKeys w5 = []" "w_roomSeed w5 = None" "w_db w5 RoomDb = (\<lambda>_. None)"
    "w_db w5 KekDb = w_db w4 KekDb" "w_kek w5 = w_kek w4"
    "w_db w5 IdentityDb = (w_db w4 IdentityDb)(X25519_KEYPAIR_NAME := None, SEALED_X25519_NAME := None,
        PROFILE_SEED_NAME := None)"
    using quiet_residue [OF m(4)] by blast
  let ?w6 = "w5\<lparr>w_identity := Some i, w_events := w_events w5 @ [(''client.identity_legacy_replaced'', ''unwrap'')]\<rparr>"
  have "getOrCreateDeviceIdentity P w = (?w6, Inr i)"
    using assms(3-5) k(1) u m(1) d(1)
    by (simp add: getOrCreateDeviceIdentity_def getOrCreateDeviceIdentityInner_def load_stored_def load_or_recover_def
        unwrapIdentity_def replace_legacy_def io_basic quiet_simps)
  moreover have "stored_identity P kb (drawn 32 w2) ?w6"
    using m(2) d(8-10) by (simp add: stored_identity_def stored_rows_def has_kek_def names_simps)
  moreover have "w_db ?w6 IdentityDb X25519_KEYPAIR_NAME = None" "w_db ?w6 IdentityDb SEALED_X25519_NAME = None"
    "w_db ?w6 IdentityDb PROFILE_SEED_NAME = None"
    using d(10) by (simp_all add: names_simps)
  ultimately show ?thesis using m(3) d(2-7)
    by (intro exI [of _ ?w6] exI [of _ i] exI [of _ "drawn 32 w2"]) simp
qed

theorem seedless_identity_replaced_witness:
  "\<exists>w' i s. getOrCreateDeviceIdentity sample_platform (sample_device\<lparr>w_db := (w_db sample_device)(IdentityDb :=
       (w_db sample_device IdentityDb)(DEVICE_PRIV_RAW_NAME := None))\<rparr>) = (w', Inr i)
     \<and> privateKeySeed i = Some (OpaquePrivateKey s) \<and> stored_identity sample_platform (replicate 32 9) s w'"
proof -
  let ?w = "sample_device\<lparr>w_db := (w_db sample_device)(IdentityDb :=
       (w_db sample_device IdentityDb)(DEVICE_PRIV_RAW_NAME := None))\<rparr>"
  have "has_kek sample_platform (replicate 32 9) ?w" "w_db ?w IdentityDb DEVICE_PRIV_RAW_NAME = None"
    using sample_device_stored(1) by (simp_all add: stored_identity_def has_kek_def)
  moreover have "w_db ?w IdentityDb DEVICE_KEY_NAME =
      Some (IdentityRow (toBase64url (ed_public sample_platform (replicate 32 1)))
        (kw_wrap sample_platform (replicate 32 9) (pkcs8_prefix Ed25519 @ replicate 32 1)))"
    by (simp add: sample_device_def names_simps)
  moreover have "length (ed_public sample_platform (replicate 32 1)) = 32"
    using sample_platform_laws by (simp add: platform_laws_def)
  ultimately show ?thesis
    using seedless_identity_replaced [OF sample_platform_laws, of "replicate 32 9" ?w] sample_device_stored(2,3)
    by (simp; blast intro: length_replicate)
qed

section \<open>Restoring a backup\<close>

text \<open>The pair a restore writes, and what loading it gives.\<close>

definition restored_rows :: "platform \<Rightarrow> bytes \<Rightarrow> bytes \<Rightarrow> string \<Rightarrow> world \<Rightarrow> bool" where
  "restored_rows P kb s pub w \<longleftrightarrow>
     w_db w IdentityDb DEVICE_PRIV_RAW_NAME = Some (ArrayBuf (kw_wrap P kb s))
     \<and> (\<exists>wp. w_db w IdentityDb DEVICE_KEY_NAME = Some (IdentityRow pub wp)
          \<and> (wp = [] \<or> wp = kw_wrap P kb (pkcs8_prefix Ed25519 @ s)))"

lemma unwrap_mismatch:
  assumes "platform_laws P" and "restored_rows P kb s pub w" and "length s = 32" and "w_replies w = []"
    and "fromBase64url pub \<noteq> Some (ed_public P s)" and "w_db w IdentityDb DEVICE_KEY_NAME = Some row"
  shows "\<exists>er. unwrapIdentityWith (other_runtime P f c e) row (aes_kw_key False kb) w = (w, Inl er)"
proof -
  let ?P = "other_runtime P f c e"
  obtain wp where row: "row = IdentityRow pub wp" "wp = [] \<or> wp = kw_wrap P kb (pkcs8_prefix Ed25519 @ s)"
    "w_db w IdentityDb DEVICE_PRIV_RAW_NAME = Some (ArrayBuf (kw_wrap P kb s))"
    using assms(2,6) by (auto simp: restored_rows_def)
  have "\<exists>k. (if wp = [] then ret None
      else try_supported (unwrap_pkcs8 ?P Ed25519 wp (aes_kw_key False kb) False)) w = (w, Inr k)"
    using row(2) unwrap_stored_pkcs8 [OF assms(1,3)] by (auto simp: supported_cases ret_def not_supported_def)
  then obtain k where k: "(if wp = [] then ret None
      else try_supported (unwrap_pkcs8 ?P Ed25519 wp (aes_kw_key False kb) False)) w = (w, Inr k)" ..
  show ?thesis
  proof (cases "fromBase64url pub")
    case None
    then show ?thesis
      by (simp add: unwrapIdentityWith_def as_identity_row_def row(1) io_basic supported_cases decode64_def)
  next
    case (Some p)
    have "\<exists>q. try_supported (bindio (decode64 pub) (\<lambda>bs. import_raw_public ?P Ed25519 (toArrayBuffer bs))) w = (w, q)"
      by (simp add: supported_cases decode64_def io_basic Some import_raw_public_def)
    then obtain q where "try_supported (bindio (decode64 pub)
        (\<lambda>bs. import_raw_public ?P Ed25519 (toArrayBuffer bs))) w = (w, q)" ..
    then show ?thesis
      using k row(3) assms(4,5) unwrap_wrapped(1) [OF assms(1,3)] Some assms(3)
      by (cases q) (auto simp: unwrapIdentityWith_def as_identity_row_def row(1) io_basic quiet_simps as_buffer_def
          noble_public_def decode64_def)
  qed
qed

lemma quiet_restore:
  assumes "platform_laws P" and "has_kek P kb w" and "w_replies w = []" and "length s = 32"
  shows "\<exists>w'. replaceDeviceIdentity P s pub w = (w', Inr ()) \<and> restored_rows P kb s pub w' \<and> has_kek P kb w'
    \<and> w_replies w' = [] \<and> w_identity w' = None \<and> w_sealed w' = None \<and> w_epoch w' = Suc (w_epoch w)
    \<and> w_x25519 w' = w_x25519 w \<and> w_profile w' = w_profile w \<and> w_roomSeed w' = w_roomSeed w
    \<and> w_roomKek w' = w_roomKek w \<and> w_hostKeys w' = w_hostKeys w \<and> w_db w' RoomDb = w_db w RoomDb
    \<and> (\<forall>k. k \<noteq> DEVICE_KEY_NAME \<and> k \<noteq> DEVICE_PRIV_RAW_NAME \<and> k \<noteq> SEALED_X25519_NAME \<longrightarrow>
         w_db w' IdentityDb k = w_db w IdentityDb k)
    \<and> w_db w' IdentityDb SEALED_X25519_NAME = (if foreign_sealed pub (w_db w IdentityDb SEALED_X25519_NAME)
           \<and> readable (clones_keys P) (w_db w IdentityDb SEALED_X25519_NAME) then None
         else w_db w IdentityDb SEALED_X25519_NAME)"
proof -
  let ?w0 = "w\<lparr>w_identity := None, w_kek := None\<rparr>"
  have "has_kek P kb ?w0" using assms(2) by (simp add: has_kek_def)
  then obtain w1 where k: "getOrCreateWrappingKey P ?w0 = (w1, Inr (aes_kw_key False kb))" "kek_frame ?w0 w1"
    "w_db w1 = w_db w" "w_kek w1 = Some (aes_kw_key False kb)"
    using kek_found [of P kb ?w0] assms(3) by auto
  have r1: "w_replies w1 = []" using k(2) by (simp add: kek_frame_def)
  have c: "wrapSecretBytes P (aes_kw_key False kb) s w1 = (w1, Inr (kw_wrap P kb s))"
    using assms(4) by (simp add: wrapSecretBytes_def io_basic toArrayBuffer_def aes_kw_key_def)
  obtain wp where wp: "try_supported (bindio (import_pkcs8 P Ed25519 (ED25519_PKCS8_PREFIX @ s) True) (\<lambda>k.
      wrap_pkcs8 P Ed25519 k (aes_kw_key False kb))) w1 = (w1, Inr wp)"
    "wp = None \<or> wp = Some (kw_wrap P kb (pkcs8_prefix Ed25519 @ s))"
    using assms(4)
    by (cases "supports P Ed25519") (simp_all add: supported_cases import_pkcs8_def io_basic ed_prefix wrap_pkcs8_def
        export_pkcs8_def curve_key_def aes_kw_key_def not_supported_def)
  let ?w2 = "set_db IdentityDb (fold (\<lambda>(k, v) d. d(k \<mapsto> v)) (identity_pair pub (kw_wrap P kb s)
      (case wp of None \<Rightarrow> [] | Some b \<Rightarrow> b)) (w_db w1 IdentityDb)) w1"
  have p: "replace_pair P s pub w = (?w2, Inr ())"
    using k(1) c wp(1) r1 by (simp add: replace_pair_def andthen_def bindio_def update_def quiet_simps)
  have rows: "restored_rows P kb s pub ?w2"
    using wp(2) by (auto simp: restored_rows_def identity_pair_def names_simps)
  have kek: "has_kek P kb ?w2" using assms(2) k(3,4) by (simp add: has_kek_def)
  have sl: "w_db ?w2 IdentityDb SEALED_X25519_NAME = w_db w IdentityDb SEALED_X25519_NAME"
    using k(3) by (simp add: identity_pair_def names_simps)
  show ?thesis
    using p r1 rows kek sl k(2,3)
    by (cases "readable (clones_keys P) (w_db w IdentityDb SEALED_X25519_NAME)")
       (simp_all add: replaceDeviceIdentity_def replace_tidy_def replace_finish_def io_basic quiet_simps quiet_load_any
         restored_rows_def has_kek_def kek_frame_def names_simps identity_pair_def track_def)
qed

text \<open>Note: A restore switches the identity and nothing else: the pair and the sealed key of another owner are
  replaced and the epoch moves; but the Noise keypair, the profile seed, the room-host seed and
  the host keys of the previous identity all stay, in memory and in storage, which forgetting
  and the replacement of a seedless identity take care to remove.\<close>

theorem restore_keeps_old_keys:
  assumes "platform_laws P" and "has_kek P kb w" and "w_replies w = []" and "length s = 32"
    and "replaceDeviceIdentity P s pub w = (w', r)"
  shows "r = Inr () \<and> w_identity w' = None \<and> w_sealed w' = None \<and> w_epoch w' = Suc (w_epoch w)
    \<and> w_x25519 w' = w_x25519 w \<and> w_db w' IdentityDb X25519_KEYPAIR_NAME = w_db w IdentityDb X25519_KEYPAIR_NAME
    \<and> w_profile w' = w_profile w \<and> w_db w' IdentityDb PROFILE_SEED_NAME = w_db w IdentityDb PROFILE_SEED_NAME
    \<and> w_roomSeed w' = w_roomSeed w \<and> w_db w' RoomDb = w_db w RoomDb \<and> w_hostKeys w' = w_hostKeys w"
  using quiet_restore [OF assms(1-4), of pub] assms(5) by (auto simp: names_simps)

theorem restore_keeps_old_keys_witness:
  "w_x25519 (fst (replaceDeviceIdentity sample_platform (replicate 32 5) ''AAAA''
      (sample_device\<lparr>w_x25519 := Some \<lparr>xk_public = [1], xk_private = None, xk_seed = Some [2]\<rparr>\<rparr>)))
    = Some \<lparr>xk_public = [1], xk_private = None, xk_seed = Some [2]\<rparr>"
proof -
  let ?w = "sample_device\<lparr>w_x25519 := Some \<lparr>xk_public = [1], xk_private = None, xk_seed = Some [2]\<rparr>\<rparr>"
  have k: "has_kek sample_platform (replicate 32 9) ?w" and q: "w_replies ?w = []" and l: "length (replicate 32 5 :: bytes) = 32"
    using sample_device_stored(1,2) by (simp_all add: stored_identity_def has_kek_def)
  from restore_keeps_old_keys [OF sample_platform_laws k q l prod.collapse [symmetric], of "''AAAA''"]
  show ?thesis by simp
qed

text \<open>Note: What a restore accepts: it never compares the public key with the secret. With the right one, every
  later page load, on a runtime that can still read the key, finds the restored identity; with any other
  text the restore succeeds all the same, the previous identity is overwritten, and every later load
  throws.\<close>

theorem restore_unchecked:
  assumes "platform_laws P" and "has_kek P kb w" and "w_replies w = []" and "length s = 32"
    and "w_db w IdentityDb WRAPPING_KEY_NAME = None" and "clones_keys P \<longrightarrow> c"
  shows "\<exists>w'. replaceDeviceIdentity P s pub w = (w', Inr ())
    \<and> (pub = toBase64url (ed_public P s) \<longrightarrow>
         (\<exists>w'' i. getOrCreateDeviceIdentity (other_runtime P f c e) (reload w') = (w'', Inr i)
            \<and> privateKeySeed i = Some (OpaquePrivateKey s) \<and> publicKeyB64 i = pub))
    \<and> (fromBase64url pub \<noteq> Some (ed_public P s) \<longrightarrow>
         (\<exists>er. snd (getOrCreateDeviceIdentity (other_runtime P f c e) (reload w')) = Inl er))"
proof -
  let ?P = "other_runtime P f c e"
  obtain w' where r: "replaceDeviceIdentity P s pub w = (w', Inr ())" "restored_rows P kb s pub w'" "has_kek P kb w'"
    "w_replies w' = []"
    and other: "\<And>k. k \<noteq> DEVICE_KEY_NAME \<and> k \<noteq> DEVICE_PRIV_RAW_NAME \<and> k \<noteq> SEALED_X25519_NAME \<Longrightarrow>
      w_db w' IdentityDb k = w_db w IdentityDb k"
    using quiet_restore [OF assms(1-4), of pub] by blast
  have lost: "w_db w' IdentityDb WRAPPING_KEY_NAME = None"
    using other [of WRAPPING_KEY_NAME] assms(5) by (simp add: names_simps)
  have ok: "\<exists>w'' i. getOrCreateDeviceIdentity ?P (reload w') = (w'', Inr i)
      \<and> privateKeySeed i = Some (OpaquePrivateKey s) \<and> publicKeyB64 i = pub" if "pub = toBase64url (ed_public P s)"
  proof -
    have "stored_identity P kb s (reload w')"
      using r(2,3) that assms(4) by (simp add: stored_identity_def stored_rows_def restored_rows_def has_kek_def)
    then have "stored_identity ?P kb s (reload w')" using assms(6) by (rule stored_identity_other)
    then show ?thesis using load_stored_identity [OF assms(1), of f c e kb s "reload w'"] r(4) that by auto
  qed
  have bad: "\<exists>er. snd (getOrCreateDeviceIdentity ?P (reload w')) = Inl er" if mm: "fromBase64url pub \<noteq> Some (ed_public P s)"
  proof -
    obtain row where row: "w_db w' IdentityDb DEVICE_KEY_NAME = Some row" "readable c (Some row)"
      using r(2) by (auto simp: restored_rows_def)
    have "has_kek ?P kb (reload w')" using has_kek_other [OF r(3) assms(6), of f e] by (simp add: has_kek_def)
    then obtain w1 where k: "getOrCreateWrappingKey ?P (reload w') = (w1, Inr (aes_kw_key False kb))"
      "kek_frame (reload w') w1" "w_db w1 = w_db w'"
      using kek_found [of ?P kb "reload w'"] r(4) by auto
    have r1: "w_replies w1 = []" "restored_rows P kb s pub w1"
      using k(2,3) r(2) by (simp_all add: kek_frame_def restored_rows_def)
    then obtain er where "unwrapIdentityWith ?P row (aes_kw_key False kb) w1 = (w1, Inl er)"
      using unwrap_mismatch [OF assms(1) r1(2) assms(4) r1(1) mm] row k(3) by metis
    then show ?thesis
      using r(4) lost row k(1,3) r1(1)
      by (simp add: getOrCreateDeviceIdentity_def getOrCreateDeviceIdentityInner_def load_stored_def load_or_recover_def
          unwrapIdentity_def recoverWithLegacyKey_def io_basic quiet_simps)
  qed
  show ?thesis using r(1) ok bad by blast
qed

theorem restore_unchecked_witness:
  "\<exists>w' er. replaceDeviceIdentity sample_platform (replicate 32 5) [] sample_device = (w', Inr ())
    \<and> snd (getOrCreateDeviceIdentity (other_runtime sample_platform (\<lambda>_. True) True True) (reload w')) = Inl er"
proof -
  have "has_kek sample_platform (replicate 32 9) sample_device" using sample_device_stored(1) by (simp add: stored_identity_def)
  moreover have "w_db sample_device IdentityDb WRAPPING_KEY_NAME = None" by (simp add: sample_device_def names_simps)
  moreover have "fromBase64url [] \<noteq> Some (ed_public sample_platform (replicate 32 5))"
    using decode_encode [of "[]"] by (simp add: toBase64url_def btoa_def sample_platform_def)
  ultimately show ?thesis
    using restore_unchecked [OF sample_platform_laws, of "replicate 32 9" sample_device "replicate 32 5" True "[]"
        "\<lambda>_. True" True] sample_device_stored(2) by fastforce
qed

section \<open>The Noise keypair\<close>

definition stored_x25519 :: "platform \<Rightarrow> bytes \<Rightarrow> bytes \<Rightarrow> world \<Rightarrow> bool" where
  "stored_x25519 P kb s w \<longleftrightarrow> length s = 32 \<and> has_kek P kb w \<and>
     (\<exists>wp. w_db w IdentityDb X25519_KEYPAIR_NAME = Some (X25519Row (x_public P s) wp (Some (kw_wrap P kb s)))
        \<and> (wp = [] \<or> wp = kw_wrap P kb (pkcs8_prefix X25519 @ s)))"

text \<open>A pair that computes with this secret, by either library.\<close>

definition usable_pair :: "platform \<Rightarrow> bytes \<Rightarrow> x25519_pair \<Rightarrow> bool" where
  "usable_pair P s kp \<longleftrightarrow> xk_public kp = x_public P s \<and>
     (xk_private kp = None \<and> xk_seed kp = Some s
      \<or> xk_private kp = Some (curve_key X25519 ''private'' False s) \<and> supports P X25519)"

lemma dh_usable:
  assumes "w_x25519 w = Some kp" and "usable_pair P s kp" and "length remote = 32"
  shows "snd (dhX25519 P remote w) = Inr (x_shared P s remote)"
  using assms
  by (auto simp: dhX25519_def getOrCreateX25519Keypair_def io_basic usable_pair_def import_raw_public_def
      toArrayBuffer_def curve_key_def)

lemma stored_x25519_other:
  "stored_x25519 P kb s w \<Longrightarrow> (clones_keys P \<longrightarrow> c) \<Longrightarrow> stored_x25519 (other_runtime P f c e) kb s w"
  by (simp add: stored_x25519_def has_kek_other)

lemma load_x25519:
  assumes "platform_laws P" and "stored_x25519 (other_runtime P f c e) kb s w" and "w_replies w = []" and "w_x25519 w = None"
  shows "\<exists>w' kp. getOrCreateX25519Keypair (other_runtime P f c e) w = (w', Inr kp) \<and> w_x25519 w' = Some kp
    \<and> usable_pair (other_runtime P f c e) s kp"
proof -
  let ?P = "other_runtime P f c e"
  obtain wp where x: "w_db w IdentityDb X25519_KEYPAIR_NAME = Some (X25519Row (x_public P s) wp (Some (kw_wrap P kb s)))"
    "wp = [] \<or> wp = kw_wrap P kb (pkcs8_prefix X25519 @ s)" "length s = 32" "has_kek ?P kb w"
    using assms(2) by (auto simp: stored_x25519_def)
  obtain w1 where k: "getOrCreateWrappingKey ?P w = (w1, Inr (aes_kw_key False kb))" "kek_frame w w1" "w_db w1 = w_db w"
    using kek_found [OF x(4) assms(3)] by blast
  have r1: "w_replies w1 = []" using k(2) by (simp add: kek_frame_def)
  have ne: "kw_wrap P kb (pkcs8_prefix X25519 @ s) \<noteq> []" "kw_wrap P kb s \<noteq> []"
    using laws_length [OF assms(1), of "pkcs8_prefix X25519 @ s" kb] laws_length [OF assms(1), of s kb] x(3) by auto
  then obtain b bs where b: "kw_wrap P kb s = b # bs" by (cases "kw_wrap P kb s") auto
  have u: "unwrapSecretBytes ?P (aes_kw_key False kb) (b # bs) v = (v, Inr s)" for v
    using unwrap_wrapped(1) [OF assms(1) x(3), of f c e False kb] b by simp
  have "\<exists>w2 kp. x25519_load ?P (aes_kw_key False kb) (X25519Row (x_public P s) wp (Some (b # bs))) w1 = (w2, Inr (Some kp))
      \<and> w_x25519 w2 = Some kp \<and> usable_pair ?P s kp"
    using x(2)
  proof
    assume "wp = []"
    then show ?thesis
      using u by (simp add: x25519_load_def as_x25519_row_def raw_pair_def set_x25519_def io_basic usable_pair_def)
  next
    assume wp: "wp = kw_wrap P kb (pkcs8_prefix X25519 @ s)"
    obtain d ds where d: "wp = d # ds" using ne(1) unfolding wp by (metis neq_Nil_conv)
    have v: "unwrap_pkcs8 ?P X25519 (d # ds) (aes_kw_key False kb) False w1
        = (w1, if f X25519 then Inr (curve_key X25519 ''private'' False s) else Inl not_supported)"
      using unwrap_stored_pkcs8 [OF assms(1) x(3)] wp d by metis
    then show ?thesis using u d
      by (simp add: x25519_load_def as_x25519_row_def raw_pair_def set_x25519_def io_basic usable_pair_def not_supported_def)
  qed
  then show ?thesis
    using assms(3,4) k(1,3) r1 x(1) b k(2)
    by (auto simp: getOrCreateX25519Keypair_def io_basic quiet_simps kek_frame_def)
qed

lemma create_x25519:
  assumes "platform_laws P" and "has_kek P kb w" and "w_replies w = []" and "w_x25519 w = None"
    and "w_db w IdentityDb X25519_KEYPAIR_NAME = None" and "supports P X25519 \<longrightarrow> exports_raw_private P"
  shows "\<exists>w' kp s. getOrCreateX25519Keypair P w = (w', Inr kp) \<and> w_x25519 w' = Some kp \<and> usable_pair P s kp
    \<and> stored_x25519 P kb s w' \<and> w_replies w' = []"
proof -
  obtain w1 where k: "getOrCreateWrappingKey P w = (w1, Inr (aes_kw_key False kb))" "kek_frame w w1" "w_db w1 = w_db w"
    "w_kek w1 = Some (aes_kw_key False kb)"
    using kek_found [OF assms(2,3)] by blast
  let ?s = "drawn 32 w1"
  have r1: "w_replies w1 = []" using k(2) by (simp add: kek_frame_def)
  have wr: "wrapSecretBytes P (aes_kw_key False kb) ?s v = (v, Inr (kw_wrap P kb ?s))" for v
    by (simp add: wrapSecretBytes_def io_basic toArrayBuffer_def aes_kw_key_def)
  have up: "supports P X25519 \<Longrightarrow> unwrap_pkcs8 P X25519 (kw_wrap P kb (pkcs8_prefix X25519 @ ?s)) (aes_kw_key False kb) False v
      = (v, Inr (curve_key X25519 ''private'' False ?s))" for v
    using unwrap_stored_pkcs8 [OF assms(1), of ?s "supports P" "clones_keys P" "exports_raw_private P"]
    by (simp add: this_runtime)
  have "\<exists>w' kp. x25519_create P (aes_kw_key False kb) w1 = (w', Inr kp) \<and> w_x25519 w' = Some kp \<and> usable_pair P ?s kp
      \<and> stored_x25519 P kb ?s w' \<and> w_replies w' = []"
  proof (cases "supports P X25519")
    case True
    then show ?thesis
      using assms(2,6) r1 k(3,4) wr up
      by (simp add: x25519_create_def x25519_native_def io_basic quiet_draw Let_def wrap_pkcs8_def export_pkcs8_def
          export_raw_private_def exportRaw_def curve_key_def quiet_simps set_x25519_def usable_pair_def stored_x25519_def
          has_kek_def) (simp add: aes_kw_key_def)
  next
    case False
    then show ?thesis
      using assms(2) r1 k(3,4) wr
      by (simp add: x25519_create_def x25519_native_def x25519_noble_def io_basic quiet_draw not_supported_def
          quiet_simps set_x25519_def usable_pair_def stored_x25519_def has_kek_def toArrayBuffer_def)
  qed
  then show ?thesis
    using assms(4,5) k(1,3) r1 by (fastforce simp: getOrCreateX25519Keypair_def io_basic quiet_simps)
qed

text \<open>Note: The Noise key survives: on a runtime without X25519, or with one that exports private keys, the
  keypair created is, after a page load and on a runtime that can still read the key-encryption key
  (so also after X25519 came or went), the same: its public key, and the shared secret with any peer.\<close>

theorem noise_key_survives:
  assumes "platform_laws P" and "has_kek P kb w" and "w_replies w = []" and "w_x25519 w = None"
    and "w_db w IdentityDb X25519_KEYPAIR_NAME = None" and "supports P X25519 \<longrightarrow> exports_raw_private P"
    and "length remote = 32" and "clones_keys P \<longrightarrow> c"
  shows "\<exists>w' kp w'' kp'. getOrCreateX25519Keypair P w = (w', Inr kp)
    \<and> getOrCreateX25519Keypair (other_runtime P f c e) (reload w') = (w'', Inr kp') \<and> xk_public kp' = xk_public kp
    \<and> snd (dhX25519 (other_runtime P f c e) remote w'') = snd (dhX25519 P remote w')
    \<and> (\<exists>secret. snd (dhX25519 P remote w') = Inr secret)"
proof -
  let ?P = "other_runtime P f c e"
  obtain w' kp s where c: "getOrCreateX25519Keypair P w = (w', Inr kp)" "w_x25519 w' = Some kp" "usable_pair P s kp"
    "stored_x25519 P kb s w'" "w_replies w' = []"
    using create_x25519 [OF assms(1-6)] by blast
  have "stored_x25519 P kb s (reload w')" using c(4) by (simp add: stored_x25519_def has_kek_def)
  then have "stored_x25519 ?P kb s (reload w')" using assms(8) by (rule stored_x25519_other)
  then obtain w'' kp' where l: "getOrCreateX25519Keypair ?P (reload w') = (w'', Inr kp')" "w_x25519 w'' = Some kp'"
    "usable_pair ?P s kp'"
    using load_x25519 [OF assms(1), of f c e kb s "reload w'"] c(5) by auto
  then show ?thesis
    using c dh_usable [OF c(2,3) assms(7)] dh_usable [OF l(2,3) assms(7)] by (auto simp: usable_pair_def)
qed

theorem noise_key_survives_witness:
  "\<exists>w' kp w'' kp'. getOrCreateX25519Keypair sample_platform sample_device = (w', Inr kp)
    \<and> getOrCreateX25519Keypair (other_runtime sample_platform (\<lambda>_. False) True True) (reload w') = (w'', Inr kp')
    \<and> xk_public kp' = xk_public kp"
  using noise_key_survives [OF sample_platform_laws, of "replicate 32 9" sample_device "replicate 32 0" True "\<lambda>_. False" True]
    sample_device_stored
  by (auto simp: stored_identity_def sample_device_def fresh_world_def sample_platform_def names_simps)

text \<open>On such a runtime the creation fails after the key-encryption key, and leaves only that cached.\<close>

lemma x25519_refused:
  assumes "platform_laws P" and "has_kek P kb w" and "w_replies w = []" and "w_x25519 w = None"
    and "w_db w IdentityDb X25519_KEYPAIR_NAME = None" and "supports P X25519" and "\<not> exports_raw_private P"
  shows "\<exists>w'. getOrCreateX25519Keypair P w = (w', Inl (Thrown ''InvalidAccessError'' [])) \<and> kek_frame w w'
    \<and> w_db w' = w_db w \<and> w_kek w' = Some (aes_kw_key False kb)"
proof -
  obtain w1 where k: "getOrCreateWrappingKey P w = (w1, Inr (aes_kw_key False kb))" "kek_frame w w1" "w_db w1 = w_db w"
    "w_kek w1 = Some (aes_kw_key False kb)"
    using kek_found [OF assms(2,3)] by blast
  then show ?thesis using assms
    by (auto simp: getOrCreateX25519Keypair_def io_basic quiet_simps x25519_create_def x25519_native_def quiet_draw
        Let_def wrap_pkcs8_def export_pkcs8_def export_raw_private_def curve_key_def kek_frame_def)
qed

text \<open>Note: Where the runtime follows the WebCrypto specification, which exports no raw private key, there is
  never a Noise key: with X25519 available the creation throws every time and stores nothing.\<close>

theorem noise_key_refused:
  assumes "platform_laws P" and "has_kek P kb w" and "w_replies w = []" and "w_x25519 w = None"
    and "w_db w IdentityDb X25519_KEYPAIR_NAME = None" and "supports P X25519" and "\<not> exports_raw_private P"
    and "getOrCreateX25519Keypair P w = (w', r)"
  shows "r = Inl (Thrown ''InvalidAccessError'' []) \<and> w_db w' = w_db w \<and> w_x25519 w' = None"
  using x25519_refused [OF assms(1-7)] assms(4,8) by (auto simp: kek_frame_def)

theorem noise_key_refused_witness:
  "snd (getOrCreateX25519Keypair (sample_platform\<lparr>exports_raw_private := False\<rparr>) sample_device)
     = Inl (Thrown ''InvalidAccessError'' [])"
proof -
  have l: "platform_laws (sample_platform\<lparr>exports_raw_private := False\<rparr>)"
    using sample_platform_laws by (simp add: platform_laws_def)
  have k: "has_kek (sample_platform\<lparr>exports_raw_private := False\<rparr>) (replicate 32 9) sample_device" "w_x25519 sample_device = None"
    "w_db sample_device IdentityDb X25519_KEYPAIR_NAME = None"
    using sample_device_stored(1)
    by (simp_all add: stored_identity_def has_kek_def sample_device_def fresh_world_def names_simps)
  from noise_key_refused [OF l k(1) sample_device_stored(2) k(2,3) _ _ prod.collapse [symmetric]]
  show ?thesis by (simp add: sample_platform_def)
qed

end
