(* ===== verification/Local_Identity.thy ===== *)
theory Local_Identity
  imports Transport_Inv Identity_Restore
begin

text \<open>
  \<open>getLocalIdentity\<close> of \<open>transport.ts\<close>: the adapter between the stored device identity
  (\<open>packages/identity\<close>) and the handshake (\<open>packages/mesh-core\<close>). The two packages are
  composed here: what is on disk, the adapter built from it, the handshake two such adapters
  perform, and the event loop of a device whose adapter cannot be built.
\<close>

section \<open>The adapter\<close>

text \<open>The values its closures captured; the Diffie-Hellman goes back to the identity package.\<close>

record local_provider =
  lp_pubkeyBytes :: bytes
  lp_seed :: "opaque_key option"
  lp_x25519Pub :: bytes

record mesh_local =
  ml_world :: Id_World.world
  localIdentityProvider :: "local_provider option"

definition build_provider :: "platform \<Rightarrow> local_provider io" where
  "build_provider P = bindio (getOrCreateDeviceIdentity P) (\<lambda>identity.
     bindio (decode64 (publicKeyB64 identity)) (\<lambda>pubkeyBytes.
     bindio (getOrCreateX25519Keypair P) (\<lambda>kp.
       ret \<lparr>lp_pubkeyBytes = pubkeyBytes, lp_seed = privateKeySeed identity, lp_x25519Pub = xk_public kp\<rparr>)))"

definition getLocalIdentity :: "platform \<Rightarrow> mesh_local \<Rightarrow> mesh_local \<times> (id_error + local_provider)" where
  "getLocalIdentity P m = (case localIdentityProvider m of
      Some p \<Rightarrow> (m, Inr p)
    | None \<Rightarrow> (case build_provider P (ml_world m) of
        (w, Inl e) \<Rightarrow> (m\<lparr>ml_world := w\<rparr>, Inl e)
      | (w, Inr p) \<Rightarrow> (\<lparr>ml_world = w, localIdentityProvider = Some p\<rparr>, Inr p)))"

definition lp_sign :: "platform \<Rightarrow> local_provider \<Rightarrow> bytes \<Rightarrow> id_error + bytes" where
  "lp_sign P p msg = (case lp_seed p of
      None \<Rightarrow> Inl (Thrown ''Error'' ''[identity] Noise XX sign: privateKeySeed null'')
    | Some s \<Rightarrow> Inr (ed_sign P (opaque_bytes s) msg))"

definition lp_dhX25519 :: "platform \<Rightarrow> bytes \<Rightarrow> mesh_local \<Rightarrow> mesh_local \<times> (id_error + bytes)" where
  "lp_dhX25519 P remotePub m = (case dhX25519 P remotePub (ml_world m) of (w, r) \<Rightarrow> (m\<lparr>ml_world := w\<rparr>, r))"

text \<open>What the handshake sees of the adapter.\<close>

definition handshake_view :: "platform \<Rightarrow> mesh_local \<Rightarrow> local_provider \<Rightarrow> device_identity" where
  "handshake_view P m p = \<lparr>id_ed25519 = lp_pubkeyBytes p, id_x25519 = lp_x25519Pub p,
     id_dh = (\<lambda>r. case snd (lp_dhX25519 P r m) of Inl e \<Rightarrow> None | Inr b \<Rightarrow> Some b)\<rparr>"

text \<open>What a continuation of \<open>getLocalIdentity\<close> in the event loop gets.\<close>

definition local_answer :: "platform \<Rightarrow> mesh_local \<Rightarrow> device_identity option" where
  "local_answer P m = (case getLocalIdentity P m of
      (m', Inl e) \<Rightarrow> None | (m', Inr p) \<Rightarrow> Some (handshake_view P m' p))"

text \<open>\<open>derivePeerId\<close> of \<open>crypto/identity.ts\<close>: a peer id bound to the identity.\<close>

definition derivePeerId :: "noise_prims \<Rightarrow> platform \<Rightarrow> bytes io" where
  "derivePeerId N P = bindio (getOrCreateDeviceIdentity P) (\<lambda>identity.
     bindio (decode64 (publicKeyB64 identity)) (\<lambda>pk.
       if length pk \<noteq> 32 then raise (Thrown ''Error'' ''identity: expected 32-byte Ed25519 pubkey'')
       else ret (js_slice 0 8 (sha256 N pk))))"

text \<open>The curve of the handshake is the one of the platform; both libraries take keys of 32 bytes only.\<close>

definition same_curve :: "noise_prims \<Rightarrow> platform \<Rightarrow> bool" where
  "same_curve N P \<longleftrightarrow> x25519_pub N = x_public P
     \<and> (\<forall>s r. x25519_dh N s r = (if length r = 32 then Some (x_shared P s r) else None))"

section \<open>An adapter over stored keys\<close>

lemma dh_total:
  assumes "w_x25519 w = Some kp" and "usable_pair P s kp"
  shows "\<exists>r. dhX25519 P remote w = (w, r) \<and> (r = Inr (x_shared P s remote) \<and> length remote = 32
    \<or> (\<exists>e. r = Inl e) \<and> length remote \<noteq> 32)"
  using assms
  by (cases "length remote = 32")
    (auto simp: dhX25519_def getOrCreateX25519Keypair_def io_basic usable_pair_def import_raw_public_def
      toArrayBuffer_def curve_key_def not_supported_def)

lemma view_of_pair:
  assumes "same_curve N P" and "platform_laws P" and "w_x25519 (ml_world m) = Some kp" and "usable_pair P s kp"
    and "lp_pubkeyBytes p = ed_public P e" and "lp_x25519Pub p = xk_public kp"
  shows "identity_of N s (handshake_view P m p)"
proof -
  have "id_dh (handshake_view P m p) r = x25519_dh N s r" for r
    using dh_total [OF assms(3,4), of r] assms(1)
    by (auto simp: handshake_view_def lp_dhX25519_def same_curve_def)
  then show ?thesis
    using assms by (auto simp: identity_of_def handshake_view_def same_curve_def usable_pair_def platform_laws_def)
qed


text \<open>A device with a stored identity (seed \<open>e\<close>) whose Noise key is stored or can be made.\<close>

definition ready_device :: "platform \<Rightarrow> bytes \<Rightarrow> bytes \<Rightarrow> Id_World.world \<Rightarrow> bool" where
  "ready_device P kb e w \<longleftrightarrow> platform_laws P \<and> stored_identity P kb e w \<and> w_replies w = []
     \<and> Id_World.w_identity w = None \<and> w_x25519 w = None
     \<and> ((\<exists>s. stored_x25519 P kb s w)
        \<or> w_db w IdentityDb X25519_KEYPAIR_NAME = None \<and> (supports P X25519 \<longrightarrow> exports_raw_private P))"

definition cold_start :: "Id_World.world \<Rightarrow> mesh_local" where
  "cold_start w = \<lparr>ml_world = w, localIdentityProvider = None\<rparr>"

lemma provider_built:
  assumes "ready_device P kb e w"
  shows "\<exists>m p kp s. getLocalIdentity P (cold_start w) = (m, Inr p) \<and> localIdentityProvider m = Some p
    \<and> lp_pubkeyBytes p = ed_public P e \<and> lp_seed p = Some (OpaquePrivateKey e)
    \<and> w_x25519 (ml_world m) = Some kp \<and> usable_pair P s kp \<and> lp_x25519Pub p = xk_public kp"
proof -
  have a: "platform_laws P" "stored_identity P kb e w" "w_replies w = []" "Id_World.w_identity w = None" "w_x25519 w = None"
    using assms by (simp_all add: ready_device_def)
  obtain w1 i where i: "getOrCreateDeviceIdentity P w = (w1, Inr i)" "privateKeySeed i = Some (OpaquePrivateKey e)"
    "publicKeyB64 i = toBase64url (ed_public P e)" "w_db w1 = w_db w" "stored_identity P kb e w1" "w_replies w1 = []"
    "w_x25519 w1 = None"
    using load_stored_identity [of P "supports P" "clones_keys P" "exports_raw_private P" kb e w, OF a(1)] a(2-5)
    by (auto simp: this_runtime)
  have k: "has_kek P kb w1" using i(5) by (simp add: stored_identity_def)
  obtain w2 kp s where k: "getOrCreateX25519Keypair P w1 = (w2, Inr kp)" "w_x25519 w2 = Some kp" "usable_pair P s kp"
  proof (cases "w_db w IdentityDb X25519_KEYPAIR_NAME")
    case None
    then have "supports P X25519 \<longrightarrow> exports_raw_private P" using assms by (auto simp: ready_device_def stored_x25519_def)
    then show thesis using create_x25519 [OF a(1) k i(6,7)] None i(4) that by auto
  next
    case (Some row)
    then obtain s where "stored_x25519 P kb s w" using assms by (auto simp: ready_device_def)
    then have "stored_x25519 P kb s w1" using k i(4) by (simp add: stored_x25519_def)
    then show thesis
      using load_x25519 [of P "supports P" "clones_keys P" "exports_raw_private P" kb s w1, OF a(1) _ i(6,7)] that
      by (auto simp: this_runtime)
  qed
  have "build_provider P w = (w2, Inr \<lparr>lp_pubkeyBytes = ed_public P e, lp_seed = Some (OpaquePrivateKey e),
      lp_x25519Pub = xk_public kp\<rparr>)"
    using i(1-3) k(1) by (simp add: build_provider_def io_basic decode64_def decode_encode from_option_def)
  then show ?thesis using k by (auto simp: getLocalIdentity_def cold_start_def)
qed


text \<open>The derived peer id is the same on every start where the stored key can be read.\<close>

lemma derived_peer_id:
  assumes "platform_laws P" and "stored_identity (other_runtime P f c x) kb e w" and "w_replies w = []" and "Id_World.w_identity w = None"
  shows "snd (derivePeerId N (other_runtime P f c x) w) = Inr (js_slice 0 8 (sha256 N (ed_public P e)))"
proof -
  obtain w' i where "getOrCreateDeviceIdentity (other_runtime P f c x) w = (w', Inr i)"
    "publicKeyB64 i = toBase64url (ed_public P e)"
    using load_stored_identity [OF assms] by blast
  then show ?thesis
    using assms(1) by (simp add: derivePeerId_def io_basic decode64_def decode_encode from_option_def platform_laws_def)
qed

section \<open>Two devices\<close>

text \<open>C3: From disk to session: two devices, each with a stored identity and a Noise key that is stored or can
  be made, each build their adapter and complete the handshake with it; both ends hold complementary
  session keys and the same authentication string, and each has learned the public key of the
  identity the other has on disk.\<close>

theorem stored_identities_shake_hands:
  assumes "noise_laws N" and "same_curve N P" and "same_curve N Q"
    and "ready_device P kbA eA wA" and "ready_device Q kbB eB wB"
  shows "\<exists>idA idB i r k. local_answer P (cold_start wA) = Some idA \<and> local_answer Q (cold_start wB) = Some idB
    \<and> run_handshake N dI dR (new_handshake N InitiatorRole idA) (new_handshake N ResponderRole idB) [] [] []
       = Inr (i, r, [[], [], []])
    \<and> split_keys N i = Inr k \<and> split_keys N r = Inr \<lparr>sendKey = recvKey k, recvKey = sendKey k\<rparr>
    \<and> noise_sas i = noise_sas r
    \<and> peerStaticPublicKey i = Some (ed_public Q eB) \<and> peerStaticPublicKey r = Some (ed_public P eA)"
proof -
  have built: "\<exists>iden x. local_answer R (cold_start w) = Some iden \<and> identity_of N x iden \<and> id_ed25519 iden = ed_public R e"
    if h: "same_curve N R" "ready_device R kb e w" for R kb e w
  proof -
    obtain m p kp s where b: "getLocalIdentity R (cold_start w) = (m, Inr p)" "lp_pubkeyBytes p = ed_public R e"
      "w_x25519 (ml_world m) = Some kp" "usable_pair R s kp" "lp_x25519Pub p = xk_public kp"
      using provider_built [OF h(2)] by blast
    have "platform_laws R" using h(2) by (simp add: ready_device_def)
    then have "identity_of N s (handshake_view R m p)" by (rule view_of_pair [OF h(1) _ b(3,4,2,5)])
    then show ?thesis using b(1,2) by (auto simp: local_answer_def handshake_view_def)
  qed
  obtain idA x where A: "local_answer P (cold_start wA) = Some idA" "identity_of N x idA" "id_ed25519 idA = ed_public P eA"
    using built [OF assms(2,4)] by blast
  obtain idB y where B: "local_answer Q (cold_start wB) = Some idB" "identity_of N y idB" "id_ed25519 idB = ed_public Q eB"
    using built [OF assms(3,5)] by blast
  from handshake_run [OF assms(1) A(2) B(2), of "[]" "[]" "[]" dI dR] show ?thesis using A B by auto
qed

section \<open>A forgotten device\<close>

text \<open>Note: The adapter outlives the device's identity: once built, getLocalIdentity never looks at the identity
  package again, while its Diffie-Hellman does. After clearDeviceIdentity the adapter still presents
  the forgotten Ed25519 and X25519 public keys, and computes with the secret of a new Noise key
  that the call itself makes and stores.\<close>

theorem adapter_outlives_identity:
  assumes "localIdentityProvider m = Some p" and "platform_laws P" and "w_replies (ml_world m) = []"
    and "clearDeviceIdentity (ml_world m) = (w, r)" and "w_clone w = None \<or> w_clone w = Some (clones_keys P)"
    and "supports P X25519 \<longrightarrow> exports_raw_private P" and "length remote = 32"
  shows "local_answer P (m\<lparr>ml_world := w\<rparr>) = Some (handshake_view P (m\<lparr>ml_world := w\<rparr>) p)
    \<and> id_ed25519 (handshake_view P (m\<lparr>ml_world := w\<rparr>) p) = lp_pubkeyBytes p
    \<and> id_x25519 (handshake_view P (m\<lparr>ml_world := w\<rparr>) p) = lp_x25519Pub p
    \<and> w_db w IdentityDb X25519_KEYPAIR_NAME = None
    \<and> (\<exists>s kb m'. lp_dhX25519 P remote (m\<lparr>ml_world := w\<rparr>) = (m', Inr (x_shared P s remote))
         \<and> stored_x25519 P kb s (ml_world m'))"
proof -
  have w: "w_replies w = []" "w_kek w = None" "w_x25519 w = None" "w_db w KekDb = (\<lambda>_. None)"
    "w_db w IdentityDb WRAPPING_KEY_NAME = None" "w_db w IdentityDb X25519_KEYPAIR_NAME = None"
    using quiet_forget [OF assms(3)] assms(4) by (auto simp: names_simps)
  obtain w1 kb where k: "getOrCreateWrappingKey P w = (w1, Inr (aes_kw_key False kb))" "kek_frame w w1" "has_kek P kb w1"
    "w_kek w1 = Some (aes_kw_key False kb)"
    using kek_first [of w P] w assms(5) by auto
  have w1: "w_replies w1 = []" "w_x25519 w1 = None" "w_db w1 IdentityDb X25519_KEYPAIR_NAME = None"
    using k(2) w by (simp_all add: kek_frame_def)
  obtain w2 kp s where c: "getOrCreateX25519Keypair P w1 = (w2, Inr kp)" "w_x25519 w2 = Some kp" "usable_pair P s kp"
    "stored_x25519 P kb s w2"
    using create_x25519 [OF assms(2) k(3) w1 assms(6)] by blast
  have "getOrCreateWrappingKey P w1 = (w1, Inr (aes_kw_key False kb))"
    using k(4) by (simp add: getOrCreateWrappingKey_def kek_lookup_def io_basic)
  then have "getOrCreateX25519Keypair P w = (w2, Inr kp)"
    using k(1) w(3) w1(2) c(1) by (simp add: getOrCreateX25519Keypair_def io_basic)
  moreover have "getOrCreateX25519Keypair P w2 = (w2, Inr kp)"
    using c(2) by (simp add: getOrCreateX25519Keypair_def io_basic)
  ultimately have "dhX25519 P remote w = dhX25519 P remote w2" by (simp add: dhX25519_def io_basic)
  then have "dhX25519 P remote w = (w2, Inr (x_shared P s remote))"
    using dh_total [OF c(2,3), of remote] assms(7) by auto
  then show ?thesis
    using assms(1) w(6) c(4) by (auto simp: getLocalIdentity_def local_answer_def handshake_view_def lp_dhX25519_def)
qed

section \<open>Claimed keys\<close>

text \<open>Note: The Ed25519 key is claimed, not proved: a party that knows only its own X25519 secret and presents any 32
  bytes as its Ed25519 key completes the handshake, and the other side records those bytes as the
  peer's long-term key.\<close>

theorem claimed_key_unproven:
  assumes "noise_laws N" and "identity_of N xR idR" and "length victim = 32"
  shows "\<exists>i r k. run_handshake N dI dR
      (new_handshake N InitiatorRole \<lparr>id_ed25519 = victim, id_x25519 = x25519_pub N own, id_dh = x25519_dh N own\<rparr>)
      (new_handshake N ResponderRole idR) [] [] [] = Inr (i, r, [[], [], []])
    \<and> isComplete r \<and> split_keys N r = Inr k \<and> peerStaticPublicKey r = Some victim"
proof -
  let ?id = "\<lparr>id_ed25519 = victim, id_x25519 = x25519_pub N own, id_dh = x25519_dh N own\<rparr>"
  have "identity_of N own ?id" using assms(3) by (simp add: identity_of_def)
  from handshake_run [OF assms(1) this assms(2), of "[]" "[]" "[]" dI dR] show ?thesis by auto
qed


section \<open>A device without a Noise key\<close>

text \<open>A runtime that has X25519 but, as the WebCrypto specification says, exports no raw private key.\<close>

definition keyless_device :: "platform \<Rightarrow> bytes \<Rightarrow> bytes \<Rightarrow> Id_World.world \<Rightarrow> bool" where
  "keyless_device P kb e w \<longleftrightarrow> platform_laws P \<and> stored_identity P kb e w \<and> w_replies w = []
     \<and> (case Id_World.w_identity w of None \<Rightarrow> True | Some i \<Rightarrow> publicKeyB64 i = toBase64url (ed_public P e))
     \<and> w_x25519 w = None \<and> w_db w IdentityDb X25519_KEYPAIR_NAME = None
     \<and> supports P X25519 \<and> \<not> exports_raw_private P"

lemma keyless_refuses:
  assumes "keyless_device P kb e w"
  shows "\<exists>w'. getLocalIdentity P (cold_start w) = (cold_start w', Inl (Thrown ''InvalidAccessError'' []))
    \<and> keyless_device P kb e w'"
proof -
  have a: "platform_laws P" "stored_identity P kb e w" "w_replies w = []" "w_x25519 w = None"
    "w_db w IdentityDb X25519_KEYPAIR_NAME = None" "supports P X25519" "\<not> exports_raw_private P"
    using assms by (simp_all add: keyless_device_def)
  obtain w1 i where i: "getOrCreateDeviceIdentity P w = (w1, Inr i)" "publicKeyB64 i = toBase64url (ed_public P e)"
    "stored_identity P kb e w1" "w_replies w1 = []" "w_x25519 w1 = None" "w_db w1 = w_db w" "Id_World.w_identity w1 = Some i"
  proof (cases "Id_World.w_identity w")
    case None
    then show thesis
      using load_stored_identity [of P "supports P" "clones_keys P" "exports_raw_private P" kb e w, OF a(1)] a(2-4) that
      by (auto simp: this_runtime)
  next
    case (Some i)
    then have "getOrCreateDeviceIdentity P w = (w, Inr i)" by (simp add: getOrCreateDeviceIdentity_def io_basic)
    then show thesis using that a Some assms by (simp add: keyless_device_def)
  qed
  have k: "has_kek P kb w1" using i(3) by (simp add: stored_identity_def)
  obtain w2 where x: "getOrCreateX25519Keypair P w1 = (w2, Inl (Thrown ''InvalidAccessError'' []))" "kek_frame w1 w2"
    "w_db w2 = w_db w1" "w_kek w2 = Some (aes_kw_key False kb)"
    using x25519_refused [OF a(1) k i(4,5) _ a(6,7)] i(6) a(5) by auto
  have "build_provider P w = (w2, Inl (Thrown ''InvalidAccessError'' []))"
    using i(1,2) x(1) by (simp add: build_provider_def io_basic decode64_def decode_encode from_option_def)
  then have "getLocalIdentity P (cold_start w) = (cold_start w2, Inl (Thrown ''InvalidAccessError'' []))"
    by (simp add: getLocalIdentity_def cold_start_def)
  moreover have "stored_identity P kb e w2"
    using i(3) x(3,4) stored_rows_frame [OF x(2)] by (simp add: stored_identity_def has_kek_def)
  then have "keyless_device P kb e w2"
    using a(1,5-7) i(2,6,7) x(2,3) i(5) by (simp add: keyless_device_def kek_frame_def)
  ultimately show ?thesis by blast
qed


lemma keyless_again:
  assumes "keyless_device P kb e w"
  shows "\<exists>v. ((fst \<circ> getLocalIdentity P) ^^ n) (cold_start w) = cold_start v \<and> keyless_device P kb e v"
proof (induction n)
  case (Suc n)
  then obtain v where v: "((fst \<circ> getLocalIdentity P) ^^ n) (cold_start w) = cold_start v" "keyless_device P kb e v"
    by blast
  then show ?case using keyless_refuses [OF v(2)] by (auto simp: o_def)
qed (use assms in auto)

text \<open>What stays true of the event loop while no continuation gets an identity.\<close>

fun before_identity :: "task \<Rightarrow> bool" where
  "before_identity (Connecting dev pid rssi) = True"
| "before_identity (MtuQuery dev pid rssi) = True"
| "before_identity (Subscribing dev pid rssi) = True"
| "before_identity (InitIdentity dev pid) = True"
| "before_identity (ResponderIdentity dev r hex ft payload) = True"
| "before_identity t = False"

definition mute :: "transport \<Rightarrow> bool" where
  "mute st \<longleftrightarrow> heap st = [] \<and> cryptoStates st = [] \<and> written st = [] \<and> handed st = []
     \<and> list_all before_identity (tasks st)"

lemma mute_basic:
  "mute (st\<lparr>reassemblers := R\<rparr>) = mute st" "mute (notifyHandshakeChange st) = mute st" "mute (set_error e st) = mute st"
  "mute st \<Longrightarrow> before_identity t \<Longrightarrow> mute (spawn t st)" "mute st \<Longrightarrow> mute (take_task i st)"
  by (auto simp: mute_def notifyHandshakeChange_def set_error_def spawn_def take_task_def list_all_iff
      dest: in_set_takeD in_set_dropD)

lemma mute_prune: "mute st \<Longrightarrow> mute (prune_backoff now es st)"
  by (induction now es st rule: prune_backoff.induct) (simp_all add: mute_def)

lemma mute_fail: "mute st \<Longrightarrow> mute (failHandshake None st)"
  by (simp add: failHandshake_def mute_basic)

lemma mute_sighting: "mute st \<Longrightarrow> mute (on_sighting now dev pid rssi st)"
  by (auto simp: on_sighting_def Let_def mute_basic)

lemma mute_chunk: "mute st \<Longrightarrow> mute (handleIncomingChunk P R d d' now dev c st)"
  by (auto simp: handleIncomingChunk_def Let_def session_frame_def responder_begin_def mute_basic
      split: prod.splits sum.splits option.splits) (auto simp: mute_def)

lemma mute_resume:
  assumes "Transport.w_identity W = None" and "mute st" and "before_identity t"
  shows "mute (resume_task W d d' now ok answer t st)"
  using assms
  by (cases t) (auto simp: resume_task_def subscribed_def mtu_answered_def connect_failed_def nextBackoffMs_def Let_def
    initiateHandshake_def responder_resume_def failHandshake_def set_error_def spawn_def mute_def)

lemma mute_event:
  assumes "Transport.w_identity W = None" and "mute st"
  shows "mute (mesh_event W d d' now ev st)"
proof (cases ev)
  case (Sighting dev pid rssi)
  then show ?thesis using assms(2) by (simp add: mesh_event_def mute_sighting)
next
  case (Chunk dev c)
  then show ?thesis using assms(2) by (simp add: mesh_event_def mute_chunk)
next
  case (Resume i ok answer)
  have "list_all before_identity (tasks st)" using assms(2) by (simp add: mute_def)
  then have "i < length (tasks st) \<Longrightarrow> before_identity (tasks st ! i)" by (simp add: list_all_length)
  then show ?thesis using assms Resume by (simp add: mesh_event_def mute_resume mute_basic)
next
  case (Send hex frame)
  then show ?thesis using assms(2)
    by (auto simp: mesh_event_def sendFrame_def mute_def split: option.splits)
next
  case (Start pid doc failure)
  then show ?thesis using assms(2)
    by (auto simp: mesh_event_def startMesh_def start_until_def Let_def mute_def set_error_def
        split: option.splits start_stage.splits)
qed (use assms(2) in \<open>auto simp: mesh_event_def on_disconnect_def clearBackoff_def on_connection_def gc_tick_def Let_def
    checkHandshakeTimeouts_def acceptPeer_def rejectPeer_def cs_for_peer_def onFrame_def offFrame_def stopMesh_def
    mute_def intro!: mute_prune [unfolded mute_def]\<close>)

lemma mute_run: "Transport.w_identity W = None \<Longrightarrow> mute st \<Longrightarrow> mute (run_mesh W xs st)"
  by (induction W xs st rule: run_mesh.induct) (simp_all add: mute_event)

text \<open>C27: No Noise key, no mesh: on a runtime with X25519 that follows the WebCrypto specification the adapter
  can never be built, however often it is asked for, and a device that asks for it so transmits
  nothing and delivers nothing in any run of its event loop: every handshake ends before its
  first message.\<close>

theorem no_noise_key_no_mesh:
  assumes "keyless_device P kb e w" and "Transport.w_identity W = local_answer P (((fst \<circ> getLocalIdentity P) ^^ n) (cold_start w))"
  shows "let st = run_mesh W xs (new_transport env) in heap st = [] \<and> written st = [] \<and> handed st = []"
proof -
  obtain v where v: "((fst \<circ> getLocalIdentity P) ^^ n) (cold_start w) = cold_start v" "keyless_device P kb e v"
    using keyless_again [OF assms(1)] by blast
  obtain u where "getLocalIdentity P (cold_start v) = (cold_start u, Inl (Thrown ''InvalidAccessError'' []))"
    using keyless_refuses [OF v(2)] by blast
  then have "Transport.w_identity W = None" using assms(2) v(1) by (simp add: local_answer_def)
  moreover have "mute (new_transport env)" by (simp add: mute_def new_transport_def)
  ultimately show ?thesis using mute_run by (simp add: mute_def Let_def)
qed


section \<open>Concrete devices\<close>

text \<open>The sample platform with an X25519 whose shared secrets agree, and the handshake over the same curve.\<close>

definition curve_platform :: platform where
  "curve_platform = sample_platform\<lparr>x_shared := \<lambda>s p. map2 (+) (pad32 s) p\<rparr>"

definition curve_noise :: noise_prims where
  "curve_noise = sample_noise\<lparr>x25519_pub := x_public curve_platform,
     x25519_dh := \<lambda>s r. if length r = 32 then Some (x_shared curve_platform s r) else None\<rparr>"

lemma curve_commutes:
  "map2 (+) (pad32 a) (map (\<lambda>x. x + 2) (pad32 b)) = map2 (+) (pad32 b) (map (\<lambda>x. x + 2) (pad32 a))"
  by (rule nth_equalityI) (simp_all add: algebra_simps)

lemma curve_functions [simp]:
  "x_public curve_platform b = map (\<lambda>x. x + 2) (pad32 b)" "x_shared curve_platform s p = map2 (+) (pad32 s) p"
  by (simp_all add: curve_platform_def sample_platform_def pad32_def)

lemma curve_laws: "noise_laws curve_noise" "platform_laws curve_platform"
  "same_curve curve_noise curve_platform" "same_curve curve_noise (other_runtime curve_platform f c e)"
proof -
  show "noise_laws curve_noise"
    using sample_noise_laws curve_commutes by (simp add: noise_laws_def curve_noise_def)
  show "platform_laws curve_platform"
    using sample_platform_laws by (simp add: platform_laws_def curve_platform_def)
qed (simp_all add: same_curve_def curve_noise_def)

lemma sample_ready:
  "ready_device curve_platform (replicate 32 9) (replicate 32 1) sample_device"
  "ready_device (other_runtime curve_platform (\<lambda>_. False) True e) (replicate 32 9) (replicate 32 1) sample_device"
  using curve_laws(2) sample_device_stored
  by (simp_all add: ready_device_def stored_identity_def has_kek_def stored_rows_def curve_platform_def platform_laws_def)
    (simp_all add: sample_device_def fresh_world_def sample_platform_def names_simps)

theorem stored_identities_shake_hands_witness:
  "\<exists>idA idB i r. local_answer curve_platform (cold_start sample_device) = Some idA
    \<and> local_answer (other_runtime curve_platform (\<lambda>_. False) True True) (cold_start sample_device) = Some idB
    \<and> run_handshake curve_noise sample_draws sample_draws (new_handshake curve_noise InitiatorRole idA)
        (new_handshake curve_noise ResponderRole idB) [] [] [] = Inr (i, r, [[], [], []])
    \<and> peerStaticPublicKey r = Some (ed_public curve_platform (replicate 32 1))"
  using stored_identities_shake_hands [OF curve_laws(1,3) curve_laws(4) sample_ready] by blast

theorem adapter_outlives_identity_witness:
  "let m = \<lparr>ml_world = fst (clearDeviceIdentity sample_device), localIdentityProvider = Some
        \<lparr>lp_pubkeyBytes = replicate 32 3, lp_seed = None, lp_x25519Pub = replicate 32 4\<rparr>\<rparr> in
    map_option id_x25519 (local_answer sample_platform m) = Some (replicate 32 4)
    \<and> (\<exists>s. snd (lp_dhX25519 sample_platform (replicate 32 5) m) = Inr (x_shared sample_platform s (replicate 32 5)))"
proof -
  let ?m = "\<lparr>ml_world = sample_device, localIdentityProvider = Some
        \<lparr>lp_pubkeyBytes = replicate 32 3, lp_seed = None, lp_x25519Pub = replicate 32 4\<rparr>\<rparr>"
  have c: "w_clone (fst (clearDeviceIdentity sample_device)) = None"
    by (simp add: clearDeviceIdentity_def forget_memory_def forget_storage_def clearRoomHostSeed_def io_basic quiet_simps
        sample_device_stored)
  have "clearDeviceIdentity (ml_world ?m) = (fst (clearDeviceIdentity sample_device), snd (clearDeviceIdentity sample_device))"
    by simp
  from adapter_outlives_identity [OF _ sample_platform_laws _ this, of _ "replicate 32 5"] c sample_device_stored(2)
  show ?thesis by (auto simp: Let_def sample_platform_def)
qed

theorem claimed_key_unproven_witness:
  "\<exists>i r. run_handshake sample_noise sample_draws sample_draws
      (new_handshake sample_noise InitiatorRole \<lparr>id_ed25519 = replicate 32 7, id_x25519 = x25519_pub sample_noise [1],
         id_dh = x25519_dh sample_noise [1]\<rparr>)
      (new_handshake sample_noise ResponderRole (sample_identity 2)) [] [] [] = Inr (i, r, [[], [], []])
    \<and> peerStaticPublicKey r = Some (replicate 32 7)"
  using claimed_key_unproven [OF sample_noise_laws sample_identity_of [of 2], of "replicate 32 7"] by fastforce

theorem no_noise_key_no_mesh_witness:
  "let P = sample_platform\<lparr>exports_raw_private := False\<rparr>;
       W = Transport.w_identity_update (\<lambda>_. local_answer P (fst (getLocalIdentity P (cold_start sample_device)))) sample_world in
    handed (run_mesh W [at_time_one (Start [1] True None), at_time_one (Connection ''a'' True),
      at_time_one (Chunk ''a'' [0xc8, 0, 1, 1, 5]), at_time_one (Resume 0 True None)] (new_transport sample_env)) = []"
proof -
  let ?P = "sample_platform\<lparr>exports_raw_private := False\<rparr>"
  have "keyless_device ?P (replicate 32 9) (replicate 32 1) sample_device"
    using sample_platform_laws sample_device_stored
    by (simp add: keyless_device_def stored_identity_def has_kek_def stored_rows_def platform_laws_def)
      (simp add: sample_device_def fresh_world_def sample_platform_def names_simps)
  from no_noise_key_no_mesh [OF this, where n = 1 and W = "Transport.w_identity_update
      (\<lambda>_. local_answer ?P (fst (getLocalIdentity ?P (cold_start sample_device)))) sample_world"
      and xs = "[at_time_one (Start [1] True None), at_time_one (Connection ''a'' True),
        at_time_one (Chunk ''a'' [0xc8, 0, 1, 1, 5]), at_time_one (Resume 0 True None)]" and env = sample_env]
  show ?thesis by (simp add: Let_def)
qed

end
