(* ===== verification/Drainer.thy ===== *)
theory Drainer
  imports Outbox
begin

text \<open>
  The drainers of \<open>outbox-drainer.ts\<close> as they run: every \<open>startOutboxDrainer\<close> registers a
  listener with an in-flight flag of its own, every \<open>online\<close> event reaches all of them, and a
  drain loop is suspended at each \<open>await\<close>, where other loops and other users of the outbox may
  go on. \<open>Outbox\<close> has the loop as one call; here it is cut into turns, and a loop that is left
  alone is shown to do what that call does.
\<close>

section \<open>Turns\<close>

text \<open>Where a loop stands, with its \<open>drained\<close>: before \<open>nextPending\<close>, \<open>bridgeSend\<close> or the mark.\<close>

datatype loop_pc =
    AtTop nat
  | Replying nat outbox_entry
  | Marking nat outbox_entry bool

record turn_effect =
  te_next :: "loop_pc option"
  te_outbox :: "outbox_entry mailbox"
  te_sent :: "outbox_entry list"
  te_threw :: bool

text \<open>One turn: up to the next \<open>await\<close> and its answer. \<open>None\<close>: the loop has ended.\<close>

definition turn :: "(outbox_entry \<Rightarrow> send_reply) \<Rightarrow> int \<Rightarrow> loop_pc \<Rightarrow> outbox_entry mailbox \<Rightarrow> turn_effect" where
  "turn reply now pc mb = (case pc of
      AtTop n \<Rightarrow>
        if n < MAX_DRAIN_PER_CYCLE then
          (case nextPending mb of
             Inl e \<Rightarrow> \<lparr>te_next = None, te_outbox = mb, te_sent = [], te_threw = True\<rparr>
           | Inr None \<Rightarrow> \<lparr>te_next = None, te_outbox = mb, te_sent = [], te_threw = False\<rparr>
           | Inr (Some e) \<Rightarrow> \<lparr>te_next = Some (Replying n e), te_outbox = mb, te_sent = [e], te_threw = False\<rparr>)
        else \<lparr>te_next = None, te_outbox = mb, te_sent = [], te_threw = False\<rparr>
    | Replying n e \<Rightarrow>
        (case reply e of
           ReplyOk \<Rightarrow> \<lparr>te_next = Some (Marking n e True), te_outbox = mb, te_sent = [], te_threw = False\<rparr>
         | ReplyFailed \<Rightarrow> \<lparr>te_next = Some (Marking n e False), te_outbox = mb, te_sent = [], te_threw = False\<rparr>
         | ReplyThrows \<Rightarrow> \<lparr>te_next = None, te_outbox = mb, te_sent = [], te_threw = True\<rparr>)
    | Marking n e ok \<Rightarrow>
        (case (if ok then markSent (ob_msgId e) mb else markFailed now (ob_msgId e) mb) of
           (mb', Inl x) \<Rightarrow> \<lparr>te_next = None, te_outbox = mb', te_sent = [], te_threw = True\<rparr>
         | (mb', Inr u) \<Rightarrow> \<lparr>te_next = (if ok then Some (AtTop (Suc n)) else None), te_outbox = mb',
             te_sent = [], te_threw = False\<rparr>))"

section \<open>Drainers\<close>

record drainer =
  dr_listening :: bool
  draining :: bool
  dr_loops :: "loop_pc list"

record drain_sys =
  ds_outbox :: "outbox_entry mailbox"
  ds_drainers :: "drainer list"
  ds_requests :: "(nat \<times> outbox_entry) list"
  ds_errors :: nat

definition startOutboxDrainer :: "bool \<Rightarrow> drain_sys \<Rightarrow> drain_sys" where
  "startOutboxDrainer has_window s =
     (if \<not> has_window then s
      else s\<lparr>ds_drainers := ds_drainers s @ [\<lparr>dr_listening = True, draining = False, dr_loops = []\<rparr>]\<rparr>)"

definition dispose_drainer :: "nat \<Rightarrow> drain_sys \<Rightarrow> drain_sys" where
  "dispose_drainer i s = s\<lparr>ds_drainers := (ds_drainers s)[i := (ds_drainers s ! i)\<lparr>dr_listening := False\<rparr>]\<rparr>"

text \<open>The head of \<open>drain\<close>.\<close>

definition enter_drain :: "drainer \<Rightarrow> drainer" where
  "enter_drain d = (if draining d then d else d\<lparr>draining := True, dr_loops := dr_loops d @ [AtTop 0]\<rparr>)"

definition online_event :: "drain_sys \<Rightarrow> drain_sys" where
  "online_event s = s\<lparr>ds_drainers := map (\<lambda>d. if dr_listening d then enter_drain d else d) (ds_drainers s)\<rparr>"

definition drop_at :: "nat \<Rightarrow> 'a list \<Rightarrow> 'a list" where
  "drop_at j xs = take j xs @ drop (Suc j) xs"

text \<open>The \<open>j\<close>-th suspended loop of drainer \<open>i\<close> goes on; the \<open>finally\<close> block clears the flag.\<close>

definition drain_turn :: "(outbox_entry \<Rightarrow> send_reply) \<Rightarrow> int \<Rightarrow> nat \<Rightarrow> nat \<Rightarrow> drain_sys \<Rightarrow> drain_sys" where
  "drain_turn reply now i j s =
     (let d = ds_drainers s ! i; e = turn reply now (dr_loops d ! j) (ds_outbox s) in
      s\<lparr>ds_outbox := te_outbox e,
        ds_drainers := (ds_drainers s)[i := (case te_next e of
            None \<Rightarrow> d\<lparr>draining := False, dr_loops := drop_at j (dr_loops d)\<rparr>
          | Some pc \<Rightarrow> d\<lparr>dr_loops := (dr_loops d)[j := pc]\<rparr>)],
        ds_requests := ds_requests s @ map (Pair i) (te_sent e),
        ds_errors := ds_errors s + (if te_threw e then 1 else 0)\<rparr>)"

inductive drain_step :: "drain_sys \<Rightarrow> drain_sys \<Rightarrow> bool" where
  start: "drain_step s (startOutboxDrainer w s)"
| dispose: "i < length (ds_drainers s) \<Longrightarrow> drain_step s (dispose_drainer i s)"
| online: "drain_step s (online_event s)"
| turn: "i < length (ds_drainers s) \<Longrightarrow> j < length (dr_loops (ds_drainers s ! i)) \<Longrightarrow>
    drain_step s (drain_turn reply now i j s)"
| store: "outbox_step (ds_outbox s) mb \<Longrightarrow> drain_step s (s\<lparr>ds_outbox := mb\<rparr>)"

inductive_cases drain_stepE: "drain_step s s'"

definition drain_init :: "outbox_entry mailbox \<Rightarrow> drain_sys" where
  "drain_init mb = \<lparr>ds_outbox = mb, ds_drainers = [], ds_requests = [], ds_errors = 0\<rparr>"

section \<open>One loop per drainer\<close>

definition serial :: "drainer \<Rightarrow> bool" where
  "serial d \<longleftrightarrow> length (dr_loops d) \<le> 1 \<and> draining d = (dr_loops d \<noteq> [])"

lemma serial_enter: "serial d \<Longrightarrow> serial (enter_drain d)"
  by (auto simp: serial_def enter_drain_def)

lemma serial_turn: "list_all serial (ds_drainers s) \<Longrightarrow> i < length (ds_drainers s) \<Longrightarrow>
    j < length (dr_loops (ds_drainers s ! i)) \<Longrightarrow> list_all serial (ds_drainers (drain_turn reply now i j s))"
  by (auto simp: drain_turn_def Let_def list_all_length nth_list_update serial_def drop_at_def split: option.splits)

lemma drain_step_serial:
  assumes "drain_step s s'" and "list_all serial (ds_drainers s)"
  shows "list_all serial (ds_drainers s')"
  using assms
proof cases
  case (dispose i)
  then show ?thesis using assms(2)
    by (auto simp: dispose_drainer_def list_all_length nth_list_update serial_def)
next
  case online
  then show ?thesis using assms(2) by (auto simp: online_event_def list_all_iff intro!: serial_enter)
next
  case (turn i j reply now)
  then show ?thesis using serial_turn assms(2) by simp
qed (use assms(2) in \<open>auto simp: startOutboxDrainer_def serial_def\<close>)

text \<open>Note: The in-flight guard works: in every state reachable by starting and disposing drainers, \<open>online\<close>
  events, turns of the loops in any order and any use of the outbox in between, each drainer has
  at most one loop, so at most one request in flight, and its flag is set exactly while it has one.\<close>

theorem drainer_never_doubles:
  assumes "drain_step\<^sup>*\<^sup>* (drain_init mb) s" and "d \<in> set (ds_drainers s)"
  shows "length (dr_loops d) \<le> 1 \<and> draining d = (dr_loops d \<noteq> [])"
proof -
  from assms(1) have "list_all serial (ds_drainers s)"
    by (induction rule: rtranclp_induct) (auto simp: drain_init_def dest: drain_step_serial)
  then show ?thesis using assms(2) by (auto simp: list_all_iff serial_def)
qed


theorem drainer_never_doubles_witness:
  "draining (ds_drainers (online_event (online_event (startOutboxDrainer True (drain_init (mb_new 3 []))))) ! 0)"
proof -
  let ?s1 = "startOutboxDrainer True (drain_init (mb_new 3 []))"
  let ?s = "online_event (online_event ?s1)"
  have "drain_step\<^sup>*\<^sup>* (drain_init (mb_new 3 [])) ?s"
    by (rule rtranclp_trans [OF _ rtranclp_trans]) (rule r_into_rtranclp, rule drain_step.intros)+
  from drainer_never_doubles [OF this, of "ds_drainers ?s ! 0"] show ?thesis
    by (simp add: startOutboxDrainer_def drain_init_def online_event_def enter_drain_def)
qed

section \<open>A loop left alone\<close>

fun run_loop :: "(outbox_entry \<Rightarrow> send_reply) \<Rightarrow> int \<Rightarrow> nat \<Rightarrow> loop_pc \<Rightarrow> outbox_entry mailbox
    \<Rightarrow> (outbox_entry mailbox \<times> outbox_entry list \<times> bool) option" where
  "run_loop reply now 0 pc mb = None"
| "run_loop reply now (Suc k) pc mb =
     (let e = turn reply now pc mb in
      case te_next e of
        None \<Rightarrow> Some (te_outbox e, te_sent e, te_threw e)
      | Some pc' \<Rightarrow> map_option (\<lambda>(mb', sent, err). (mb', te_sent e @ sent, err))
                        (run_loop reply now k pc' (te_outbox e)))"

lemma loop_refines: "d + n = MAX_DRAIN_PER_CYCLE \<Longrightarrow> 3 * n < k \<Longrightarrow>
    run_loop reply now k (AtTop d) mb = Some (drain_loop reply now n mb)"
proof (induction n arbitrary: d k mb)
  case 0
  then show ?case by (cases k) (simp_all add: turn_def)
next
  case (Suc n)
  define k' where "k' = k - 3"
  then have k: "k = Suc (Suc (Suc k'))" "3 * n < k'" using Suc.prems(2) by auto
  have d: "d < MAX_DRAIN_PER_CYCLE" using Suc.prems(1) by simp
  show ?case
    using Suc.IH [of "Suc d" k'] Suc.prems(1) k d
    by (auto simp: turn_def Let_def split: sum.splits option.splits send_reply.splits prod.splits)
qed

text \<open>A drain loop that nothing interferes with, left alone, is the atomic drain cycle of \<open>Outbox\<close>: the two
  transcriptions of the loop agree.\<close>

lemma loop_refines_drain:
  "run_loop reply now 151 (AtTop 0) mb = Some (drain reply now False mb)"
  by (simp add: drain_def loop_refines [of 0 MAX_DRAIN_PER_CYCLE] MAX_DRAIN_PER_CYCLE_def del: run_loop.simps)

section \<open>Two drainers\<close>

text \<open>Note: The guard is per drainer: with two drainers on one outbox, every \<open>online\<close> event that finds a pending
  message sends that message twice.\<close>

definition two_drainers :: "outbox_entry mailbox \<Rightarrow> drain_sys" where
  "two_drainers mb = startOutboxDrainer True (startOutboxDrainer True (drain_init mb))"

theorem two_drainers_send_twice:
  assumes "nextPending mb = Inr (Some e)"
  shows "ds_requests (drain_turn reply now 1 0 (drain_turn reply now 0 0 (online_event (two_drainers mb))))
    = [(0, e), (1, e)]"
  using assms
  by (simp add: two_drainers_def startOutboxDrainer_def drain_init_def online_event_def enter_drain_def drain_turn_def
      turn_def Let_def MAX_DRAIN_PER_CYCLE_def)

definition one_pending :: "outbox_entry mailbox" where
  "one_pending = fst (enqueue \<lparr>ea_msgId = ''m'', ea_channelId = [], ea_bundle = [1], ea_lastAttemptMs = None\<rparr>
     (mb_do_open (mb_new 3 [])))"

theorem two_drainers_send_twice_witness:
  "map fst (ds_requests (drain_turn (\<lambda>e. ReplyOk) 7 1 0 (drain_turn (\<lambda>e. ReplyOk) 7 0 0
     (online_event (two_drainers one_pending))))) = [0, 1]"
proof -
  have "\<exists>e. nextPending one_pending = Inr (Some e)"
    by (simp add: one_pending_def nextPending_def enqueue_def on_store_def mb_do_open_def mb_new_def put_tx_def
        new_entry_def with_status_def)
  then obtain e where "nextPending one_pending = Inr (Some e)" ..
  from two_drainers_send_twice [OF this, of "\<lambda>e. ReplyOk" 7] show ?thesis by simp
qed

end
