(* ===== verification/Store_Forward.thy ===== *)
theory Store_Forward
  imports Drainer Router
begin

text \<open>
  Store and forward: what becomes of the queued messages over several \<open>online\<close> events. The server's
  verdict on a message is fixed by its id; each event is a drain cycle of \<open>Outbox\<close>, which \<open>Drainer\<close>
  shows to be what the suspended loop does when nothing interferes.
\<close>

section \<open>Cycles\<close>

definition verdict_reply :: "(string \<Rightarrow> bool) \<Rightarrow> outbox_entry \<Rightarrow> send_reply" where
  "verdict_reply accept e = (if accept (ob_msgId e) then ReplyOk else ReplyFailed)"

fun drain_cycles :: "(string \<Rightarrow> bool) \<Rightarrow> int list \<Rightarrow> outbox_entry mailbox \<Rightarrow> outbox_entry mailbox \<times> outbox_entry list" where
  "drain_cycles accept [] mb = (mb, [])"
| "drain_cycles accept (now # nows) mb =
     (case drain (verdict_reply accept) now False mb of
        (mb1, tried, err) \<Rightarrow> (case drain_cycles accept nows mb1 of (mb2, later) \<Rightarrow> (mb2, tried @ later)))"

text \<open>The requests an entry still takes: one if it will be accepted, else those up to the eighth failure.\<close>

definition requests_due :: "(string \<Rightarrow> bool) \<Rightarrow> outbox_entry \<Rightarrow> nat" where
  "requests_due accept e =
     (if status e \<noteq> send_status.Pending then 0 else if accept (ob_msgId e) then 1 else MAX_OUTBOX_ATTEMPTS - outbox_entry.attempts e)"

definition deliverable :: "(string \<Rightarrow> bool) \<Rightarrow> outbox_entry list \<Rightarrow> nat" where
  "deliverable accept s = (\<Sum>e\<leftarrow>s. if accept (ob_msgId e) then requests_due accept e else 0)"

definition refusals_due :: "(string \<Rightarrow> bool) \<Rightarrow> outbox_entry list \<Rightarrow> nat" where
  "refusals_due accept s = (\<Sum>e\<leftarrow>s. if accept (ob_msgId e) then 0 else requests_due accept e)"

text \<open>A cycle ends at a refusal or has fifty deliveries, so this many cycles are enough.\<close>

definition cycles_due :: "(string \<Rightarrow> bool) \<Rightarrow> outbox_entry list \<Rightarrow> nat" where
  "cycles_due accept s = refusals_due accept s + ceil_div (deliverable accept s) MAX_DRAIN_PER_CYCLE"

section \<open>One cycle\<close>

text \<open>An open outbox as every operation leaves it.\<close>

definition in_use :: "outbox_entry mailbox \<Rightarrow> bool" where
  "in_use mb \<longleftrightarrow> os_wf ob_msgId (mb_store mb) \<and> mb_open mb \<and> (\<forall>e \<in> set (mb_store mb). entry_ok e)"

lemma sum_os_put:
  assumes "os_wf key s" "x \<in> set s" "key x = key v"
  shows "(\<Sum>y\<leftarrow>os_put key v s. w y) + w x = (\<Sum>y\<leftarrow>s. w y) + (w v :: nat)"
  using assms(1,2)
proof (induction s)
  case (Cons y s)
  then have s: "os_wf key s" "\<forall>z \<in> set s. key y < key z" by (auto simp: os_wf_def)
  show ?case
  proof (cases "x = y")
    case True
    then show ?thesis using assms(3) by simp
  next
    case False
    then have "x \<in> set s" "key y < key v" using Cons.prems(2) s(2) assms(3) by auto
    then show ?thesis using Cons.IH [OF s(1)] by simp
  qed
qed simp

lemma in_use_put:
  assumes "in_use mb" "entry_ok v"
  shows "in_use (mb\<lparr>mb_store := os_put ob_msgId v (mb_store mb)\<rparr>)"
  using assms by (auto simp: in_use_def set_os_put)

lemma pending_head:
  assumes "in_use mb" "with_status send_status.Pending (mb_store mb) = e # es"
  shows "e \<in> set (mb_store mb)" "status e = send_status.Pending" "outbox_entry.attempts e < 8"
    "os_get ob_msgId (ob_msgId e) (mb_store mb) = Some e" "nextPending mb = Inr (Some e)"
proof -
  show e: "e \<in> set (mb_store mb)" "status e = send_status.Pending" using assms(2) by (auto simp: with_status_def filter_eq_Cons_iff)
  then show "outbox_entry.attempts e < 8" using assms(1) by (auto simp: in_use_def entry_ok_def)
  show "os_get ob_msgId (ob_msgId e) (mb_store mb) = Some e" using e assms(1) by (simp add: os_get_Some in_use_def)
  show "nextPending mb = Inr (Some e)" using assms by (simp add: nextPending_def in_use_def)
qed

lemma due_after_failure:
  assumes "status e = send_status.Pending" "outbox_entry.attempts e < 8" "\<not> accept (ob_msgId e)"
  shows "Suc (requests_due accept (fail_entry now e)) = requests_due accept e"
  using assms by (auto simp: requests_due_def fail_entry_def Let_def MAX_OUTBOX_ATTEMPTS_def)

lemma drain_loop_progress:
  assumes "in_use mb" "drain_loop (verdict_reply accept) now n mb = (mb', tried, err)"
  shows "in_use mb' \<and>
    (refusals_due accept (mb_store mb') = refusals_due accept (mb_store mb)
       \<and> deliverable accept (mb_store mb') = deliverable accept (mb_store mb) - n
       \<and> (n \<le> deliverable accept (mb_store mb) \<or> refusals_due accept (mb_store mb) = 0)
     \<or> Suc (refusals_due accept (mb_store mb')) = refusals_due accept (mb_store mb)
       \<and> deliverable accept (mb_store mb') \<le> deliverable accept (mb_store mb))"
  using assms
proof (induction n arbitrary: mb mb' tried err)
  case (Suc n)
  let ?s = "mb_store mb"
  show ?case
  proof (cases "with_status send_status.Pending ?s")
    case Nil
    then have "\<forall>e \<in> set ?s. status e \<noteq> send_status.Pending" by (auto simp: with_status_def filter_empty_conv)
    then have "deliverable accept ?s = 0" "refusals_due accept ?s = 0"
      by (auto simp: deliverable_def refusals_due_def requests_due_def sum_list_eq_0_iff)
    moreover have "mb' = mb" using Suc.prems Nil by (simp add: nextPending_def in_use_def)
    ultimately show ?thesis using Suc.prems(1) by simp
  next
    case (Cons e es)
    note h = pending_head [OF Suc.prems(1) Cons]
    have wf: "os_wf ob_msgId ?s" "mb_open mb" using Suc.prems(1) by (simp_all add: in_use_def)
    note sum = sum_os_put [OF wf(1) h(1)]
    show ?thesis
    proof (cases "accept (ob_msgId e)")
      case False
      let ?e = "fail_entry now e"
      have mb': "mb' = mb\<lparr>mb_store := os_put ob_msgId ?e ?s\<rparr>"
        using Suc.prems(2) h(5) False update_open [OF h(4) wf(2)] by (simp add: verdict_reply_def markFailed_def)
      have "Suc (requests_due accept ?e) = requests_due accept e"
        using due_after_failure [where accept = accept, OF h(2,3) False] by simp
      then have "Suc (refusals_due accept (os_put ob_msgId ?e ?s)) = refusals_due accept ?s"
        "deliverable accept (os_put ob_msgId ?e ?s) = deliverable accept ?s"
        using False sum [of ?e "\<lambda>e. if accept (ob_msgId e) then 0 else requests_due accept e"]
          sum [of ?e "\<lambda>e. if accept (ob_msgId e) then requests_due accept e else 0"]
        by (simp_all add: refusals_due_def deliverable_def fail_entry_key)
      then show ?thesis using in_use_put [OF Suc.prems(1) entry_ok_fail, of now e] by (simp add: mb')
    next
      case True
      let ?e = "e\<lparr>status := Sent\<rparr>"
      let ?mb = "mb\<lparr>mb_store := os_put ob_msgId ?e ?s\<rparr>"
      obtain tried' where d: "drain_loop (verdict_reply accept) now n ?mb = (mb', tried', err)"
        using Suc.prems(2) h(5) True update_open [OF h(4) wf(2)] verdict_reply_def [of accept e]
        by (auto simp: markSent_def split: prod.splits)
      have "in_use ?mb" using in_use_put [OF Suc.prems(1), of ?e] by (simp add: entry_ok_def)
      note ih = Suc.IH [OF this d]
      have "refusals_due accept (os_put ob_msgId ?e ?s) = refusals_due accept ?s"
        "Suc (deliverable accept (os_put ob_msgId ?e ?s)) = deliverable accept ?s"
        using True h(2) sum [of ?e "\<lambda>e. if accept (ob_msgId e) then 0 else requests_due accept e"]
          sum [of ?e "\<lambda>e. if accept (ob_msgId e) then requests_due accept e else 0"]
        by (simp_all add: refusals_due_def deliverable_def requests_due_def)
      then show ?thesis using ih by auto
    qed
  qed
qed simp

text \<open>What one cycle, and then any number of them, makes of an entry.\<close>

definition evolves :: "(string \<Rightarrow> bool) \<Rightarrow> outbox_entry \<Rightarrow> outbox_entry \<Rightarrow> bool" where
  "evolves accept e e' \<longleftrightarrow> ob_msgId e' = ob_msgId e \<and> ob_bundle e' = ob_bundle e \<and> ob_channelId e' = ob_channelId e
     \<and> (if status e = send_status.Pending then status e' = send_status.Pending \<or> status e' = (if accept (ob_msgId e) then Sent else Failed)
        else e' = e)"

lemma evolves_trans: "evolves accept e e' \<Longrightarrow> evolves accept e' e'' \<Longrightarrow> evolves accept e e''"
  by (auto simp: evolves_def split: if_splits)

lemma upto_failure_subset: "set (upto_failure reply es) \<subseteq> set es"
  by (induction es) auto

lemma cycle_entry:
  assumes "in_use mb" "drain (verdict_reply accept) now False mb = (mb', tried, err)" "e \<in> set (mb_store mb)"
  shows "\<exists>e'. os_get ob_msgId (ob_msgId e) (mb_store mb') = Some e' \<and> evolves accept e e'
    \<and> requests_due accept e = requests_due accept e' + length (filter (\<lambda>x. ob_msgId x = ob_msgId e) tried)
    \<and> (\<forall>x \<in> set tried. ob_msgId x = ob_msgId e \<longrightarrow> ob_bundle x = ob_bundle e)"
proof -
  let ?r = "verdict_reply accept" and ?s = "mb_store mb"
  have wf: "os_wf ob_msgId ?s" "mb_open mb" using assms(1) by (simp_all add: in_use_def)
  have x: "tried = take 50 (upto_failure ?r (with_status send_status.Pending ?s))"
    "os_get ob_msgId k (mb_store mb') = (case os_get ob_msgId k ?s of
       None \<Rightarrow> None | Some e \<Rightarrow> Some (if e \<in> set tried then after_try ?r now e else e))" for k
    using drain_loop_exact [OF wf, of ?r now 50 mb' tried err] assms(2) by (simp_all add: drain_def MAX_DRAIN_PER_CYCLE_def)
  have get: "os_get ob_msgId (ob_msgId e) ?s = Some e" using assms(3) wf(1) by (simp add: os_get_Some)
  have sub: "set tried \<subseteq> set (with_status send_status.Pending ?s)"
    using set_take_subset [of 50 "upto_failure ?r (with_status send_status.Pending ?s)"] upto_failure_subset x(1) by blast
  have pre: "\<exists>m. upto_failure ?r es = take m es" for es
  proof (induction es)
    case (Cons a es)
    then obtain m where "upto_failure ?r es = take m es" by blast
    then show ?case by (cases "?r a = ReplyOk") (auto intro: exI [of _ "Suc m"] exI [of _ 1])
  qed simp
  have "distinct (map ob_msgId (with_status send_status.Pending ?s))"
    unfolding with_status_def by (rule os_wf_distinct [OF os_wf_filter [OF wf(1)]])
  then have "distinct (map ob_msgId tried)"
    using pre [of "with_status send_status.Pending ?s"] x(1) by (metis distinct_take take_map)
  then have one: "length (filter (\<lambda>x. ob_msgId x = k) tried) = (if k \<in> ob_msgId ` set tried then 1 else 0)" for k
    by (induction tried) auto
  have same: "\<forall>x \<in> set tried. ob_msgId x = ob_msgId e \<longrightarrow> ob_bundle x = ob_bundle e"
    using sub assms(3) os_wf_distinct [OF wf(1)] by (auto simp: with_status_def distinct_map inj_on_def)
  have mem: "ob_msgId e \<in> ob_msgId ` set tried \<longleftrightarrow> e \<in> set tried"
    using sub assms(3) os_wf_distinct [OF wf(1)] by (auto simp: with_status_def distinct_map inj_on_def)
  show ?thesis
  proof (cases "e \<in> set tried")
    case True
    then have p: "status e = send_status.Pending" using sub by (auto simp: with_status_def)
    have att: "outbox_entry.attempts e < 8" using assms(1,3) p by (auto simp: in_use_def entry_ok_def)
    define e' where "e' = (if accept (ob_msgId e) then e\<lparr>status := Sent\<rparr> else fail_entry now e)"
    have "os_get ob_msgId (ob_msgId e) (mb_store mb') = Some e'"
      using True by (simp add: x(2) get after_try_def verdict_reply_def [of accept e] e'_def)
    moreover have "evolves accept e e'" using p by (simp add: evolves_def e'_def fail_entry_def Let_def)
    moreover have "requests_due accept e = Suc (requests_due accept e')"
    proof (cases "accept (ob_msgId e)")
      case True
      then have "e' = e\<lparr>status := Sent\<rparr>" by (simp add: e'_def)
      then show ?thesis using p True by (simp add: requests_due_def)
    next
      case False
      then show ?thesis using due_after_failure [where accept = accept, OF p att False] by (simp add: e'_def)
    qed
    moreover have "length (filter (\<lambda>x. ob_msgId x = ob_msgId e) tried) = 1"
      unfolding one [of "ob_msgId e"] using True mem by (simp only: if_True)
    ultimately show ?thesis using same by (intro exI [of _ e']) (simp only: simp_thms Suc_eq_plus1)
  next
    case False
    then show ?thesis using one [of "ob_msgId e"] mem
      by (simp add: x(2) get evolves_def) (rule same)
  qed
qed

lemma cycles_entry:
  "in_use mb \<Longrightarrow> e \<in> set (mb_store mb) \<Longrightarrow> drain_cycles accept nows mb = (mb', tried) \<Longrightarrow>
    in_use mb' \<and> (\<exists>e'. os_get ob_msgId (ob_msgId e) (mb_store mb') = Some e' \<and> evolves accept e e'
      \<and> requests_due accept e = requests_due accept e' + length (filter (\<lambda>x. ob_msgId x = ob_msgId e) tried)
      \<and> (\<forall>x \<in> set tried. ob_msgId x = ob_msgId e \<longrightarrow> ob_bundle x = ob_bundle e))"
proof (induction nows arbitrary: mb e tried)
  case Nil
  then show ?case by (auto simp: os_get_Some in_use_def evolves_def)
next
  case (Cons now nows)
  obtain mb1 t1 err where d: "drain (verdict_reply accept) now False mb = (mb1, t1, err)" by (metis prod.exhaust)
  obtain t2 where c: "drain_cycles accept nows mb1 = (mb', t2)" "tried = t1 @ t2"
    using Cons.prems(3) d by (auto split: prod.splits)
  have u: "in_use mb1" using drain_loop_progress [OF Cons.prems(1)] d by (simp add: drain_def)
  obtain e1 where e1: "os_get ob_msgId (ob_msgId e) (mb_store mb1) = Some e1" "evolves accept e e1"
    "requests_due accept e = requests_due accept e1 + length (filter (\<lambda>x. ob_msgId x = ob_msgId e) t1)"
    "\<forall>x \<in> set t1. ob_msgId x = ob_msgId e \<longrightarrow> ob_bundle x = ob_bundle e"
    using cycle_entry [OF Cons.prems(1) d Cons.prems(2)] by blast
  have k: "e1 \<in> set (mb_store mb1)" "ob_msgId e1 = ob_msgId e" using os_get_key [OF e1(1)] by simp_all
  have b: "ob_bundle e1 = ob_bundle e" using e1(2) by (simp add: evolves_def)
  obtain e' where "in_use mb'" "os_get ob_msgId (ob_msgId e) (mb_store mb') = Some e'" "evolves accept e1 e'"
    "requests_due accept e1 = requests_due accept e' + length (filter (\<lambda>x. ob_msgId x = ob_msgId e) t2)"
    "\<forall>x \<in> set t2. ob_msgId x = ob_msgId e \<longrightarrow> ob_bundle x = ob_bundle e"
    using Cons.IH [OF u k(1) c(1)] unfolding k(2) b by blast
  then show ?case using e1 c(2) evolves_trans [OF e1(2)] by auto
qed

text \<open>After enough cycles nothing is pending.\<close>

lemma ceil_div_step: "0 < b \<Longrightarrow> 0 < a \<Longrightarrow> Suc (ceil_div (a - b) b) \<le> ceil_div a b"
  by (cases "a \<le> b") (auto simp: ceil_div_def div_if le_div_geq Suc_diff_le not_le)

lemma ceil_div_mono: "a \<le> c \<Longrightarrow> ceil_div a b \<le> ceil_div c b"
  by (simp add: ceil_div_def div_le_mono)

lemma drain_progress:
  assumes "in_use mb" "drain (verdict_reply accept) now False mb = (mb', tried, err)"
  shows "in_use mb' \<and> cycles_due accept (mb_store mb') \<le> cycles_due accept (mb_store mb) - 1"
proof -
  note p = drain_loop_progress [OF assms(1), of accept now MAX_DRAIN_PER_CYCLE mb' tried err]
  have d: "drain_loop (verdict_reply accept) now MAX_DRAIN_PER_CYCLE mb = (mb', tried, err)" using assms(2) by (simp add: drain_def)
  let ?R = "refusals_due accept (mb_store mb)" and ?A = "deliverable accept (mb_store mb)"
  show ?thesis
  proof (cases "?A = 0 \<and> ?R = 0")
    case True
    then show ?thesis using p [OF d] by (auto simp: cycles_due_def ceil_div_def MAX_DRAIN_PER_CYCLE_def)
  next
    case False
    have fifty: "0 < MAX_DRAIN_PER_CYCLE" by (simp add: MAX_DRAIN_PER_CYCLE_def)
    consider
      (full) "refusals_due accept (mb_store mb') = ?R" "deliverable accept (mb_store mb') = ?A - MAX_DRAIN_PER_CYCLE"
        "MAX_DRAIN_PER_CYCLE \<le> ?A \<or> ?R = 0"
    | (refused) "Suc (refusals_due accept (mb_store mb')) = ?R" "deliverable accept (mb_store mb') \<le> ?A"
      using p [OF d] by (elim conjE disjE) simp_all
    then show ?thesis
    proof cases
      case full
      then have "0 < ?A" using False fifty by auto
      then show ?thesis using full ceil_div_step [OF fifty, of ?A] p [OF d] by (simp add: cycles_due_def)
    next
      case refused
      then show ?thesis using ceil_div_mono [OF refused(2), of MAX_DRAIN_PER_CYCLE] p [OF d] by (simp add: cycles_due_def)
    qed
  qed
qed

lemma cycles_progress:
  "in_use mb \<Longrightarrow> drain_cycles accept nows mb = (mb', tried) \<Longrightarrow>
    cycles_due accept (mb_store mb') \<le> cycles_due accept (mb_store mb) - length nows"
proof (induction nows arbitrary: mb tried)
  case (Cons now nows)
  obtain mb1 t1 err where d: "drain (verdict_reply accept) now False mb = (mb1, t1, err)" by (metis prod.exhaust)
  obtain t2 where c: "drain_cycles accept nows mb1 = (mb', t2)" using Cons.prems(2) d by (auto split: prod.splits)
  show ?case using drain_progress [OF Cons.prems(1) d] Cons.IH [OF _ c] by fastforce
qed simp

lemma nothing_due:
  assumes "in_use mb" "cycles_due accept (mb_store mb) = 0" "e \<in> set (mb_store mb)"
  shows "status e \<noteq> send_status.Pending"
proof
  assume p: "status e = send_status.Pending"
  have "outbox_entry.attempts e < 8" using assms(1,3) p by (auto simp: in_use_def entry_ok_def)
  then have w: "0 < requests_due accept e" using p by (simp add: requests_due_def MAX_OUTBOX_ATTEMPTS_def)
  have "(\<Sum>e\<leftarrow>mb_store mb. if accept (ob_msgId e) then requests_due accept e else 0) = 0"
    "(\<Sum>e\<leftarrow>mb_store mb. if accept (ob_msgId e) then 0 else requests_due accept e) = 0"
    using assms(2) ceil_div_covers [of MAX_DRAIN_PER_CYCLE "deliverable accept (mb_store mb)"]
    unfolding deliverable_def [symmetric] refusals_due_def [symmetric] by (simp_all add: cycles_due_def MAX_DRAIN_PER_CYCLE_def)
  moreover have "f e \<le> (\<Sum>e\<leftarrow>mb_store mb. f e)" for f :: "outbox_entry \<Rightarrow> nat"
    by (rule member_le_sum_list) (use assms(3) in auto)
  from this [of "\<lambda>e. if accept (ob_msgId e) then requests_due accept e else 0"]
    this [of "\<lambda>e. if accept (ob_msgId e) then 0 else requests_due accept e"]
  have "requests_due accept e \<le> (\<Sum>e\<leftarrow>mb_store mb. if accept (ob_msgId e) then requests_due accept e else 0)
    + (\<Sum>e\<leftarrow>mb_store mb. if accept (ob_msgId e) then 0 else requests_due accept e)" by (simp split: if_splits)
  ultimately show False using w by linarith
qed

lemma reachable_in_use: "outbox_reachable cap mb \<Longrightarrow> 0 < cap \<Longrightarrow> mb_open mb \<Longrightarrow> in_use mb"
  using outbox_reachable_inv [of cap mb] by (simp add: in_use_def outbox_inv_def mb_inv_def)

lemma queue_settles:
  assumes "in_use mb" "cycles_due accept (mb_store mb) \<le> length nows"
    and "drain_cycles accept nows mb = (mb', tried)" and "e \<in> set (mb_store mb)" "status e = send_status.Pending"
  shows "\<exists>e'. os_get ob_msgId (ob_msgId e) (mb_store mb') = Some e' \<and> ob_bundle e' = ob_bundle e
      \<and> status e' = (if accept (ob_msgId e) then Sent else Failed)"
    and "length (filter (\<lambda>x. ob_msgId x = ob_msgId e) tried) = (if accept (ob_msgId e) then 1 else 8 - outbox_entry.attempts e)"
    and "x \<in> set tried \<Longrightarrow> ob_msgId x = ob_msgId e \<Longrightarrow> ob_bundle x = ob_bundle e"
proof -
  obtain e' where u: "in_use mb'" and e': "os_get ob_msgId (ob_msgId e) (mb_store mb') = Some e'" "evolves accept e e'"
    "requests_due accept e = requests_due accept e' + length (filter (\<lambda>x. ob_msgId x = ob_msgId e) tried)"
    and b: "\<forall>x \<in> set tried. ob_msgId x = ob_msgId e \<longrightarrow> ob_bundle x = ob_bundle e"
    using cycles_entry [OF assms(1,4,3)] by blast
  have "cycles_due accept (mb_store mb') = 0" using cycles_progress [OF assms(1,3)] assms(2) by simp
  then have n: "status e' \<noteq> send_status.Pending" using nothing_due [OF u] os_get_key [OF e'(1)] by blast
  then show "\<exists>e'. os_get ob_msgId (ob_msgId e) (mb_store mb') = Some e' \<and> ob_bundle e' = ob_bundle e
      \<and> status e' = (if accept (ob_msgId e) then Sent else Failed)"
    using e'(1,2) assms(5) by (auto simp: evolves_def)
  show "length (filter (\<lambda>x. ob_msgId x = ob_msgId e) tried) = (if accept (ob_msgId e) then 1 else 8 - outbox_entry.attempts e)"
    using e'(3) n assms(5) by (simp add: requests_due_def MAX_OUTBOX_ATTEMPTS_def split: if_splits)
  show "x \<in> set tried \<Longrightarrow> ob_msgId x = ob_msgId e \<Longrightarrow> ob_bundle x = ob_bundle e" using b by blast
qed

section \<open>Properties\<close>

text \<open>C22: The queue empties: if the server's verdict depends on the message only, then after as many undisturbed
  \<open>online\<close> events as there are refusals to come, plus one for every fifty messages to be accepted, no
  message that was pending is; each that the server accepts has been requested exactly once and is
  marked sent, with its bundle as it was, and each that it refuses has been tried up to its eighth
  failure and is marked failed.\<close>

theorem queue_empties:
  assumes "outbox_reachable cap mb" and "0 < cap" and "mb_open mb"
    and "cycles_due accept (mb_store mb) \<le> length nows" and "drain_cycles accept nows mb = (mb', tried)"
    and "e \<in> set (mb_store mb)" and "status e = send_status.Pending"
  shows "(\<exists>e'. os_get ob_msgId (ob_msgId e) (mb_store mb') = Some e' \<and> ob_bundle e' = ob_bundle e
      \<and> status e' = (if accept (ob_msgId e) then Sent else Failed))
    \<and> length (filter (\<lambda>x. ob_msgId x = ob_msgId e) tried) = (if accept (ob_msgId e) then 1 else 8 - outbox_entry.attempts e)"
  using queue_settles(1,2) [OF reachable_in_use [OF assms(1-3)] assms(4-7)] by blast

text \<open>Two messages, the first of which the server refuses: eight events for it, one more for the second.\<close>

lemma queue_empties_witness:
  "status (the (os_get ob_msgId ''b'' (mb_store (fst (drain_cycles (\<lambda>k. k = ''b'') [1, 2, 3, 4, 5, 6, 7, 8, 9] (sample_outbox ''ab''))))))
    = Sent"
proof -
  let ?b = "new_entry (Outbox.sample_args CHR ''b'')"
  have o: "mb_open (sample_outbox ''ab'')"
    and s: "mb_store (sample_outbox ''ab'') = [new_entry (Outbox.sample_args CHR ''a''), ?b]"
    by (simp_all add: sample_outbox_def enqueue_def on_store_def mb_do_open_def mb_new_def put_tx_def new_entry_def Outbox.sample_args_def)
  have c: "cycles_due (\<lambda>k. k = ''b'') (mb_store (sample_outbox ''ab'')) = 9"
    by (simp add: s cycles_due_def refusals_due_def deliverable_def requests_due_def new_entry_def Outbox.sample_args_def
        ceil_div_def MAX_DRAIN_PER_CYCLE_def MAX_OUTBOX_ATTEMPTS_def)
  have b: "?b \<in> set (mb_store (sample_outbox ''ab''))" "status ?b = send_status.Pending" "ob_msgId ?b = ''b''"
    by (simp_all add: s new_entry_def Outbox.sample_args_def)
  show ?thesis
    using queue_empties [OF sample_outbox_reachable _ o _ prod.collapse [symmetric] b(1,2), of "\<lambda>k. k = ''b''" "[1, 2, 3, 4, 5, 6, 7, 8, 9]"] c b(3)
    by auto
qed

text \<open>C17: A message written offline is sent later: with no network and no peer in reach routeOutgoing queues
  the bundle, and after enough undisturbed \<open>online\<close> events the drainer has handed exactly this bundle to
  the bridge, once, and has marked it sent, if the server accepts it.\<close>

theorem offline_message_is_sent:
  assumes "\<not> an_online an" and "peers (rt_mesh r) = []" and "outbox_reachable cap (rt_outbox r)" and "0 < cap" and "mb_open (rt_outbox r)"
    and "routeOutgoing P an args cx r = (r', res)" and "accept (ra_msgId args)"
    and "cycles_due accept (mb_store (rt_outbox r')) \<le> length nows" and "drain_cycles accept nows (rt_outbox r') = (mb', tried)"
  shows "res = Inr \<lparr>rr_strategy = Queued, rr_bridge = None, rr_bleError = None\<rparr>
    \<and> map ob_bundle (filter (\<lambda>x. ob_msgId x = ra_msgId args) tried) = [ra_bundle args]
    \<and> (\<exists>e. os_get ob_msgId (ra_msgId args) (mb_store mb') = Some e \<and> ob_bundle e = ra_bundle args \<and> status e = Sent)"
proof -
  let ?a = "\<lparr>ea_msgId = ra_msgId args, ea_channelId = ra_channelId args, ea_bundle = ra_bundle args, ea_lastAttemptMs = None\<rparr>"
  let ?e = "new_entry ?a"
  have r: "rt_outbox r' = fst (enqueue ?a (rt_outbox r))" "res = Inr \<lparr>rr_strategy = Queued, rr_bridge = None, rr_bleError = None\<rparr>"
    using assms(1,2,5,6) by (auto simp: routeOutgoing_def Let_def enqueue_def on_store_open)
  have reach: "outbox_reachable cap (rt_outbox r')"
    using assms(3) outbox_step.intros(3) [of "rt_outbox r" ?a] unfolding r(1) outbox_reachable_def by (rule rtranclp.rtrancl_into_rtrancl)
  have op: "mb_open (rt_outbox r')" using assms(5) by (simp add: r(1) enqueue_def on_store_open)
  have wf: "os_wf ob_msgId (mb_store (rt_outbox r))"
    using reachable_in_use [OF assms(3-5)] by (simp add: in_use_def)
  have e: "?e \<in> set (mb_store (rt_outbox r'))" "status ?e = send_status.Pending" "ob_msgId ?e = ra_msgId args" "ob_bundle ?e = ra_bundle args"
    using assms(5) os_get_key [OF outbox.put_tx_stored [OF wf, where cap = "maxEntries (rt_outbox r)" and v = ?e]]
    by (simp_all add: r(1) enqueue_def on_store_open new_entry_def)
  have u: "in_use (rt_outbox r')" by (rule reachable_in_use [OF reach assms(4) op])
  note settled = queue_settles [OF u assms(8,9) e(1,2)]
  have "length (filter (\<lambda>x. ob_msgId x = ra_msgId args) tried) = 1" using settled(2) e(3) assms(7) by simp
  then obtain x where x: "filter (\<lambda>x. ob_msgId x = ra_msgId args) tried = [x]" by (auto simp: length_Suc_conv)
  have "x \<in> set (filter (\<lambda>x. ob_msgId x = ra_msgId args) tried)" by (simp add: x)
  then have "x \<in> set tried" "ob_msgId x = ra_msgId args" by simp_all
  then have "ob_bundle x = ra_bundle args" using settled(3) e(3,4) by simp
  then show ?thesis using settled(1) x e(3,4) r(2) assms(7) by simp
qed

definition sample_alone :: router where
  "sample_alone = \<lparr>rt_mesh = new_transport sample_env, rt_tokens = [], rt_outbox = sample_outbox []\<rparr>"

lemma offline_message_is_sent_witness:
  "map ob_bundle (filter (\<lambda>x. ob_msgId x = ''m'')
     (snd (drain_cycles (\<lambda>_. True) [5] (rt_outbox (fst (routeOutgoing sample_prims sample_answers Router.sample_args sample_context sample_alone))))))
   = [[1]]"
proof -
  let ?r = "routeOutgoing sample_prims sample_answers Router.sample_args sample_context sample_alone"
  have o: "\<not> an_online sample_answers" "peers (rt_mesh sample_alone) = []" "outbox_reachable 2 (rt_outbox sample_alone)" "mb_open (rt_outbox sample_alone)"
    using sample_outbox_reachable [of "[]"]
    by (simp_all add: sample_answers_def sample_alone_def new_transport_def sample_outbox_def mb_do_open_def mb_new_def)
  have c: "cycles_due (\<lambda>_. True) (mb_store (rt_outbox (fst ?r))) \<le> length [5 :: int]"
    using o(1,2) by (simp add: routeOutgoing_def Let_def enqueue_def on_store_def sample_alone_def sample_outbox_def mb_do_open_def
        mb_new_def put_tx_def new_entry_def Router.sample_args_def cycles_due_def refusals_due_def deliverable_def requests_due_def
        ceil_div_def MAX_DRAIN_PER_CYCLE_def)
  show ?thesis
    using offline_message_is_sent [where accept = "\<lambda>_. True" and tried = "snd (drain_cycles (\<lambda>_. True) [5] (rt_outbox (fst ?r)))", OF o(1-3) _ o(4) _ _ c, of sample_prims Router.sample_args sample_context "snd ?r"]
    by (simp add: Router.sample_args_def prod_eq_iff)
qed

end
