(* ===== verification/Router_Life.thy ===== *)
theory Router_Life
  imports Router
begin

text \<open>
  The two module-level variables of \<open>router.ts\<close> over time: the outbox that \<open>getOutbox\<close> opens
  lazily, with calls that overlap its opening, and the duplicate cache that all subscriptions of
  \<open>onIncoming\<close> share, with subscriptions that come and go.
\<close>

section \<open>The lazily opened outbox\<close>

text \<open>How the promise of a queued bundle settles.\<close>

datatype queue_outcome = QueuedOk | QueueThrew mb_error | OpenRejected

record queue_sys =
  q_outbox :: "outbox_entry mailbox option"
  q_disk :: "outbox_entry list"
  q_opening :: "enqueue_args option"
  q_outcomes :: "(string \<times> queue_outcome) list"

definition settle_enqueue :: "enqueue_args \<Rightarrow> outbox_entry mailbox \<Rightarrow> queue_sys \<Rightarrow> queue_sys" where
  "settle_enqueue a mb s = (case enqueue a mb of (mb', r) \<Rightarrow>
     s\<lparr>q_outbox := Some mb', q_outcomes := q_outcomes s
         @ [(ea_msgId a, case r of Inl e \<Rightarrow> QueueThrew e | Inr u \<Rightarrow> QueuedOk)]\<rparr>)"

text \<open>
  \<open>getOutbox\<close> and the \<open>enqueue\<close> behind it: the first call makes the object and waits for its
  opening; a call that finds the object goes on with it at once, opened or not.
\<close>

definition getOutbox_call :: "enqueue_args \<Rightarrow> queue_sys \<Rightarrow> queue_sys" where
  "getOutbox_call a s = (case q_outbox s of
      None \<Rightarrow> s\<lparr>q_outbox := Some (mb_new MESH_OUTBOX_MAX_ENTRIES (q_disk s)), q_opening := Some a\<rparr>
    | Some mb \<Rightarrow> settle_enqueue a mb s)"

definition getOutbox_opened :: "bool \<Rightarrow> queue_sys \<Rightarrow> queue_sys" where
  "getOutbox_opened ok s = (case (q_opening s, q_outbox s) of
      (Some a, Some mb) \<Rightarrow>
        let s' = s\<lparr>q_opening := None\<rparr> in
        if ok then settle_enqueue a (mb_do_open mb) s'
        else s'\<lparr>q_outcomes := q_outcomes s' @ [(ea_msgId a, OpenRejected)]\<rparr>
    | _ \<Rightarrow> s)"

datatype queue_event = Queue enqueue_args | OpenEnds bool

fun queue_run :: "queue_event list \<Rightarrow> queue_sys \<Rightarrow> queue_sys" where
  "queue_run [] s = s"
| "queue_run (Queue a # es) s = queue_run es (getOutbox_call a s)"
| "queue_run (OpenEnds ok # es) s = queue_run es (getOutbox_opened ok s)"

definition queue_init :: "outbox_entry list \<Rightarrow> queue_sys" where
  "queue_init disk = \<lparr>q_outbox = None, q_disk = disk, q_opening = None, q_outcomes = []\<rparr>"

lemma queue_run_append: "queue_run (xs @ ys) s = queue_run ys (queue_run xs s)"
  by (induction xs s rule: queue_run.induct) simp_all

text \<open>Bundles that meet the object unopened or opened.\<close>

lemma queue_unopened:
  assumes "q_outbox s = Some mb" and "\<not> mb_open mb"
  shows "queue_run (map Queue as) s
    = s\<lparr>q_outcomes := q_outcomes s @ map (\<lambda>a. (ea_msgId a, QueueThrew NotOpen)) as\<rparr>"
  using assms
proof (induction as arbitrary: s)
  case (Cons a as)
  have "getOutbox_call a s = s\<lparr>q_outcomes := q_outcomes s @ [(ea_msgId a, QueueThrew NotOpen)]\<rparr>"
    using Cons.prems by (simp add: getOutbox_call_def settle_enqueue_def enqueue_def on_store_def)
  then show ?case using Cons.IH [of "getOutbox_call a s"] Cons.prems by simp
qed simp

lemma queue_opened:
  assumes "q_outbox s = Some mb" and "mb_open mb"
  shows "q_outcomes (queue_run (map Queue as) s) = q_outcomes s @ map (\<lambda>a. (ea_msgId a, QueuedOk)) as
    \<and> q_outbox (queue_run (map Queue as) s) = Some (fold (\<lambda>a. fst \<circ> enqueue a) as mb)"
  using assms
proof (induction as arbitrary: s mb)
  case (Cons a as)
  have "getOutbox_call a s = s\<lparr>q_outbox := Some (fst (enqueue a mb)), q_outcomes := q_outcomes s @ [(ea_msgId a, QueuedOk)]\<rparr>"
    "mb_open (fst (enqueue a mb))"
    using Cons.prems by (simp_all add: getOutbox_call_def settle_enqueue_def enqueue_def on_store_def)
  then show ?case using Cons.IH [of "getOutbox_call a s" "fst (enqueue a mb)"] by simp
qed simp

text \<open>C33: Only the first bundle waits for the outbox: of the bundles queued while the outbox is being opened, all
  but the first are rejected and lost although the opening succeeds; once it is open everything is
  stored, in order. If the opening fails, nothing is ever stored until the page is reloaded.\<close>

theorem queue_needs_open:
  shows "q_outcomes (queue_run (Queue a # map Queue bs @ OpenEnds ok # map Queue cs) (queue_init disk))
      = map (\<lambda>b. (ea_msgId b, QueueThrew NotOpen)) bs
        @ (if ok then map (\<lambda>c. (ea_msgId c, QueuedOk)) (a # cs)
           else (ea_msgId a, OpenRejected) # map (\<lambda>c. (ea_msgId c, QueueThrew NotOpen)) cs)
    \<and> q_outbox (queue_run (Queue a # map Queue bs @ OpenEnds ok # map Queue cs) (queue_init disk))
      = Some (let mb = mb_new MESH_OUTBOX_MAX_ENTRIES disk in
          if ok then fold (\<lambda>c. fst \<circ> enqueue c) (a # cs) (mb_do_open mb) else mb)"
proof -
  let ?mb = "mb_new MESH_OUTBOX_MAX_ENTRIES disk"
  let ?s1 = "(queue_init disk)\<lparr>q_outbox := Some ?mb, q_opening := Some a\<rparr>"
  let ?s2 = "?s1\<lparr>q_outcomes := map (\<lambda>a. (ea_msgId a, QueueThrew NotOpen)) bs\<rparr>"
  have 1: "getOutbox_call a (queue_init disk) = ?s1" by (simp add: getOutbox_call_def queue_init_def)
  have 2: "queue_run (map Queue bs) ?s1 = ?s2"
    using queue_unopened [of ?s1 ?mb bs] by (simp add: mb_new_def queue_init_def)
  have run: "queue_run (Queue a # map Queue bs @ OpenEnds ok # map Queue cs) (queue_init disk)
      = queue_run (map Queue cs) (getOutbox_opened ok ?s2)"
    by (simp add: 1 2 queue_run_append)
  show ?thesis
  proof (cases ok)
    case True
    have o: "mb_open (mb_do_open ?mb)" by (simp add: mb_do_open_def)
    then have "getOutbox_opened ok ?s2 = ?s2\<lparr>q_opening := None, q_outbox := Some (fst (enqueue a (mb_do_open ?mb))),
        q_outcomes := q_outcomes ?s2 @ [(ea_msgId a, QueuedOk)]\<rparr>" "mb_open (fst (enqueue a (mb_do_open ?mb)))"
      using True by (simp_all add: getOutbox_opened_def settle_enqueue_def enqueue_def on_store_def)
    then show ?thesis
      unfolding run using queue_opened [of "getOutbox_opened ok ?s2" "fst (enqueue a (mb_do_open ?mb))" cs] True
      by (simp add: Let_def)
  next
    case False
    then have "getOutbox_opened ok ?s2 = ?s2\<lparr>q_opening := None, q_outcomes := q_outcomes ?s2 @ [(ea_msgId a, OpenRejected)]\<rparr>"
      by (simp add: getOutbox_opened_def)
    then show ?thesis
      unfolding run using queue_unopened [of "getOutbox_opened ok ?s2" ?mb cs] False
      by (simp add: mb_new_def)
  qed
qed


section \<open>Subscriptions\<close>

text \<open>
  A subscription: its frame handler (\<open>sb_in\<close>, of which the duplicate cache is not used, the
  module has one for all), whether the radio and the server stream still feed it.
\<close>

record subscription =
  sb_in :: inbound
  sb_ble :: bool
  sb_sse :: bool

record router_in =
  ri_subs :: "subscription list"
  ri_dedupe :: dedupe_cache

definition onIncoming :: "bloom option \<Rightarrow> inbox_entry mailbox option \<Rightarrow> bool \<Rightarrow> router_in \<Rightarrow> router_in" where
  "onIncoming bloom inbox sse r = r\<lparr>ri_subs := ri_subs r @ [\<lparr>sb_in = \<lparr>in_bloom = bloom, in_dedupe = ri_dedupe r,
     in_inbox = inbox, in_delivered = []\<rparr>, sb_ble = True, sb_sse = sse\<rparr>]\<rparr>"

text \<open>The function that \<open>onIncoming\<close> returns.\<close>

definition unsubscribe :: "nat \<Rightarrow> router_in \<Rightarrow> router_in" where
  "unsubscribe i r = r\<lparr>ri_subs := (ri_subs r)[i := (ri_subs r ! i)\<lparr>sb_ble := False, sb_sse := False\<rparr>]\<rparr>"

text \<open>A frame from the radio: the transport calls the handlers in the order of subscription.\<close>

fun ble_dispatch :: "tx_end \<Rightarrow> tx_end \<Rightarrow> int \<Rightarrow> bytes \<Rightarrow> dedupe_cache \<Rightarrow> subscription list
    \<Rightarrow> dedupe_cache \<times> subscription list" where
  "ble_dispatch f1 f2 now frame dd [] = (dd, [])"
| "ble_dispatch f1 f2 now frame dd (s # ss) =
     (let s' = (if sb_ble s then s\<lparr>sb_in := on_frame f1 f2 now frame ((sb_in s)\<lparr>in_dedupe := dd\<rparr>)\<rparr> else s);
          dd' = (if sb_ble s then in_dedupe (sb_in s') else dd);
          (dd'', ss') = ble_dispatch f1 f2 now frame dd' ss in
      (dd'', s' # ss'))"

definition ble_frame :: "tx_end \<Rightarrow> tx_end \<Rightarrow> int \<Rightarrow> bytes \<Rightarrow> router_in \<Rightarrow> router_in" where
  "ble_frame f1 f2 now frame r = (case ble_dispatch f1 f2 now frame (ri_dedupe r) (ri_subs r) of
     (dd, ss) \<Rightarrow> r\<lparr>ri_subs := ss, ri_dedupe := dd\<rparr>)"

text \<open>A frame from the stream of subscription \<open>i\<close> goes to its handler as it is.\<close>

definition sse_frame :: "nat \<Rightarrow> bytes \<Rightarrow> router_in \<Rightarrow> router_in" where
  "sse_frame i frame r = (if sb_sse (ri_subs r ! i)
     then r\<lparr>ri_subs := (ri_subs r)[i := (ri_subs r ! i)\<lparr>sb_in := (sb_in (ri_subs r ! i))
            \<lparr>in_delivered := in_delivered (sb_in (ri_subs r ! i)) @ [frame]\<rparr>\<rparr>]\<rparr>
     else r)"

definition delivered_to :: "router_in \<Rightarrow> bytes list list" where
  "delivered_to r = map (in_delivered \<circ> sb_in) (ri_subs r)"

fun ble_frames :: "(tx_end \<times> tx_end \<times> int \<times> bytes) list \<Rightarrow> router_in \<Rightarrow> router_in" where
  "ble_frames [] r = r"
| "ble_frames ((f1, f2, now, frame) # fs) r = ble_frames fs (ble_frame f1 f2 now frame r)"

lemma marked_is_seen: "dc_hasSeen (dc_markSeen d ch m) ch m"
  by (auto simp: dc_hasSeen_def dc_markSeen_def mark_key_def)

text \<open>Once a frame is in the shared cache, no further handler takes it.\<close>

lemma dispatch_seen:
  assumes "dc_hasSeen dd (frame_channel f) (frame_msgId f)"
  shows "fst (ble_dispatch f1 f2 now f dd ss) = dd
    \<and> map (in_delivered \<circ> sb_in) (snd (ble_dispatch f1 f2 now f dd ss)) = map (in_delivered \<circ> sb_in) ss
    \<and> map sb_ble (snd (ble_dispatch f1 f2 now f dd ss)) = map sb_ble ss"
proof (induction ss)
  case (Cons s ss)
  have "on_frame f1 f2 now f ((sb_in s)\<lparr>in_dedupe := dd\<rparr>) = (sb_in s)\<lparr>in_dedupe := dd\<rparr>"
    using assms by (intro on_frame_skip) simp
  then show ?case using Cons by (auto simp: Let_def split: prod.splits)
qed simp

lemma on_frame_marks:
  assumes "in_bloom s = None"
  shows "in_bloom (on_frame f1 f2 now f s) = None
    \<and> dc_hasSeen (in_dedupe (on_frame f1 f2 now f s)) (frame_channel f) (frame_msgId f)"
  using assms by (auto simp: on_frame_def Let_def marked_is_seen)

lemma ble_frame_first:
  assumes "ri_subs r = s # ss" and "sb_ble s" and "in_bloom (sb_in s) = None"
  shows "\<exists>s' ss'. ri_subs (ble_frame f1 f2 now f r) = s' # ss' \<and> sb_ble s' \<and> in_bloom (sb_in s') = None
    \<and> sb_in s' = on_frame f1 f2 now f ((sb_in s)\<lparr>in_dedupe := ri_dedupe r\<rparr>)
    \<and> ri_dedupe (ble_frame f1 f2 now f r) = in_dedupe (sb_in s')
    \<and> map (in_delivered \<circ> sb_in) ss' = map (in_delivered \<circ> sb_in) ss"
proof -
  let ?s = "s\<lparr>sb_in := on_frame f1 f2 now f ((sb_in s)\<lparr>in_dedupe := ri_dedupe r\<rparr>)\<rparr>"
  have m: "in_bloom (sb_in ?s) = None" "dc_hasSeen (in_dedupe (sb_in ?s)) (frame_channel f) (frame_msgId f)"
    using on_frame_marks [of "(sb_in s)\<lparr>in_dedupe := ri_dedupe r\<rparr>"] assms(3) by simp_all
  obtain dd ss' where d: "ble_dispatch f1 f2 now f (in_dedupe (sb_in ?s)) ss = (dd, ss')" by fastforce
  then have "ble_frame f1 f2 now f r = r\<lparr>ri_subs := ?s # ss', ri_dedupe := dd\<rparr>"
    using assms(1,2) by (simp add: ble_frame_def Let_def)
  then show ?thesis using dispatch_seen [OF m(2), of f1 f2 now ss] d m(1) assms(2) by simp
qed

text \<open>Note: Later subscriptions starve: while the first subscription is active and has no Bloom filter, it gets
  exactly the frames it would get alone with the shared duplicate cache, and every later
  subscription gets none of the frames that arrive by radio.\<close>

theorem later_subscriptions_starve:
  assumes "ri_subs r = s # ss" and "sb_ble s" and "in_bloom (sb_in s) = None"
  shows "delivered_to (ble_frames fs r)
    = in_delivered (receive_frames fs ((sb_in s)\<lparr>in_dedupe := ri_dedupe r\<rparr>)) # map (in_delivered \<circ> sb_in) ss"
  using assms
proof (induction fs arbitrary: r s ss)
  case (Cons x fs)
  obtain f1 f2 now f where x: "x = (f1, f2, now, f)" by (cases x)
  obtain s' ss' where s': "ri_subs (ble_frame f1 f2 now f r) = s' # ss'" "sb_ble s'" "in_bloom (sb_in s') = None"
    "sb_in s' = on_frame f1 f2 now f ((sb_in s)\<lparr>in_dedupe := ri_dedupe r\<rparr>)"
    "ri_dedupe (ble_frame f1 f2 now f r) = in_dedupe (sb_in s')"
    "map (in_delivered \<circ> sb_in) ss' = map (in_delivered \<circ> sb_in) ss"
    using ble_frame_first [OF Cons.prems] by blast
  have "(sb_in s')\<lparr>in_dedupe := ri_dedupe (ble_frame f1 f2 now f r)\<rparr> = sb_in s'" using s'(5) by simp
  then show ?case using Cons.IH [OF s'(1-3)] s'(4,6) by (simp add: x o_def)
qed (simp add: delivered_to_def)

definition sample_subscribed :: router_in where
  "sample_subscribed = onIncoming None None False (onIncoming None None True \<lparr>ri_subs = [], ri_dedupe = new_dedupe None\<rparr>)"

theorem later_subscriptions_starve_witness:
  "delivered_to (ble_frames [(TxOk, TxOk, 7, replicate 60 1), (TxOk, TxOk, 8, replicate 60 1)] sample_subscribed)
     = [[replicate 60 1], []]"
proof -
  let ?i = "\<lparr>in_bloom = None, in_dedupe = new_dedupe None, in_inbox = None, in_delivered = []\<rparr>"
  have r: "ri_subs sample_subscribed = \<lparr>sb_in = ?i, sb_ble = True, sb_sse = True\<rparr> # [\<lparr>sb_in = ?i, sb_ble = True, sb_sse = False\<rparr>]"
    "ri_dedupe sample_subscribed = new_dedupe None"
    by (simp_all add: sample_subscribed_def onIncoming_def)
  show ?thesis
    unfolding later_subscriptions_starve [OF r(1)]
    by (subst later_subscriptions_starve [OF r(1)])
      (simp_all add: r(2) on_frame_def Let_def dc_hasSeen_def new_dedupe_def marked_is_seen [unfolded dc_hasSeen_def] dc_markSeen_def mark_key_def)
qed

text \<open>A subscription that is given up gets nothing more, from either source.\<close>

lemma unsubscribed_silent:
  assumes "\<not> sb_ble s" and "\<not> sb_sse s" and "i < length (ri_subs r)" and "ri_subs r ! i = s"
  shows "sse_frame i f r = r" and "ri_subs (ble_frame f1 f2 now f r) ! i = s"
proof -
  show "sse_frame i f r = r" using assms by (simp add: sse_frame_def)
  have "snd (ble_dispatch f1 f2 now f dd ss) ! i = ss ! i" if "i < length ss" "\<not> sb_ble (ss ! i)" for dd ss
    using that
  proof (induction ss arbitrary: dd i)
    case (Cons t ss)
    show ?case
      using Cons.prems Cons.IH [of "i - 1"] by (cases i) (auto simp: Let_def case_prod_beta)
  qed simp
  then show "ri_subs (ble_frame f1 f2 now f r) ! i = s"
    using assms by (simp add: ble_frame_def split_beta)
qed

end
