(* ===== verification/Radio.thy ===== *)
theory Radio
  imports Transport_Inv
begin

text \<open>
  The layer between the transport and the native Bluetooth plugins: \<open>ble-advertiser.ts\<close>,
  \<open>ble-scanner.ts\<close>, \<open>gatt-channel.ts\<close>, and what \<open>startMesh\<close>, \<open>stopMesh\<close> and the MAC
  rotation of \<open>transport.ts\<close> do through it. The plugins are not modelled: a call is recorded with
  the outcome the surroundings give it, and what is on is read off the record of calls. Also
  \<open>native/platform.ts\<close>.
\<close>

section \<open>Calls of the plugins\<close>

datatype radio_call =
    Initialize | RequestLEScan | StopLEScan
  | StartGattServer | StopGattServer | StartAdvertisingHex string | StopAdvertising
  | AddListener string | RemoveListener
  | BleConnect string | DiscoverServices string | BleDisconnect string
  | WriteWithoutResponse string bytes | StartNotifications string | StopNotifications string

text \<open>When a call settles, in milliseconds, and whether it resolves.\<close>

datatype answer = Settles nat bool

fun settles_ok :: "answer \<Rightarrow> bool" where "settles_ok (Settles t ok) = ok"
fun settles_at :: "answer \<Rightarrow> nat" where "settles_at (Settles t ok) = t"

record radio =
  initialized :: bool
  rd_calls :: "(radio_call \<times> bool) list"

type_synonym answers = "radio_call \<Rightarrow> answer"

definition plugin :: "answers \<Rightarrow> radio_call \<Rightarrow> radio \<Rightarrow> radio \<times> bool" where
  "plugin ans c r = (r\<lparr>rd_calls := rd_calls r @ [(c, settles_ok (ans c))]\<rparr>, settles_ok (ans c))"

text \<open>An \<open>await\<close> that only goes on if the one before resolved.\<close>

definition and_then :: "(radio \<Rightarrow> radio \<times> bool) \<Rightarrow> (radio \<Rightarrow> radio \<times> bool) \<Rightarrow> radio \<Rightarrow> radio \<times> bool" where
  "and_then f g r = (case f r of (r', ok) \<Rightarrow> if ok then g r' else (r', False))"

text \<open>Switched on and not off again, as far as the calls tell.\<close>

definition in_force :: "radio_call \<Rightarrow> radio_call \<Rightarrow> radio \<Rightarrow> bool" where
  "in_force on off r = fold (\<lambda>(c, ok) b. if ok \<and> c = on then True else if ok \<and> c = off then False else b)
     (rd_calls r) False"

section \<open>ble-advertiser.ts\<close>

definition startAdvertising :: "answers \<Rightarrow> bytes \<Rightarrow> radio \<Rightarrow> radio \<times> bool" where
  "startAdvertising ans pid r = (if length pid \<noteq> 8 then (r, False)
     else and_then (plugin ans StartGattServer) (plugin ans (StartAdvertisingHex (to_hex pid))) r)"

definition stopAdvertising :: "answers \<Rightarrow> radio \<Rightarrow> radio \<times> bool" where
  "stopAdvertising ans = and_then (plugin ans StopAdvertising) (plugin ans StopGattServer)"

section \<open>ble-scanner.ts\<close>

definition MESH_SERVICE_UUID :: string where
  "MESH_SERVICE_UUID = ''f0f10000-6f78-7075-6c73-65000000c8b1''"

definition PEER_ID_BYTES :: nat where "PEER_ID_BYTES = 8"

definition upper_char :: "char \<Rightarrow> char" where
  "upper_char c = (let n = of_char c :: nat in if 97 \<le> n \<and> n \<le> 122 then char_of (n - 32) else c)"

definition parsePeerId :: "(string \<Rightarrow> bytes option) option \<Rightarrow> bytes option" where
  "parsePeerId serviceData = (case serviceData of
      None \<Rightarrow> None
    | Some sd \<Rightarrow>
        (case (case sd MESH_SERVICE_UUID of Some v \<Rightarrow> Some v | None \<Rightarrow>
               (case sd (map upper_char MESH_SERVICE_UUID) of Some v \<Rightarrow> Some v | None \<Rightarrow>
                  sd (map lower_char MESH_SERVICE_UUID))) of
           None \<Rightarrow> None
         | Some view \<Rightarrow> if length view < PEER_ID_BYTES then None else Some (take PEER_ID_BYTES view)))"

definition ensureInitialized :: "answers \<Rightarrow> radio \<Rightarrow> radio \<times> bool" where
  "ensureInitialized ans r = (if initialized r then (r, True)
     else (case plugin ans Initialize r of (r', ok) \<Rightarrow> if ok then (r'\<lparr>initialized := True\<rparr>, True) else (r', False)))"

definition startScan :: "answers \<Rightarrow> radio \<Rightarrow> radio \<times> bool" where
  "startScan ans = and_then (ensureInitialized ans) (plugin ans RequestLEScan)"

text \<open>The scan callback: device, signal strength (\<open>-999\<close> when absent) and peer id, or nothing.\<close>

definition scan_result :: "string \<Rightarrow> int option \<Rightarrow> (string \<Rightarrow> bytes option) option \<Rightarrow> (string \<times> int \<times> bytes) option" where
  "scan_result dev rssi serviceData = (case parsePeerId serviceData of
      None \<Rightarrow> None
    | Some pid \<Rightarrow> Some (dev, case rssi of None \<Rightarrow> -999 | Some x \<Rightarrow> x, pid))"

definition stopScan :: "answers \<Rightarrow> radio \<Rightarrow> radio \<times> bool" where
  "stopScan ans = plugin ans StopLEScan"

section \<open>gatt-channel.ts\<close>

definition CONNECT_TIMEOUT_MS :: nat where "CONNECT_TIMEOUT_MS = 5000"
definition WRITE_TIMEOUT_MS :: nat where "WRITE_TIMEOUT_MS = 2000"

text \<open>\<open>Promise.race\<close> against a timer; the call itself goes on, whoever wins.\<close>

definition withTimeout :: "answers \<Rightarrow> radio_call \<Rightarrow> nat \<Rightarrow> radio \<Rightarrow> radio \<times> bool" where
  "withTimeout ans c ms r = (case plugin ans c r of (r', ok) \<Rightarrow> (r', ok \<and> settles_at (ans c) < ms))"

definition connect :: "answers \<Rightarrow> string \<Rightarrow> radio \<Rightarrow> radio \<times> bool" where
  "connect ans dev = and_then (withTimeout ans (BleConnect dev) CONNECT_TIMEOUT_MS) (plugin ans (DiscoverServices dev))"

definition disconnect :: "answers \<Rightarrow> string \<Rightarrow> radio \<Rightarrow> radio \<times> bool" where
  "disconnect ans dev = plugin ans (BleDisconnect dev)"

definition writeRx :: "answers \<Rightarrow> string \<Rightarrow> bytes \<Rightarrow> radio \<Rightarrow> radio \<times> bool" where
  "writeRx ans dev chunk = withTimeout ans (WriteWithoutResponse dev chunk) WRITE_TIMEOUT_MS"

definition subscribeTx :: "answers \<Rightarrow> string \<Rightarrow> radio \<Rightarrow> radio \<times> bool" where
  "subscribeTx ans dev = plugin ans (StartNotifications dev)"

text \<open>The function it returns; an inbound device has one that does nothing.\<close>

definition unsubscribeTx :: "answers \<Rightarrow> string \<Rightarrow> bool \<Rightarrow> radio \<Rightarrow> radio \<times> bool" where
  "unsubscribeTx ans dev outbound r = (if outbound then plugin ans (StopNotifications dev) r else (r, True))"

section \<open>Starting, stopping, rotating\<close>

text \<open>The four awaits of \<open>startMesh\<close>, and the stage at which one of them rejects.\<close>

definition start_stages :: "answers \<Rightarrow> bytes \<Rightarrow> radio \<Rightarrow> radio \<times> start_stage option" where
  "start_stages ans pid r =
     (case startAdvertising ans pid r of (r1, False) \<Rightarrow> (r1, Some AtAdvertising) | (r1, True) \<Rightarrow>
     (case startScan ans r1 of (r2, False) \<Rightarrow> (r2, Some AtScan) | (r2, True) \<Rightarrow>
     (case plugin ans (AddListener ''rx'') r2 of (r3, False) \<Rightarrow> (r3, Some AtRxListener) | (r3, True) \<Rightarrow>
     (case plugin ans (AddListener ''connection'') r3 of (r4, False) \<Rightarrow> (r4, Some AtConnListener) | (r4, True) \<Rightarrow>
        (r4, None)))))"

definition start_mesh_io ::
  "answers \<Rightarrow> bytes \<Rightarrow> bool \<Rightarrow> string option \<Rightarrow> transport \<times> radio \<Rightarrow> (transport \<times> radio) \<times> bool" where
  "start_mesh_io ans pid doc err s = (case s of (st, r) \<Rightarrow>
     if advertising st \<or> scanning st then (s, True)
     else (case start_stages ans pid r of (r', stage) \<Rightarrow>
       (case startMesh pid doc (map_option (\<lambda>x. (x, err)) stage) st of (st', ok) \<Rightarrow> ((st', r'), ok))))"

text \<open>The teardown of the connected devices ignores errors.\<close>

definition teardown :: "answers \<Rightarrow> (string \<times> bool) list \<Rightarrow> radio \<Rightarrow> radio" where
  "teardown ans devs = fold (\<lambda>(dev, outbound) r. fst (disconnect ans dev (fst (unsubscribeTx ans dev outbound r)))) devs"

definition stop_mesh_io :: "answers \<Rightarrow> transport \<times> radio \<Rightarrow> (transport \<times> radio) \<times> bool" where
  "stop_mesh_io ans s = (case s of (st, r) \<Rightarrow>
     (case and_then (stopScan ans) (stopAdvertising ans) r of
        (r', False) \<Rightarrow> ((st, r'), False)
      | (r', True) \<Rightarrow> ((stopMesh st,
          ((\<lambda>r. fst (plugin ans RemoveListener r)) ^^ listenerRemovers st) (teardown ans (connectedDevices st) r')), True)))"

text \<open>The callback of the MAC rotation timer swallows every error.\<close>

definition rotate_mac :: "answers \<Rightarrow> bytes \<Rightarrow> radio \<Rightarrow> radio" where
  "rotate_mac ans pid r = fst (and_then (stopAdvertising ans) (startAdvertising ans pid) r)"

text \<open>What the first \<open>await\<close> of the scan callback leads to, with the radio.\<close>

definition connect_io :: "world \<Rightarrow> answers \<Rightarrow> int \<Rightarrow> string \<Rightarrow> bytes \<Rightarrow> int option \<Rightarrow> transport \<times> radio \<Rightarrow> transport \<times> radio" where
  "connect_io W ans now dev pid rssi s = (case s of (st, r) \<Rightarrow>
     (case connect ans dev r of (r', ok) \<Rightarrow>
       (resume_task W \<lparr>d_eph = [], d_kem = []\<rparr> \<lparr>d_eph = [], d_kem = []\<rparr> now ok None (Connecting dev pid rssi) st, r')))"


section \<open>Lemmas\<close>

named_theorems radio_defs \<open>the operations on the radio, unfolded\<close>

lemmas radio_basic [radio_defs] = plugin_def and_then_def startAdvertising_def stopAdvertising_def
  ensureInitialized_def startScan_def stopScan_def withTimeout_def connect_def disconnect_def unsubscribeTx_def

lemma in_force_append [simp]:
  "in_force on off (r\<lparr>rd_calls := rd_calls r @ ds\<rparr>)
     = fold (\<lambda>(c, ok) b. if ok \<and> c = on then True else if ok \<and> c = off then False else b) ds (in_force on off r)"
  by (simp add: in_force_def)

lemma in_force_initialized [simp]: "in_force on off (r\<lparr>initialized := b\<rparr>) = in_force on off r"
  by (simp add: in_force_def)

lemma plugin_force:
  "in_force on off (fst (plugin ans c r)) = (if settles_ok (ans c) \<and> c = on then True
     else if settles_ok (ans c) \<and> c = off then False else in_force on off r)"
  unfolding plugin_def fst_conv in_force_append by simp

text \<open>Calls that neither switch on nor off.\<close>

lemma teardown_force:
  "(\<And>d. on \<noteq> StopNotifications d \<and> on \<noteq> BleDisconnect d \<and> off \<noteq> StopNotifications d) \<Longrightarrow>
     (\<And>d. d \<in> fst ` set devs \<Longrightarrow> off \<noteq> BleDisconnect d) \<Longrightarrow>
     in_force on off (teardown ans devs r) = in_force on off r"
proof (induction devs arbitrary: r)
  case (Cons x devs)
  obtain dev ob where x: "x = (dev, ob)" by fastforce
  have "in_force on off (teardown ans (x # devs) r)
      = in_force on off (fst (disconnect ans dev (fst (unsubscribeTx ans dev ob r))))"
    using Cons by (simp add: teardown_def x)
  also have "\<dots> = in_force on off r"
    using Cons.prems by (auto simp: disconnect_def unsubscribeTx_def plugin_force x)
  finally show ?case .
qed (simp add: teardown_def)

lemma listeners_force:
  "on \<noteq> RemoveListener \<Longrightarrow> off \<noteq> RemoveListener \<Longrightarrow>
     in_force on off (((\<lambda>r. fst (plugin ans RemoveListener r)) ^^ n) r) = in_force on off r"
  by (induction n) (simp_all add: plugin_force)

section \<open>Properties\<close>

text \<open>Note: An advertised peer id is read back: the hex digits startAdvertising hands to the plugin, put as bytes
  into the service data under the service's identifier (in either case), are parsed by a scanner
  to the same eight bytes, whatever follows them; shorter data is discarded.\<close>

theorem advertised_id_read_back:
  assumes "length pid = 8" and "settles_ok (ans StartGattServer)" and "k = MESH_SERVICE_UUID \<or> k = map upper_char MESH_SERVICE_UUID"
  shows "\<exists>hex. rd_calls (fst (startAdvertising ans pid r)) =
      rd_calls r @ [(StartGattServer, True), (StartAdvertisingHex hex, settles_ok (ans (StartAdvertisingHex hex)))]
    \<and> length hex = 16 \<and> parsePeerId (Some [k \<mapsto> from_hex hex @ rest]) = Some pid
    \<and> (n < 8 \<longrightarrow> parsePeerId (Some [k \<mapsto> take n (from_hex hex)]) = None)"
proof -
  have "parsePeerId (Some [k \<mapsto> pid @ rest]) = Some pid \<and> (n < 8 \<longrightarrow> parsePeerId (Some [k \<mapsto> take n pid]) = None)"
    using assms(1,3) by (auto simp: parsePeerId_def PEER_ID_BYTES_def split: option.splits)
  then show ?thesis using assms(1,2)
    by (intro exI [of _ "to_hex pid"]) (simp add: startAdvertising_def and_then_def plugin_def from_to_hex length_to_hex)
qed

text \<open>Note: A stop that fails stops nothing: if the plugin refuses to stop the scan or the advertising, stopMesh
  rejects with the transport as it was: scanning and advertising are still announced, and the
  timers, sessions, handlers and connections all stay.\<close>

theorem failed_stop_stops_nothing:
  assumes "\<not> settles_ok (ans StopLEScan) \<or> \<not> settles_ok (ans StopAdvertising) \<or> \<not> settles_ok (ans StopGattServer)"
  shows "\<not> snd (stop_mesh_io ans (st, r)) \<and> fst (fst (stop_mesh_io ans (st, r))) = st
    \<and> (\<not> settles_ok (ans StopLEScan) \<longrightarrow>
        in_force RequestLEScan StopLEScan (snd (fst (stop_mesh_io ans (st, r)))) = in_force RequestLEScan StopLEScan r)"
  using assms by (auto simp: stop_mesh_io_def radio_defs split: if_splits)

text \<open>Note: A failed connect keeps its link: when connecting takes five seconds or longer, or the services cannot
  be discovered, the transport files the device under backoff although the plugin has connected
  it; nothing disconnects it, not even a stopMesh in which every call succeeds.\<close>

theorem failed_connect_keeps_link:
  assumes "ans (BleConnect dev) = Settles t True" and "5000 \<le> t \<or> \<not> settles_ok (ans (DiscoverServices dev))"
    and "dev \<notin> fst ` set (connectedDevices st)" and "connect_io W ans now dev pid rssi (st, r) = (st', r')"
  shows "\<not> snd (connect ans dev r) \<and> jm_has (backoff st') dev \<and> connectedDevices st' = connectedDevices st
    \<and> in_force (BleConnect dev) (BleDisconnect dev) r'
    \<and> in_force (BleConnect dev) (BleDisconnect dev) (snd (fst (stop_mesh_io ans' (st', r'))))"
proof -
  have c: "\<not> snd (connect ans dev r)" "in_force (BleConnect dev) (BleDisconnect dev) (fst (connect ans dev r))"
    using assms(1,2) by (auto simp: radio_defs CONNECT_TIMEOUT_MS_def)
  then have s: "st' = connect_failed now dev st" "r' = fst (connect ans dev r)"
    using assms(4) by (simp_all add: connect_io_def resume_task_def case_prod_beta)
  then have b: "jm_has (backoff st') dev" "connectedDevices st' = connectedDevices st"
    by (simp_all add: connect_failed_def nextBackoffMs_def Let_def jsmap)
  let ?f = "in_force (BleConnect dev) (BleDisconnect dev)"
  have stop: "?f (fst (and_then (stopScan ans') (stopAdvertising ans') r')) = ?f r'"
    by (simp add: radio_defs)
  have td: "?f (teardown ans' (connectedDevices st) x) = ?f x" for x
    by (rule teardown_force) (use assms(3) in auto)
  have "?f (snd (fst (stop_mesh_io ans' (st', r')))) = ?f r'"
    using b(2) stop
    by (auto simp: stop_mesh_io_def case_prod_beta listeners_force td split: prod.splits bool.splits)
  then show ?thesis using c s b by simp
qed

text \<open>Note: A failed rotation goes unnoticed: if the plugin cannot advertise again, the device is not advertising
  any more after the rotation of its address, while the error is swallowed.\<close>

theorem failed_rotation_silences:
  assumes "settles_ok (ans StopAdvertising)" and "settles_ok (ans StopGattServer)"
    and "\<not> settles_ok (ans StartGattServer) \<or> \<not> settles_ok (ans (StartAdvertisingHex (to_hex pid)))"
    and "hex = to_hex pid"
  shows "\<not> in_force (StartAdvertisingHex hex) StopAdvertising (rotate_mac ans pid r)"
  using assms by (auto simp: rotate_mac_def radio_defs)

text \<open>The calls of a complete start, and the stage each of them belongs to.\<close>

definition start_calls :: "bytes \<Rightarrow> radio \<Rightarrow> radio_call list" where
  "start_calls pid r = [StartGattServer, StartAdvertisingHex (to_hex pid)] @ (if initialized r then [] else [Initialize])
     @ [RequestLEScan, AddListener ''rx'', AddListener ''connection'']"

fun stage_of :: "radio_call \<Rightarrow> start_stage" where
  "stage_of (AddListener x) = (if x = ''rx'' then AtRxListener else AtConnListener)"
| "stage_of Initialize = AtScan"
| "stage_of RequestLEScan = AtScan"
| "stage_of c = AtAdvertising"

text \<open>Note: The start makes its calls in order up to the first refusal: it succeeds exactly if none of them is
  refused, and otherwise ends as the transport's start does at the stage of the first refused call.\<close>

theorem start_refines_calls:
  assumes "\<not> advertising st" and "\<not> scanning st" and "length pid = 8"
    and "start_mesh_io ans pid doc err (st, r) = ((st', r'), ok)"
  shows "map fst (rd_calls r') = map fst (rd_calls r)
        @ take (Suc (length (takeWhile (settles_ok \<circ> ans) (start_calls pid r)))) (start_calls pid r)
    \<and> ok = list_all (settles_ok \<circ> ans) (start_calls pid r)
    \<and> (st', ok) = startMesh pid doc (map_option (\<lambda>c. (stage_of c, err))
        (find (\<lambda>c. \<not> settles_ok (ans c)) (start_calls pid r))) st"
  using assms
  by (cases "settles_ok (ans StartGattServer)"; cases "settles_ok (ans (StartAdvertisingHex (to_hex pid)))";
      cases "initialized r"; cases "settles_ok (ans Initialize)"; cases "settles_ok (ans RequestLEScan)";
      cases "settles_ok (ans (AddListener ''rx''))"; cases "settles_ok (ans (AddListener ''connection''))")
    (auto simp: start_calls_def start_mesh_io_def start_stages_def startMesh_def radio_defs Let_def)


section \<open>Concrete radios\<close>

definition all_ok :: answers where "all_ok = (\<lambda>c. Settles 10 True)"

definition cold_radio :: radio where "cold_radio = \<lparr>initialized = False, rd_calls = []\<rparr>"

theorem advertised_id_read_back_witness:
  "parsePeerId (Some [map upper_char MESH_SERVICE_UUID \<mapsto> from_hex (to_hex [1, 2, 3, 4, 5, 6, 7, 8]) @ [9]])
     = Some [1, 2, 3, 4, 5, 6, 7, 8]"
  using advertised_id_read_back [of "[1, 2, 3, 4, 5, 6, 7, 8]" all_ok _ cold_radio "[9]" 0]
  by (auto simp: all_ok_def startAdvertising_def and_then_def plugin_def)

theorem failed_stop_stops_nothing_witness:
  "let r = fst (startScan all_ok cold_radio); st = (new_transport sample_env)\<lparr>scanning := True\<rparr>;
       s = fst (stop_mesh_io (all_ok(StopLEScan := Settles 1 False)) (st, r)) in
     scanning (fst s) \<and> in_force RequestLEScan StopLEScan (snd s)"
proof -
  have "in_force RequestLEScan StopLEScan (fst (startScan all_ok cold_radio))"
    by (simp add: radio_defs all_ok_def cold_radio_def in_force_def)
  then show ?thesis
    using failed_stop_stops_nothing [of "all_ok(StopLEScan := Settles 1 False)" "(new_transport sample_env)\<lparr>scanning := True\<rparr>"
        "fst (startScan all_ok cold_radio)"]
    by (simp add: Let_def)
qed

theorem failed_connect_keeps_link_witness:
  "let (st, r) = connect_io sample_world (all_ok(BleConnect ''a'' := Settles 6000 True)) 1 ''a'' [7] None
        (new_transport sample_env, cold_radio) in
     in_force (BleConnect ''a'') (BleDisconnect ''a'') (snd (fst (stop_mesh_io all_ok (st, r))))"
proof -
  let ?ans = "all_ok(BleConnect ''a'' := Settles 6000 True)"
  let ?c = "connect_io sample_world ?ans 1 ''a'' [7] None (new_transport sample_env, cold_radio)"
  have "?c = (fst ?c, snd ?c)" by simp
  from failed_connect_keeps_link [OF _ _ _ this, of 6000] show ?thesis
    by (auto simp: case_prod_beta new_transport_def)
qed

theorem failed_rotation_silences_witness:
  "\<not> in_force (StartAdvertisingHex (to_hex [1, 2, 3, 4, 5, 6, 7, 8])) StopAdvertising
     (rotate_mac (all_ok(StartGattServer := Settles 1 False)) [1, 2, 3, 4, 5, 6, 7, 8] cold_radio)"
  by (rule failed_rotation_silences) (simp_all add: all_ok_def)

theorem start_refines_calls_witness:
  "\<exists>st r. start_mesh_io (all_ok(RequestLEScan := Settles 1 False)) [1, 2, 3, 4, 5, 6, 7, 8] True (Some ''denied'')
      (new_transport sample_env, cold_radio) = ((st, r), False)
    \<and> map fst (rd_calls r) = [StartGattServer, StartAdvertisingHex (to_hex [1, 2, 3, 4, 5, 6, 7, 8]), Initialize, RequestLEScan]"
proof -
  let ?i = "start_mesh_io (all_ok(RequestLEScan := Settles 1 False)) [1, 2, 3, 4, 5, 6, 7, 8] True (Some ''denied'')
      (new_transport sample_env, cold_radio)"
  obtain st r ok where i: "?i = ((st, r), ok)" by (metis prod.exhaust)
  have "\<not> advertising (new_transport sample_env)" "\<not> scanning (new_transport sample_env)" by (simp_all add: new_transport_def)
  from start_refines_calls [OF this _ i] have "\<not> ok \<and> map fst (rd_calls r) = [StartGattServer,
      StartAdvertisingHex (to_hex [1, 2, 3, 4, 5, 6, 7, 8]), Initialize, RequestLEScan]"
    by (simp add: start_calls_def all_ok_def cold_radio_def)
  then show ?thesis using i by auto
qed

section \<open>platform.ts\<close>

text \<open>What the Capacitor runtime answers, where it is there and has the function.\<close>

record capacitor =
  cap_isNative :: "bool option"
  cap_platform :: "string option"

definition isInCapacitor :: "capacitor option \<Rightarrow> string \<Rightarrow> bool" where
  "isInCapacitor cap ua = ((case cap of None \<Rightarrow> False | Some c \<Rightarrow> cap_isNative c = Some True) \<or> js_includes ''OxPulseShell/1'' ua)"

definition is_platform :: "string \<Rightarrow> capacitor option \<Rightarrow> bool" where
  "is_platform name cap = (case cap of None \<Rightarrow> False | Some c \<Rightarrow> cap_platform c = Some name)"

definition isAndroid :: "capacitor option \<Rightarrow> string \<Rightarrow> bool" where
  "isAndroid cap ua = (is_platform ''android'' cap \<or> isInCapacitor cap ua \<and> js_includes ''android'' (map lower_char ua))"

definition isIOS :: "capacitor option \<Rightarrow> string \<Rightarrow> bool" where
  "isIOS cap ua = (is_platform ''ios'' cap
     \<or> isInCapacitor cap ua \<and> list_ex (\<lambda>x. js_includes x (map lower_char ua)) [''iphone'', ''ipad'', ''ipod''])"

definition isNative :: "capacitor option \<Rightarrow> string \<Rightarrow> bool" where
  "isNative cap ua = isInCapacitor cap ua"

lemma js_includes_shorter: "js_includes b hay \<Longrightarrow> prefix a b \<Longrightarrow> js_includes a hay"
  by (auto simp: js_includes_def list_ex_iff intro: prefix_order.trans)

text \<open>A browser is never taken for the shell, and the shell is recognised before its runtime is there.\<close>

lemma platform_detection:
  "\<not> js_includes ''OxPulseShell/1'' ua \<Longrightarrow> \<not> isNative None ua \<and> \<not> isAndroid None ua \<and> \<not> isIOS None ua"
  "isNative None (ua @ ''OxPulseShell/1'')"
  "is_platform ''android'' (Some c) \<Longrightarrow> \<not> js_includes ''ip'' (map lower_char ua) \<Longrightarrow> isAndroid (Some c) ua \<and> \<not> isIOS (Some c) ua"
proof -
  show "isNative None (ua @ ''OxPulseShell/1'')"
    by (auto simp: isNative_def isInCapacitor_def js_includes_def list_ex_iff suffix_def intro!: bexI [of _ "''OxPulseShell/1''"])
  have "js_includes x (map lower_char ua) \<Longrightarrow> js_includes ''ip'' (map lower_char ua)"
    if "x \<in> {''iphone'', ''ipad'', ''ipod''}" for x
    using that by (auto elim: js_includes_shorter)
  then show "is_platform ''android'' (Some c) \<Longrightarrow> \<not> js_includes ''ip'' (map lower_char ua) \<Longrightarrow>
      isAndroid (Some c) ua \<and> \<not> isIOS (Some c) ua"
    by (auto simp: isAndroid_def isIOS_def is_platform_def)
qed (simp add: isNative_def isAndroid_def isIOS_def is_platform_def isInCapacitor_def)

end
