(* ===== verification/Token_Life.thy ===== *)
theory Token_Life
  imports Token_Client
begin

text \<open>
  The token cache with overlapping requests: \<open>getToken\<close> is cut at its \<open>fetch\<close>, so that other calls
  and the two clearing functions run while a request is in flight. \<open>tl_issued\<close> and \<open>tl_results\<close> record
  what the server issued and what the calls returned.
\<close>

section \<open>Events\<close>

record token_life =
  tl_cache :: token_cache
  tl_pending :: "string list"
  tl_issued :: "(string \<times> string) list"
  tl_results :: "(string \<times> (token_error + string)) list"

datatype token_event =
    Called int string string string
  | Answered nat fetch_answer
  | ClearedAll
  | ClearedFor string

text \<open>Up to the request: a hit returns, a miss is left pending.\<close>

definition token_call :: "int \<Rightarrow> string \<Rightarrow> string \<Rightarrow> string \<Rightarrow> token_life \<Rightarrow> token_life" where
  "token_call now geohash dayUtc identityKey s =
     (let key = cacheKey geohash dayUtc identityKey in
      case token_hit now key (tl_cache s) of
        Some (c, t) \<Rightarrow> s\<lparr>tl_cache := c, tl_results := tl_results s @ [(key, Inr t)]\<rparr>
      | None \<Rightarrow> s\<lparr>tl_pending := tl_pending s @ [key]\<rparr>)"

text \<open>After it: the \<open>n\<close>-th request in flight is answered.\<close>

definition token_answer :: "(bytes \<Rightarrow> int option) \<Rightarrow> nat \<Rightarrow> fetch_answer \<Rightarrow> token_life \<Rightarrow> token_life" where
  "token_answer json_exp n answer s =
     (if n < length (tl_pending s) then
        let key = tl_pending s ! n;
            s' = s\<lparr>tl_pending := take n (tl_pending s) @ drop (Suc n) (tl_pending s)\<rparr> in
        (case answer of
           NetworkFailure \<Rightarrow> s'\<lparr>tl_results := tl_results s @ [(key, Inl FetchThrew)]\<rparr>
         | HttpError st \<Rightarrow> s'\<lparr>tl_results := tl_results s @ [(key, Inl (TokenHttp st))]\<rparr>
         | BadBody \<Rightarrow> s'\<lparr>tl_results := tl_results s @ [(key, Inl BodyNotJson)]\<rparr>
         | Issued t \<Rightarrow> s'\<lparr>tl_cache := token_store json_exp key t (tl_cache s),
             tl_issued := tl_issued s @ [(key, t)], tl_results := tl_results s @ [(key, Inr t)]\<rparr>)
      else s)"

fun token_happens :: "(bytes \<Rightarrow> int option) \<Rightarrow> token_event \<Rightarrow> token_life \<Rightarrow> token_life" where
  "token_happens json_exp (Called now g d i) s = token_call now g d i s"
| "token_happens json_exp (Answered n a) s = token_answer json_exp n a s"
| "token_happens json_exp ClearedAll s = s\<lparr>tl_cache := clearTokens (tl_cache s)\<rparr>"
| "token_happens json_exp (ClearedFor i) s = s\<lparr>tl_cache := clearTokensForIdentity i (tl_cache s)\<rparr>"

definition no_calls :: token_life where
  "no_calls = \<lparr>tl_cache = [], tl_pending = [], tl_issued = [], tl_results = []\<rparr>"

text \<open>A call whose request is answered before anything else happens is \<open>getToken\<close>.\<close>

lemma token_halves:
  assumes "tl_pending s = []"
  shows "\<exists>l. token_answer f 0 answer (token_call now g d i s)
      = s\<lparr>tl_cache := fst (getToken f now answer g d i (tl_cache s)), tl_issued := l,
          tl_results := tl_results s @ [(cacheKey g d i, snd (getToken f now answer g d i (tl_cache s)))]\<rparr>"
  using assms
  by (cases s; cases answer)
    (auto simp: token_call_def token_answer_def getToken_def Let_def split: option.split)

section \<open>What every interleaving keeps\<close>

text \<open>The bound and the origin of every token, cached or returned.\<close>

definition tokens_sound :: "token_life \<Rightarrow> bool" where
  "tokens_sound s \<longleftrightarrow> token_inv (set (tl_issued s)) (tl_cache s)
     \<and> (\<forall>k t. (k, Inr t) \<in> set (tl_results s) \<longrightarrow> (k, t) \<in> set (tl_issued s))"

lemma token_inv_filter: "token_inv S c \<Longrightarrow> token_inv S (filter P c)"
  by (auto simp: token_inv_def intro: le_trans [OF length_filter_le])

lemma token_call_sound: "tokens_sound s \<Longrightarrow> tokens_sound (token_call now g d i s)"
  using token_hit_inv [of "set (tl_issued s)" "tl_cache s" now "cacheKey g d i"]
  by (auto simp: tokens_sound_def token_call_def Let_def split: option.split)

lemma token_answer_sound: "tokens_sound s \<Longrightarrow> tokens_sound (token_answer f n a s)"
  using token_store_inv [of "set (tl_issued s)" "tl_cache s" "tl_pending s ! n" _ f]
  by (auto simp: tokens_sound_def token_answer_def Let_def split: fetch_answer.split)

lemma token_happens_sound:
  assumes "tokens_sound s"
  shows "tokens_sound (token_happens f ev s)"
proof (cases ev)
  case ClearedAll
  then show ?thesis using assms by (simp add: tokens_sound_def clearTokens_def token_inv_def)
next
  case (ClearedFor i)
  then show ?thesis using assms by (simp add: tokens_sound_def clearTokensForIdentity_def token_inv_filter)
qed (simp_all add: assms token_call_sound token_answer_sound)

interpretation token_soundness: kept_by_events "token_happens f" "\<lambda>_. True" tokens_sound for f
  by unfold_locales (rule token_happens_sound)

text \<open>An identity is forgotten when neither the cache nor a request in flight has its prefix.\<close>

definition held_keys :: "token_life \<Rightarrow> string set" where
  "held_keys s = fst ` set (tl_cache s) \<union> set (tl_pending s)"

definition forgotten :: "string \<Rightarrow> token_life \<Rightarrow> bool" where
  "forgotten i s \<longleftrightarrow> (\<forall>k \<in> held_keys s. \<not> prefix (i @ [NUL]) k)"

lemma forgotten_mono:
  assumes "forgotten i s" and "held_keys s' \<subseteq> insert k (held_keys s)" and "\<not> prefix (i @ [NUL]) k"
  shows "forgotten i s'"
  unfolding forgotten_def
proof
  fix k' assume "k' \<in> held_keys s'"
  with assms(2) have "k' = k \<or> k' \<in> held_keys s" by auto
  then show "\<not> prefix (i @ [NUL]) k'" using assms(1,3) by (auto simp only: forgotten_def)
qed

definition other_identity :: "string \<Rightarrow> token_event \<Rightarrow> bool" where
  "other_identity i ev = (case ev of Called now g d i' \<Rightarrow> i' \<noteq> i \<and> NUL \<notin> set i' | _ \<Rightarrow> True)"

lemma token_hit_keys: "token_hit now k c = Some (c', t) \<Longrightarrow> fst ` set c' \<subseteq> fst ` set c"
  using set_jm_delete [of k c] set_jm_set [of k _ "jm_delete k c"] map_of_SomeD [of c k]
  by (fastforce simp: token_hit_def split: option.splits if_splits)

lemma token_store_keys: "fst ` set (token_store f k t c) \<subseteq> insert k (fst ` set c)"
proof -
  have "set (evictIfFull c) \<subseteq> set c" by (auto simp: evictIfFull_def AList.delete_eq split: list.splits if_splits)
  then show ?thesis using set_jm_set [of k _ "evictIfFull c"] by (fastforce simp: token_store_def)
qed

lemma token_call_keys: "held_keys (token_call now g d i s) \<subseteq> insert (cacheKey g d i) (held_keys s)"
proof (cases "token_hit now (cacheKey g d i) (tl_cache s)")
  case None
  then show ?thesis by (auto simp: token_call_def held_keys_def)
next
  case (Some r)
  then show ?thesis using token_hit_keys [of now "cacheKey g d i" "tl_cache s" "fst r" "snd r"]
    by (cases r) (auto simp: token_call_def held_keys_def)
qed

lemma token_answer_keys: "held_keys (token_answer f n a s) \<subseteq> held_keys s"
proof (cases "n < length (tl_pending s)")
  case True
  have "set (take n l @ drop (Suc n) l) \<subseteq> set l" for l :: "string list"
    using set_take_subset [of n l] set_drop_subset [of "Suc n" l] by auto
  moreover have "fst ` set (token_store f (tl_pending s ! n) t (tl_cache s)) \<subseteq> held_keys s" for t
    using token_store_keys [of f "tl_pending s ! n" t "tl_cache s"] nth_mem [OF True] by (auto simp: held_keys_def)
  ultimately show ?thesis
    by (cases a) (simp_all add: token_answer_def Let_def True held_keys_def le_supI1 le_supI2)
qed (simp add: token_answer_def)

lemma token_happens_forgets:
  assumes "NUL \<notin> set i" and "forgotten i s" and "other_identity i ev"
  shows "forgotten i (token_happens f ev s)"
proof (cases ev)
  case (Called now g d i')
  then have "\<not> prefix (i @ [NUL]) (cacheKey g d i')"
    using prefix_cacheKey [OF assms(1), of i' g d] assms(3) by (auto simp: other_identity_def)
  then show ?thesis using forgotten_mono [OF assms(2) token_call_keys] Called by simp
next
  case (Answered n a)
  then show ?thesis using assms(2) token_answer_keys [of f n a s] unfolding forgotten_def
    by (metis subsetD token_happens.simps(2))
qed (use assms(2) in \<open>auto simp: forgotten_def held_keys_def clearTokens_def clearTokensForIdentity_def\<close>)

interpretation token_logout: kept_by_events "token_happens f" "other_identity i" "\<lambda>s. NUL \<notin> set i \<and> forgotten i s" for f i
  by unfold_locales (blast intro: token_happens_forgets)

section \<open>Properties\<close>

text \<open>Note: Overlapping requests keep the cache sound: whatever calls, answers (in any order) and clearings
  interleave, the cache holds at most 32 tokens, one per key, and every token that is cached or that a
  call returned was issued in answer to a request for exactly that key.\<close>

theorem overlapping_requests_sound:
  "(let s = fold (token_happens f) evs no_calls in
     jm_wf (tl_cache s) \<and> length (tl_cache s) \<le> 32
     \<and> set (map (\<lambda>(k, e). (k, te_token e)) (tl_cache s)) \<subseteq> set (tl_issued s)
     \<and> {(k, t). (k, Inr t) \<in> set (tl_results s)} \<subseteq> set (tl_issued s))"
proof -
  have "tokens_sound no_calls" by (simp add: tokens_sound_def no_calls_def token_inv_def)
  then have "tokens_sound (fold (token_happens f) evs no_calls)"
    using token_soundness.run_keeps [of no_calls evs f] by simp
  then show ?thesis by (auto simp: Let_def tokens_sound_def token_inv_def TOKEN_CACHE_MAX_SIZE_def)
qed

text \<open>Note: Logging out holds exactly when nothing is in flight: after clearTokensForIdentity, as long as no
  request for the identity was in flight and none is made, no run of other calls, answers and clearings
  brings a token of the identity into the cache; but if one was in flight, its answer does: the next
  getToken for that key returns the token from the cache, without asking the server.\<close>

theorem logout_unless_in_flight:
  assumes "NUL \<notin> set i" and "key = cacheKey g d i"
    and "s' = token_happens f (ClearedFor i) s"
  shows "((\<forall>k \<in> set (tl_pending s). \<not> prefix (i @ [NUL]) k) \<and> (\<forall>ev \<in> set evs. other_identity i ev)
        \<longrightarrow> jm_get (tl_cache (fold (token_happens f) evs s')) key = None)
    \<and> (n < length (tl_pending s) \<and> tl_pending s ! n = key \<and> now < parseExpMs f t - 300000
        \<longrightarrow> tl_results (token_happens f (Called now g d i) (token_happens f (Answered n (Issued t)) s'))
             = tl_results s @ [(key, Inr t), (key, Inr t)])"
proof (intro conjI impI; elim conjE)
  assume p: "\<forall>k \<in> set (tl_pending s). \<not> prefix (i @ [NUL]) k" and evs: "\<forall>ev \<in> set evs. other_identity i ev"
  let ?c = "tl_cache (fold (token_happens f) evs s')"
  have "forgotten i s'" using p by (auto simp: assms(3) forgotten_def held_keys_def clearTokensForIdentity_def)
  then have "forgotten i (fold (token_happens f) evs s')"
    using token_logout.run_keeps [of i s' evs f] assms(1) evs by blast
  moreover have "prefix (i @ [NUL]) key" by (simp add: assms(2) cacheKey_def prefix_def)
  ultimately show "jm_get ?c key = None"
    by (cases "jm_get ?c key") (force simp: forgotten_def held_keys_def dest: map_of_SomeD)+
next
  assume "n < length (tl_pending s)" "tl_pending s ! n = key" "now < parseExpMs f t - 300000"
  then show "tl_results (token_happens f (Called now g d i) (token_happens f (Answered n (Issued t)) s'))
      = tl_results s @ [(key, Inr t), (key, Inr t)]"
    using assms(2) by (simp add: assms(3) token_answer_def token_call_def Let_def token_hit_def token_store_def
        jm_get_set REFRESH_BUFFER_MS_def)
qed

text \<open>A token with the payload \<open>AAAA\<close>, whose expiry is a thousand seconds, asked for before the logout.\<close>

lemma logout_unless_in_flight_witness:
  "map snd (tl_results (fold (token_happens (\<lambda>_. Some 1000))
      [Called 0 ''g'' ''d'' ''i'', ClearedFor ''i'', Answered 0 (Issued ''h.AAAA.s''), Called 10 ''g'' ''d'' ''i''] no_calls))
    = [Inr ''h.AAAA.s'', Inr ''h.AAAA.s'']"
proof -
  let ?f = "\<lambda>_ :: bytes. Some (1000 :: int)"
  let ?s = "token_happens ?f (Called 0 ''g'' ''d'' ''i'') no_calls"
  have e: "parseExpMs ?f ''h.AAAA.s'' = 1000000" by code_simp
  have "NUL \<notin> set ''i''" by code_simp
  moreover have s: "tl_pending ?s = [cacheKey ''g'' ''d'' ''i'']" "tl_results ?s = []"
    by (simp_all add: token_call_def no_calls_def token_hit_def Let_def)
  ultimately show ?thesis
    using logout_unless_in_flight [OF _ refl refl, of "''i''" ?s "[]" ?f "''g''" "''d''" 0 10 "''h.AAAA.s''"] e
    by simp
qed

end
