(* ===== verification/Sealed.thy ===== *)
theory Sealed
  imports Identity_Faults
begin

text \<open>
  The secret of sealed one-to-one messages: \<open>getOrCreateSealedX25519Secret\<close> of \<open>device-identity.ts\<close>
  and \<open>x25519-identity.ts\<close> on top of it. Mints are serial, under the lock of the identity, but
  forgetting and restoring the identity take no lock: \<open>sealed_read\<close> and \<open>sealed_settle\<close> are the two
  parts of a mint between which they may run.
\<close>

section \<open>The persisted secret\<close>

definition SEALED_KIND :: string where "SEALED_KIND = ''x25519-sealed-v1''"

text \<open>The cached secret, if it is this owner's and of this epoch.\<close>

definition cached_sealed :: "string \<Rightarrow> nat \<Rightarrow> world \<Rightarrow> bytes option" where
  "cached_sealed owner epoch w = (case w_sealed w of
      None \<Rightarrow> None | Some (o', e, priv) \<Rightarrow> if o' = owner \<and> e = epoch then Some priv else None)"

text \<open>How a call starts, given the owner and epoch of the mint in flight.\<close>

datatype sealed_start = Serve bytes | Join | Mint

definition sealed_enter :: "string \<Rightarrow> (string \<times> nat) option \<Rightarrow> world \<Rightarrow> sealed_start" where
  "sealed_enter owner inflight w = (case cached_sealed owner (w_epoch w) w of
      Some priv \<Rightarrow> Serve priv
    | None \<Rightarrow> if inflight = Some (owner, w_epoch w) then Join else Mint)"

text \<open>The wrapped secret of a stored row this owner may use.\<close>

definition usable_row :: "string \<Rightarrow> js_value option \<Rightarrow> bytes option" where
  "usable_row owner existing = (case existing of
      Some (SealedRow kind own wrapped) \<Rightarrow>
        if kind = SEALED_KIND \<and> own = owner \<and> wrapped \<noteq> [] then Some wrapped else None
    | _ \<Rightarrow> None)"

datatype sealed_found = FoundCached bytes | FoundRow crypto_key bytes | NoRow crypto_key

definition sealed_read :: "platform \<Rightarrow> string \<Rightarrow> sealed_found io" where
  "sealed_read P owner = bindio (gets (\<lambda>w. cached_sealed owner (w_epoch w) w)) (\<lambda>c. case c of
      Some priv \<Rightarrow> ret (FoundCached priv)
    | None \<Rightarrow> bindio (getOrCreateWrappingKey P) (\<lambda>kek.
        bindio (db_load (clones_keys P) IdentityDb SEALED_X25519_NAME) (\<lambda>existing.
          ret (case usable_row owner existing of Some wrapped \<Rightarrow> FoundRow kek wrapped | None \<Rightarrow> NoRow kek))))"

definition set_sealed :: "string \<Rightarrow> nat \<Rightarrow> bytes \<Rightarrow> bytes io" where
  "set_sealed owner epoch priv = andthen (update (\<lambda>w. w\<lparr>w_sealed := Some (owner, epoch, priv)\<rparr>)) (ret priv)"

text \<open>Another identity is live.\<close>

definition foreign_live :: "string \<Rightarrow> world \<Rightarrow> bool" where
  "foreign_live owner w = (case w_identity w of None \<Rightarrow> False | Some i \<Rightarrow> publicKeyB64 i \<noteq> owner)"

definition sealed_settle :: "platform \<Rightarrow> string \<Rightarrow> nat \<Rightarrow> sealed_found \<Rightarrow> bytes io" where
  "sealed_settle P owner epochAtEntry found = (case found of
      FoundCached priv \<Rightarrow> ret priv
    | FoundRow kek wrapped \<Rightarrow> bindio (unwrapSecretBytes P kek wrapped) (set_sealed owner epochAtEntry)
    | NoRow kek \<Rightarrow> bindio (draw 32) (\<lambda>priv. bindio (wrapSecretBytes P kek priv) (\<lambda>wrapped.
        bindio (gets (\<lambda>w. w_epoch w \<noteq> epochAtEntry)) (\<lambda>moved. if moved then ret priv else
        bindio (gets (foreign_live owner)) (\<lambda>foreign. if foreign then ret priv else
          andthen (db_save (clones_keys P) IdentityDb SEALED_X25519_NAME (SealedRow SEALED_KIND owner wrapped))
            (set_sealed owner epochAtEntry priv))))))"

definition sealedX25519Mint :: "platform \<Rightarrow> string \<Rightarrow> bytes io" where
  "sealedX25519Mint P owner = bindio (gets w_epoch) (\<lambda>epochAtEntry.
     bindio (sealed_read P owner) (sealed_settle P owner epochAtEntry))"

text \<open>\<open>SealedKeyUnavailableError None\<close> is the reason \<open>quota_exceeded\<close>.\<close>

definition sealedX25519Inner :: "platform \<Rightarrow> string \<Rightarrow> bytes io" where
  "sealedX25519Inner P owner = tryio (sealedX25519Mint P owner) (\<lambda>e. case e of
      IDBUnavailableError r \<Rightarrow> andthen (track ''client.idb_unavailable'' []) (raise (SealedKeyUnavailableError (Some r)))
    | _ \<Rightarrow>
        if error_name e = ''QuotaExceededError''
        then andthen (track ''client.identity_quota_exceeded_fallback'' ''idb_quota_exceeded'')
          (raise (SealedKeyUnavailableError None))
        else raise e)"

text \<open>In one piece: there is no mint in flight to join.\<close>

definition getOrCreateSealedX25519Secret :: "platform \<Rightarrow> string \<Rightarrow> bytes io" where
  "getOrCreateSealedX25519Secret P owner = bindio (gets (sealed_enter owner None)) (\<lambda>start. case start of
      Serve priv \<Rightarrow> ret priv | _ \<Rightarrow> sealedX25519Inner P owner)"

section \<open>x25519-identity.ts\<close>

definition PKBIND_PREFIX :: bytes where "PKBIND_PREFIX = utf8 ''oxp/pkbind/v1''"

record x25519_identity =
  xi_priv :: bytes
  xi_pub :: bytes
  xi_selfSig :: bytes

text \<open>The signed bytes: the prefix and the key, written into a buffer for 32 bytes of key.\<close>

definition pkbind_bytes :: "bytes \<Rightarrow> bytes option" where
  "pkbind_bytes x25519Pub = (if length x25519Pub \<le> 32
     then Some (PKBIND_PREFIX @ x25519Pub @ replicate (32 - length x25519Pub) 0) else None)"

definition range_error :: id_error where "range_error = Thrown ''RangeError'' ''offset is out of bounds''"

definition bind_key :: "platform \<Rightarrow> bytes \<Rightarrow> bytes \<Rightarrow> x25519_identity io" where
  "bind_key P edSecret priv = bindio
     (if length priv = 32 then ret (x_public P priv) else raise (Thrown ''Error'' ''expected 32 bytes'')) (\<lambda>pub.
     bindio (from_option range_error (pkbind_bytes pub)) (\<lambda>signedBytes.
       ret \<lparr>xi_priv = priv, xi_pub = pub, xi_selfSig = ed_sign P edSecret signedBytes\<rparr>))"

definition generateX25519Identity :: "platform \<Rightarrow> bytes \<Rightarrow> x25519_identity io" where
  "generateX25519Identity P ed25519PrivKey = bindio (draw 32) (bind_key P ed25519PrivKey)"

definition verifyX25519SelfSig :: "platform \<Rightarrow> bytes \<Rightarrow> bytes \<Rightarrow> bytes \<Rightarrow> id_error + bool" where
  "verifyX25519SelfSig P x25519Pub selfSig ed25519Pub = (case pkbind_bytes x25519Pub of
      None \<Rightarrow> Inl range_error
    | Some signedBytes \<Rightarrow> Inr (ed_verify P ed25519Pub signedBytes selfSig = Some True))"

text \<open>The memo, keyed by the identity object.\<close>

type_synonym x25519_memo = "nat \<Rightarrow> (nat \<times> x25519_identity) option"

definition handOut :: "x25519_identity \<Rightarrow> x25519_identity" where
  "handOut i = \<lparr>xi_priv = xi_priv i, xi_pub = xi_pub i, xi_selfSig = xi_selfSig i\<rparr>"

definition memo_hit :: "x25519_memo \<Rightarrow> nat \<Rightarrow> nat \<Rightarrow> x25519_identity option" where
  "memo_hit memo obj epoch = (case memo obj of
      Some (e, x) \<Rightarrow> if e = epoch then Some x else None | None \<Rightarrow> None)"

text \<open>After the secret arrived: bind it, memoise it unless the epoch moved.\<close>

definition x25519_finish ::
  "platform \<Rightarrow> nat \<Rightarrow> nat \<Rightarrow> opaque_key \<Rightarrow> x25519_memo \<Rightarrow> bytes \<Rightarrow> (x25519_memo \<times> x25519_identity) io" where
  "x25519_finish P obj epochAtEntry seed memo priv = bindio (bind_key P (opaque_bytes seed) priv) (\<lambda>x.
     bindio (gets w_epoch) (\<lambda>epoch.
       ret (if epoch = epochAtEntry then memo(obj \<mapsto> (epochAtEntry, x)) else memo, handOut x)))"

definition getOrCreateX25519Identity ::
  "platform \<Rightarrow> nat \<Rightarrow> identity \<Rightarrow> x25519_memo \<Rightarrow> (x25519_memo \<times> x25519_identity) io" where
  "getOrCreateX25519Identity P obj i memo = bindio (gets w_epoch) (\<lambda>epochAtEntry.
     case memo_hit memo obj epochAtEntry of
       Some x \<Rightarrow> ret (memo, handOut x)
     | None \<Rightarrow> bindio (from_option (Thrown ''Error'' ''privateKeySeed null'') (privateKeySeed i)) (\<lambda>seed.
         bindio (getOrCreateSealedX25519Secret P (publicKeyB64 i)) (x25519_finish P obj epochAtEntry seed memo)))"

end
