(* ===== verification/Sealed_Key.thy ===== *)
theory Sealed_Key
  imports Sealed
begin

text \<open>
  What holds of the sealed-messaging secret: over any storage failures, over a wipe in the middle of
  a mint, over page loads and changes of identity; and where an unpersisted secret is handed out
  as a current one all the same.
\<close>

section \<open>What the storage plumbing leaves alone\<close>

definition session_state :: "world \<Rightarrow> nat \<times> (string \<times> nat \<times> bytes) option \<times> identity option" where
  "session_state w = (w_epoch w, w_sealed w, w_identity w)"

interpretation session: storage_frame "\<lambda>w. session_state w = t" for t
  by unfold_locales (simp_all add: session_state_def set_db_def)

lemma session_of_keeps: "(\<And>t. keeps (\<lambda>w. session_state w = t) m Q) \<Longrightarrow> session_state (fst (m w)) = session_state w"
  by (simp add: keeps_def)

lemma session_write: "session_state (fst (db_write s f w)) = session_state w"
  by (rule session_of_keeps [OF session.keeps_write]) (simp add: session_state_def set_db_def)

lemma save_session: "session_state (fst (db_save c s k (SealedRow x y z) w)) = session_state w"
  by (simp add: db_save_def session_write)

lemma kek_session: "session_state (fst (getOrCreateWrappingKey P w)) = session_state w"
  by (rule session_of_keeps [OF session.keeps_kek])

lemma sealed_read_cases:
  assumes "sealed_read P owner w = (w1, q)"
  shows "session_state w1 = session_state w
    \<and> (case q of Inr (FoundCached priv) \<Rightarrow> w1 = w \<and> cached_sealed owner (w_epoch w) w = Some priv
       | _ \<Rightarrow> cached_sealed owner (w_epoch w) w = None)"
proof (cases "cached_sealed owner (w_epoch w) w")
  case None
  have "session_state (fst (sealed_read P owner w)) = session_state w"
  proof (rule session_of_keeps [where Q = "\<lambda>_. True"])
    show "keeps (\<lambda>w. session_state w = t) (sealed_read P owner) (\<lambda>_. True)" for t
      unfolding sealed_read_def by (intro keeps_rules)
  qed
  then show ?thesis using assms None
    by (auto simp: sealed_read_def io_basic split: sum.splits prod.splits sealed_found.splits option.splits)
next
  case (Some priv)
  then show ?thesis using assms by (auto simp: sealed_read_def io_basic)
qed

text \<open>The second part of a mint, after the first.\<close>

lemma sealed_settle_session:
  assumes "sealed_settle P owner epoch found w = (w', q)"
  shows "w_epoch w' = w_epoch w \<and> w_identity w' = w_identity w
    \<and> (w_sealed w' = w_sealed w \<or> (\<exists>priv. q = Inr priv \<and> w_sealed w' = Some (owner, epoch, priv)))"
proof (cases found)
  case (NoRow kek)
  let ?priv = "drawn 32 w" and ?wd = "w\<lparr>w_draws := tl (w_draws w)\<rparr>"
  let ?row = "SealedRow SEALED_KIND owner (kw_wrap P (ck_bytes kek) ?priv)"
  obtain ws r where sv: "db_save (clones_keys P) IdentityDb SEALED_X25519_NAME ?row ?wd = (ws, r)" by fastforce
  then have "session_state ws = session_state ?wd"
    using save_session [of "clones_keys P" IdentityDb SEALED_X25519_NAME SEALED_KIND owner _ ?wd] by (metis fst_conv)
  then show ?thesis
    using assms NoRow sv
    by (auto simp: sealed_settle_def io_basic quiet_draw wrapSecretBytes_def toArrayBuffer_def set_sealed_def
        session_state_def split: if_splits sum.splits)
qed (use assms in \<open>auto simp: sealed_settle_def io_basic unwrapSecretBytes_def set_sealed_def split: option.splits\<close>)

text \<open>Note: A call for the sealed secret ends in one of two ways, whatever is stored and whichever storage
  operation fails: it returns a secret, which is then the cached one of this owner in the current
  epoch unless another identity is live; or it throws, caching nothing new, and neither error of
  the storage reaches the caller as such: unavailable storage and an exceeded quota are
  SealedKeyUnavailableError.\<close>

theorem sealed_outcome:
  "case getOrCreateSealedX25519Secret P owner w of
     (w', Inr priv) \<Rightarrow> w_epoch w' = w_epoch w
       \<and> (cached_sealed owner (w_epoch w') w' = Some priv \<or> foreign_live owner w')
   | (w', Inl e) \<Rightarrow> w_sealed w' = w_sealed w \<and> (\<forall>r. e \<noteq> IDBUnavailableError r)
       \<and> error_name e \<noteq> ''QuotaExceededError''"
proof (cases "cached_sealed owner (w_epoch w) w")
  case None
  obtain w1 q where r: "sealed_read P owner w = (w1, q)" by (cases "sealed_read P owner w")
  then have st: "session_state w1 = session_state w" using sealed_read_cases by blast
  show ?thesis
  proof (cases q)
    case (Inl e)
    then show ?thesis using None r st
      by (auto simp: getOrCreateSealedX25519Secret_def sealed_enter_def sealedX25519Inner_def sealedX25519Mint_def
          io_basic session_state_def split: id_error.splits)
  next
    case (Inr found)
    obtain w2 o2 where s: "sealed_settle P owner (w_epoch w) found w1 = (w2, o2)"
      by (cases "sealed_settle P owner (w_epoch w) found w1")
    have "found \<noteq> FoundCached p" for p using sealed_read_cases [OF r] None Inr by auto
    moreover have "w_epoch w1 = w_epoch w" using st by (simp add: session_state_def)
    ultimately have "\<And>priv. o2 = Inr priv \<Longrightarrow> w_sealed w2 = Some (owner, w_epoch w, priv) \<or> foreign_live owner w2"
      using s
      by (cases found)
         (auto simp: sealed_settle_def io_basic unwrapSecretBytes_def wrapSecretBytes_def set_sealed_def
           quiet_draw foreign_live_def split: option.splits if_splits prod.splits sum.splits)
    then show ?thesis using None r st Inr s sealed_settle_session [OF s]
      by (cases o2)
         (auto simp: getOrCreateSealedX25519Secret_def sealed_enter_def sealedX25519Inner_def sealedX25519Mint_def
          io_basic session_state_def cached_sealed_def split: id_error.splits)
  qed
next
  case (Some priv)
  then show ?thesis by (simp add: getOrCreateSealedX25519Secret_def sealed_enter_def io_basic)
qed

section \<open>A wipe in the middle of a mint\<close>

lemma forget_session: "session_state (fst (forget_storage w)) = session_state w"
proof (rule session_of_keeps [where Q = "\<lambda>_. True"])
  show "keeps (\<lambda>w. session_state w = t) forget_storage (\<lambda>_. True)" for t
    unfolding forget_storage_def clearRoomHostSeed_def db_delete_def db_clear_def
    by (intro keeps_rules session.keeps_write keeps_update) (simp_all add: session_state_def set_db_def)
qed

lemma forgotten_session:
  assumes "clearDeviceIdentity w = (w', r)"
  shows "w_epoch w' = Suc (w_epoch w) \<and> w_sealed w' = None \<and> w_identity w' = None"
  using assms forget_session [of "fst (forget_memory w)"]
  by (simp add: clearDeviceIdentity_def forget_memory_def io_basic session_state_def split: prod.splits)

text \<open>A mint that resumes in a later epoch writes nothing and its secret is not current.\<close>

lemma late_settle:
  assumes "sealed_settle P owner epoch found w = (w', q)" and "w_epoch w \<noteq> epoch" and "w_sealed w = None"
  shows "w_db w' = w_db w \<and> w_epoch w' = w_epoch w \<and> cached_sealed o' (w_epoch w') w' = None"
  using assms
  by (cases found)
     (auto simp: sealed_settle_def io_basic unwrapSecretBytes_def wrapSecretBytes_def set_sealed_def quiet_draw
       cached_sealed_def split: option.splits if_splits)

text \<open>C26: Forgetting the device wins over a mint it interrupts: if the device is forgotten while a mint of the
  sealed secret has read the storage but not yet settled, whatever it found and whether or
  not deleting succeeded, the mint then writes nothing to any database, no secret is cached as
  current for anyone, and a caller that comes next does not join the old mint but starts anew.
  The same holds when a restore ends in between.\<close>

theorem sealed_wipe_not_resurrected:
  assumes "sealed_read P owner w = (w1, Inr found)"
    and "clearDeviceIdentity w1 = (w2, r) \<or> replace_finish w1 = (w2, r)"
    and "sealed_settle P owner (w_epoch w) found w2 = (w3, q)"
  shows "w_db w3 = w_db w2 \<and> cached_sealed o' (w_epoch w3) w3 = None
    \<and> sealed_enter owner (Some (owner, w_epoch w)) w3 = Mint"
proof -
  have "w_epoch w1 = w_epoch w" using sealed_read_cases [OF assms(1)] by (simp add: session_state_def)
  then have "w_epoch w2 = Suc (w_epoch w)" "w_sealed w2 = None"
    using assms(2) forgotten_session [of w1 w2 r] by (auto simp: replace_finish_def update_def)
  then have "w_db w3 = w_db w2" "w_epoch w3 = Suc (w_epoch w)" "cached_sealed x (Suc (w_epoch w)) w3 = None" for x
    using late_settle [OF assms(3), of x] by auto
  then show ?thesis by (simp add: sealed_enter_def)
qed

section \<open>Page loads\<close>

definition stored_sealed :: "platform \<Rightarrow> bytes \<Rightarrow> string \<Rightarrow> bytes \<Rightarrow> world \<Rightarrow> bool" where
  "stored_sealed P kb owner priv w \<longleftrightarrow> length priv = 32 \<and> has_kek P kb w
     \<and> w_db w IdentityDb SEALED_X25519_NAME = Some (SealedRow SEALED_KIND owner (kw_wrap P kb priv))"

lemma wrapped_nonempty:
  assumes "platform_laws P" and "length s = 32"
  shows "kw_wrap P kb s \<noteq> []"
  using laws_length [OF assms(1), of s kb] assms(2) by auto

lemma load_sealed:
  assumes "platform_laws P" and "stored_sealed (other_runtime P f c e) kb owner priv w" and "w_replies w = []"
    and "cached_sealed owner (w_epoch w) w = None"
  shows "\<exists>w'. getOrCreateSealedX25519Secret (other_runtime P f c e) owner w = (w', Inr priv) \<and> w_db w' = w_db w
    \<and> w_identity w' = w_identity w \<and> w_epoch w' = w_epoch w"
proof -
  obtain w1 where k: "getOrCreateWrappingKey (other_runtime P f c e) w = (w1, Inr (aes_kw_key False kb))"
    "kek_frame w w1" "w_db w1 = w_db w"
    using kek_found assms(2,3) unfolding stored_sealed_def by blast
  have "usable_row owner (w_db w IdentityDb SEALED_X25519_NAME) = Some (kw_wrap P kb priv)"
    using assms(1,2) wrapped_nonempty by (simp add: stored_sealed_def usable_row_def)
  then have "sealed_read (other_runtime P f c e) owner w = (w1, Inr (FoundRow (aes_kw_key False kb) (kw_wrap P kb priv)))"
    using assms(2,4) k by (simp add: sealed_read_def io_basic quiet_simps kek_frame_def stored_sealed_def)
  moreover have "unwrapSecretBytes (other_runtime P f c e) (aes_kw_key False kb) (kw_wrap P kb priv) v = (v, Inr priv)" for v
    using unwrap_wrapped(1) [OF assms(1)] assms(2) by (simp add: stored_sealed_def)
  ultimately show ?thesis
    using assms(4) k
    by (simp add: getOrCreateSealedX25519Secret_def sealed_enter_def sealedX25519Inner_def sealedX25519Mint_def
        sealed_settle_def set_sealed_def io_basic kek_frame_def)
qed

lemma create_sealed:
  assumes "has_kek P kb w" and "w_replies w = []" and "cached_sealed owner (w_epoch w) w = None"
    and "usable_row owner (w_db w IdentityDb SEALED_X25519_NAME) = None" and "\<not> foreign_live owner w"
    and "readable (clones_keys P) (w_db w IdentityDb SEALED_X25519_NAME)"
  shows "\<exists>w' priv. getOrCreateSealedX25519Secret P owner w = (w', Inr priv) \<and> w_replies w' = []
    \<and> stored_sealed P kb owner priv w'"
proof -
  obtain w1 where k: "getOrCreateWrappingKey P w = (w1, Inr (aes_kw_key False kb))" "kek_frame w w1" "w_db w1 = w_db w"
    "w_kek w1 = Some (aes_kw_key False kb)"
    using kek_found [OF assms(1,2)] by blast
  have "sealed_read P owner w = (w1, Inr (NoRow (aes_kw_key False kb)))"
    using assms k by (simp add: sealed_read_def io_basic quiet_simps kek_frame_def)
  moreover have "\<not> foreign_live owner w1" using assms(5) k(2) by (simp add: foreign_live_def kek_frame_def)
  ultimately have "\<exists>w'. getOrCreateSealedX25519Secret P owner w = (w', Inr (drawn 32 w1)) \<and> w_replies w' = []
      \<and> stored_sealed P kb owner (drawn 32 w1) w'"
    using assms(1,3) k
    by (simp add: getOrCreateSealedX25519Secret_def sealed_enter_def sealedX25519Inner_def sealedX25519Mint_def
        sealed_settle_def set_sealed_def io_basic kek_frame_def quiet_draw quiet_simps wrapSecretBytes_def
        toArrayBuffer_def foreign_live_def stored_sealed_def has_kek_def) (simp add: aes_kw_key_def)
  then show ?thesis by blast
qed

text \<open>Note: The sealed secret is durable and belongs to one identity: where no other identity is live, a secret
  created for an owner is, after a page load and on a runtime that can still read the key-encryption key, returned again
  as it was, and no other owner is ever given it: for any other the stored row counts as absent.\<close>

theorem sealed_key_survives:
  assumes "platform_laws P" and "has_kek P kb w" and "w_replies w = []" and "cached_sealed owner (w_epoch w) w = None"
    and "usable_row owner (w_db w IdentityDb SEALED_X25519_NAME) = None" and "\<not> foreign_live owner w"
    and "readable (clones_keys P) (w_db w IdentityDb SEALED_X25519_NAME)" and "clones_keys P \<longrightarrow> c"
  shows "\<exists>w' priv. getOrCreateSealedX25519Secret P owner w = (w', Inr priv) \<and> length priv = 32
    \<and> snd (getOrCreateSealedX25519Secret (other_runtime P f c e) owner (reload w')) = Inr priv
    \<and> (usable_row o' (w_db w' IdentityDb SEALED_X25519_NAME) = None \<longleftrightarrow> o' \<noteq> owner)"
proof -
  obtain w' priv where c: "getOrCreateSealedX25519Secret P owner w = (w', Inr priv)" "w_replies w' = []"
    "stored_sealed P kb owner priv w'"
    using create_sealed [OF assms(2-7)] by blast
  have l: "length priv = 32" using c(3) by (simp add: stored_sealed_def)
  have "stored_sealed (other_runtime P f c e) kb owner priv (reload w')"
    using c(3) has_kek_other [of P kb w' c f e] assms(8) by (simp add: stored_sealed_def has_kek_def)
  then have "snd (getOrCreateSealedX25519Secret (other_runtime P f c e) owner (reload w')) = Inr priv"
    using load_sealed [OF assms(1), of f c e kb owner priv "reload w'"] c(2)
    by (auto simp: reload_def cached_sealed_def)
  moreover have "usable_row o' (w_db w' IdentityDb SEALED_X25519_NAME) = None \<longleftrightarrow> o' \<noteq> owner"
    using c(3) wrapped_nonempty [OF assms(1) l] by (simp add: stored_sealed_def usable_row_def)
  ultimately show ?thesis using c(1) l by (intro exI [of _ w'] exI [of _ priv]) simp
qed

theorem sealed_key_survives_witness:
  "\<exists>w' priv. getOrCreateSealedX25519Secret sample_platform ''A'' sample_device = (w', Inr priv)
    \<and> snd (getOrCreateSealedX25519Secret (other_runtime sample_platform (\<lambda>_. False) True False) ''A'' (reload w')) = Inr priv
    \<and> usable_row ''B'' (w_db w' IdentityDb SEALED_X25519_NAME) = None"
proof -
  have w: "has_kek sample_platform (replicate 32 9) sample_device" "w_replies sample_device = []"
    "cached_sealed ''A'' (w_epoch sample_device) sample_device = None"
    "usable_row ''A'' (w_db sample_device IdentityDb SEALED_X25519_NAME) = None" "\<not> foreign_live ''A'' sample_device"
    "readable (clones_keys sample_platform) (w_db sample_device IdentityDb SEALED_X25519_NAME)"
    using sample_device_stored
    by (simp_all add: stored_identity_def sample_device_def fresh_world_def cached_sealed_def foreign_live_def
        usable_row_def names_simps)
  from sealed_key_survives [OF sample_platform_laws w, of True "\<lambda>_. False" False "''B''"]
  show ?thesis by auto
qed

lemma inner_snd: "snd (sealedX25519Inner P owner w) = (case snd (sealedX25519Mint P owner w) of
    Inr priv \<Rightarrow> Inr priv
  | Inl e \<Rightarrow> Inl (case e of IDBUnavailableError r \<Rightarrow> SealedKeyUnavailableError (Some r)
      | _ \<Rightarrow> if error_name e = ''QuotaExceededError'' then SealedKeyUnavailableError None else e))"
  by (simp add: sealedX25519Inner_def io_basic split: prod.split sum.split id_error.split)

text \<open>Note: An identity change severs the sealed secret, whichever route led to it: what an owner is given does not
  depend on the row another identity left behind. In a session whose wrapping key is loaded, the
  result, including errors and randomness, is the same for any two readable rows the owner may not use.\<close>

theorem sealed_severed:
  assumes "w_kek w = Some kek" and "usable_row owner (w_db w IdentityDb SEALED_X25519_NAME) = None"
    and "usable_row owner row = None" and "readable (clones_keys P) row"
    and "readable (clones_keys P) (w_db w IdentityDb SEALED_X25519_NAME)"
  shows "snd (getOrCreateSealedX25519Secret P owner (set_db IdentityDb ((w_db w IdentityDb)(SEALED_X25519_NAME := row)) w))
    = snd (getOrCreateSealedX25519Secret P owner w)"
proof -
  let ?s = "\<lambda>w. set_db IdentityDb ((w_db w IdentityDb)(SEALED_X25519_NAME := row)) w"
  have kek: "getOrCreateWrappingKey P v = (v, Inr kek)" if "w_kek v = Some kek" for v
    using that by (simp add: getOrCreateWrappingKey_def kek_lookup_def io_basic)
  let ?db = "\<lambda>v. w_db v IdentityDb SEALED_X25519_NAME"
  have load: "db_load c IdentityDb SEALED_X25519_NAME v = (case w_replies v of
      [] \<Rightarrow> (v, if readable c (?db v) then Inr (?db v) else Inl (Thrown ''DataCloneError'' []))
    | Refused e # rs \<Rightarrow> (v\<lparr>w_replies := rs\<rparr>, Inl e)
    | _ # rs \<Rightarrow> (v\<lparr>w_replies := rs\<rparr>, if readable c (?db v) then Inr (?db v) else Inl (Thrown ''DataCloneError'' [])))"
    for c v
    by (simp add: db_load_def next_reply_def io_basic split: list.split reply.split)
  have saved: "\<exists>v'. db_save c IdentityDb SEALED_X25519_NAME (SealedRow a b d) v = (v', case w_replies v of
      Refused e # rs \<Rightarrow> Inl e | _ \<Rightarrow> Inr ())" for c a b d v
    by (simp add: db_save_def db_write_def next_reply_def io_basic split: list.split reply.split)
  have settle: "snd (sealed_settle P owner n (NoRow kek) v) = snd (sealed_settle P owner n (NoRow kek) u)"
    if eqs: "w_epoch v = w_epoch u" "w_identity v = w_identity u" "w_draws v = w_draws u" "w_replies v = w_replies u" for u v n
  proof -
    let ?v = "v\<lparr>w_draws := tl (w_draws v)\<rparr>" and ?u = "u\<lparr>w_draws := tl (w_draws u)\<rparr>"
    let ?row = "SealedRow SEALED_KIND owner (kw_wrap P (ck_bytes kek) (drawn 32 u))"
    obtain v' u' where "db_save (clones_keys P) IdentityDb SEALED_X25519_NAME ?row ?v
          = (v', case w_replies v of Refused e # rs \<Rightarrow> Inl e | _ \<Rightarrow> Inr ())"
      "db_save (clones_keys P) IdentityDb SEALED_X25519_NAME ?row ?u
          = (u', case w_replies v of Refused e # rs \<Rightarrow> Inl e | _ \<Rightarrow> Inr ())"
      using saved [of "clones_keys P" _ _ _ ?v] saved [of "clones_keys P" _ _ _ ?u] eqs(4) by fastforce
    moreover have "drawn 32 v = drawn 32 u" using eqs(3) by (simp add: drawn_def)
    ultimately show ?thesis using eqs
      by (simp add: sealed_settle_def io_basic quiet_draw wrapSecretBytes_def foreign_live_def set_sealed_def
          toArrayBuffer_def split: list.split reply.split)
  qed
  have "snd (sealedX25519Mint P owner (?s w)) = snd (sealedX25519Mint P owner w)" if "cached_sealed owner (w_epoch w) w = None"
    using assms kek [of w] kek [of "?s w"] that
    by (auto simp: sealedX25519Mint_def sealed_read_def cached_sealed_def io_basic load
        split: option.split list.split reply.split intro!: settle)
  then show ?thesis
    by (simp add: getOrCreateSealedX25519Secret_def sealed_enter_def cached_sealed_def io_basic inner_snd split: option.split)
qed

definition sample_session :: world where
  "sample_session = (fresh_world [replicate 32 5])\<lparr>w_kek := Some (aes_kw_key False (replicate 32 9))\<rparr>"

theorem sealed_severed_witness:
  "snd (getOrCreateSealedX25519Secret sample_platform ''B''
      (set_db IdentityDb ((w_db sample_session IdentityDb)(SEALED_X25519_NAME := Some (SealedRow SEALED_KIND ''A'' [1, 2]))) sample_session))
   = snd (getOrCreateSealedX25519Secret sample_platform ''B'' sample_session)"
  by (rule sealed_severed [of _ "aes_kw_key False (replicate 32 9)"])
     (simp_all add: sample_session_def fresh_world_def usable_row_def)

theorem sealed_wipe_not_resurrected_witness:
  "\<exists>w2 r w3 q. clearDeviceIdentity sample_session = (w2, r)
    \<and> sealed_settle sample_platform ''A'' 0 (NoRow (aes_kw_key False (replicate 32 9))) w2 = (w3, q)
    \<and> w_db w3 = w_db w2 \<and> cached_sealed ''A'' (w_epoch w3) w3 = None"
proof -
  have "sealed_read sample_platform ''A'' sample_session = (sample_session, Inr (NoRow (aes_kw_key False (replicate 32 9))))"
    by (simp add: sample_session_def fresh_world_def sealed_read_def cached_sealed_def io_basic getOrCreateWrappingKey_def
        kek_lookup_def quiet_simps usable_row_def)
  moreover obtain w2 r where c: "clearDeviceIdentity sample_session = (w2, r)" by fastforce
  moreover obtain w3 q where d: "sealed_settle sample_platform ''A'' (w_epoch sample_session)
      (NoRow (aes_kw_key False (replicate 32 9))) w2 = (w3, q)" by fastforce
  ultimately have "w_db w3 = w_db w2 \<and> cached_sealed ''A'' (w_epoch w3) w3 = None"
    using sealed_wipe_not_resurrected by blast
  then show ?thesis using c d by (simp add: sample_session_def fresh_world_def)
qed

section \<open>The identity others seal to\<close>

text \<open>A key with a signature that verifies under the given public key.\<close>

definition key_bound :: "platform \<Rightarrow> bytes \<Rightarrow> x25519_identity \<Rightarrow> bool" where
  "key_bound P edPub x \<longleftrightarrow> length (xi_priv x) = 32 \<and> xi_pub x = x_public P (xi_priv x)
     \<and> verifyX25519SelfSig P (xi_pub x) (xi_selfSig x) edPub = Inr True"

definition signature_law :: "platform \<Rightarrow> bool" where
  "signature_law P \<longleftrightarrow> (\<forall>s m. length s = 32 \<longrightarrow> ed_verify P (ed_public P s) m (ed_sign P s m) = Some True)"

lemma bind_key_bound:
  assumes "platform_laws P" and "signature_law P" and "length seed = 32" and "bind_key P seed priv w = (w', Inr x)"
  shows "key_bound P (ed_public P seed) x \<and> xi_priv x = priv \<and> w' = w"
proof -
  have "length (x_public P priv) = 32" using assms(1) by (simp add: platform_laws_def)
  then show ?thesis using assms(2-4)
    by (auto simp: bind_key_def io_basic pkbind_bytes_def key_bound_def verifyX25519SelfSig_def signature_law_def
        split: if_splits)
qed

lemma handOut_same [simp]: "handOut x = x"
  by (simp add: handOut_def)

text \<open>Note: Every sealed identity handed out is usable: its public key is the one of its private key, and its
  signature verifies under the signing key of the identity it was asked for; and the memo keeps
  holding only such ones for this identity, whatever is stored, fails or is refused meanwhile.\<close>

theorem x25519_identity_bound:
  assumes "platform_laws P" and "signature_law P" and "privateKeySeed i = Some (OpaquePrivateKey seed)" and "length seed = 32"
    and "\<forall>e y. memo obj = Some (e, y) \<longrightarrow> key_bound P (ed_public P seed) y"
    and "getOrCreateX25519Identity P obj i memo w = (w', Inr (memo', x))"
  shows "key_bound P (ed_public P seed) x \<and> (\<forall>e y. memo' obj = Some (e, y) \<longrightarrow> key_bound P (ed_public P seed) y)"
proof (cases "memo_hit memo obj (w_epoch w)")
  case None
  obtain w1 priv where p: "getOrCreateSealedX25519Secret P (publicKeyB64 i) w = (w1, Inr priv)"
    and f: "x25519_finish P obj (w_epoch w) (OpaquePrivateKey seed) memo priv w1 = (w', Inr (memo', x))"
    using assms(3,6) None by (auto simp: getOrCreateX25519Identity_def io_basic split: prod.splits sum.splits)
  obtain w2 y where b: "bind_key P seed priv w1 = (w2, Inr y)" "x = y" "memo' = memo \<or> memo' = memo(obj \<mapsto> (w_epoch w, y))"
    using f by (auto simp: x25519_finish_def io_basic split: prod.splits sum.splits if_splits)
  then show ?thesis using bind_key_bound [OF assms(1,2,4) b(1)] assms(5) by auto
next
  case (Some y)
  then show ?thesis using assms(5,6)
    by (auto simp: getOrCreateX25519Identity_def io_basic memo_hit_def split: option.splits if_splits)
qed

lemma sample_signature_law: "signature_law sample_platform"
  by (simp add: signature_law_def sample_platform_def o_def)

definition sample_owner :: identity where
  "sample_owner = \<lparr>publicKeyB64 = ''A'', publicKey = None, privateKey = None,
     privateKeySeed = Some (OpaquePrivateKey (replicate 32 1))\<rparr>"

lemma sample_sealed:
  "\<exists>w'. getOrCreateSealedX25519Secret sample_platform ''A'' sample_session = (w', Inr (replicate 32 5)) \<and> w_epoch w' = 0"
  by (simp add: getOrCreateSealedX25519Secret_def sealed_enter_def sealedX25519Inner_def sealedX25519Mint_def
      sealed_read_def sealed_settle_def set_sealed_def io_basic quiet_simps quiet_draw drawn_def wrapSecretBytes_def
      foreign_live_def cached_sealed_def sample_session_def fresh_world_def getOrCreateWrappingKey_def kek_lookup_def
      usable_row_def)

theorem x25519_identity_bound_witness:
  "\<exists>w' memo x. getOrCreateX25519Identity sample_platform 0 sample_owner (\<lambda>_. None) sample_session = (w', Inr (memo, x))
    \<and> key_bound sample_platform (ed_public sample_platform (replicate 32 1)) x"
proof -
  obtain w' memo x where g: "getOrCreateX25519Identity sample_platform 0 sample_owner (\<lambda>_. None) sample_session
      = (w', Inr (memo, x))"
    using sample_sealed
    by (auto simp: getOrCreateX25519Identity_def io_basic memo_hit_def sample_owner_def x25519_finish_def bind_key_def
        pkbind_bytes_def sample_platform_def)
  then show ?thesis
    using x25519_identity_bound [OF sample_platform_laws sample_signature_law _ _ _ g] by (auto simp: sample_owner_def)
qed

text \<open>Note: A secret that was never stored is memoised as current: asked for an identity that is not the live one,
  with no row of its own, in a settled session, the code hands out a freshly drawn key, writes
  nothing, and serves that same key to every later caller with this identity object until the
  page is left, although no page load can read it again.\<close>

theorem retired_memo_unpersisted:
  assumes "platform_laws P" and "has_kek P kb w" and "w_replies w = []" and "foreign_live (publicKeyB64 i) w"
    and "cached_sealed (publicKeyB64 i) (w_epoch w) w = None" and "memo_hit memo obj (w_epoch w) = None"
    and "usable_row (publicKeyB64 i) (w_db w IdentityDb SEALED_X25519_NAME) = None"
    and "privateKeySeed i = Some seed" and "readable (clones_keys P) (w_db w IdentityDb SEALED_X25519_NAME)"
  shows "\<exists>w' memo' x. getOrCreateX25519Identity P obj i memo w = (w', Inr (memo', x)) \<and> w_db w' = w_db w
    \<and> getOrCreateX25519Identity P obj i memo' w' = (w', Inr (memo', x))
    \<and> cached_sealed (publicKeyB64 i) (w_epoch w') w' = None
    \<and> usable_row (publicKeyB64 i) (w_db (reload w') IdentityDb SEALED_X25519_NAME) = None"
proof -
  let ?o = "publicKeyB64 i"
  obtain w1 where k: "getOrCreateWrappingKey P w = (w1, Inr (aes_kw_key False kb))" "kek_frame w w1" "w_db w1 = w_db w"
    using kek_found [OF assms(2,3)] by blast
  let ?priv = "drawn 32 w1" and ?w2 = "w1\<lparr>w_draws := tl (w_draws w1)\<rparr>"
  have "sealed_read P ?o w = (w1, Inr (NoRow (aes_kw_key False kb)))"
    using assms(5,7,9) k assms(3) by (simp add: sealed_read_def io_basic quiet_simps kek_frame_def)
  moreover have "foreign_live ?o ?w2" using assms(4) k(2) by (simp add: foreign_live_def kek_frame_def)
  ultimately have call: "getOrCreateSealedX25519Secret P ?o w = (?w2, Inr ?priv)"
    using assms(5) k(2)
    by (simp add: getOrCreateSealedX25519Secret_def sealed_enter_def sealedX25519Inner_def sealedX25519Mint_def
        sealed_settle_def io_basic kek_frame_def quiet_draw wrapSecretBytes_def)
  have "length (x_public P ?priv) = 32" using assms(1) by (simp add: platform_laws_def)
  then obtain x where b: "bind_key P (opaque_bytes seed) ?priv v = (v, Inr x)" for v
    by (simp add: bind_key_def io_basic pkbind_bytes_def)
  let ?memo = "memo(obj \<mapsto> (w_epoch w, x))"
  have "w_epoch ?w2 = w_epoch w" using k(2) by (simp add: kek_frame_def)
  then have first: "getOrCreateX25519Identity P obj i memo w = (?w2, Inr (?memo, x))"
    and again: "getOrCreateX25519Identity P obj i ?memo ?w2 = (?w2, Inr (?memo, x))"
    using assms(6,8) call b
    by (simp_all add: getOrCreateX25519Identity_def io_basic x25519_finish_def memo_hit_def)
  have "cached_sealed ?o (w_epoch ?w2) ?w2 = None" using assms(5) k(2) by (simp add: cached_sealed_def kek_frame_def)
  then show ?thesis using first again k(3) assms(7) by (intro exI [of _ ?w2] exI [of _ ?memo] exI [of _ x]) simp
qed

theorem retired_memo_unpersisted_witness:
  "\<exists>w' memo' x. getOrCreateX25519Identity sample_platform 0 sample_owner (\<lambda>_. None)
      (sample_device\<lparr>w_identity := Some (sample_owner\<lparr>publicKeyB64 := ''live''\<rparr>)\<rparr>) = (w', Inr (memo', x))
    \<and> getOrCreateX25519Identity sample_platform 0 sample_owner memo' w' = (w', Inr (memo', x))
    \<and> usable_row ''A'' (w_db (reload w') IdentityDb SEALED_X25519_NAME) = None"
proof -
  let ?w = "sample_device\<lparr>w_identity := Some (sample_owner\<lparr>publicKeyB64 := ''live''\<rparr>)\<rparr>"
  have "has_kek sample_platform (replicate 32 9) ?w" "w_replies ?w = []" "foreign_live (publicKeyB64 sample_owner) ?w"
    "cached_sealed (publicKeyB64 sample_owner) (w_epoch ?w) ?w = None" "memo_hit (\<lambda>_. None) 0 (w_epoch ?w) = None"
    "usable_row (publicKeyB64 sample_owner) (w_db ?w IdentityDb SEALED_X25519_NAME) = None"
    "readable (clones_keys sample_platform) (w_db ?w IdentityDb SEALED_X25519_NAME)"
    using sample_device_stored
    by (simp_all add: stored_identity_def has_kek_def sample_device_def fresh_world_def cached_sealed_def foreign_live_def
        usable_row_def memo_hit_def sample_owner_def names_simps)
  from retired_memo_unpersisted [OF sample_platform_laws this(1-6) _ this(7), of "OpaquePrivateKey (replicate 32 1)"]
  show ?thesis by (auto simp: sample_owner_def)
qed

text \<open>Note: A write that is accepted but not committed is taken for durable: where the transaction of the save
  aborts after its request succeeded, the secret is returned and cached as current while the
  databases are as before; the caller sees no SealedKeyUnavailableError.\<close>

theorem sealed_commit_abort:
  assumes "w_kek w = Some kek" and "w_replies w = [Granted, AbortsAtCommit]" and "\<not> foreign_live owner w"
    and "cached_sealed owner (w_epoch w) w = None" and "usable_row owner (w_db w IdentityDb SEALED_X25519_NAME) = None"
    and "readable (clones_keys P) (w_db w IdentityDb SEALED_X25519_NAME)"
  shows "\<exists>w' priv. getOrCreateSealedX25519Secret P owner w = (w', Inr priv) \<and> w_db w' = w_db w
    \<and> sealed_enter owner None w' = Serve priv"
  using assms
  by (simp add: getOrCreateSealedX25519Secret_def sealed_enter_def sealedX25519Inner_def sealedX25519Mint_def
      sealed_read_def sealed_settle_def set_sealed_def io_basic quiet_draw wrapSecretBytes_def foreign_live_def
      cached_sealed_def getOrCreateWrappingKey_def kek_lookup_def db_load_def db_save_def db_write_def next_reply_def)

theorem sealed_commit_abort_witness:
  "\<exists>w' priv. getOrCreateSealedX25519Secret sample_platform ''A'' (sample_session\<lparr>w_replies := [Granted, AbortsAtCommit]\<rparr>)
      = (w', Inr priv) \<and> w_db w' IdentityDb SEALED_X25519_NAME = None \<and> sealed_enter ''A'' None w' = Serve priv"
  using sealed_commit_abort [of "sample_session\<lparr>w_replies := [Granted, AbortsAtCommit]\<rparr>" "aes_kw_key False (replicate 32 9)"
      "''A''" sample_platform]
  by (auto simp: sample_session_def fresh_world_def foreign_live_def cached_sealed_def usable_row_def)

end
