(* ===== verification/Host_Keys.thy ===== *)
theory Host_Keys
  imports Identity_Life
begin

text \<open>
  What holds of the room host keys of \<open>room-host-seed.ts\<close> and \<open>host-identity.ts\<close>: signed payloads
  determine the action, and the keys are the same after a page load.
\<close>

section \<open>Payloads\<close>

definition join_colons :: "string list \<Rightarrow> string" where
  "join_colons parts = concat (map (\<lambda>p. CHR '':'' # p) parts)"

lemma join_colons_inj:
  assumes "list_all (\<lambda>p. CHR '':'' \<notin> set p) ps" and "list_all (\<lambda>p. CHR '':'' \<notin> set p) qs"
    and "join_colons ps = join_colons qs"
  shows "ps = qs"
  using assms
proof (induction ps arbitrary: qs)
  case Nil
  then show ?case by (cases qs) (simp_all add: join_colons_def)
next
  case (Cons p ps)
  obtain q qs' where qs: "qs = q # qs'" using Cons.prems(3) by (cases qs) (simp_all add: join_colons_def)
  have eq: "p @ join_colons ps = q @ join_colons qs'" using Cons.prems(3) qs by (simp add: join_colons_def)
  have free: "CHR '':'' \<notin> set p" "CHR '':'' \<notin> set q" using Cons.prems qs by simp_all
  have until: "takeWhile (\<lambda>c. c \<noteq> CHR '':'') (x @ join_colons xs) = x" if "CHR '':'' \<notin> set x" for x xs
    using that by (subst takeWhile_append2) (auto simp: join_colons_def, cases xs, simp_all)
  have "p = q" using eq until [OF free(1), of ps] until [OF free(2), of qs'] by simp
  then show ?case using eq Cons qs by simp
qed

text \<open>An action as the parts of its payload.\<close>

fun action_parts :: "host_action \<Rightarrow> string \<times> string list" where
  "action_parts (Kick r t ts) = (''kick'', [r, t, dec_text ts])"
| "action_parts (Lock r ts) = (''lock'', [r, dec_text ts])"
| "action_parts (Unlock r ts) = (''unlock'', [r, dec_text ts])"
| "action_parts (PinMint r ts) = (''pin-mint'', [r, dec_text ts])"
| "action_parts (ShortlinkMint r ts redirect) =
     (''shortlink-mint'', (case redirect of None \<Rightarrow> [r, dec_text ts] | Some x \<Rightarrow> [r, x, dec_text ts]))"

lemma payload_parts: "CHR '':'' # payload_of a = join_colons (fst (action_parts a) # snd (action_parts a))"
  by (cases a) (auto simp: join_colons_def buildKickPayload_def buildLockPayload_def buildUnlockPayload_def
      buildPinMintPayload_def buildShortlinkMintPayload_def split: option.splits)

lemma dec_text_plain: "CHR '':'' \<notin> set (dec_text n)"
proof
  assume "CHR '':'' \<in> set (dec_text n)"
  then have "is_digit (CHR '':'')" using dec_text_digits [of n] by (simp only: list_all_iff)
  then show False by (simp add: is_digit_def)
qed

lemma parts_plain: "colon_free a \<Longrightarrow> list_all (\<lambda>p. CHR '':'' \<notin> set p) (fst (action_parts a) # snd (action_parts a))"
  by (cases a) (auto simp: colon_free_def dec_text_plain split: option.splits)

lemma dec_text_inj: "dec_text m = dec_text n \<longleftrightarrow> m = n"
  by (metis dec_value_text)

lemma parts_inj: "action_parts a = action_parts b \<Longrightarrow> a = b"
  by (cases a; cases b; simp add: dec_text_inj split: option.split_asm)

text \<open>Note: A signed payload determines the action: of actions whose texts contain no colon, no two have the same
  payload, whatever their kinds, rooms, targets, times and redirects, so no signature made for one
  is one for another. The condition is needed: a room name with a colon collides with a redirect.\<close>

theorem payload_determines_action:
  "(colon_free a \<and> colon_free b \<and> a \<noteq> b \<longrightarrow> payload_of a \<noteq> payload_of b)
   \<and> payload_of (ShortlinkMint (r @ '':'' @ x) ts None) = payload_of (ShortlinkMint r ts (Some x))"
proof -
  have "a = b" if "colon_free a" "colon_free b" "payload_of a = payload_of b"
    using join_colons_inj [OF parts_plain [OF that(1)] parts_plain [OF that(2)]] that(3)
    by (intro parts_inj) (simp add: payload_parts [symmetric] prod_eq_iff)
  then show ?thesis by (auto simp: buildShortlinkMintPayload_def)
qed

theorem payload_determines_action_witness:
  "payload_of (PinMint ''ABC-1234'' 1700000000) \<noteq> payload_of (ShortlinkMint ''ABC-1234'' 1700000000 None)"
  using payload_determines_action [of "PinMint ''ABC-1234'' 1700000000" "ShortlinkMint ''ABC-1234'' 1700000000 None"]
  by (simp add: colon_free_def)

section \<open>Keys over page loads\<close>

text \<open>The stored wrapping key and the seed wrapped with it.\<close>

definition has_room_kek :: "platform \<Rightarrow> bytes \<Rightarrow> world \<Rightarrow> bool" where
  "has_room_kek P kb w \<longleftrightarrow> kek_stored (clones_keys P) kb (w_db w RoomDb ROOM_WRAPPING_KEY)
     \<and> (w_roomKek w = None \<or> w_roomKek w = Some (aes_kw_key False kb))"

definition stored_room_seed :: "platform \<Rightarrow> bytes \<Rightarrow> bytes \<Rightarrow> world \<Rightarrow> bool" where
  "stored_room_seed P kb s w \<longleftrightarrow> length s = 32 \<and> has_room_kek P kb w
     \<and> w_db w RoomDb ROOM_KEY = Some (ArrayBuf (kw_wrap P kb s))"

lemma quiet_room_probe:
  assumes "w_replies w = []"
  shows "\<exists>w' b. roomProbeStructuredClone P w = (w', Inr b) \<and> w_replies w' = [] \<and> w_db w' = w_db w
    \<and> w_roomKek w' = w_roomKek w \<and> w_roomSeed w' = w_roomSeed w \<and> (w_roomClone w = None \<longrightarrow> b = clones_keys P)"
  using assms
  by (cases "w_roomClone w") (simp_all add: roomProbeStructuredClone_def generateAesKwKey_def io_defs quiet_draw)

lemma room_kek_found:
  assumes "has_room_kek P kb w" and "w_replies w = []"
  shows "\<exists>w'. roomGetWrappingKey P w = (w', Inr (aes_kw_key False kb)) \<and> w_replies w' = [] \<and> w_db w' = w_db w
    \<and> w_roomSeed w' = w_roomSeed w \<and> w_roomKek w' = Some (aes_kw_key False kb)"
proof (cases "w_roomKek w")
  case None
  obtain x e where x: "w_db w RoomDb ROOM_WRAPPING_KEY = Some x" "readable (clones_keys P) (Some x)" "classifyKekEntry x = Some e"
    "\<And>w. kek_handle e w = (w, Inr (aes_kw_key False kb))"
    using assms(1) kek_stored_entry unfolding has_room_kek_def by metis
  obtain w1 b where "roomProbeStructuredClone P w = (w1, Inr b)" "w_replies w1 = []" "w_db w1 = w_db w"
    "w_roomSeed w1 = w_roomSeed w"
    using quiet_room_probe [OF assms(2)] by blast
  then show ?thesis using None x
    by (simp add: roomGetWrappingKey_def room_kek_lookup_def io_defs quiet_simps set_room_kek_def)
next
  case (Some k)
  then show ?thesis using assms by (simp add: has_room_kek_def roomGetWrappingKey_def room_kek_lookup_def io_defs)
qed

lemma room_kek_first:
  assumes "w_roomKek w = None" and "w_roomClone w = None" and "w_db w RoomDb ROOM_WRAPPING_KEY = None" and "w_replies w = []"
  shows "\<exists>w' kb. roomGetWrappingKey P w = (w', Inr (aes_kw_key False kb)) \<and> w_replies w' = [] \<and> has_room_kek P kb w'
    \<and> w_db w' RoomDb ROOM_KEY = w_db w RoomDb ROOM_KEY"
proof -
  obtain w1 where p: "roomProbeStructuredClone P w = (w1, Inr (clones_keys P))" "w_replies w1 = []" "w_db w1 = w_db w"
    "w_roomKek w1 = None"
    using quiet_room_probe [OF assms(4), of P] assms(1,2) by auto
  have "ROOM_KEY \<noteq> ROOM_WRAPPING_KEY" by (simp add: ROOM_KEY_def ROOM_WRAPPING_KEY_def)
  then show ?thesis using p assms(1,3)
    by (cases "clones_keys P")
       (simp_all add: roomGetWrappingKey_def room_kek_lookup_def room_kek_mint_def io_defs quiet_simps set_room_kek_def
         generateAesKwKey_def quiet_draw exportRaw_def importAesKwRaw_def has_room_kek_def kek_stored_def aes_kw_key_def)
qed

lemma load_room_seed:
  assumes "platform_laws P" and "stored_room_seed (other_runtime P f c e) kb s w" and "w_replies w = []" and "w_roomSeed w = None"
  shows "snd (getOrCreateRoomHostSeed (other_runtime P f c e) w) = Inr s"
proof -
  obtain w1 where "roomGetWrappingKey (other_runtime P f c e) w = (w1, Inr (aes_kw_key False kb))" "w_replies w1 = []"
    "w_db w1 = w_db w"
    using room_kek_found assms(2,3) unfolding stored_room_seed_def by blast
  then show ?thesis using assms(2,4) unwrap_wrapped(1) [OF assms(1)]
    by (simp add: getOrCreateRoomHostSeed_def io_basic quiet_simps stored_room_seed_def as_buffer_def set_room_seed_def)
qed

lemma create_room_seed:
  assumes "w_roomKek w = None" and "w_roomClone w = None" and "w_db w RoomDb ROOM_WRAPPING_KEY = None"
    and "w_db w RoomDb ROOM_KEY = None" and "w_roomSeed w = None" and "w_replies w = []"
  shows "\<exists>w' kb s. getOrCreateRoomHostSeed P w = (w', Inr s) \<and> w_replies w' = [] \<and> stored_room_seed P kb s w'"
proof -
  obtain w1 kb where k: "roomGetWrappingKey P w = (w1, Inr (aes_kw_key False kb))" "w_replies w1 = []" "has_room_kek P kb w1"
    "w_db w1 RoomDb ROOM_KEY = None"
    using room_kek_first [OF assms(1-3,6)] assms(4) by metis
  have "ROOM_KEY \<noteq> ROOM_WRAPPING_KEY" by (simp add: ROOM_KEY_def ROOM_WRAPPING_KEY_def)
  then have "\<exists>w'. getOrCreateRoomHostSeed P w = (w', Inr (drawn 32 w1)) \<and> w_replies w' = []
      \<and> stored_room_seed P kb (drawn 32 w1) w'"
    using k assms(5)
    by (simp add: getOrCreateRoomHostSeed_def io_basic quiet_simps quiet_draw wrapSecretBytes_def toArrayBuffer_def
        set_room_seed_def stored_room_seed_def has_room_kek_def) (simp add: aes_kw_key_def)
  then show ?thesis by blast
qed

text \<open>What the signing key of a room is, as a function of the seed.\<close>

definition room_key_of :: "platform \<Rightarrow> bytes \<Rightarrow> string \<Rightarrow> bytes" where
  "room_key_of P s roomId = hkdf_sha256 P s ROOM_HOST_HKDF_SALT (utf8 (''oxpulse/room-host/v1/'' @ roomId)) 32"

lemma host_key_of_seed:
  assumes "getOrCreateRoomHostSeed Q w = (w', Inr s)" and "length (room_key_of Q s roomId) = 32"
  shows "snd (getOrCreateRoomHostKey Q roomId w) = Inr \<lparr>hk_public = toBase64url (ed_public Q (room_key_of Q s roomId)),
    hk_private = None, hk_seed = Some (room_key_of Q s roomId)\<rparr>"
  using assms by (simp add: getOrCreateRoomHostKey_def io_basic room_key_of_def noble_public_def Let_def)

text \<open>Note: The host of a room keeps its authority: the key for a room that a device without a stored seed creates
  is, after a page load and on a runtime of other capabilities that can still read the stored key, created again, and what it
  signs then verifies under the public key of before. A key depends on the stored seed and the
  room name alone.\<close>

theorem host_key_survives:
  assumes "platform_laws P" and "w_roomKek w = None" and "w_roomClone w = None" and "w_db w RoomDb ROOM_WRAPPING_KEY = None"
    and "w_db w RoomDb ROOM_KEY = None" and "w_roomSeed w = None" and "w_replies w = []"
    and "\<forall>ikm salt info n. length (hkdf_sha256 P ikm salt info n) = n"
    and "\<forall>s m. length s = 32 \<longrightarrow> ed_verify P (ed_public P s) m (ed_sign P s m) = Some True"
    and "clones_keys P \<longrightarrow> c"
  shows "\<exists>key. snd (getOrCreateRoomHostKey P roomId w) = Inr key
    \<and> snd (getOrCreateRoomHostKey (other_runtime P f c e) roomId (reload (fst (getOrCreateRoomHostSeed P w)))) = Inr key
    \<and> (\<exists>pub sig. fromBase64url (hk_public key) = Some pub
        \<and> snd (signHostAction (other_runtime P f c e) key payload w) = Inr (toBase64url sig)
        \<and> ed_verify P pub (utf8 payload) sig = Some True)"
proof -
  let ?P = "other_runtime P f c e"
  obtain w1 kb s where s: "getOrCreateRoomHostSeed P w = (w1, Inr s)" "w_replies w1 = []" "stored_room_seed P kb s w1"
    using create_room_seed [OF assms(2-7)] by blast
  have "stored_room_seed ?P kb s (reload w1)"
    using s(3) assms(10) by (auto simp: stored_room_seed_def has_room_kek_def reload_def intro: kek_stored_mono)
  then have "snd (getOrCreateRoomHostSeed ?P (reload w1)) = Inr s"
    by (rule load_room_seed [OF assms(1)]) (simp_all add: s(2) reload_def)
  then obtain w2 where r: "getOrCreateRoomHostSeed ?P (reload w1) = (w2, Inr s)" by (metis prod.collapse)
  have l: "length (room_key_of P s roomId) = 32" "room_key_of ?P s roomId = room_key_of P s roomId"
    using assms(8) by (simp_all add: room_key_of_def)
  show ?thesis
    using host_key_of_seed [OF s(1) l(1)] host_key_of_seed [OF r] l assms(9) s(1)
    by (simp add: signHostAction_def ret_def decode_encode) metis
qed

theorem host_key_survives_witness:
  "\<exists>key. snd (getOrCreateRoomHostKey sample_platform ''room'' (fresh_world [replicate 32 9, replicate 32 8])) = Inr key
    \<and> snd (getOrCreateRoomHostKey (other_runtime sample_platform (\<lambda>_. False) True False) ''room''
        (reload (fst (getOrCreateRoomHostSeed sample_platform (fresh_world [replicate 32 9, replicate 32 8]))))) = Inr key"
proof -
  have l: "\<forall>ikm salt info n. length (hkdf_sha256 sample_platform ikm salt info n) = n"
    by (auto simp: sample_platform_def min_def)
  have v: "\<forall>s m. length s = 32 \<longrightarrow> ed_verify sample_platform (ed_public sample_platform s) m (ed_sign sample_platform s m) = Some True"
    by (simp add: sample_platform_def o_def)
  show ?thesis
    using host_key_survives [OF sample_platform_laws _ _ _ _ _ _ l v, of "fresh_world [replicate 32 9, replicate 32 8]"
        True "''room''" "\<lambda>_. False" False "''lock:room:1''"]
    by (simp add: fresh_world_def) blast
qed

end
