(* ===== verification/Geohash.thy ===== *)
theory Geohash
  imports Complex_Main Room_Host Bridge "HOL-Library.While_Combinator" "HOL-Library.Multiset"
begin

text \<open>
  The mesh channels of \<open>channel.ts\<close>: the geohash of a position, the channel id derived from it and
  the day, the nine channels of a position, and what a position request is answered with.
  Coordinates are rational: the bisection bounds are dyadic multiples of 45 and doubles represent
  them exactly, so the loop computes on doubles what it computes here. BLAKE3 is a parameter.
\<close>

section \<open>Geohash\<close>

definition GEOHASH_ALPHABET :: string where "GEOHASH_ALPHABET = ''0123456789bcdefghjkmnpqrstuvwxyz''"
definition GEOHASH_LENGTH :: nat where "GEOHASH_LENGTH = 4"
definition CHANNEL_ID_HASH_BYTE_COUNT :: nat where "CHANNEL_ID_HASH_BYTE_COUNT = 4"

record geo_state =
  g_latLo :: rat
  g_latHi :: rat
  g_lonLo :: rat
  g_lonHi :: rat
  g_geohash :: string
  g_bits :: nat
  g_bit :: nat
  g_evenBit :: bool

definition geo_init :: geo_state where
  "geo_init = \<lparr>g_latLo = - 90, g_latHi = 90, g_lonLo = - 180, g_lonHi = 180, g_geohash = [],
     g_bits = 0, g_bit = 0, g_evenBit = True\<rparr>"

definition geo_halve_lon :: "rat \<Rightarrow> geo_state \<Rightarrow> geo_state" where
  "geo_halve_lon lon s = (let mid = (g_lonLo s + g_lonHi s) / 2 in
     if mid \<le> lon then s\<lparr>g_bits := 2 * g_bits s + 1, g_lonLo := mid\<rparr>
     else s\<lparr>g_bits := 2 * g_bits s, g_lonHi := mid\<rparr>)"

definition geo_halve_lat :: "rat \<Rightarrow> geo_state \<Rightarrow> geo_state" where
  "geo_halve_lat lat s = (let mid = (g_latLo s + g_latHi s) / 2 in
     if mid \<le> lat then s\<lparr>g_bits := 2 * g_bits s + 1, g_latLo := mid\<rparr>
     else s\<lparr>g_bits := 2 * g_bits s, g_latHi := mid\<rparr>)"

definition geo_emit :: "geo_state \<Rightarrow> geo_state" where
  "geo_emit s = (let s = s\<lparr>g_evenBit := \<not> g_evenBit s, g_bit := g_bit s + 1\<rparr> in
     if g_bit s = 5 then s\<lparr>g_geohash := g_geohash s @ [GEOHASH_ALPHABET ! g_bits s], g_bits := 0, g_bit := 0\<rparr> else s)"

definition geo_step :: "rat \<Rightarrow> rat \<Rightarrow> geo_state \<Rightarrow> geo_state" where
  "geo_step lat lon s = geo_emit (if g_evenBit s then geo_halve_lon lon s else geo_halve_lat lat s)"

text \<open>\<open>None\<close>: the loop does not end.\<close>

definition encodeGeohash :: "rat \<Rightarrow> rat \<Rightarrow> nat \<Rightarrow> string option" where
  "encodeGeohash lat lon precision =
     map_option g_geohash (while_option (\<lambda>s. length (g_geohash s) < precision) (geo_step lat lon) geo_init)"

section \<open>The day\<close>

text \<open>\<open>date.toISOString().slice(0, 10)\<close>, by the proleptic Gregorian calendar, for the years 0 to 9999.\<close>

definition civil :: "int \<Rightarrow> int \<times> int \<times> int" where
  "civil days = (let z = days + 719468; era = z div 146097; doe = z mod 146097;
     yoe = (doe - doe div 1460 + doe div 36524 - doe div 146096) div 365;
     doy = doe - (365 * yoe + yoe div 4 - yoe div 100);
     mp = (5 * doy + 2) div 153;
     m = (if mp < 10 then mp + 3 else mp - 9)
   in (yoe + era * 400 + (if m \<le> 2 then 1 else 0), m, doy - (153 * mp + 2) div 5 + 1))"

definition iso_day :: "int \<Rightarrow> string" where
  "iso_day ms = (case civil (ms div 86400000) of (y, m, d) \<Rightarrow>
     pad_zeros 4 (dec_text (nat y)) @ ''-'' @ pad_zeros 2 (dec_text (nat m)) @ ''-'' @ pad_zeros 2 (dec_text (nat d)))"

lemma iso_day_samples:
  "iso_day 0 = ''1970-01-01''" "iso_day 951782400000 = ''2000-02-29''" "iso_day 1786924799999 = ''2026-08-16''"
  by code_simp+

section \<open>Channels\<close>

record channel_id =
  ci_hash :: bytes
  ci_hex :: string
  ci_geohash :: string
  ci_dayUtc :: string

definition channelIdHash :: "(bytes \<Rightarrow> bytes) \<Rightarrow> rat \<Rightarrow> rat \<Rightarrow> int \<Rightarrow> channel_id option" where
  "channelIdHash blake3 lat lon date =
     (case encodeGeohash lat lon GEOHASH_LENGTH of None \<Rightarrow> None
      | Some geohash \<Rightarrow> let dayUtc = iso_day date;
            hash = take CHANNEL_ID_HASH_BYTE_COUNT (blake3 (utf8 (geohash @ dayUtc)))
          in Some \<lparr>ci_hash = hash, ci_hex = to_hex hash, ci_geohash = geohash, ci_dayUtc = dayUtc\<rparr>)"



text \<open>A \<open>Set\<close> keeps the first occurrence of each element, in insertion order.\<close>

definition set_add :: "'a \<Rightarrow> 'a list \<Rightarrow> 'a list" where
  "set_add x xs = (if x \<in> set xs then xs else xs @ [x])"


section \<open>Asking for the position\<close>

datatype permission = NoPermissionsApi | QueryRejects | PermissionState string

datatype geolocation =
    NoGeolocation
  | Position rat rat
  | PositionError nat permission

datatype channel_reason = ChannelGranted | ChannelDenied | ChannelTimeout | ChannelUnavailable

definition is_denied :: "nat \<Rightarrow> permission \<Rightarrow> bool" where
  "is_denied code perm = (code = 1 \<or> (case perm of PermissionState st \<Rightarrow> st = ''denied'' | _ \<Rightarrow> False))"

definition currentChannelId ::
  "(bytes \<Rightarrow> bytes) \<Rightarrow> geolocation \<Rightarrow> int \<Rightarrow> string option \<times> channel_reason" where
  "currentChannelId blake3 g date =
     (case g of
        NoGeolocation \<Rightarrow> (None, ChannelUnavailable)
      | Position lat lon \<Rightarrow> (map_option ci_hex (channelIdHash blake3 lat lon date), ChannelGranted)
      | PositionError code perm \<Rightarrow> (None, if is_denied code perm then ChannelDenied else ChannelTimeout))"

section \<open>Regions\<close>

text \<open>
  The manual fallback. Display names are UTF-16 code units. Both tables are object literals, so a key
  that is none of their own is looked up in \<open>Object.prototype\<close>, as in \<open>Bridge\<close>.
\<close>

definition REGION_DISPLAY_NAMES :: "(string \<times> nat list) list" where
  "REGION_DISPLAY_NAMES =
    [(''moscow'', [1052, 1086, 1089, 1082, 1074, 1072]), (''spb'', [1057, 1072, 1085, 1082, 1090, 45, 1055, 1077, 1090, 1077, 1088, 1073, 1091, 1088, 1075]),
     (''novosibirsk'', [1053, 1086, 1074, 1086, 1089, 1080, 1073, 1080, 1088, 1089, 1082]), (''yekaterinburg'', [1045, 1082, 1072, 1090, 1077, 1088, 1080, 1085, 1073, 1091, 1088, 1075]),
     (''kazan'', [1050, 1072, 1079, 1072, 1085, 1100]), (''chelyabinsk'', [1063, 1077, 1083, 1103, 1073, 1080, 1085, 1089, 1082]),
     (''omsk'', [1054, 1084, 1089, 1082]), (''samara'', [1057, 1072, 1084, 1072, 1088, 1072]),
     (''rostov'', [1056, 1086, 1089, 1090, 1086, 1074, 45, 1085, 1072, 45, 1044, 1086, 1085, 1091]), (''ufa'', [1059, 1092, 1072]),
     (''krasnoyarsk'', [1050, 1088, 1072, 1089, 1085, 1086, 1103, 1088, 1089, 1082]), (''perm'', [1055, 1077, 1088, 1084, 1100]),
     (''voronezh'', [1042, 1086, 1088, 1086, 1085, 1077, 1078]), (''volgograd'', [1042, 1086, 1083, 1075, 1086, 1075, 1088, 1072, 1076]),
     (''krasnodar'', [1050, 1088, 1072, 1089, 1085, 1086, 1076, 1072, 1088]), (''saratov'', [1057, 1072, 1088, 1072, 1090, 1086, 1074]),
     (''tyumen'', [1058, 1102, 1084, 1077, 1085, 1100]), (''tolyatti'', [1058, 1086, 1083, 1100, 1103, 1090, 1090, 1080]),
     (''izhevsk'', [1048, 1078, 1077, 1074, 1089, 1082]), (''barnaul'', [1041, 1072, 1088, 1085, 1072, 1091, 1083]),
     (''tehran'', [1058, 1077, 1075, 1077, 1088, 1072, 1085]), (''minsk'', [1052, 1080, 1085, 1089, 1082]),
     (''kyiv'', [1050, 1080, 1111, 1074]), (''tbilisi'', [1058, 1073, 1080, 1083, 1080, 1089, 1080]),
     (''yerevan'', [1045, 1088, 1077, 1074, 1072, 1085]), (''almaty'', [1040, 1083, 1084, 1072, 1090, 1099]),
     (''tashkent'', [1058, 1072, 1096, 1082, 1077, 1085, 1090]), (''baku'', [1041, 1072, 1082, 1091]),
     (''bishkek'', [1041, 1080, 1096, 1082, 1077, 1082]), (''dushanbe'', [1044, 1091, 1096, 1072, 1085, 1073, 1077]),
     (''berlin'', [1041, 1077, 1088, 1083, 1080, 1085]), (''paris'', [1055, 1072, 1088, 1080, 1078]),
     (''london'', [1051, 1086, 1085, 1076, 1086, 1085]), (''warsaw'', [1042, 1072, 1088, 1096, 1072, 1074, 1072]),
     (''prague'', [1055, 1088, 1072, 1075, 1072]), (''riga'', [1056, 1080, 1075, 1072]),
     (''tallinn'', [1058, 1072, 1083, 1083, 1080, 1085]), (''vilnius'', [1042, 1080, 1083, 1100, 1085, 1102, 1089]),
     (''helsinki'', [1061, 1077, 1083, 1100, 1089, 1080, 1085, 1082, 1080]), (''vienna'', [1042, 1077, 1085, 1072])]"

definition REGION_FALLBACKS :: "(string \<times> rat \<times> rat) list" where
  "REGION_FALLBACKS =
    [(''moscow'', (557558 / 10000, 376173 / 10000)), (''spb'', (599343 / 10000, 303351 / 10000)), (''novosibirsk'', (550084 / 10000, 829357 / 10000)),
     (''yekaterinburg'', (568389 / 10000, 606057 / 10000)), (''kazan'', (557963 / 10000, 491088 / 10000)), (''chelyabinsk'', (551644 / 10000, 614368 / 10000)),
     (''omsk'', (549885 / 10000, 733242 / 10000)), (''samara'', (532001 / 10000, 5015 / 100)), (''rostov'', (472357 / 10000, 397015 / 10000)),
     (''ufa'', (547388 / 10000, 559721 / 10000)), (''krasnoyarsk'', (560153 / 10000, 928932 / 10000)), (''perm'', (580105 / 10000, 562502 / 10000)),
     (''voronezh'', (516717 / 10000, 392106 / 10000)), (''volgograd'', (487194 / 10000, 445018 / 10000)), (''krasnodar'', (450355 / 10000, 389753 / 10000)),
     (''saratov'', (515924 / 10000, 460342 / 10000)), (''tyumen'', (571553 / 10000, 655619 / 10000)), (''tolyatti'', (535303 / 10000, 493461 / 10000)),
     (''izhevsk'', (568526 / 10000, 532048 / 10000)), (''barnaul'', (533606 / 10000, 837636 / 10000)), (''tehran'', (356892 / 10000, 51389 / 1000)),
     (''minsk'', (539006 / 10000, 27559 / 1000)), (''kyiv'', (504501 / 10000, 305234 / 10000)), (''tbilisi'', (416938 / 10000, 448015 / 10000)),
     (''yerevan'', (401872 / 10000, 445152 / 10000)), (''almaty'', (432551 / 10000, 769126 / 10000)), (''tashkent'', (412995 / 10000, 692401 / 10000)),
     (''baku'', (404093 / 10000, 498671 / 10000)), (''bishkek'', (428746 / 10000, 745698 / 10000)), (''dushanbe'', (385598 / 10000, 687735 / 10000)),
     (''berlin'', (5252 / 100, 13405 / 1000)), (''paris'', (488566 / 10000, 23522 / 10000)), (''london'', (515074 / 10000, - 1278 / 10000)),
     (''warsaw'', (522297 / 10000, 210122 / 10000)), (''prague'', (500755 / 10000, 144378 / 10000)), (''riga'', (569496 / 10000, 241052 / 10000)),
     (''tallinn'', (59437 / 1000, 247536 / 10000)), (''vilnius'', (546872 / 10000, 252797 / 10000)), (''helsinki'', (601699 / 10000, 249384 / 10000)),
     (''vienna'', (482082 / 10000, 163738 / 10000))]"

datatype 'a region_lookup = RegionNull | RegionOwn 'a | RegionInherited string

definition getRegionFallback :: "string \<Rightarrow> (rat \<times> rat) region_lookup" where
  "getRegionFallback regionKey = (case map_of REGION_FALLBACKS regionKey of
      Some c \<Rightarrow> RegionOwn c
    | None \<Rightarrow> if regionKey \<in> set object_prototype then RegionInherited regionKey else RegionNull)"

definition getRegionDisplayName :: "string \<Rightarrow> nat list region_lookup" where
  "getRegionDisplayName regionKey = (case map_of REGION_DISPLAY_NAMES regionKey of
      Some n \<Rightarrow> RegionOwn n
    | None \<Rightarrow> if regionKey \<in> set object_prototype then RegionInherited regionKey
             else RegionOwn (map of_char regionKey))"

text \<open>\<open>sort\<close> compares the texts by code units.\<close>

fun text_le :: "string \<Rightarrow> string \<Rightarrow> bool" where
  "text_le [] t = True"
| "text_le (c # s) [] = False"
| "text_le (c # s) (d # t) = ((of_char c :: nat) < of_char d \<or> c = d \<and> text_le s t)"

fun text_insert :: "string \<Rightarrow> string list \<Rightarrow> string list" where
  "text_insert x [] = [x]"
| "text_insert x (y # ys) = (if text_le x y then x # y # ys else y # text_insert x ys)"

definition availableRegions :: "string list" where
  "availableRegions = foldr text_insert (map fst REGION_FALLBACKS) []"

section \<open>The cells\<close>

text \<open>
  The reference: the axis from \<open>lo\<close> over the length \<open>width\<close> is cut into \<open>2 ^ n\<close> cells of equal
  size; positions outside belong to the first and the last one.
\<close>

definition axis_cell :: "rat \<Rightarrow> rat \<Rightarrow> nat \<Rightarrow> rat \<Rightarrow> int" where
  "axis_cell lo width n x = max 0 (min (2 ^ n - 1) \<lfloor>(x - lo) * 2 ^ n / width\<rfloor>)"

abbreviation lon_cell :: "nat \<Rightarrow> rat \<Rightarrow> int" where "lon_cell \<equiv> axis_cell (- 180) 360"
abbreviation lat_cell :: "nat \<Rightarrow> rat \<Rightarrow> int" where "lat_cell \<equiv> axis_cell (- 90) 180"

lemma axis_cell_range: "0 \<le> axis_cell lo width n x \<and> axis_cell lo width n x \<le> 2 ^ n - 1"
  by (simp add: axis_cell_def)

lemma axis_cell_0: "axis_cell lo width 0 x = 0"
  by (simp add: axis_cell_def)

lemma halve_clamped:
  fixes a b N :: int
  assumes "1 \<le> N" and "2 * a \<le> b" and "b \<le> 2 * a + 1" and "k = max 0 (min (N - 1) a)"
  shows "max 0 (min (2 * N - 1) b) = 2 * k + (if 2 * k + 1 \<le> b then 1 else 0)"
  using assms by (auto simp: max_def min_def)

text \<open>Halving a cell decides the next binary digit.\<close>

lemma axis_cell_Suc:
  assumes "0 < width"
  shows "axis_cell lo width (Suc n) x = 2 * axis_cell lo width n x
    + (if lo + width * (2 * of_int (axis_cell lo width n x) + 1) / 2 ^ Suc n \<le> x then 1 else 0)"
proof -
  define y where "y = (x - lo) * 2 ^ Suc n / width"
  define k where "k = axis_cell lo width n x"
  have test: "lo + width * (2 * of_int k + 1) / 2 ^ Suc n \<le> x \<longleftrightarrow> 2 * of_int k + 1 \<le> y"
    using assms by (simp add: y_def field_simps)
  have half: "\<lfloor>(x - lo) * 2 ^ n / width\<rfloor> = \<lfloor>y / 2\<rfloor>" by (simp add: y_def)
  have k: "k = max 0 (min (2 ^ n - 1) \<lfloor>y / 2\<rfloor>)" by (simp add: k_def axis_cell_def half)
  have goal: "axis_cell lo width (Suc n) x = max 0 (min (2 * 2 ^ n - 1) \<lfloor>y\<rfloor>)"
    by (simp add: axis_cell_def y_def)
  have floors: "2 * \<lfloor>y / 2\<rfloor> \<le> \<lfloor>y\<rfloor>" "\<lfloor>y\<rfloor> \<le> 2 * \<lfloor>y / 2\<rfloor> + 1"
    by linarith+
  have test': "2 * of_int k + 1 \<le> y \<longleftrightarrow> 2 * k + 1 \<le> \<lfloor>y\<rfloor>"
    by (simp add: le_floor_iff)
  have "max 0 (min (2 * 2 ^ n - 1) \<lfloor>y\<rfloor>) = 2 * k + (if 2 * k + 1 \<le> \<lfloor>y\<rfloor> then 1 else 0)"
    by (rule halve_clamped [OF _ floors k]) simp
  then show ?thesis using goal test test' by (simp add: k_def)
qed

text \<open>The digits in the order the loop takes them, longitude first, and their value in groups.\<close>

definition geo_digit :: "rat \<Rightarrow> rat \<Rightarrow> nat \<Rightarrow> int" where
  "geo_digit lat lon i = (if even i then lon_cell (Suc (i div 2)) lon else lat_cell (Suc (i div 2)) lat) mod 2"

fun digits_value :: "rat \<Rightarrow> rat \<Rightarrow> nat \<Rightarrow> nat \<Rightarrow> nat" where
  "digits_value lat lon i 0 = 0"
| "digits_value lat lon i (Suc m) = 2 * digits_value lat lon i m + nat (geo_digit lat lon (i + m))"

definition axis_at :: "rat \<Rightarrow> rat \<Rightarrow> nat \<Rightarrow> rat \<Rightarrow> rat \<Rightarrow> rat \<Rightarrow> bool" where
  "axis_at base width n x lo hi \<longleftrightarrow> lo = base + width * of_int (axis_cell base width n x) / 2 ^ n \<and> hi = lo + width / 2 ^ n"

definition geo_inv :: "rat \<Rightarrow> rat \<Rightarrow> nat \<Rightarrow> geo_state \<Rightarrow> bool" where
  "geo_inv lat lon k s \<longleftrightarrow>
     axis_at (- 180) 360 (Suc k div 2) lon (g_lonLo s) (g_lonHi s)
     \<and> axis_at (- 90) 180 (k div 2) lat (g_latLo s) (g_latHi s)
     \<and> g_evenBit s = even k \<and> g_bit s = k mod 5
     \<and> g_bits s = digits_value lat lon (k - k mod 5) (k mod 5)
     \<and> g_geohash s = map (\<lambda>j. GEOHASH_ALPHABET ! digits_value lat lon (5 * j) 5) [0..<k div 5]"

lemma axis_halve:
  assumes "axis_at base width n x lo hi" and "0 < width" and "mid = (lo + hi) / 2"
  shows "axis_at base width (Suc n) x (if mid \<le> x then mid else lo) (if mid \<le> x then hi else mid)"
    and "axis_cell base width (Suc n) x mod 2 = (if mid \<le> x then 1 else 0)"
proof -
  let ?k = "axis_cell base width n x"
  define d where "d = width / 2 ^ n"
  have d: "lo = base + d * of_int ?k" "hi = lo + d" using assms(1) by (simp_all add: axis_at_def d_def)
  have "mid = base + (d * of_int ?k + d / 2)" unfolding assms(3) d(2) d(1) by (simp add: field_simps)
  also have "d * of_int ?k + d / 2 = width * (2 * of_int ?k + 1) / 2 ^ Suc n"
    by (simp add: d_def field_simps)
  finally have "mid = base + width * (2 * of_int ?k + 1) / 2 ^ Suc n" .
  then have step: "axis_cell base width (Suc n) x = 2 * ?k + (if mid \<le> x then 1 else 0)"
    using axis_cell_Suc [OF assms(2), of base n x] by simp
  then show "axis_cell base width (Suc n) x mod 2 = (if mid \<le> x then 1 else 0)" by simp
  show "axis_at base width (Suc n) x (if mid \<le> x then mid else lo) (if mid \<le> x then hi else mid)"
    unfolding axis_at_def step assms(3) d(2) unfolding d(1) by (simp add: d_def field_simps)
qed

lemma geo_inv_init: "geo_inv lat lon 0 geo_init"
  by (simp add: geo_inv_def geo_init_def axis_at_def axis_cell_0)

text \<open>One halving: the axis whose turn it is, and the digit.\<close>

definition geo_halve :: "rat \<Rightarrow> rat \<Rightarrow> geo_state \<Rightarrow> geo_state" where
  "geo_halve lat lon s = (if g_evenBit s then geo_halve_lon lon s else geo_halve_lat lat s)"

lemma geo_halve_axes:
  assumes "geo_inv lat lon k s"
  shows "axis_at (- 180) 360 (Suc (Suc k) div 2) lon (g_lonLo (geo_halve lat lon s)) (g_lonHi (geo_halve lat lon s))"
    and "axis_at (- 90) 180 (Suc k div 2) lat (g_latLo (geo_halve lat lon s)) (g_latHi (geo_halve lat lon s))"
    and "g_bits (geo_halve lat lon s) = 2 * g_bits s + nat (geo_digit lat lon k)"
proof -
  have lon: "axis_at (- 180) 360 (Suc k div 2) lon (g_lonLo s) (g_lonHi s)"
    and lat: "axis_at (- 90) 180 (k div 2) lat (g_latLo s) (g_latHi s)" and e: "g_evenBit s = even k"
    using assms by (simp_all add: geo_inv_def)
  have "axis_at (- 180) 360 (Suc (Suc k) div 2) lon (g_lonLo (geo_halve lat lon s)) (g_lonHi (geo_halve lat lon s))
    \<and> axis_at (- 90) 180 (Suc k div 2) lat (g_latLo (geo_halve lat lon s)) (g_latHi (geo_halve lat lon s))
    \<and> g_bits (geo_halve lat lon s) = 2 * g_bits s + nat (geo_digit lat lon k)"
  proof (cases "even k")
    case True
    then have "Suc k div 2 = k div 2" "Suc (Suc k) div 2 = Suc (k div 2)" by presburger+
    then show ?thesis
      using axis_halve [OF lon _ refl] lat e True
      by (auto simp: geo_halve_def geo_halve_lon_def Let_def geo_digit_def split: if_splits)
  next
    case False
    then have "Suc k div 2 = Suc (k div 2)" "Suc (Suc k) div 2 = Suc k div 2" by presburger+
    then show ?thesis
      using axis_halve [OF lat _ refl] lon e False
      by (auto simp: geo_halve_def geo_halve_lat_def Let_def geo_digit_def split: if_splits)
  qed
  then show "axis_at (- 180) 360 (Suc (Suc k) div 2) lon (g_lonLo (geo_halve lat lon s)) (g_lonHi (geo_halve lat lon s))"
    and "axis_at (- 90) 180 (Suc k div 2) lat (g_latLo (geo_halve lat lon s)) (g_latHi (geo_halve lat lon s))"
    and "g_bits (geo_halve lat lon s) = 2 * g_bits s + nat (geo_digit lat lon k)" by simp_all
qed

lemma geo_halve_fields:
  "g_evenBit (geo_halve lat lon s) = g_evenBit s" "g_bit (geo_halve lat lon s) = g_bit s"
  "g_geohash (geo_halve lat lon s) = g_geohash s"
  by (simp_all add: geo_halve_def geo_halve_lon_def geo_halve_lat_def Let_def)

lemma digits_Suc: "digits_value lat lon i m * 2 + nat (geo_digit lat lon (i + m)) = digits_value lat lon i (Suc m)"
  by simp

lemma geo_inv_step:
  assumes "geo_inv lat lon k s"
  shows "geo_inv lat lon (Suc k) (geo_step lat lon s)"
proof -
  let ?h = "geo_halve lat lon s" and ?i = "k - k mod 5"
  have bits: "g_bits ?h = digits_value lat lon ?i (Suc (k mod 5))"
    using geo_halve_axes(3) [OF assms] assms by (simp add: geo_inv_def)
  have fields: "g_evenBit ?h = even k" "g_bit ?h = k mod 5"
    "g_geohash ?h = map (\<lambda>j. GEOHASH_ALPHABET ! digits_value lat lon (5 * j) 5) [0..<k div 5]"
    using assms by (simp_all add: geo_halve_fields geo_inv_def)
  have step: "geo_step lat lon s = geo_emit ?h" by (simp add: geo_step_def geo_halve_def)
  show ?thesis
  proof (cases "k mod 5 = 4")
    case True
    then have "Suc k mod 5 = 0" "Suc k div 5 = Suc (k div 5)" "?i = 5 * (k div 5)" by presburger+
    moreover have "digits_value lat lon ?i (Suc (k mod 5)) = digits_value lat lon ?i 5" using True by simp
    ultimately show ?thesis
      using geo_halve_axes(1,2) [OF assms] bits fields True
      by (simp add: geo_inv_def step geo_emit_def Let_def del: digits_value.simps(2))
  next
    case False
    then have "Suc k mod 5 = Suc (k mod 5)" "Suc k div 5 = k div 5" "Suc k - Suc (k mod 5) = ?i" "Suc (k mod 5) \<noteq> 5"
      by presburger+
    then show ?thesis
      using geo_halve_axes(1,2) [OF assms] bits fields
      by (simp add: geo_inv_def step geo_emit_def Let_def del: digits_value.simps(2))
  qed
qed

text \<open>The loop ends, after five steps per character.\<close>

lemma geo_loop:
  "\<exists>s. while_option (\<lambda>s. length (g_geohash s) < p) (geo_step lat lon) geo_init = Some s \<and> geo_inv lat lon (5 * p) s"
proof -
  define I where "I = (\<lambda>s. \<exists>k\<le>5 * p. geo_inv lat lon k s)"
  have len: "length (g_geohash s) = k div 5" if "geo_inv lat lon k s" for k s
    using that by (simp add: geo_inv_def)
  have step: "I (geo_step lat lon s)" if i: "I s" and b: "length (g_geohash s) < p" for s
  proof -
    from i obtain k where "geo_inv lat lon k s" "k \<le> 5 * p" by (auto simp: I_def)
    moreover from this have "k div 5 < p" using b len by simp
    ultimately show ?thesis using geo_inv_step [of lat lon k s] by (auto simp: I_def intro!: exI [of _ "Suc k"])
  qed
  define f where "f = (\<lambda>s :: geo_state. 5 * p - (5 * length (g_geohash s) + g_bit s))"
  have f: "f s = 5 * p - k" if "geo_inv lat lon k s" for k s
    using that len [OF that] by (simp add: f_def geo_inv_def)
  have dec: "f (geo_step lat lon s) < f s" if i: "I s" and b: "length (g_geohash s) < p" for s
  proof -
    from i obtain k where k: "geo_inv lat lon k s" "k \<le> 5 * p" by (auto simp: I_def)
    then have "k div 5 < p" using b len by simp
    then show ?thesis using f [OF k(1)] f [OF geo_inv_step [OF k(1)]] by simp
  qed
  have "I geo_init" using geo_inv_init by (auto simp: I_def)
  then obtain s where s: "while_option (\<lambda>s. length (g_geohash s) < p) (geo_step lat lon) geo_init = Some s"
    using measure_while_option_Some [of I "\<lambda>s. length (g_geohash s) < p" "geo_step lat lon" f geo_init] step dec by blast
  have "I s" by (rule while_option_rule [OF _ s, of I]) (use step \<open>I geo_init\<close> in blast)+
  moreover have "\<not> length (g_geohash s) < p" by (rule while_option_stop [OF s])
  ultimately obtain k where "geo_inv lat lon k s" "k \<le> 5 * p" "p \<le> k div 5" using len by (auto simp: I_def)
  moreover from this have "k = 5 * p" by linarith
  ultimately show ?thesis using s by blast
qed

lemma encode_digits:
  "encodeGeohash lat lon p = Some (map (\<lambda>j. GEOHASH_ALPHABET ! digits_value lat lon (5 * j) 5) [0..<p])"
  using geo_loop [of p lat lon] by (auto simp: encodeGeohash_def geo_inv_def)

section \<open>Same geohash, same cell\<close>

lemma geo_digit_bit: "geo_digit lat lon i = 0 \<or> geo_digit lat lon i = 1"
  by (auto simp: geo_digit_def)

lemma digits_value_less: "digits_value lat lon i m < 2 ^ m"
proof (induction m)
  case (Suc m)
  then show ?case using geo_digit_bit [of lat lon "i + m"] by auto
qed simp

lemma digits_value_eq:
  "digits_value lat lon i m = digits_value lat' lon' i m \<longleftrightarrow>
     (\<forall>j<m. geo_digit lat lon (i + j) = geo_digit lat' lon' (i + j))"
proof (induction m)
  case (Suc m)
  have "2 * a + nat x = 2 * b + nat y \<longleftrightarrow> a = b \<and> x = y" if "x = 0 \<or> x = 1" "y = 0 \<or> y = 1" for a b x y
    using that by auto presburger+
  from this [OF geo_digit_bit geo_digit_bit] show ?case by (auto simp: Suc less_Suc_eq)
qed simp

lemma axis_cell_digits:
  assumes "0 < width"
  shows "axis_cell lo width n x = axis_cell lo width n y \<longleftrightarrow>
    (\<forall>m<n. axis_cell lo width (Suc m) x mod 2 = axis_cell lo width (Suc m) y mod 2)"
proof (induction n)
  case (Suc n)
  have "axis_cell lo width (Suc n) x = axis_cell lo width (Suc n) y \<longleftrightarrow>
      axis_cell lo width n x = axis_cell lo width n y
      \<and> axis_cell lo width (Suc n) x mod 2 = axis_cell lo width (Suc n) y mod 2"
    unfolding axis_cell_Suc [OF assms] by auto presburger+
  then show ?case by (auto simp: Suc less_Suc_eq)
qed (simp add: axis_cell_0)

lemma alphabet_inj: "a < 32 \<Longrightarrow> b < 32 \<Longrightarrow> GEOHASH_ALPHABET ! a = GEOHASH_ALPHABET ! b \<longleftrightarrow> a = b"
  by (rule nth_eq_iff_index_eq) (simp_all add: GEOHASH_ALPHABET_def)

lemma geo_digits_cells:
  "(\<forall>j<4. \<forall>l<5. geo_digit lat lon (5 * j + l) = geo_digit lat' lon' (5 * j + l)) \<longleftrightarrow>
     lon_cell 10 lon = lon_cell 10 lon' \<and> lat_cell 10 lat = lat_cell 10 lat'"
proof -
  have "(\<forall>j<4. \<forall>l<5. geo_digit lat lon (5 * j + l) = geo_digit lat' lon' (5 * j + l)) \<longleftrightarrow>
      (\<forall>i<20. geo_digit lat lon i = geo_digit lat' lon' i)" (is "?l = ?r")
  proof
    assume l: ?l
    show ?r
    proof (intro allI impI)
      fix i :: nat assume "i < 20"
      then have "i div 5 < 4" "i mod 5 < 5" by simp_all
      with l have "geo_digit lat lon (5 * (i div 5) + i mod 5) = geo_digit lat' lon' (5 * (i div 5) + i mod 5)" by blast
      then show "geo_digit lat lon i = geo_digit lat' lon' i" by simp
    qed
  qed simp
  also have "?r \<longleftrightarrow> (\<forall>m<10. geo_digit lat lon (2 * m) = geo_digit lat' lon' (2 * m)
      \<and> geo_digit lat lon (2 * m + 1) = geo_digit lat' lon' (2 * m + 1))" (is "?r \<longleftrightarrow> ?s")
  proof
    assume s: ?s
    show ?r
    proof (intro allI impI)
      fix i :: nat assume "i < 20"
      then have "i div 2 < 10" by simp
      with s show "geo_digit lat lon i = geo_digit lat' lon' i"
        by (cases "even i") (metis dvd_mult_div_cancel, metis odd_two_times_div_two_succ)
    qed
  qed simp
  also have "?s \<longleftrightarrow> lon_cell 10 lon = lon_cell 10 lon' \<and> lat_cell 10 lat = lat_cell 10 lat'"
    by (auto simp: axis_cell_digits geo_digit_def)
  finally show ?thesis .
qed

text \<open>The cells of the grid, for the lemmas on neighbours.\<close>

lemma geohash_grid:
  "(\<exists>h. encodeGeohash lat lon GEOHASH_LENGTH = Some h \<and> length h = 4 \<and> set h \<subseteq> set GEOHASH_ALPHABET)
   \<and> (encodeGeohash lat lon GEOHASH_LENGTH = encodeGeohash lat' lon' GEOHASH_LENGTH \<longleftrightarrow>
        lon_cell 10 lon = lon_cell 10 lon' \<and> lat_cell 10 lat = lat_cell 10 lat')"
proof -
  have less: "digits_value a b i 5 < 32" for a b i using digits_value_less [of a b i 5] by simp
  have "length GEOHASH_ALPHABET = 32" by (simp add: GEOHASH_ALPHABET_def)
  then have "GEOHASH_ALPHABET ! digits_value a b i 5 \<in> set GEOHASH_ALPHABET" for a b i
    using less [of a b i] by (metis nth_mem)
  moreover have "encodeGeohash lat lon GEOHASH_LENGTH = encodeGeohash lat' lon' GEOHASH_LENGTH \<longleftrightarrow>
      (\<forall>j<4. digits_value lat lon (5 * j) 5 = digits_value lat' lon' (5 * j) 5)"
    by (auto simp: encode_digits GEOHASH_LENGTH_def alphabet_inj [OF less less])
  ultimately show ?thesis
    by (auto simp: digits_value_eq geo_digits_cells encode_digits GEOHASH_LENGTH_def)
qed

text \<open>C28: Geohashes are cells: the encoding always returns, four characters of the alphabet, and two positions
  get the same geohash exactly when they are in the same cell of the grid of 1024 by 1024 cells
  of equal size (360/1024 degrees of longitude, 180/1024 of latitude) over the whole globe,
  positions beyond the poles or the antimeridian counting to the cells at the edge.\<close>

theorem geohash_cells:
  "(\<exists>h. encodeGeohash lat lon GEOHASH_LENGTH = Some h \<and> length h = 4 \<and> set h \<subseteq> set GEOHASH_ALPHABET)
   \<and> (encodeGeohash lat lon GEOHASH_LENGTH = encodeGeohash lat' lon' GEOHASH_LENGTH \<longleftrightarrow>
        lon_cell 10 lon = lon_cell 10 lon' \<and> lat_cell 10 lat = lat_cell 10 lat')"
  by (rule geohash_grid)

section \<open>The nine channels\<close>

definition hash_text :: "(bytes \<Rightarrow> bytes) \<Rightarrow> int \<Rightarrow> string \<Rightarrow> bytes" where
  "hash_text blake3 date g = take CHANNEL_ID_HASH_BYTE_COUNT (blake3 (utf8 (g @ iso_day date)))"

definition geohash_of :: "rat \<Rightarrow> rat \<Rightarrow> string" where
  "geohash_of lat lon = the (encodeGeohash lat lon GEOHASH_LENGTH)"

lemma encode_total: "encodeGeohash lat lon GEOHASH_LENGTH = Some (geohash_of lat lon)"
  by (simp add: geohash_of_def encode_digits)

lemma channel_hex: "channelIdHash blake3 lat lon date = Some \<lparr>ci_hash = hash_text blake3 date (geohash_of lat lon),
    ci_hex = to_hex (hash_text blake3 date (geohash_of lat lon)), ci_geohash = geohash_of lat lon, ci_dayUtc = iso_day date\<rparr>"
  by (simp add: channelIdHash_def encode_total hash_text_def Let_def)

lemma set_set_add [simp]: "set (set_add x xs) = insert x (set xs)"
  by (auto simp: set_add_def)














text \<open>Note: What a request for the position is answered with: a channel exactly with the reason granted, the
  channel of that position; unavailable exactly where there is no geolocation at all. A position
  the device could not determine (error code 2) is reported as a timeout, or as denied.\<close>

theorem position_reasons:
  "(snd (currentChannelId blake3 g date) = ChannelGranted \<longleftrightarrow>
      (\<exists>lat lon. g = Position lat lon \<and> fst (currentChannelId blake3 g date)
         = Some (to_hex (hash_text blake3 date (geohash_of lat lon)))))
   \<and> (snd (currentChannelId blake3 g date) = ChannelUnavailable \<longleftrightarrow> g = NoGeolocation)
   \<and> (snd (currentChannelId blake3 g date) \<noteq> ChannelGranted \<longleftrightarrow> fst (currentChannelId blake3 g date) = None)
   \<and> currentChannelId blake3 (PositionError 2 NoPermissionsApi) date = (None, ChannelTimeout)"
  by (cases g) (auto simp: currentChannelId_def channel_hex is_denied_def)

definition region_ok :: "string \<Rightarrow> bool" where
  "region_ok r = (case (getRegionFallback r, getRegionDisplayName r) of
      (RegionOwn (lat, lon), RegionOwn n) \<Rightarrow> - 90 \<le> lat \<and> lat \<le> 90 \<and> - 180 \<le> lon \<and> lon \<le> 180 \<and> n \<noteq> map of_char r
    | _ \<Rightarrow> False)"

definition region_cell :: "string \<Rightarrow> (int \<times> int) option" where
  "region_cell r = (case getRegionFallback r of
      RegionOwn (lat, lon) \<Rightarrow> Some (lat_cell 10 lat, lon_cell 10 lon) | _ \<Rightarrow> None)"

lemma mset_text_insert: "mset (text_insert x xs) = add_mset x (mset xs)"
  by (induction xs) simp_all

lemma mset_regions: "mset availableRegions = mset (map fst REGION_FALLBACKS)"
proof -
  have "mset (foldr text_insert xs []) = mset xs" for xs by (induction xs) (simp_all add: mset_text_insert)
  then show ?thesis by (simp add: availableRegions_def)
qed

lemma sorted_regions: "sorted_wrt text_le availableRegions"
  by code_simp

lemma regions_on_globe:
  "list_all (\<lambda>(k, lat, lon). - 90 \<le> lat \<and> lat \<le> 90 \<and> - 180 \<le> lon \<and> lon \<le> 180) REGION_FALLBACKS"
  by (simp add: REGION_FALLBACKS_def)

lemma region_keys: "distinct (map fst REGION_FALLBACKS)" "map fst REGION_DISPLAY_NAMES = map fst REGION_FALLBACKS"
  "length REGION_FALLBACKS = 40"
  by (simp_all add: REGION_FALLBACKS_def REGION_DISPLAY_NAMES_def)

lemma region_names: "list_all (\<lambda>(k, n). n \<noteq> map of_char k) REGION_DISPLAY_NAMES"
  by (simp add: REGION_DISPLAY_NAMES_def)

lemma floor_numerals: "\<lfloor>numeral a / numeral b :: rat\<rfloor> = numeral a div numeral b"
  using floor_divide_of_int_eq [of "numeral a" "numeral b", where 'a = rat] by simp

lemma region_cells: "distinct (map (\<lambda>(k, lat, lon). (lat_cell 10 lat, lon_cell 10 lon)) REGION_FALLBACKS)"
  by (simp add: REGION_FALLBACKS_def axis_cell_def floor_numerals)

lemma region_entry: "(k, c) \<in> set REGION_FALLBACKS \<Longrightarrow> getRegionFallback k = RegionOwn c"
  using region_keys(1) by (simp add: getRegionFallback_def)

text \<open>Note: The region tables agree: the list offered is sorted, without duplicates and has forty regions, each
  with a centre on the globe and a display name of its own, and no two in the same cell; but a
  key such as constructor, not in the tables, does not give null.\<close>

theorem regions_agree:
  "sorted_wrt text_le availableRegions \<and> distinct availableRegions \<and> length availableRegions = 40
   \<and> list_all region_ok availableRegions \<and> distinct (map region_cell availableRegions)
   \<and> getRegionFallback ''nowhere'' = RegionNull \<and> getRegionFallback ''constructor'' = RegionInherited ''constructor''"
proof -
  have regions: "set availableRegions = fst ` set REGION_FALLBACKS" using mset_regions by (metis list.set_map set_mset_mset)
  have "region_ok k" if c: "(k, lat, lon) \<in> set REGION_FALLBACKS" for k lat lon
  proof -
    have "k \<in> fst ` set REGION_DISPLAY_NAMES" using c region_keys(2) by (metis fst_conv image_eqI list.set_map)
    then obtain n where "map_of REGION_DISPLAY_NAMES k = Some n" by (metis domIff dom_map_of_conv_image_fst option.exhaust)
    then show ?thesis
      using region_entry [OF c] regions_on_globe region_names c map_of_SomeD [of REGION_DISPLAY_NAMES k n]
      by (fastforce simp: region_ok_def getRegionDisplayName_def list_all_iff)
  qed
  then have "list_all region_ok availableRegions" by (auto simp: list_all_iff regions)
  moreover have "map region_cell (map fst REGION_FALLBACKS)
      = map (\<lambda>(k, lat, lon). Some (lat_cell 10 lat, lon_cell 10 lon)) REGION_FALLBACKS"
    using region_entry by (auto simp: region_cell_def)
  then have "distinct (map region_cell (map fst REGION_FALLBACKS))"
    using region_cells by (auto simp: distinct_map inj_on_def split_def)
  then have "distinct (map region_cell availableRegions)"
    using mset_regions by (metis mset_eq_imp_distinct_iff mset_map)
  moreover have "length availableRegions = 40" "distinct availableRegions"
    using mset_regions region_keys by (metis size_mset length_map) (metis mset_regions mset_eq_imp_distinct_iff region_keys(1))
  ultimately show ?thesis
    using sorted_regions by (simp add: getRegionFallback_def REGION_FALLBACKS_def object_prototype_def)
qed

end
