(* ===== verification/Forgetting.thy ===== *)
theory Forgetting
  imports Sealed_Key
begin

text \<open>
  What \<open>clearDeviceIdentity\<close> removes when each of its storage operations may be refused or may abort at
  its commit: the exact rows, databases and module variables, and the error it rejects with.
\<close>

text \<open>A storage operation that fails.\<close>

definition refused :: "reply \<Rightarrow> bool" where
  "refused f = (case f of Refused e \<Rightarrow> True | _ \<Rightarrow> False)"

text \<open>The fates of the next \<open>n\<close> storage operations; those not fixed are carried out.\<close>

primrec fates :: "nat \<Rightarrow> reply list \<Rightarrow> reply list" where
  "fates 0 rs = []"
| "fates (Suc n) rs = (case rs of [] \<Rightarrow> Granted | f # _ \<Rightarrow> f) # fates n (tl rs)"

text \<open>The rows deleted one by one, in this order.\<close>

definition forgotten_names :: "string list" where
  "forgotten_names = [DEVICE_KEY_NAME, DEVICE_PRIV_RAW_NAME, WRAPPING_KEY_NAME, PROFILE_SEED_NAME,
     X25519_KEYPAIR_NAME, SEALED_X25519_NAME]"

lemma length_fates [simp]: "length (fates n rs) = n"
  by (induction n arbitrary: rs) simp_all

lemma fates_add: "fates (m + n) rs = fates m rs @ fates n (drop m rs)"
  by (induction m arbitrary: rs) (simp_all add: drop_Suc)

primrec delete_all :: "string list \<Rightarrow> unit io" where
  "delete_all [] = ret ()"
| "delete_all (k # ks) = andthen (db_delete IdentityDb k) (delete_all ks)"

lemma andthen_assoc: "andthen (andthen m n) p = andthen m (andthen n p)"
  by (rule ext) (simp add: andthen_def bindio_def split: prod.split sum.split)

lemma andthen_step:
  "m w = (w1, r1) \<Longrightarrow> andthen m n w = (case r1 of Inl e \<Rightarrow> (w1, Inl e) | Inr _ \<Rightarrow> n w1)"
  by (simp add: andthen_def bindio_def split: sum.split)

lemma andthen_ret: "andthen (ret x) m = m"
  by (rule ext) (simp add: andthen_def bindio_def ret_def)

lemma forget_storage_rows: "forget_storage =
    andthen (delete_all forgotten_names) (andthen clearRoomHostSeed (andthen (db_clear KekDb) (track ''client.identity_wiped'' [])))"
  by (simp add: forget_storage_def forgotten_names_def andthen_assoc andthen_ret)

lemma write_fate: "db_write s f w = (let w1 = w\<lparr>w_replies := tl (w_replies w)\<rparr> in
    case (case w_replies w of [] \<Rightarrow> Granted | f # _ \<Rightarrow> f) of
      Granted \<Rightarrow> (set_db s (f (w_db w s)) w1, Inr ()) | AbortsAtCommit \<Rightarrow> (w1, Inr ()) | Refused e \<Rightarrow> (w1, Inl e))"
  by (cases "w_replies w")
     (simp_all add: db_write_def next_reply_def io_basic set_db_def split: reply.split)

text \<open>Those issued before the first refusal, by their fate.\<close>

definition carried :: "nat \<Rightarrow> reply list \<Rightarrow> reply list" where
  "carried n rs = takeWhile (\<lambda>f. \<not> refused f) (fates n rs)"

lemma carried_all: "length (carried n rs) = n \<Longrightarrow> carried n rs = fates n rs \<and> \<not> (\<exists>f \<in> set (fates n rs). refused f)"
  unfolding carried_def by (metis length_fates takeWhile_eq_all_conv takeWhile_eq_take take_all_iff order_refl)

lemma carried_add: "carried (m + n) rs =
    (if length (carried m rs) = m then fates m rs @ carried n (drop m rs) else carried m rs)"
proof (cases "length (carried m rs) = m")
  case True
  then show ?thesis using carried_all [OF True]
    by (auto simp: carried_def fates_add takeWhile_append2)
next
  case False
  then have "\<exists>f \<in> set (fates m rs). refused f"
    unfolding carried_def by (metis length_fates takeWhile_eq_all_conv)
  then show ?thesis using False by (auto simp: carried_def fates_add takeWhile_append1)
qed

text \<open>The row deletions: those before the first refusal are issued, the granted ones take effect.\<close>

lemma delete_all_exact:
  assumes "delete_all ks w = (w', r)"
  shows "w' = set_db IdentityDb (\<lambda>k. if (k, Granted) \<in> set (zip ks (carried (length ks) (w_replies w))) then None
        else w_db w IdentityDb k) (w\<lparr>w_replies := w_replies w'\<rparr>)
    \<and> (if length (carried (length ks) (w_replies w)) = length ks
       then r = Inr () \<and> w_replies w' = drop (length ks) (w_replies w)
       else \<exists>e. fates (length ks) (w_replies w) ! length (carried (length ks) (w_replies w)) = Refused e \<and> r = Inl e)"
  using assms
proof (induction ks arbitrary: w)
  case Nil
  then show ?case by (auto simp: ret_def set_db_def carried_def)
next
  case (Cons k ks)
  let ?w1 = "w\<lparr>w_replies := tl (w_replies w)\<rparr>"
  show ?case
  proof (cases "case w_replies w of [] \<Rightarrow> Granted | f # _ \<Rightarrow> f")
    case Granted
    let ?w2 = "set_db IdentityDb ((w_db w IdentityDb)(k := None)) ?w1"
    have "delete_all ks ?w2 = (w', r)"
      using Cons.prems Granted by (simp add: andthen_def bindio_def db_delete_def write_fate)
    moreover have "(\<lambda>x. if (x, Granted) \<in> A then None else ((w_db w IdentityDb)(k := None)) x)
        = (\<lambda>x. if (x, Granted) \<in> insert (k, Granted) A then None else w_db w IdentityDb x)" for A
      by (rule ext) auto
    ultimately show ?thesis using Cons.IH [of ?w2] Granted
      by (simp add: refused_def carried_def drop_Suc set_db_def cong: if_cong)
  next
    case AbortsAtCommit
    have "delete_all ks ?w1 = (w', r)"
      using Cons.prems AbortsAtCommit by (simp add: andthen_def bindio_def db_delete_def write_fate)
    then show ?thesis using Cons.IH [of ?w1] AbortsAtCommit
      by (simp add: refused_def carried_def drop_Suc set_db_def cong: if_cong)
  next
    case (Refused e)
    then have "w' = ?w1" "r = Inl e"
      using Cons.prems by (simp_all add: andthen_def bindio_def db_delete_def write_fate)
    then show ?thesis using Refused
      by (simp add: refused_def carried_def set_db_def)
  qed
qed


text \<open>The two databases that are cleared after the rows.\<close>

lemma clear_rest:
  assumes "andthen clearRoomHostSeed (andthen (db_clear KekDb) (track ''client.identity_wiped'' [])) w = (w', r)"
  shows "w_db w' IdentityDb = w_db w IdentityDb \<and> w_identity w' = w_identity w \<and> w_kek w' = w_kek w
    \<and> w_profile w' = w_profile w \<and> w_x25519 w' = w_x25519 w \<and> w_sealed w' = w_sealed w
    \<and> w_hostKeys w' = w_hostKeys w \<and> w_epoch w' = w_epoch w \<and> w_roomSeed w' = None \<and> w_roomKek w' = None
    \<and> w_db w' RoomDb = (if 0 < length (carried 2 (w_replies w)) \<and> carried 2 (w_replies w) ! 0 = Granted
         then (\<lambda>_. None) else w_db w RoomDb)
    \<and> w_db w' KekDb = (if 1 < length (carried 2 (w_replies w)) \<and> carried 2 (w_replies w) ! 1 = Granted
         then (\<lambda>_. None) else w_db w KekDb)
    \<and> (if length (carried 2 (w_replies w)) = 2 then r = Inr ()
       else \<exists>e. fates 2 (w_replies w) ! length (carried 2 (w_replies w)) = Refused e \<and> r = Inl e)"
  using assms
  by (cases "w_replies w"; cases "tl (w_replies w)")
     (auto simp: clearRoomHostSeed_def db_clear_def write_fate andthen_def bindio_def update_def track_def carried_def
       refused_def set_db_def numeral_2_eq_2 split: reply.splits)

text \<open>C37: What forgetting the device removes, whatever the storage does. Of the eight storage operations those
  before the first refusal are issued; the call rejects with that refusal, or resolves. A row
  of the identity is gone exactly if its deletion was issued and committed, likewise the databases of
  the room-host seed and of the key-encryption key; no row is written. Whatever happens, the
  variables of device-identity.ts that cache the identity, the keys, the profile seed and the host
  keys are empty and the epoch has moved, so that the memo of x25519-identity.ts, which keeps its
  entries, never serves one of them again; the cached room-host seed and its key are dropped only if
  the six row deletions got through. On a storage that works the next page load finds a new
  device. (The mesh adapter in transport.ts is not reached: adapter_outlives_identity.)\<close>

theorem forgetting_exact:
  assumes "clearDeviceIdentity w = (w', r)" and "\<forall>obj e x. memo obj = Some (e, x) \<longrightarrow> e \<le> w_epoch w"
  shows "let ops = carried 8 (w_replies w) in
    w_identity w' = None \<and> w_kek w' = None \<and> w_profile w' = None \<and> w_x25519 w' = None \<and> w_sealed w' = None
    \<and> w_hostKeys w' = [] \<and> w_epoch w' = Suc (w_epoch w)
    \<and> (w_roomSeed w', w_roomKek w') = (if 6 \<le> length ops then (None, None) else (w_roomSeed w, w_roomKek w))
    \<and> (\<forall>k. w_db w' IdentityDb k = (if (k, Granted) \<in> set (zip forgotten_names ops) then None else w_db w IdentityDb k))
    \<and> w_db w' RoomDb = (if 6 < length ops \<and> ops ! 6 = Granted then (\<lambda>_. None) else w_db w RoomDb)
    \<and> w_db w' KekDb = (if 7 < length ops \<and> ops ! 7 = Granted then (\<lambda>_. None) else w_db w KekDb)
    \<and> (if length ops = 8 then r = Inr () else \<exists>e. fates 8 (w_replies w) ! length ops = Refused e \<and> r = Inl e)
    \<and> memo_hit memo obj (w_epoch w') = None
    \<and> (w_replies w = [] \<longrightarrow> r = Inr () \<and> first_run (reload w'))"
proof -
  let ?w0 = "fst (forget_memory w)" and ?rs = "w_replies w"
  have m: "forget_memory w = (?w0, Inr ())" "w_replies ?w0 = ?rs" "w_db ?w0 = w_db w" "w_epoch ?w0 = Suc (w_epoch w)"
    "w_identity ?w0 = None" "w_kek ?w0 = None" "w_profile ?w0 = None" "w_x25519 ?w0 = None" "w_sealed ?w0 = None"
    "w_hostKeys ?w0 = []" "w_roomSeed ?w0 = w_roomSeed w" "w_roomKek ?w0 = w_roomKek w"
    by (simp_all add: forget_memory_def update_def)
  obtain w1 r1 where d: "delete_all forgotten_names ?w0 = (w1, r1)" by fastforce
  have n: "length forgotten_names = 6" by (simp add: forgotten_names_def)
  note ex = delete_all_exact [OF d, unfolded n m(2)]
  have memo: "memo_hit memo obj (Suc (w_epoch w)) = None"
    using assms(2) by (fastforce simp: memo_hit_def split: option.split)
  have eight: "carried 8 ?rs = (if length (carried 6 ?rs) = 6 then fates 6 ?rs @ carried 2 (drop 6 ?rs) else carried 6 ?rs)"
    "fates 8 ?rs = fates 6 ?rs @ fates 2 (drop 6 ?rs)"
    using carried_add [of 6 2 ?rs] fates_add [of 6 2 ?rs] by simp_all
  obtain rs' where w1: "w1 = set_db IdentityDb (\<lambda>k. if (k, Granted) \<in> set (zip forgotten_names (carried 6 ?rs))
      then None else w_db ?w0 IdentityDb k) (?w0\<lparr>w_replies := rs'\<rparr>)"
    using ex by blast
  have fields: "w_identity w1 = None" "w_kek w1 = None" "w_profile w1 = None" "w_x25519 w1 = None" "w_sealed w1 = None"
    "w_hostKeys w1 = []" "w_epoch w1 = Suc (w_epoch w)" "w_roomSeed w1 = w_roomSeed w" "w_roomKek w1 = w_roomKek w"
    "w_db w1 IdentityDb = (\<lambda>k. if (k, Granted) \<in> set (zip forgotten_names (carried 6 ?rs)) then None else w_db w IdentityDb k)"
    "w_db w1 RoomDb = w_db w RoomDb" "w_db w1 KekDb = w_db w KekDb"
    by (simp_all add: w1 set_db_def m(3-12) cong: if_cong)
  have c: "clearDeviceIdentity w = (case r1 of Inl e \<Rightarrow> (w1, Inl e) | Inr _ \<Rightarrow>
      andthen clearRoomHostSeed (andthen (db_clear KekDb) (track ''client.identity_wiped'' [])) w1)"
    using andthen_step [where m = forget_memory and n = forget_storage, OF m(1)]
      andthen_step [where m = "delete_all forgotten_names", OF d]
    by (simp add: clearDeviceIdentity_def forget_storage_rows)
  have quiet: "?rs = [] \<longrightarrow> r = Inr () \<and> first_run (reload w')"
    using quiet_forget [of w] assms(1) by (auto simp: first_run_def names_simps)
  show ?thesis
  proof (cases "length (carried 6 ?rs) = 6")
    case True
    then have r1: "r1 = Inr ()" "w_replies w1 = drop 6 ?rs" using ex by simp_all
    then have "andthen clearRoomHostSeed (andthen (db_clear KekDb) (track ''client.identity_wiped'' [])) w1 = (w', r)"
      using c assms(1) by simp
    note rest = clear_rest [OF this, unfolded r1(2)]
    have ops: "carried 8 ?rs = fates 6 ?rs @ carried 2 (drop 6 ?rs)" using True eight(1) by simp
    have "zip forgotten_names (carried 8 ?rs) = zip forgotten_names (carried 6 ?rs)"
      using carried_all [OF True] by (simp add: ops zip_append2 n)
    moreover have "length (carried 8 ?rs) = 6 + length (carried 2 (drop 6 ?rs))" by (simp add: ops)
    ultimately show ?thesis
      using rest fields memo quiet by (auto simp: Let_def eight(2) ops nth_append)
  next
    case False
    then have ops: "carried 8 ?rs = carried 6 ?rs" using eight(1) by simp
    obtain e where e: "fates 6 ?rs ! length (carried 6 ?rs) = Refused e" "r1 = Inl e" using ex False by auto
    have l: "length (carried 6 ?rs) < 6"
      using False length_takeWhile_le [of "\<lambda>f. \<not> refused f" "fates 6 ?rs"] by (simp add: carried_def)
    have "w' = w1" "r = Inl e" using c e(2) assms(1) by simp_all
    then show ?thesis using fields memo quiet e(1) l by (auto simp: Let_def ops eight(2) nth_append)
  qed
qed

theorem forgetting_exact_witness:
  "w_db (fst (clearDeviceIdentity sample_device)) KekDb KEK_KEY_NAME = None
   \<and> w_db (fst (clearDeviceIdentity sample_device)) IdentityDb DEVICE_PRIV_RAW_NAME = None
   \<and> snd (clearDeviceIdentity (sample_device\<lparr>w_replies := [Granted, Refused (Thrown ''e'' [])]\<rparr>)) = Inl (Thrown ''e'' [])
   \<and> w_db (fst (clearDeviceIdentity (sample_device\<lparr>w_replies := [Granted, Refused (Thrown ''e'' [])]\<rparr>))) IdentityDb
        DEVICE_PRIV_RAW_NAME = w_db sample_device IdentityDb DEVICE_PRIV_RAW_NAME"
proof -
  let ?w = "sample_device\<lparr>w_replies := [Granted, Refused (Thrown ''e'' [])]\<rparr>"
  have m: "\<forall>obj e x. (Map.empty :: x25519_memo) obj = Some (e, x) \<longrightarrow> e \<le> w_epoch v" for v by simp
  have c: "carried 8 [] = [Granted, Granted, Granted, Granted, Granted, Granted, Granted, Granted]"
    "carried 8 [Granted, Refused (Thrown ''e'' [])] = [Granted]"
    "fates 8 [Granted, Refused (Thrown ''e'' [])] ! Suc 0 = Refused (Thrown ''e'' [])"
    by (simp_all add: carried_def refused_def eval_nat_numeral)
  show ?thesis
    using forgetting_exact [OF prod.collapse [symmetric] m, of sample_device]
      forgetting_exact [OF prod.collapse [symmetric] m, of ?w]
    by (simp add: Let_def c sample_device_stored(2) forgotten_names_def names_simps)
qed

end
