(* ===== verification/Kek_Guard.thy ===== *)
theory Kek_Guard
  imports Identity_Life
begin

text \<open>
  The key-encryption key stays in the runtime: the program logic of \<open>Identity_Inv\<close> applied to the paths of
  \<open>getOrCreateWrappingKey\<close> (found, adopted from the old place, minted), over any stored values and any
  storage failures.
\<close>

text \<open>A key that cannot be exported: a secret AES-KW key that is not extractable.\<close>

definition sealed_kek :: "crypto_key \<Rightarrow> bool" where
  "sealed_kek key \<longleftrightarrow> ck_type key = ''secret'' \<and> ck_alg key = ''AES-KW'' \<and> \<not> ck_extractable key"

text \<open>Of the databases \<open>db\<close>: what has been cached or stored as a key object since is one.\<close>

definition kek_guard :: "(store \<Rightarrow> string \<Rightarrow> js_value option) \<Rightarrow> world \<Rightarrow> bool" where
  "kek_guard db w \<longleftrightarrow> (\<forall>key. w_kek w = Some key \<longrightarrow> sealed_kek key)
     \<and> (\<forall>s k key. w_db w s k = Some (KeyObj key) \<longrightarrow> sealed_kek key \<or> db s k = Some (KeyObj key))"

abbreviation guards :: "(store \<Rightarrow> string \<Rightarrow> js_value option) \<Rightarrow> 'a io \<Rightarrow> ('a \<Rightarrow> bool) \<Rightarrow> bool" where
  "guards db \<equiv> keeps (kek_guard db)"

lemma guard_fields [simp]:
  "kek_guard db (w\<lparr>w_replies := a\<rparr>) = kek_guard db w" "kek_guard db (w\<lparr>w_draws := b\<rparr>) = kek_guard db w"
  "kek_guard db (w\<lparr>w_events := c\<rparr>) = kek_guard db w" "kek_guard db (w\<lparr>w_clone := d\<rparr>) = kek_guard db w"
  by (simp_all add: kek_guard_def)

lemma sealed_made: "sealed_kek (aes_kw_key False bs)"
  by (simp add: sealed_kek_def aes_kw_key_def)

lemma guards_reply: "guards db next_reply (\<lambda>_. True)"
  by (simp add: keeps_def next_reply_def split: list.split)

lemma guards_track: "guards db (track e l) (\<lambda>_. True)"
  by (simp add: keeps_def track_def update_def)

lemma guards_load: "guards db (db_load c s k) (\<lambda>_. True)"
  unfolding db_load_def
  by (rule keeps_bind [OF guards_reply])
     (auto split: reply.split intro!: keeps_bind [OF keeps_gets_any] simp: keeps_raise keeps_ret)

lemma guards_save:
  assumes "\<And>key. v = KeyObj key \<Longrightarrow> sealed_kek key"
  shows "guards db (db_save c s k v) (\<lambda>_. True)"
proof -
  have "guards db (db_write s (\<lambda>d. d(k \<mapsto> v))) (\<lambda>_. True)"
    unfolding db_write_def
    by (rule keeps_bind [OF guards_reply])
       (use assms in \<open>auto split: reply.split intro!: keeps_update simp: keeps_raise keeps_ret kek_guard_def set_db_def\<close>)
  then show ?thesis by (cases v) (simp_all add: db_save_def keeps_raise)
qed

lemma guards_generate: "guards db (generateAesKwKey b) (\<lambda>key. \<not> b \<longrightarrow> sealed_kek key)"
  by (auto simp: keeps_def generateAesKwKey_def draw_def io_basic sealed_made split: list.split)

lemma guards_import: "guards db (importAesKwRaw bs False) sealed_kek"
  by (simp add: keeps_def importAesKwRaw_def io_basic sealed_made)

lemma guards_handle:
  assumes "classifyKekEntry v = Some entry"
  shows "guards db (kek_handle entry) sealed_kek"
proof (cases entry)
  case (RawKek bs)
  then show ?thesis by (simp add: kek_handle_def guards_import)
next
  case (KeyKek key)
  then have "sealed_kek key" using assms by (cases v) (auto simp: classifyKekEntry_def sealed_kek_def split: if_splits)
  then show ?thesis using KeyKek by (simp add: kek_handle_def keeps_ret)
qed

lemma guards_set: "sealed_kek key \<Longrightarrow> guards db (set_kek key) sealed_kek"
  by (simp add: keeps_def set_kek_def io_basic kek_guard_def)

lemma guards_copy:
  assumes "classifyKekEntry v = Some entry"
  shows "guards db (copy_forward P b entry) (\<lambda>_. True)"
proof -
  have "sealed_kek key" if "entry = KeyKek key" for key
    using assms that by (cases v) (auto simp: classifyKekEntry_def sealed_kek_def split: if_splits)
  then show ?thesis unfolding copy_forward_def
    by (intro keeps_try keeps_kek_entry keeps_then keeps_if guards_save keeps_ret) auto
qed

lemma guards_probe: "guards db (probeStructuredClone P) (\<lambda>_. True)"
  unfolding probeStructuredClone_def
  by (intro keeps_bind [OF keeps_gets_any] keeps_option keeps_then keeps_ret keeps_update keeps_weaken [OF guards_generate]) simp_all

lemma guards_adopt: "guards db (adoptLegacyWrappingKey P b) (\<lambda>r. \<forall>key. r = Some key \<longrightarrow> sealed_kek key)"
  unfolding adoptLegacyWrappingKey_def
  by (intro keeps_bind_any keeps_try guards_load keeps_ret keeps_option keeps_then guards_track
      keeps_bind [OF guards_handle] guards_copy) simp_all

lemma guards_lookup: "guards db (kek_lookup P) (\<lambda>r. \<forall>key. r = Inr key \<longrightarrow> sealed_kek key)"
  unfolding kek_lookup_def
proof (rule keeps_bind [where R = "\<lambda>c. \<forall>key. c = Some key \<longrightarrow> sealed_kek key"])
  show "guards db (gets w_kek) (\<lambda>c. \<forall>key. c = Some key \<longrightarrow> sealed_kek key)"
    by (rule keeps_gets) (simp add: kek_guard_def)
qed (intro keeps_bind [OF guards_probe] keeps_bind [OF guards_load] keeps_bind [OF keeps_from_option] keeps_bind [OF guards_handle]
     keeps_bind [OF guards_adopt] keeps_bind [OF guards_set] keeps_option keeps_ret; fastforce)

lemma guards_export: "guards db (exportRaw key) (\<lambda>_. True)"
  unfolding exportRaw_def by (intro keeps_rules)

lemma guards_mint: "guards db (kek_mint P b) sealed_kek"
  unfolding kek_mint_def
  by (intro keeps_if keeps_bind [OF guards_generate] keeps_then guards_save guards_set
      keeps_bind [OF guards_export] keeps_bind [OF guards_import]) simp_all

lemma guards_kek: "guards db (getOrCreateWrappingKey P) sealed_kek"
  unfolding getOrCreateWrappingKey_def
  by (rule keeps_bind [OF guards_lookup]) (auto intro!: keeps_sum guards_mint keeps_ret)

text \<open>C34: No extractable key-encryption key, ever: whatever is stored (a key object of another algorithm, an
  extractable one, anything else), whatever the runtime can do and whatever the storage refuses or loses,
  the key getOrCreateWrappingKey returns and the one it leaves cached are secret AES-KW keys that
  are not extractable, and every key object it adds to a database is one too.\<close>

theorem wrapping_key_sealed:
  assumes "\<forall>key. w_kek w = Some key \<longrightarrow> sealed_kek key" and "getOrCreateWrappingKey P w = (w', r)"
  shows "(\<forall>key. r = Inr key \<longrightarrow> sealed_kek key) \<and> (\<forall>key. w_kek w' = Some key \<longrightarrow> sealed_kek key)
    \<and> (\<forall>s k key. w_db w' s k = Some (KeyObj key) \<longrightarrow> sealed_kek key \<or> w_db w s k = Some (KeyObj key))"
proof -
  have "kek_guard (w_db w) w" using assms(1) by (simp add: kek_guard_def)
  then have "kek_guard (w_db w) (fst (getOrCreateWrappingKey P w))
      \<and> (\<forall>key. snd (getOrCreateWrappingKey P w) = Inr key \<longrightarrow> sealed_kek key)"
    using guards_kek [of "w_db w" P] unfolding keeps_def by blast
  then show ?thesis unfolding assms(2) kek_guard_def by simp
qed

theorem wrapping_key_sealed_witness:
  "case getOrCreateWrappingKey sample_platform (sample_device\<lparr>w_db := (w_db sample_device)(KekDb :=
       [KEK_KEY_NAME \<mapsto> KeyObj (aes_kw_key True (replicate 32 9))])\<rparr>) of
     (w', r) \<Rightarrow> r = Inl (Thrown ''Error'' ''[device-identity] KEK entry is neither an AES-KW CryptoKey nor raw bytes'')
       \<and> map_option ck_extractable (w_kek w') \<noteq> Some True"
proof -
  let ?w = "sample_device\<lparr>w_db := (w_db sample_device)(KekDb := [KEK_KEY_NAME \<mapsto> KeyObj (aes_kw_key True (replicate 32 9))])\<rparr>"
  obtain w' r where c: "getOrCreateWrappingKey sample_platform ?w = (w', r)" by fastforce
  have "r = Inl (Thrown ''Error'' ''[device-identity] KEK entry is neither an AES-KW CryptoKey nor raw bytes'')"
    using c sample_device_stored(2,4,5)
    by (simp add: getOrCreateWrappingKey_def kek_lookup_def probeStructuredClone_def generateAesKwKey_def io_basic quiet_simps
        quiet_draw sample_platform_def classifyKekEntry_def aes_kw_key_def split: prod.splits)
  moreover have "\<forall>key. w_kek ?w = Some key \<longrightarrow> sealed_kek key" using sample_device_stored(4) by simp
  from wrapping_key_sealed [OF this c] have "map_option ck_extractable (w_kek w') \<noteq> Some True"
    by (auto simp: sealed_kek_def)
  ultimately show ?thesis using c by simp
qed

end
